(* ===== verification/Prelude.thy ===== *)
theory Prelude
  imports Main "HOL-Library.Word"
begin

text \<open>
  What every theory of the development shares: the reading of Rust's strings, slices and
  integers, the interface of a closed set of labels, and the interface of a stream that is
  unfolded from a state.

  A Rust \<open>String\<close>, \<open>Vec<u8>\<close> or \<open>OsString\<close> is its list of bytes, and a \<open>char\<close> of HOL is one
  byte, so \<open>length\<close> is Rust's \<open>len()\<close>. Where the source works on characters, the UTF-8
  encoding is written out. A \<open>usize\<close> that counts elements of a list is a \<open>nat\<close>; an integer
  whose width decides a result is a word.
\<close>

named_theorems rust_str \<open>equations of the string functions of Rust's standard library\<close>
named_theorems step_inv \<open>an operation keeps the invariant of its component\<close>

type_synonym u8 = "8 word"
type_synonym u16 = "16 word"
type_synonym u32 = "32 word"
type_synonym u64 = "64 word"

section \<open>Slices\<close>

definition get_at :: "'a list \<Rightarrow> nat \<Rightarrow> 'a option" where
  "get_at xs i = (if i < length xs then Some (xs ! i) else None)"

lemma get_at_simps [simp]:
  "get_at [] i = None"
  "get_at (x # xs) 0 = Some x"
  "get_at (x # xs) (Suc i) = get_at xs i"
  by (auto simp: get_at_def)

lemma get_at_Some [simp]: "get_at xs i = Some x \<longleftrightarrow> i < length xs \<and> xs ! i = x"
  by (auto simp: get_at_def)

lemma get_at_None [simp]: "get_at xs i = None \<longleftrightarrow> length xs \<le> i"
  by (auto simp: get_at_def)

lemma drop_get_at: "get_at xs i = Some x \<Longrightarrow> drop i xs = x # drop (Suc i) xs"
  by (metis Cons_nth_drop_Suc get_at_Some)

definition last_opt :: "'a list \<Rightarrow> 'a option" where
  "last_opt xs = (if xs = [] then None else Some (last xs))"

definition head_opt :: "'a list \<Rightarrow> 'a option" where
  "head_opt xs = (case xs of [] \<Rightarrow> None | x # _ \<Rightarrow> Some x)"

lemma last_opt_simps [simp]:
  "last_opt [] = None"
  "last_opt (xs @ [x]) = Some x"
  "xs \<noteq> [] \<Longrightarrow> last_opt xs = Some (last xs)"
  by (auto simp: last_opt_def)

lemma head_opt_simps [simp]:
  "head_opt [] = None"
  "head_opt (x # xs) = Some x"
  by (auto simp: head_opt_def)

lemma find_upt_Some:
  "find P [a..<b] = Some c \<Longrightarrow> a \<le> c \<and> c < b \<and> P c \<and> (\<forall>d. a \<le> d \<and> d < c \<longrightarrow> \<not> P d)"
proof -
  assume "find P [a..<b] = Some c"
  then obtain i where i: "i < length [a..<b]" "P ([a..<b] ! i)" "c = [a..<b] ! i"
    "\<forall>j<i. \<not> P ([a..<b] ! j)"
    by (auto simp: find_Some_iff)
  then have c: "c = a + i" "i < b - a" by auto
  have "\<not> P d" if "a \<le> d" "d < c" for d
    using i(4)[rule_format, of "d - a"] that c by auto
  with i c show ?thesis by auto
qed

lemma find_upt_None: "find P [a..<b] = None \<longleftrightarrow> (\<forall>c. a \<le> c \<and> c < b \<longrightarrow> \<not> P c)"
  by (auto simp: find_None_iff)

lemma find_rev_upt_Some:
  assumes "find P (rev [a..<b]) = Some c"
  shows "a \<le> c \<and> c < b \<and> P c \<and> (\<forall>d. c < d \<and> d < b \<longrightarrow> \<not> P d)"
proof -
  from assms obtain i where i: "i < b - a" "P (rev [a..<b] ! i)" "c = rev [a..<b] ! i"
    "\<forall>j<i. \<not> P (rev [a..<b] ! j)"
    by (auto simp: find_Some_iff)
  have nth: "rev [a..<b] ! j = b - Suc j" if "j < b - a" for j
    using that by (simp add: rev_nth)
  have c: "c = b - Suc i" using i nth by simp
  have "\<not> P d" if "c < d" "d < b" for d
  proof -
    have "b - Suc d < i" "b - Suc (b - Suc d) = d" using that c i(1) by auto
    with i(1,4) nth[of "b - Suc d"] show ?thesis by auto
  qed
  with i c nth show ?thesis by auto
qed

lemma find_rev_upt_None: "find P (rev [a..<b]) = None \<longleftrightarrow> (\<forall>c. a \<le> c \<and> c < b \<longrightarrow> \<not> P c)"
  by (auto simp: find_None_iff)

lemma successively_drop: "successively R xs \<Longrightarrow> successively R (drop n xs)"
  by (metis append_take_drop_id successively_append_iff)

section \<open>Strings\<close>

abbreviation nl :: char where "nl \<equiv> CHR 0x0A"
abbreviation cr :: char where "cr \<equiv> CHR 0x0D"
abbreviation tab :: char where "tab \<equiv> CHR 0x09"

text \<open>\<open>str::split_once\<close> at a one-byte separator: the text before its first occurrence, and after.\<close>

fun split_once :: "char \<Rightarrow> string \<Rightarrow> (string \<times> string) option" where
  "split_once c [] = None"
| "split_once c (x # xs) =
     (if x = c then Some ([], xs) else map_option (apfst (Cons x)) (split_once c xs))"

lemma split_once_Some_iff:
  "split_once c s = Some (a, b) \<longleftrightarrow> s = a @ c # b \<and> c \<notin> set a"
proof (induction s arbitrary: a)
  case (Cons x xs)
  show ?case
  proof (cases a)
    case (Cons y ys)
    then show ?thesis using Cons.IH[of ys] by (auto simp: apfst_def map_prod_def split: prod.splits)
  qed (auto simp: apfst_def map_prod_def)
qed simp

lemma split_once_None_iff [simp]: "split_once c s = None \<longleftrightarrow> c \<notin> set s"
  by (induction s) auto

lemma split_once_append [rust_str, simp]:
  "c \<notin> set a \<Longrightarrow> split_once c (a @ c # b) = Some (a, b)"
  by (simp add: split_once_Some_iff)

lemma split_once_length: "split_once c s = Some (a, b) \<Longrightarrow> length b < length s"
  by (auto simp: split_once_Some_iff)

text \<open>\<open>str::strip_prefix\<close>.\<close>

fun strip_prefix :: "string \<Rightarrow> string \<Rightarrow> string option" where
  "strip_prefix [] s = Some s"
| "strip_prefix (p # ps) [] = None"
| "strip_prefix (p # ps) (x # xs) = (if p = x then strip_prefix ps xs else None)"

lemma strip_prefix_Some_iff: "strip_prefix p s = Some r \<longleftrightarrow> s = p @ r"
  by (induction p s rule: strip_prefix.induct) auto

text \<open>\<open>slice::join\<close> with a separator.\<close>

fun join_with :: "string \<Rightarrow> string list \<Rightarrow> string" where
  "join_with sep [] = []"
| "join_with sep [x] = x"
| "join_with sep (x # y # ys) = x @ sep @ join_with sep (y # ys)"

text \<open>
  \<open>str::lines\<close>: pieces ended by a newline, each without it and without one carriage return
  before it; a last piece with no newline is a line as it stands.
\<close>

definition strip_cr :: "string \<Rightarrow> string" where
  "strip_cr l = (if l \<noteq> [] \<and> last l = cr then butlast l else l)"

function rust_lines :: "string \<Rightarrow> string list" where
  "rust_lines s =
     (case split_once nl s of
        Some (l, r) \<Rightarrow> strip_cr l # rust_lines r
      | None \<Rightarrow> if s = [] then [] else [s])"
  by pat_completeness auto
termination
  by (relation "measure length") (auto dest: split_once_length)

declare rust_lines.simps [simp del]

lemma rust_lines_Nil [rust_str, simp]: "rust_lines [] = []"
  by (simp add: rust_lines.simps)

lemma rust_lines_Cons [rust_str]:
  "nl \<notin> set l \<Longrightarrow> rust_lines (l @ nl # r) = strip_cr l # rust_lines r"
  by (subst rust_lines.simps) simp

lemma rust_lines_last [rust_str]: "nl \<notin> set l \<Longrightarrow> l \<noteq> [] \<Longrightarrow> rust_lines l = [l]"
  by (subst rust_lines.simps) (simp add: split_once_None_iff[THEN iffD2])

text \<open>
  White space as \<open>char::is_whitespace\<close> has it, at the front of a UTF-8 string: the number of
  bytes of the white-space character the string starts with, or 0.
\<close>

definition ws_width :: "string \<Rightarrow> nat" where
  "ws_width s =
     (case map (of_char :: char \<Rightarrow> nat) (take 3 s) of
        [] \<Rightarrow> 0
      | b0 # bs \<Rightarrow>
          if b0 = 0x20 \<or> 9 \<le> b0 \<and> b0 \<le> 13 then 1
          else (case bs of
              [] \<Rightarrow> 0
            | b1 # bs' \<Rightarrow>
                if b0 = 0xC2 \<and> (b1 = 0x85 \<or> b1 = 0xA0) then 2
                else (case bs' of
                    [] \<Rightarrow> 0
                  | b2 # _ \<Rightarrow>
                      if b0 = 0xE1 \<and> b1 = 0x9A \<and> b2 = 0x80
                       \<or> b0 = 0xE2 \<and> b1 = 0x80
                         \<and> (0x80 \<le> b2 \<and> b2 \<le> 0x8A \<or> b2 = 0xA8 \<or> b2 = 0xA9 \<or> b2 = 0xAF)
                       \<or> b0 = 0xE2 \<and> b1 = 0x81 \<and> b2 = 0x9F
                       \<or> b0 = 0xE3 \<and> b1 = 0x80 \<and> b2 = 0x80
                      then 3 else 0)))"

lemma ws_width_Nil [simp]: "ws_width [] = 0"
  by (simp add: ws_width_def)

function trim_start :: "string \<Rightarrow> string" where
  "trim_start s = (if ws_width s = 0 then s else trim_start (drop (ws_width s) s))"
  by pat_completeness auto
termination
  by (relation "measure length") (auto intro!: diff_less intro: ccontr)

declare trim_start.simps [simp del]

text \<open>\<open>str::trim().is_empty()\<close>: nothing but white space.\<close>

definition blank :: "string \<Rightarrow> bool" where
  "blank s = (trim_start s = [])"

lemma trim_start_Nil [simp]: "trim_start [] = []"
  by (simp add: trim_start.simps)

lemma blank_Nil [simp]: "blank []"
  by (simp add: blank_def)

text \<open>
  \<open>String::from_utf8\<close>: the width of the well-formed sequence a byte list starts with (0 for
  none), by the table of well-formed sequences, and the check of a whole list.
\<close>

definition utf8_cont :: "nat \<Rightarrow> bool" where
  "utf8_cont b = (0x80 \<le> b \<and> b \<le> 0xBF)"

definition utf8_width :: "nat list \<Rightarrow> nat" where
  "utf8_width bs =
     (case bs of
        [] \<Rightarrow> 0
      | b0 # r0 \<Rightarrow>
          if b0 < 0x80 then 1
          else (case r0 of
              [] \<Rightarrow> 0
            | b1 # r1 \<Rightarrow>
                if 0xC2 \<le> b0 \<and> b0 \<le> 0xDF then (if utf8_cont b1 then 2 else 0)
                else (case r1 of
                    [] \<Rightarrow> 0
                  | b2 # r2 \<Rightarrow>
                      if 0xE0 \<le> b0 \<and> b0 \<le> 0xEF
                      then (if utf8_cont b1 \<and> utf8_cont b2
                               \<and> (b0 = 0xE0 \<longrightarrow> 0xA0 \<le> b1) \<and> (b0 = 0xED \<longrightarrow> b1 \<le> 0x9F)
                            then 3 else 0)
                      else (case r2 of
                          [] \<Rightarrow> 0
                        | b3 # _ \<Rightarrow>
                            if 0xF0 \<le> b0 \<and> b0 \<le> 0xF4 \<and> utf8_cont b1 \<and> utf8_cont b2
                               \<and> utf8_cont b3
                               \<and> (b0 = 0xF0 \<longrightarrow> 0x90 \<le> b1) \<and> (b0 = 0xF4 \<longrightarrow> b1 \<le> 0x8F)
                            then 4 else 0))))"

function utf8_valid :: "string \<Rightarrow> bool" where
  "utf8_valid s =
     (if s = [] then True
      else (let w = utf8_width (map of_char (take 4 s))
            in if w = 0 then False else utf8_valid (drop w s)))"
  by pat_completeness auto
termination
  by (relation "measure length") (auto intro!: diff_less)

declare utf8_valid.simps [simp del]

lemma utf8_valid_Nil [simp]: "utf8_valid []"
  by (simp add: utf8_valid.simps)

lemma utf8_valid_ascii_Cons:
  "(of_char c :: nat) < 0x80 \<Longrightarrow> utf8_valid (c # s) = utf8_valid s"
  by (subst utf8_valid.simps) (simp add: utf8_width_def Let_def)

text \<open>\<open>Display\<close> of an unsigned integer.\<close>

fun dec_nat :: "nat \<Rightarrow> string" where
  "dec_nat n = (if n < 10 then [char_of (48 + n)] else dec_nat (n div 10) @ [char_of (48 + n mod 10)])"

declare dec_nat.simps [simp del]

text \<open>\<open>FromStr\<close> of an unsigned integer below a bound: decimal digits, a leading \<open>+\<close> allowed.\<close>

definition is_digit :: "char \<Rightarrow> bool" where
  "is_digit c = (48 \<le> (of_char c :: nat) \<and> (of_char c :: nat) \<le> 57)"

definition dec_value :: "string \<Rightarrow> nat" where
  "dec_value s = foldl (\<lambda>n c. n * 10 + (of_char c - 48)) 0 s"

definition parse_uint :: "nat \<Rightarrow> string \<Rightarrow> nat option" where
  "parse_uint bound s =
     (let digits = (case s of c # rest \<Rightarrow> if c = CHR ''+'' \<and> rest \<noteq> [] then rest else s | [] \<Rightarrow> [])
      in if digits \<noteq> [] \<and> list_all is_digit digits \<and> dec_value digits < bound
         then Some (dec_value digits) else None)"

lemma dec_nat_digits: "list_all is_digit (dec_nat n) \<and> dec_nat n \<noteq> []"
proof (induction n rule: dec_nat.induct)
  case (1 n)
  have "is_digit (char_of (48 + k))" if "k < 10" for k :: nat
    using that by (simp add: is_digit_def)
  with 1 show ?case by (subst (1 2) dec_nat.simps) simp
qed

lemma dec_value_dec_nat: "dec_value (dec_nat n) = n"
proof (induction n rule: dec_nat.induct)
  case (1 n)
  then show ?case by (subst dec_nat.simps) (auto simp: dec_value_def)
qed

text \<open>What \<open>Display\<close> writes, \<open>FromStr\<close> reads back.\<close>

lemma parse_uint_dec_nat [rust_str]: "n < bound \<Longrightarrow> parse_uint bound (dec_nat n) = Some n"
proof -
  assume "n < bound"
  moreover have "hd (dec_nat n) \<noteq> CHR ''+''"
    using dec_nat_digits[of n] by (cases "dec_nat n") (auto simp: is_digit_def)
  moreover have "dec_value (dec_nat n) = n" by (rule dec_value_dec_nat)
  ultimately show ?thesis
    using dec_nat_digits[of n]
    by (cases "dec_nat n") (simp_all add: parse_uint_def Let_def)
qed

section \<open>Ordered maps\<close>

text \<open>
  A \<open>BTreeMap\<close> as the list of its entries in key order, which is the order it iterates in; the
  keys are read back with \<open>map_of\<close>.
\<close>

fun bt_insert :: "'k::linorder \<Rightarrow> 'a \<Rightarrow> ('k \<times> 'a) list \<Rightarrow> ('k \<times> 'a) list" where
  "bt_insert k v [] = [(k, v)]"
| "bt_insert k v ((k', v') # m) =
     (if k < k' then (k, v) # (k', v') # m
      else if k = k' then (k, v) # m
      else (k', v') # bt_insert k v m)"

definition bt_remove :: "'k \<Rightarrow> ('k \<times> 'a) list \<Rightarrow> ('k \<times> 'a) list" where
  "bt_remove k m = filter (\<lambda>e. fst e \<noteq> k) m"

definition bt_sorted :: "('k::linorder \<times> 'a) list \<Rightarrow> bool" where
  "bt_sorted m = sorted_wrt (<) (map fst m)"

lemma bt_insert_keys: "fst ` set (bt_insert k v m) = insert k (fst ` set m)"
  by (induction k v m rule: bt_insert.induct) auto

lemma map_of_bt_insert: "map_of (bt_insert k v m) = (map_of m)(k \<mapsto> v)"
  by (induction k v m rule: bt_insert.induct) (auto simp: fun_eq_iff)

lemma map_of_bt_remove: "map_of (bt_remove k m) = (map_of m)(k := None)"
  by (induction m) (auto simp: bt_remove_def)

lemma bt_insert_sorted [step_inv]: "bt_sorted m \<Longrightarrow> bt_sorted (bt_insert k v m)"
proof (induction k v m rule: bt_insert.induct)
  case (2 k v k' v' m)
  have "\<forall>x \<in> fst ` set (bt_insert k v m). k' < x" if "k' < k"
    using that 2 unfolding bt_insert_keys by (auto simp: bt_sorted_def)
  with 2 show ?case by (auto simp: bt_sorted_def)
qed (simp add: bt_sorted_def)

lemma bt_remove_sorted [step_inv]: "bt_sorted m \<Longrightarrow> bt_sorted (bt_remove k m)"
  by (simp add: bt_sorted_def bt_remove_def sorted_wrt_map sorted_wrt_filter)

lemma bt_remove_length: "length (bt_remove k m) \<le> length m"
  by (simp add: bt_remove_def)

lemma bt_insert_length: "length (bt_insert k v m) \<le> Suc (length m)"
  by (induction k v m rule: bt_insert.induct) auto

section \<open>Fallible effects\<close>

text \<open>
  An effect of the program on its world (the file system, the kernel, a consumer's closures)
  takes the world and returns it changed, with an error or a result: \<open>?\<close> is \<open>io_bind\<close>, an
  \<open>Err\<close> is \<open>io_fail\<close>, and \<open>map_err\<close> is \<open>io_map_err\<close>.
\<close>

type_synonym ('w, 'e, 'a) io = "'w \<Rightarrow> ('e + 'a) \<times> 'w"

definition io_ret :: "'a \<Rightarrow> ('w, 'e, 'a) io" where
  "io_ret x w = (Inr x, w)"

definition io_fail :: "'e \<Rightarrow> ('w, 'e, 'a) io" where
  "io_fail e w = (Inl e, w)"

definition io_bind :: "('w, 'e, 'a) io \<Rightarrow> ('a \<Rightarrow> ('w, 'e, 'b) io) \<Rightarrow> ('w, 'e, 'b) io" where
  "io_bind m f w = (case m w of (Inl e, w') \<Rightarrow> (Inl e, w') | (Inr x, w') \<Rightarrow> f x w')"

definition io_map_err :: "('e \<Rightarrow> 'f) \<Rightarrow> ('w, 'e, 'a) io \<Rightarrow> ('w, 'f, 'a) io" where
  "io_map_err g m w = (case m w of (Inl e, w') \<Rightarrow> (Inl (g e), w') | (Inr x, w') \<Rightarrow> (Inr x, w'))"

definition io_of_sum :: "'e + 'a \<Rightarrow> ('w, 'e, 'a) io" where
  "io_of_sum r w = (r, w)"

lemma io_ret_Inr [simp]: "io_ret x w = (r, w') \<longleftrightarrow> r = Inr x \<and> w' = w"
  by (auto simp: io_ret_def)

lemma io_fail_Inr [simp]: "io_fail e w = (r, w') \<longleftrightarrow> r = Inl e \<and> w' = w"
  by (auto simp: io_fail_def)

lemma io_of_sum_Inr [simp]: "io_of_sum r w = (r', w') \<longleftrightarrow> r' = r \<and> w' = w"
  by (auto simp: io_of_sum_def)

lemma io_bind_Inr [simp]:
  "io_bind m f w = (Inr y, w') \<longleftrightarrow> (\<exists>x v. m w = (Inr x, v) \<and> f x v = (Inr y, w'))"
  by (auto simp: io_bind_def split: prod.splits sum.splits)

lemma io_bind_Inl:
  "io_bind m f w = (Inl e, w') \<longleftrightarrow>
     m w = (Inl e, w') \<or> (\<exists>x v. m w = (Inr x, v) \<and> f x v = (Inl e, w'))"
  by (auto simp: io_bind_def split: prod.splits sum.splits)

lemma io_map_err_Inr [simp]: "io_map_err g m w = (Inr x, w') \<longleftrightarrow> m w = (Inr x, w')"
  by (auto simp: io_map_err_def split: prod.splits sum.splits)

lemma io_map_err_Inl: "io_map_err g m w = (Inl e, w') \<longleftrightarrow> (\<exists>e'. m w = (Inl e', w') \<and> e = g e')"
  by (auto simp: io_map_err_def split: prod.splits sum.splits)

text \<open>An effect that cannot fail is run for its result: \<open>let x = m;\<close> is \<open>st_bind m (\<lambda>x. \<dots>)\<close>.\<close>

definition st_ret :: "'a \<Rightarrow> 'w \<Rightarrow> 'a \<times> 'w" where
  "st_ret x w = (x, w)"

definition st_bind :: "('w \<Rightarrow> 'a \<times> 'w) \<Rightarrow> ('a \<Rightarrow> 'w \<Rightarrow> 'b \<times> 'w) \<Rightarrow> 'w \<Rightarrow> 'b \<times> 'w" where
  "st_bind m f w = (case m w of (x, w') \<Rightarrow> f x w')"

definition st_do :: "('w \<Rightarrow> 'w) \<Rightarrow> 'w \<Rightarrow> unit \<times> 'w" where
  "st_do f w = ((), f w)"

lemma st_ret_iff [simp]: "st_ret x w = (r, w') \<longleftrightarrow> r = x \<and> w' = w"
  by (auto simp: st_ret_def)

lemma st_bind_iff: "st_bind m f w = (y, w') \<longleftrightarrow> (\<exists>x v. m w = (x, v) \<and> f x v = (y, w'))"
  by (auto simp: st_bind_def split: prod.splits)

section \<open>What a run writes to a log\<close>

text \<open>
  A run over a world paired with a log: \<open>writes m P\<close> says that it only appends, and that what it
  appended and its result are related by \<open>P\<close>. The rules below take such claims through \<open>io_bind\<close>.
\<close>

definition writes :: "('w \<times> 'l list \<Rightarrow> 'r \<times> ('w \<times> 'l list)) \<Rightarrow> ('r \<Rightarrow> 'l list \<Rightarrow> bool) \<Rightarrow> bool" where
  "writes m P \<longleftrightarrow> (\<forall>w l r w' l'. m (w, l) = (r, (w', l')) \<longrightarrow> (\<exists>es. l' = l @ es \<and> P r es))"

lemma writesI:
  "(\<And>w l r w' l'. m (w, l) = (r, (w', l')) \<Longrightarrow> \<exists>es. l' = l @ es \<and> P r es) \<Longrightarrow> writes m P"
  by (simp add: writes_def)

lemma writesD: "writes m P \<Longrightarrow> m (w, l) = (r, (w', l')) \<Longrightarrow> \<exists>es. l' = l @ es \<and> P r es"
  by (simp add: writes_def)

lemma writes_mono: "writes m P \<Longrightarrow> (\<And>r es. P r es \<Longrightarrow> Q r es) \<Longrightarrow> writes m Q"
  unfolding writes_def by blast

lemma writes_ret: "P (Inr x) [] \<Longrightarrow> writes (io_ret x) P"
  by (auto intro!: writesI)

lemma writes_fail: "P (Inl e) [] \<Longrightarrow> writes (io_fail e) P"
  by (auto intro!: writesI)

lemma writes_st_ret: "P x [] \<Longrightarrow> writes (st_ret x) P"
  by (auto intro!: writesI)

lemma writes_st_bind:
  assumes "writes m P" "\<And>x es. P x es \<Longrightarrow> writes (f x) (\<lambda>r es'. R r (es @ es'))"
  shows "writes (st_bind m f) R"
proof (rule writesI)
  fix w l r w' l' assume "st_bind m f (w, l) = (r, (w', l'))"
  then obtain x w1 l1 where m: "m (w, l) = (x, (w1, l1))" and f: "f x (w1, l1) = (r, (w', l'))"
    by (auto simp: st_bind_iff)
  from writesD[OF assms(1) m] obtain es where es: "l1 = l @ es" "P x es" by blast
  from writesD[OF assms(2)[OF es(2)] f] es show "\<exists>es. l' = l @ es \<and> R r es" by auto
qed

lemma writes_bind_on:
  assumes "writes m P" "\<And>x es. P (Inr x) es \<Longrightarrow> writes (f x) (Q x)"
    and "\<And>e es. P (Inl e) es \<Longrightarrow> R (Inl e) es"
    and "\<And>x es r es'. P (Inr x) es \<Longrightarrow> Q x r es' \<Longrightarrow> R r (es @ es')"
  shows "writes (io_bind m f) R"
proof (rule writesI)
  fix w l r w' l' assume run: "io_bind m f (w, l) = (r, (w', l'))"
  obtain r1 w1 l1 where m: "m (w, l) = (r1, (w1, l1))" by (cases "m (w, l)") auto
  from writesD[OF assms(1) m] obtain es where es: "l1 = l @ es" "P r1 es" by blast
  show "\<exists>es. l' = l @ es \<and> R r es"
  proof (cases r1)
    case (Inl e)
    with run m es assms(3) show ?thesis by (auto simp: io_bind_def)
  next
    case (Inr x)
    with run m have "f x (w1, l1) = (r, (w', l'))" by (simp add: io_bind_def)
    from writesD[OF assms(2) this, of es] Inr es assms(4) show ?thesis by fastforce
  qed
qed

lemma writes_bind:
  assumes "writes m P" "\<And>x. writes (f x) (Q x)"
    and "\<And>e es. P (Inl e) es \<Longrightarrow> R (Inl e) es"
    and "\<And>x es r es'. P (Inr x) es \<Longrightarrow> Q x r es' \<Longrightarrow> R r (es @ es')"
  shows "writes (io_bind m f) R"
  using assms(1,2,3,4) by (rule writes_bind_on)

text \<open>An effect that notes its answer, one that notes nothing, one that only notes.\<close>

definition noting :: "('r \<Rightarrow> 'l) \<Rightarrow> ('w \<Rightarrow> 'r \<times> 'w) \<Rightarrow> 'w \<times> 'l list \<Rightarrow> 'r \<times> ('w \<times> 'l list)" where
  "noting ev m = (\<lambda>(w, l). case m w of (r, w') \<Rightarrow> (r, (w', l @ [ev r])))"

definition unnoted :: "('w \<Rightarrow> 'r \<times> 'w) \<Rightarrow> 'w \<times> 'l list \<Rightarrow> 'r \<times> ('w \<times> 'l list)" where
  "unnoted m = (\<lambda>(w, l). case m w of (r, w') \<Rightarrow> (r, (w', l)))"

lemma writes_noting: "(\<And>r. P r [ev r]) \<Longrightarrow> writes (noting ev m) P"
  by (auto intro!: writesI simp: noting_def split: prod.splits)

lemma writes_unnoted: "(\<And>r. P r []) \<Longrightarrow> writes (unnoted m) P"
  by (auto intro!: writesI simp: unnoted_def split: prod.splits)

text \<open>The log is no more than that: dropping it from a run gives the run without it.\<close>

definition erases :: "('w \<times> 'l list \<Rightarrow> 'r \<times> ('w \<times> 'l list)) \<Rightarrow> ('w \<Rightarrow> 'r \<times> 'w) \<Rightarrow> bool" where
  "erases m m' \<longleftrightarrow> (\<forall>w l. apsnd fst (m (w, l)) = m' w)"

lemma erases_run:
  assumes "erases m m'" "m (w, l) = (r, (w1, l1))"
  shows "m' w = (r, w1)"
proof -
  from assms(1) have "apsnd fst (m (w, l)) = m' w" by (simp add: erases_def)
  with assms(2) show ?thesis by simp
qed

lemma erasesD:
  assumes "erases m m'" "m' w = (r, w')"
  shows "\<exists>l'. m (w, l) = (r, (w', l'))"
proof -
  obtain r1 w1 l1 where m: "m (w, l) = (r1, (w1, l1))" by (cases "m (w, l)") auto
  with erases_run[OF assms(1) m] assms(2) show ?thesis by simp
qed

lemma erases_ret [simp]: "erases (io_ret x) (io_ret x)"
  by (simp add: erases_def io_ret_def)

lemma erases_fail [simp]: "erases (io_fail e) (io_fail e)"
  by (simp add: erases_def io_fail_def)

lemma erases_bind:
  assumes "erases m m'" "\<And>x. erases (f x) (f' x)"
  shows "erases (io_bind m f) (io_bind m' f')"
proof -
  have "apsnd fst (io_bind m f (w, l)) = io_bind m' f' w" for w l
  proof -
    obtain r w1 l1 where m: "m (w, l) = (r, (w1, l1))" by (cases "m (w, l)") auto
    from erases_run[OF assms(1) m] have "m' w = (r, w1)" .
    with m assms(2) show ?thesis by (cases r) (auto simp: io_bind_def erases_def)
  qed
  then show ?thesis by (simp add: erases_def)
qed

section \<open>A closed set of labels\<close>

text \<open>
  Several parts of the program carry a value of an enum across a text channel as a label, and
  read it back with a lookup over the list of all values (\<open>ALL.into_iter().find(..)\<close>). The
  contract: the list is exhaustive and no two values share a label.
\<close>

definition from_label_in :: "'a list \<Rightarrow> ('a \<Rightarrow> string) \<Rightarrow> string \<Rightarrow> 'a option" where
  "from_label_in all lbl s = find (\<lambda>x. lbl x = s) all"

locale closed_labels =
  fixes all :: "'a list" and lbl :: "'a \<Rightarrow> string"
  assumes exhaustive: "x \<in> set all"
    and distinct_labels: "distinct (map lbl all)"
begin

lemma lbl_inject: "lbl x = lbl y \<longleftrightarrow> x = y"
proof
  have "inj_on lbl (set all)" using distinct_labels by (simp add: distinct_map)
  then show "lbl x = lbl y \<Longrightarrow> x = y" by (rule inj_onD) (simp_all add: exhaustive)
qed simp

lemma from_label_in_lbl [simp]: "from_label_in all lbl (lbl x) = Some x"
proof -
  have "find (\<lambda>y. lbl y = lbl x) all \<noteq> None"
    using exhaustive[of x] by (auto simp: find_None_iff)
  then obtain y where "find (\<lambda>y. lbl y = lbl x) all = Some y" by blast
  then show ?thesis
    by (auto simp: from_label_in_def find_Some_iff lbl_inject)
qed

lemma from_label_in_Some_iff: "from_label_in all lbl s = Some x \<longleftrightarrow> s = lbl x"
proof
  assume "from_label_in all lbl s = Some x"
  then show "s = lbl x" by (auto simp: from_label_in_def find_Some_iff)
qed simp

lemma from_label_in_None_iff: "from_label_in all lbl s = None \<longleftrightarrow> (\<forall>x. s \<noteq> lbl x)"
  using from_label_in_Some_iff[of s] by (cases "from_label_in all lbl s") auto

end

section \<open>Streams unfolded from a state\<close>

text \<open>
  \<open>futures_util::stream::unfold(state, next)\<close>, fused: \<open>next\<close> yields an item and a state, or
  ends the stream. A consumer that drains it sees the list below; the fuel bounds the number
  of items, and the interface gives the bound that is enough.
\<close>

fun unfold_fuel :: "nat \<Rightarrow> ('s \<Rightarrow> ('o \<times> 's) option) \<Rightarrow> 's \<Rightarrow> 'o list option" where
  "unfold_fuel 0 step s = None"
| "unfold_fuel (Suc n) step s =
     (case step s of
        None \<Rightarrow> Some []
      | Some (x, s') \<Rightarrow> map_option (Cons x) (unfold_fuel n step s'))"

lemma unfold_fuel_mono: "unfold_fuel n step s = Some xs \<Longrightarrow> n \<le> m \<Longrightarrow> unfold_fuel m step s = Some xs"
proof (induction n arbitrary: m s xs)
  case (Suc n)
  from Suc.prems(2) obtain m' where m: "m = Suc m'" "n \<le> m'" by (cases m) auto
  show ?case
  proof (cases "step s")
    case (Some p)
    then obtain x s' where p: "step s = Some (x, s')" by (cases p) auto
    with Suc.prems(1) obtain ys where "unfold_fuel n step s' = Some ys" "xs = x # ys" by auto
    with Suc.IH[OF this(1) m(2)] m(1) p show ?thesis by simp
  qed (use Suc.prems(1) m(1) in simp)
qed simp

locale finite_unfold =
  fixes step :: "'s \<Rightarrow> ('o \<times> 's) option" and left :: "'s \<Rightarrow> nat" and inv :: "'s \<Rightarrow> bool"
  assumes step_left: "inv s \<Longrightarrow> step s = Some (x, s') \<Longrightarrow> left s' < left s"
    and step_keeps: "inv s \<Longrightarrow> step s = Some (x, s') \<Longrightarrow> inv s'"
begin

lemma enough_fuel: "inv s \<Longrightarrow> left s < n \<Longrightarrow> \<exists>xs. unfold_fuel n step s = Some xs"
proof (induction n arbitrary: s)
  case (Suc n)
  show ?case
  proof (cases "step s")
    case None
    then show ?thesis by simp
  next
    case (Some p)
    then obtain x s' where p: "step s = Some (x, s')" by (cases p) auto
    with Suc.prems step_left[OF Suc.prems(1) p] have "left s' < n" by simp
    with Suc.IH[OF step_keeps[OF Suc.prems(1) p]] obtain xs
      where "unfold_fuel n step s' = Some xs" by blast
    with p show ?thesis by simp
  qed
qed simp

definition drain :: "'s \<Rightarrow> 'o list" where
  "drain s = the (unfold_fuel (Suc (left s)) step s)"

lemma drain_None: "step s = None \<Longrightarrow> drain s = []"
  by (simp add: drain_def)

lemma drain_Some:
  assumes "inv s" "step s = Some (x, s')"
  shows "drain s = x # drain s'"
proof -
  from enough_fuel[OF step_keeps[OF assms], of "Suc (left s')"]
  obtain xs where xs: "unfold_fuel (Suc (left s')) step s' = Some xs" by blast
  from unfold_fuel_mono[OF xs, of "left s"] step_left[OF assms]
  have "unfold_fuel (left s) step s' = Some xs" by simp
  with xs assms show ?thesis by (simp add: drain_def)
qed

lemma drain_cong: "inv s \<Longrightarrow> inv s' \<Longrightarrow> step s = step s' \<Longrightarrow> drain s = drain s'"
  by (cases "step s'") (auto simp: drain_None drain_Some)

lemma drain_fuel: "inv s \<Longrightarrow> left s < n \<Longrightarrow> unfold_fuel n step s = Some (drain s)"
  using enough_fuel[of s "Suc (left s)"] unfold_fuel_mono[of "Suc (left s)" step s _ n]
  by (auto simp: drain_def)

end

end
