(* ===== verification/Conversation.thy ===== *)
theory Conversation
  imports Prelude
begin

text \<open>
  The vocabulary of a conversation: the request types of \<open>sandbx-prompt\<close>, the events of
  \<open>sandbx-event\<close>, the provider's errors, and the stored shapes of \<open>sandbx-session-message\<close>.
  A \<open>serde_json::Value\<close> is never looked into by any of them, so it is a type variable \<open>'v\<close>.
  The last section states what the Messages API accepts as a conversation, the contract the
  comments of the turn loop, of compaction and of the session store appeal to.
\<close>

section \<open>What a request is made of (sandbx-prompt)\<close>

datatype role = User | Assistant

datatype tool_choice = ChooseNone

datatype thinking = Visible

datatype 'v content_block =
    Text (block_text: string)
  | Thinking string string
  | RedactedThinking string
  | ToolUse (use_id: string) (use_name: string) (use_input: 'v)
  | ToolResult (tool_use_id: string) (result_content: string) (result_error: "bool option")

record 'v request_message =
  rm_role :: role
  rm_content :: "'v content_block list"

record 'v tool_definition =
  td_name :: string
  td_description :: string
  td_schema :: 'v

record 'v prompt =
  p_model :: string
  p_max_output_tokens :: u32
  p_system :: "string option"
  p_messages :: "'v request_message list"
  p_tools :: "'v tool_definition list"
  p_tool_choice :: "tool_choice option"
  p_thinking :: "thinking option"

fun is_thinking :: "'v content_block \<Rightarrow> bool" where
  "is_thinking (Thinking _ _) = True"
| "is_thinking (RedactedThinking _) = True"
| "is_thinking _ = False"

fun is_tool_result :: "'v content_block \<Rightarrow> bool" where
  "is_tool_result (ToolResult _ _ _) = True"
| "is_tool_result _ = False"

fun is_tool_use :: "'v content_block \<Rightarrow> bool" where
  "is_tool_use (ToolUse _ _ _) = True"
| "is_tool_use _ = False"

section \<open>What a streamed turn is spoken in (sandbx-event, sandbx-provider)\<close>

datatype stop_reason =
    EndTurn
  | StopToolUse
  | MaxTokens
  | StopSequence
  | Unspecified
  | OtherReason string

datatype 'v agent_event =
    EvText string
  | EvThinking string
  | EvThinkingBlock string string
  | EvRedactedThinking string
  | EvToolCallRequested string string 'v
  | EvUsage (ev_input: "u32 option") (ev_output: "u32 option")
      (ev_cache_write: "u32 option") (ev_cache_read: "u32 option")
  | EvStop stop_reason

text \<open>The boxed source of a transport error is opaque, so only its message is carried.\<close>

datatype provider_error =
    InvalidBaseUrl string string
  | Transport string string
  | ApiError "u16 option" string string
  | RateLimited "u64 option" string
  | MalformedEvent string
  | StreamEndedUnexpectedly

section \<open>What a transcript holds (sandbx-session-message)\<close>

datatype stored_role = StoredUser | StoredAssistant

datatype 'v content =
    StoredText string
  | StoredToolUse string string 'v
  | StoredToolResult string string "bool option"

record 'v message =
  sm_role :: stored_role
  sm_content :: "'v content list"

record usage =
  us_input_tokens :: "u32 option"
  us_cache_read_input_tokens :: "u32 option"
  us_cache_creation_input_tokens :: "u32 option"

datatype stored_stop = Answered | RoundLimit | Summarised | GateAborted | Interrupted | HungUp

record 'v completed_turn =
  ct_messages :: "'v message list"
  ct_observed :: "usage option"
  ct_withheld :: nat
  ct_stop :: stored_stop

section \<open>What the Messages API accepts\<close>

text \<open>
  A conversation opens on the user, alternates roles, has no empty turn, and every tool call
  is answered in the next turn by results that name it and nothing else. The last turn may
  end on calls (a turn out of rounds does). This is a specification: it models no code.
\<close>

definition use_ids :: "'v request_message \<Rightarrow> string set" where
  "use_ids m = use_id ` {b \<in> set (rm_content m). is_tool_use b}"

definition result_ids :: "'v request_message \<Rightarrow> string set" where
  "result_ids m = tool_use_id ` {b \<in> set (rm_content m). is_tool_result b}"

definition joined :: "'v request_message \<Rightarrow> 'v request_message \<Rightarrow> bool" where
  "joined a b \<longleftrightarrow> rm_role a \<noteq> rm_role b \<and> use_ids a = result_ids b"

definition api_accepts :: "'v request_message list \<Rightarrow> bool" where
  "api_accepts ms \<longleftrightarrow>
     (case ms of [] \<Rightarrow> True | m # _ \<Rightarrow> rm_role m = User \<and> result_ids m = {})
     \<and> (\<forall>m \<in> set ms. rm_content m \<noteq> []) \<and> successively joined ms"

lemma is_tool_use_ids [simp]:
  "is_tool_result b \<Longrightarrow> \<not> is_tool_use b"
  "is_tool_result b \<Longrightarrow> \<not> is_thinking b"
  "is_tool_use b \<Longrightarrow> \<not> is_thinking b"
  by (cases b; simp)+

lemma api_accepts_Nil [simp]: "api_accepts []"
  by (simp add: api_accepts_def)

lemma api_accepts_Cons:
  "api_accepts (m # ms) \<longleftrightarrow>
     rm_role m = User \<and> result_ids m = {} \<and> rm_content m \<noteq> []
     \<and> (\<forall>m \<in> set ms. rm_content m \<noteq> []) \<and> successively joined (m # ms)"
  by (auto simp: api_accepts_def)

text \<open>Only the last turn of the first part and the first of the second decide a junction.\<close>

lemma api_accepts_append:
  "xs \<noteq> [] \<Longrightarrow> ys \<noteq> [] \<Longrightarrow>
     api_accepts (xs @ ys) \<longleftrightarrow>
     api_accepts xs \<and> joined (last xs) (hd ys) \<and> (\<forall>m \<in> set ys. rm_content m \<noteq> [])
     \<and> successively joined ys"
  using successively_append_iff[of joined xs ys] by (cases xs) (auto simp: api_accepts_def)

end
