(* ===== verification/Sse.thy ===== *)
theory Sse
  imports Conversation
begin

text \<open>
  Server-sent-event framing (\<open>sandbx-sse\<close>): a tokenizer that buffers the chunks of a response
  and answers one frame, the joined \<open>data:\<close> lines of an event, at a time. The response body is
  the list of what the transport hands over, each a chunk of bytes or a transport error, and the
  stream ends where the list does. The text \<open>String::from_utf8\<close> gives for bad bytes is an argument.
\<close>

section \<open>The tokenizer\<close>

definition MAX_EVENT_BYTES :: nat where "MAX_EVENT_BYTES = 4 * 1024 * 1024"

record tokenizer_state =
  tk_bytes :: "(string + string) list"
  tk_buf :: string
  tk_scanned :: nat
  tk_done :: bool

type_synonym frame = "provider_error + string"

definition ended :: "tokenizer_state \<Rightarrow> tokenizer_state" where
  "ended s = s\<lparr>tk_done := True, tk_buf := [], tk_scanned := 0\<rparr>"

definition oversized :: frame where
  "oversized = Inl (MalformedEvent ''a single SSE event exceeded 4194304 bytes'')"

definition parse_event :: "string list \<Rightarrow> string" where
  "parse_event lines =
     join_with [nl] (map trim_start (List.map_filter (strip_prefix ''data:'') lines))"

text \<open>\<open>iter().position(|&b| b == b'\n')\<close>.\<close>

fun nl_position :: "string \<Rightarrow> nat option" where
  "nl_position [] = None"
| "nl_position (x # xs) = (if x = nl then Some 0 else map_option Suc (nl_position xs))"

text \<open>
  The inner loop: one line at a time out of the buffer, until an item is to be returned (\<open>Inl\<close>)
  or no newline is left (\<open>Inr\<close>, with the lines of the event so far and their bytes).
\<close>

lemma nl_position_less: "nl_position s = Some i \<Longrightarrow> i < length s"
  by (induction s arbitrary: i) (auto split: if_splits)

function scan_lines ::
  "(string \<Rightarrow> string) \<Rightarrow> tokenizer_state \<Rightarrow> string list \<Rightarrow> nat
     \<Rightarrow> (frame \<times> tokenizer_state) + (tokenizer_state \<times> string list \<times> nat)" where
  "scan_lines utf8_error s lines event_bytes =
     (case nl_position (drop (tk_scanned s) (tk_buf s)) of
        None \<Rightarrow> Inr (s, lines, event_bytes)
      | Some offset \<Rightarrow>
          let pos = tk_scanned s + offset;
              line = strip_cr (take pos (tk_buf s));
              s' = s\<lparr>tk_scanned := 0, tk_buf := drop (Suc pos) (tk_buf s)\<rparr>
          in if \<not> utf8_valid line
             then Inl (Inl (MalformedEvent (''non-UTF-8 SSE line: '' @ utf8_error line)), ended s')
             else if line = []
             then (if lines = [] then scan_lines utf8_error s' lines event_bytes
                   else Inl (Inr (parse_event lines), s'))
             else if event_bytes + length line > MAX_EVENT_BYTES then Inl (oversized, ended s')
             else scan_lines utf8_error s' (lines @ [line]) (event_bytes + length line))"
  by pat_completeness auto
termination
  by (relation "measure (\<lambda>(_, s, _, _). length (tk_buf s))") (auto dest!: nl_position_less)

declare scan_lines.simps [simp del]

lemma scan_lines_keeps:
  "scan_lines u s lines n = Inr (s', lines', n') \<Longrightarrow> tk_bytes s' = tk_bytes s \<and> tk_done s' = tk_done s"
proof (induction u s lines n rule: scan_lines.induct)
  case (1 u s lines n)
  then show ?case
    by (subst (asm) (3) scan_lines.simps) (auto simp: Let_def split: option.splits if_splits)
qed

text \<open>The outer loop, which polls the body; a body that ended terminates what is buffered.\<close>

function next_loop ::
  "(string \<Rightarrow> string) \<Rightarrow> tokenizer_state \<Rightarrow> string list \<Rightarrow> nat \<Rightarrow> (frame \<times> tokenizer_state) option" where
  "next_loop utf8_error s lines event_bytes =
     (case scan_lines utf8_error s lines event_bytes of
        Inl item \<Rightarrow> Some item
      | Inr (s1, lines1, bytes1) \<Rightarrow>
          let s2 = s1\<lparr>tk_scanned := length (tk_buf s1)\<rparr>
          in if bytes1 + length (tk_buf s2) > MAX_EVENT_BYTES then Some (oversized, ended s2)
             else if tk_done s2
             then (if lines1 = [] then None else Some (Inr (parse_event lines1), s2))
             else (case tk_bytes s2 of
                 Inr chunk # rest \<Rightarrow>
                   next_loop utf8_error (s2\<lparr>tk_bytes := rest, tk_buf := tk_buf s2 @ chunk\<rparr>) lines1 bytes1
               | Inl source # rest \<Rightarrow>
                   Some (Inl (Transport ''reading response stream'' source), ended (s2\<lparr>tk_bytes := rest\<rparr>))
               | [] \<Rightarrow>
                   next_loop utf8_error
                     (s2\<lparr>tk_done := True,
                         tk_buf := (if tk_buf s2 \<noteq> [] then tk_buf s2 @ [nl] else tk_buf s2)\<rparr>)
                     lines1 bytes1))"
  by pat_completeness auto
termination
  by (relation "measure (\<lambda>(_, s, _, _). length (tk_bytes s) + (if tk_done s then 0 else 1))")
    (auto dest!: scan_lines_keeps)

declare next_loop.simps [simp del]

definition next_event :: "(string \<Rightarrow> string) \<Rightarrow> tokenizer_state \<Rightarrow> (frame \<times> tokenizer_state) option" where
  "next_event utf8_error s = (if tk_done s then None else next_loop utf8_error s [] 0)"

definition tokenize_start :: "(string + string) list \<Rightarrow> tokenizer_state" where
  "tokenize_start bytes = \<lparr>tk_bytes = bytes, tk_buf = [], tk_scanned = 0, tk_done = False\<rparr>"

section \<open>The framing a body ought to have\<close>

text \<open>
  The specification sees the whole body at once: its lines (the last one need not be terminated),
  and the frames those lines spell.
\<close>

function raw_lines :: "string \<Rightarrow> string list" where
  "raw_lines s =
     (case split_once nl s of
        Some (l, r) \<Rightarrow> l # raw_lines r
      | None \<Rightarrow> if s = [] then [] else [s])"
  by pat_completeness auto
termination
  by (relation "measure length") (auto dest: split_once_length)

declare raw_lines.simps [simp del]

fun frames :: "(string \<Rightarrow> string) \<Rightarrow> string list \<Rightarrow> string list \<Rightarrow> frame list" where
  "frames u acc [] = (if acc = [] then [] else [Inr (parse_event acc)])"
| "frames u acc (raw # raws) =
     (let line = strip_cr raw
      in if \<not> utf8_valid line then [Inl (MalformedEvent (''non-UTF-8 SSE line: '' @ u line))]
         else if line = []
         then (if acc = [] then frames u [] raws else Inr (parse_event acc) # frames u [] raws)
         else frames u (acc @ [line]) raws)"

text \<open>Every event of the body, its unterminated line included, is within the cap.\<close>

fun fits :: "nat \<Rightarrow> string list \<Rightarrow> bool" where
  "fits n [] = True"
| "fits n (raw # raws) =
     (n + length raw \<le> MAX_EVENT_BYTES
      \<and> (if strip_cr raw = [] then fits 0 raws else fits (n + length (strip_cr raw)) raws))"

lemma raw_lines_Nil [simp]: "raw_lines [] = []"
  by (simp add: raw_lines.simps)

lemma raw_lines_Cons: "nl \<notin> set l \<Longrightarrow> raw_lines (l @ nl # r) = l # raw_lines r"
  by (subst raw_lines.simps) simp

lemma raw_lines_last: "nl \<notin> set l \<Longrightarrow> l \<noteq> [] \<Longrightarrow> raw_lines l = [l]"
  by (subst raw_lines.simps) (simp add: split_once_None_iff[THEN iffD2])

lemma nl_position_None: "nl_position s = None \<longleftrightarrow> nl \<notin> set s"
  by (induction s) auto

lemma nl_position_Some: "nl_position s = Some i \<Longrightarrow> nl \<notin> set (take i s) \<and> s = take i s @ nl # drop (Suc i) s"
  by (induction s arbitrary: i) (auto split: if_splits)

text \<open>What one turn of the inner loop finds: the first line of the buffer, wherever it resumed.\<close>

lemma scan_split:
  assumes "nl \<notin> set (take (tk_scanned s) (tk_buf s))"
    and "nl_position (drop (tk_scanned s) (tk_buf s)) = Some i"
  shows "tk_buf s = take (tk_scanned s + i) (tk_buf s) @ nl # drop (Suc (tk_scanned s + i)) (tk_buf s)"
    and "nl \<notin> set (take (tk_scanned s + i) (tk_buf s))"
proof -
  note p = nl_position_Some[OF assms(2)]
  have "drop (Suc i) (drop (tk_scanned s) (tk_buf s)) = drop (Suc (tk_scanned s + i)) (tk_buf s)"
    by (simp add: add.commute)
  with p show "tk_buf s = take (tk_scanned s + i) (tk_buf s) @ nl # drop (Suc (tk_scanned s + i)) (tk_buf s)"
    unfolding take_add by (metis append.assoc append_take_drop_id)
  show "nl \<notin> set (take (tk_scanned s + i) (tk_buf s))"
    using p assms(1) by (simp add: take_add)
qed

lemma strip_cr_length: "length (strip_cr l) \<le> length l"
  by (simp add: strip_cr_def)

definition scan_ok :: "tokenizer_state \<Rightarrow> string list \<Rightarrow> nat \<Rightarrow> bool" where
  "scan_ok s lines n \<longleftrightarrow> nl \<notin> set (take (tk_scanned s) (tk_buf s)) \<and> (lines = [] \<longrightarrow> n = 0) \<and> n \<le> MAX_EVENT_BYTES"

text \<open>What the inner loop leaves to be framed; \<open>t\<close> is what the body has yet to hand over.\<close>

fun scan_post ::
  "(string \<Rightarrow> string) \<Rightarrow> string \<Rightarrow> tokenizer_state \<Rightarrow> string list
     \<Rightarrow> (frame \<times> tokenizer_state) + (tokenizer_state \<times> string list \<times> nat) \<Rightarrow> bool" where
  "scan_post u t s lines (Inl (Inl e, s')) =
     (frames u lines (raw_lines (tk_buf s @ t)) = [Inl e] \<and> tk_done s')"
| "scan_post u t s lines (Inl (Inr d, s')) =
     (frames u lines (raw_lines (tk_buf s @ t)) = Inr d # frames u [] (raw_lines (tk_buf s' @ t))
      \<and> fits 0 (raw_lines (tk_buf s' @ t)) \<and> scan_ok s' [] 0
      \<and> tk_bytes s' = tk_bytes s \<and> tk_done s' = tk_done s \<and> (\<exists>pre. tk_buf s = pre @ nl # tk_buf s'))"
| "scan_post u t s lines (Inr (s', lines', n')) =
     (frames u lines (raw_lines (tk_buf s @ t)) = frames u lines' (raw_lines (tk_buf s' @ t))
      \<and> fits n' (raw_lines (tk_buf s' @ t)) \<and> (lines' = [] \<longrightarrow> n' = 0) \<and> n' \<le> MAX_EVENT_BYTES \<and> nl \<notin> set (tk_buf s')
      \<and> tk_bytes s' = tk_bytes s \<and> tk_done s' = tk_done s
      \<and> (tk_buf s' = tk_buf s \<or> (\<exists>pre. tk_buf s = pre @ nl # tk_buf s')))"

lemma scan_post_step:
  assumes "scan_post u t s1 lines1 r"
    and "frames u lines (raw_lines (tk_buf s @ t)) = frames u lines1 (raw_lines (tk_buf s1 @ t))"
    and "tk_bytes s1 = tk_bytes s" "tk_done s1 = tk_done s" "tk_buf s = l @ nl # tk_buf s1"
  shows "scan_post u t s lines r"
proof -
  have grow: "tk_buf s1 = pre @ nl # b \<Longrightarrow> \<exists>pre'. l @ nl # pre @ nl # b = pre' @ nl # b" for pre b
    by (rule exI[of _ "l @ nl # pre"]) simp
  show ?thesis
    using assms grow by (cases "(u, t, s1, lines1, r)" rule: scan_post.cases) auto
qed

text \<open>One turn of the inner loop, and induction over its turns.\<close>

lemma scan_lines_None:
  "nl_position (drop (tk_scanned s) (tk_buf s)) = None \<Longrightarrow> scan_lines u s lines n = Inr (s, lines, n)"
  by (simp add: scan_lines.simps)

lemma scan_lines_Some:
  assumes "nl_position (drop (tk_scanned s) (tk_buf s)) = Some i"
    and "l = strip_cr (take (tk_scanned s + i) (tk_buf s))"
    and "s1 = s\<lparr>tk_scanned := 0, tk_buf := drop (Suc (tk_scanned s + i)) (tk_buf s)\<rparr>"
  shows "scan_lines u s lines n =
     (if \<not> utf8_valid l then Inl (Inl (MalformedEvent (''non-UTF-8 SSE line: '' @ u l)), ended s1)
      else if l = []
      then (if lines = [] then scan_lines u s1 lines n else Inl (Inr (parse_event lines), s1))
      else if n + length l > MAX_EVENT_BYTES then Inl (oversized, ended s1)
      else scan_lines u s1 (lines @ [l]) (n + length l))"
  using assms by (subst scan_lines.simps) (simp add: Let_def)

lemma scan_induct [case_names none some]:
  assumes none: "\<And>s lines n. nl_position (drop (tk_scanned s) (tk_buf s)) = None \<Longrightarrow> P s lines n"
    and some: "\<And>s lines n i s1. nl_position (drop (tk_scanned s) (tk_buf s)) = Some i \<Longrightarrow>
      s1 = s\<lparr>tk_scanned := 0, tk_buf := drop (Suc (tk_scanned s + i)) (tk_buf s)\<rparr> \<Longrightarrow>
      (\<And>lines n. P s1 lines n) \<Longrightarrow> P s lines n"
  shows "P s lines (n :: nat)"
proof (induction "length (tk_buf s)" arbitrary: s lines n rule: less_induct)
  case less
  show ?case
  proof (cases "nl_position (drop (tk_scanned s) (tk_buf s))")
    case None
    then show ?thesis by (rule none)
  next
    case (Some i)
    from nl_position_less[OF Some]
    have "length (drop (Suc (tk_scanned s + i)) (tk_buf s)) < length (tk_buf s)" by auto
    then show ?thesis by (intro some[OF Some refl] less) simp
  qed
qed

lemma scan_lines_frames:
  assumes "scan_ok s lines n" "fits n (raw_lines (tk_buf s @ t))"
  shows "scan_post u t s lines (scan_lines u s lines n)"
  using assms
proof (induction s lines n rule: scan_induct)
  case (none s lines n)
  then have "nl \<notin> set (tk_buf s)"
    using append_take_drop_id[of "tk_scanned s" "tk_buf s"]
    by (metis Un_iff nl_position_None scan_ok_def set_append)
  with none show ?case by (simp add: scan_lines_None scan_ok_def)
next
  case (some s lines n i s1)
  define raw where "raw = take (tk_scanned s + i) (tk_buf s)"
  define l where "l = strip_cr raw"
  have s1: "tk_bytes s1 = tk_bytes s" "tk_done s1 = tk_done s" "tk_scanned s1 = 0"
    by (simp_all add: some(2))
  have buf: "tk_buf s = raw @ nl # tk_buf s1" and nraw: "nl \<notin> set raw"
    using scan_split[OF _ some(1)] some(4) by (auto simp: raw_def some(2) scan_ok_def)
  have rl: "raw_lines (tk_buf s @ t) = raw # raw_lines (tk_buf s1 @ t)"
    using nraw by (simp add: buf raw_lines_Cons)
  note step = scan_lines_Some[OF some(1) _ some(2), of l u lines n, folded raw_def, OF l_def]
  have cap: "n + length l \<le> MAX_EVENT_BYTES"
    using some(5) strip_cr_length[of raw] by (simp add: rl l_def)
  have on: "scan_post u t s lines (scan_lines u s1 lines1 n1)"
    if "scan_ok s1 lines1 n1" "fits n1 (raw_lines (tk_buf s1 @ t))"
      "frames u lines (raw # raw_lines (tk_buf s1 @ t)) = frames u lines1 (raw_lines (tk_buf s1 @ t))"
    for lines1 n1
    by (rule scan_post_step[OF some(3)[OF that(1,2)], where l = raw])
      (insert rl that(3) s1 buf, simp_all only:)
  consider (bad) "\<not> utf8_valid l" | (skip) "utf8_valid l" "l = []" "lines = []"
    | (emit) "utf8_valid l" "l = []" "lines \<noteq> []" | (more) "utf8_valid l" "l \<noteq> []"
    by blast
  then show ?case
  proof cases
    case bad
    then show ?thesis by (simp add: step rl ended_def l_def[symmetric])
  next
    case skip
    have "scan_post u t s lines (scan_lines u s1 lines n)"
      using some(4,5) skip s1(3) by (intro on) (simp_all add: rl scan_ok_def l_def)
    then show ?thesis unfolding step using skip by simp
  next
    case emit
    have "fits 0 (raw_lines (tk_buf s1 @ t))" using some(5) emit by (simp add: rl l_def)
    moreover have "\<exists>pre. tk_buf s = pre @ nl # tk_buf s1" using buf by blast
    moreover have "frames u lines (raw_lines (tk_buf s @ t)) =
        Inr (parse_event lines) # frames u [] (raw_lines (tk_buf s1 @ t))"
      using emit by (simp add: rl l_def)
    ultimately show ?thesis unfolding step using emit s1 by (simp add: scan_ok_def)
  next
    case more
    have "scan_post u t s lines (scan_lines u s1 (lines @ [l]) (n + length l))"
      using some(5) more s1(3) cap by (intro on) (simp_all add: rl scan_ok_def l_def)
    then show ?thesis unfolding step using more cap by simp
  qed
qed

text \<open>What is left to hand over shrinks with every frame, so draining the stream is total.\<close>

definition pending :: "tokenizer_state \<Rightarrow> nat" where
  "pending s = (if tk_done s then 0
     else Suc (length (tk_buf s) + (\<Sum>c\<leftarrow>tk_bytes s. case c of Inl _ \<Rightarrow> 0 | Inr b \<Rightarrow> length b)))"

fun shrinks :: "tokenizer_state \<Rightarrow> (frame \<times> tokenizer_state) + (tokenizer_state \<times> string list \<times> nat) \<Rightarrow> bool" where
  "shrinks s (Inl (Inl e, s')) = tk_done s'"
| "shrinks s (Inl (Inr d, s')) =
     (tk_done s' = tk_done s \<and> tk_bytes s' = tk_bytes s \<and> length (tk_buf s') < length (tk_buf s))"
| "shrinks s (Inr (s', _, _)) =
     (tk_done s' = tk_done s \<and> tk_bytes s' = tk_bytes s \<and> length (tk_buf s') \<le> length (tk_buf s))"

lemma shrinks_trans:
  "shrinks s1 r \<Longrightarrow> tk_done s1 = tk_done s \<Longrightarrow> tk_bytes s1 = tk_bytes s \<Longrightarrow>
   length (tk_buf s1) < length (tk_buf s) \<Longrightarrow> shrinks s r"
  by (cases "(s1, r)" rule: shrinks.cases) auto

lemma scan_lines_shrinks: "shrinks s (scan_lines u s lines n)"
proof (induction s lines n rule: scan_induct)
  case (none s lines n)
  then show ?case by (simp add: scan_lines_None)
next
  case (some s lines n i s1)
  have s1: "tk_done s1 = tk_done s" "tk_bytes s1 = tk_bytes s" "length (tk_buf s1) < length (tk_buf s)"
    using nl_position_less[OF some(1)] by (auto simp: some(2))
  show ?case
    using some(3) s1 by (auto simp: scan_lines_Some[OF some(1) refl some(2)] ended_def oversized_def
        intro: shrinks_trans)
qed

text \<open>The turns of the outer loop.\<close>

lemma next_loop_item: "scan_lines u s lines n = Inl p \<Longrightarrow> next_loop u s lines n = Some p"
  by (simp add: next_loop.simps)

lemma next_loop_capped:
  "scan_lines u s lines n = Inr (s1, l1, n1) \<Longrightarrow> MAX_EVENT_BYTES < n1 + length (tk_buf s1) \<Longrightarrow>
   next_loop u s lines n = Some (oversized, ended s1)"
  by (simp add: next_loop.simps ended_def)

lemma next_loop_over:
  "scan_lines u s lines n = Inr (s1, l1, n1) \<Longrightarrow> n1 + length (tk_buf s1) \<le> MAX_EVENT_BYTES \<Longrightarrow> tk_done s1 \<Longrightarrow>
   next_loop u s lines n =
     (if l1 = [] then None else Some (Inr (parse_event l1), s1\<lparr>tk_scanned := length (tk_buf s1)\<rparr>))"
  by (simp add: next_loop.simps)

lemma next_loop_poll:
  "scan_lines u s lines n = Inr (s1, l1, n1) \<Longrightarrow> n1 + length (tk_buf s1) \<le> MAX_EVENT_BYTES \<Longrightarrow> \<not> tk_done s1 \<Longrightarrow>
   next_loop u s lines n =
     (case tk_bytes s1 of
        Inr chunk # rest \<Rightarrow>
          next_loop u (s1\<lparr>tk_scanned := length (tk_buf s1), tk_bytes := rest, tk_buf := tk_buf s1 @ chunk\<rparr>) l1 n1
      | Inl source # rest \<Rightarrow>
          Some (Inl (Transport ''reading response stream'' source), ended (s1\<lparr>tk_bytes := rest\<rparr>))
      | [] \<Rightarrow>
          next_loop u
            (s1\<lparr>tk_scanned := length (tk_buf s1), tk_done := True,
                tk_buf := (if tk_buf s1 \<noteq> [] then tk_buf s1 @ [nl] else tk_buf s1)\<rparr>) l1 n1)"
  by (subst next_loop.simps) (simp add: ended_def Let_def split: list.split sum.split)

lemma next_loop_done: "next_loop u s lines n = Some (x, s') \<Longrightarrow> tk_done s \<Longrightarrow> tk_done s'"
  using scan_lines_shrinks[of s u lines n]
  by (cases x) (auto simp: next_loop.simps[of u s] Let_def ended_def split: sum.splits prod.splits if_splits)

lemma next_loop_pending:
  "next_loop u s lines n = Some (x, s') \<Longrightarrow> \<not> tk_done s \<Longrightarrow> pending s' < pending s"
proof (induction "length (tk_bytes s)" arbitrary: s lines n rule: less_induct)
  case less
  show ?case
  proof (cases "scan_lines u s lines n")
    case (Inl p)
    with less.prems scan_lines_shrinks[of s u lines n] show ?thesis
      by (cases x) (auto simp: next_loop_item pending_def)
  next
    case (Inr q)
    obtain s1 l1 n1 where q: "q = (s1, l1, n1)" by (cases q)
    note scanned = Inr[unfolded q]
    from scan_lines_shrinks[of s u lines n] scanned less.prems
    have keep: "\<not> tk_done s1" "tk_bytes s1 = tk_bytes s" "length (tk_buf s1) \<le> length (tk_buf s)"
      by simp_all
    consider (capped) "MAX_EVENT_BYTES < n1 + length (tk_buf s1)"
      | (over) "n1 + length (tk_buf s1) \<le> MAX_EVENT_BYTES" "tk_bytes s = []"
      | (failed) source rest where "n1 + length (tk_buf s1) \<le> MAX_EVENT_BYTES" "tk_bytes s = Inl source # rest"
      | (chunk) c rest where "n1 + length (tk_buf s1) \<le> MAX_EVENT_BYTES" "tk_bytes s = Inr c # rest"
      by (cases "tk_bytes s"; metis le_less_linear old.sum.exhaust)
    then show ?thesis
    proof cases
      case capped
      with less.prems next_loop_capped[OF scanned] show ?thesis by (auto simp: pending_def ended_def)
    next
      case over
      with less.prems next_loop_poll[OF scanned] keep have "tk_done s'"
        by (auto dest!: next_loop_done)
      with less.prems show ?thesis by (simp add: pending_def)
    next
      case failed
      with less.prems next_loop_poll[OF scanned] keep show ?thesis by (auto simp: pending_def ended_def)
    next
      case chunk
      let ?s2 = "s1\<lparr>tk_scanned := length (tk_buf s1), tk_bytes := rest, tk_buf := tk_buf s1 @ c\<rparr>"
      from chunk less.prems next_loop_poll[OF scanned] keep
      have "next_loop u ?s2 l1 n1 = Some (x, s')" by simp
      with less.hyps[of ?s2] keep chunk have "pending s' < pending ?s2" by simp
      also have "pending ?s2 \<le> pending s" using keep chunk less.prems by (simp add: pending_def)
      finally show ?thesis .
    qed
  qed
qed

interpretation sse: finite_unfold "next_event u" pending "\<lambda>_. True" for u
  by unfold_locales (auto simp: next_event_def dest: next_loop_pending split: if_splits)

text \<open>An error is the last item: whatever emits one ends the stream with it.\<close>

lemma next_loop_error: "next_loop u s lines n = Some (Inl e, s') \<Longrightarrow> tk_done s'"
proof (induction u s lines n rule: next_loop.induct)
  case (1 u s lines n)
  then show ?case
    using scan_lines_shrinks[of s u lines n]
    by (subst (asm) (3) next_loop.simps)
      (auto simp: Let_def ended_def split: sum.splits prod.splits list.splits if_splits)
qed

lemma drain_error_last: "sse.drain u s = xs @ Inl e # ys \<Longrightarrow> ys = []"
proof (induction "pending s" arbitrary: s xs rule: less_induct)
  case less
  show ?case
  proof (cases "next_event u s")
    case None
    with less.prems show ?thesis by (simp add: sse.drain_None)
  next
    case (Some p)
    obtain x s' where p: "p = (x, s')" by (cases p)
    note d = sse.drain_Some[OF TrueI Some[unfolded p]]
    show ?thesis
    proof (cases xs)
      case Nil
      with less.prems d have "x = Inl e" "ys = sse.drain u s'" by simp_all
      moreover from this(1) Some p have "next_event u s' = None"
        by (auto simp: next_event_def split: if_splits dest: next_loop_error)
      ultimately show ?thesis by (simp add: sse.drain_None)
    next
      case (Cons y zs)
      with less.prems d have "sse.drain u s' = zs @ Inl e # ys" by simp
      with less.hyps sse.step_left[OF TrueI Some[unfolded p]] show ?thesis by blast
    qed
  qed
qed

section \<open>The tokenizer frames the body, however it was chunked\<close>

definition run :: "(string \<Rightarrow> string) \<Rightarrow> tokenizer_state \<Rightarrow> string list \<Rightarrow> nat \<Rightarrow> frame list" where
  "run u s lines n = (case next_loop u s lines n of None \<Rightarrow> [] | Some (x, s') \<Rightarrow> x # sse.drain u s')"

lemma drain_done: "tk_done s \<Longrightarrow> sse.drain u s = []"
  by (simp add: sse.drain_None next_event_def)

lemma drain_run: "\<not> tk_done s \<Longrightarrow> sse.drain u s = run u s [] 0"
  by (auto simp: run_def next_event_def sse.drain_None intro: sse.drain_Some split: option.split)

lemma fits_prefix:
  assumes "nl \<notin> set b" "fits n (raw_lines (b @ t))" "n \<le> MAX_EVENT_BYTES"
  shows "n + length b \<le> MAX_EVENT_BYTES"
proof (cases "split_once nl (b @ t)")
  case None
  then show ?thesis
    using assms raw_lines_last[of "b @ t"] by (cases "b @ t = []") auto
next
  case (Some p)
  then obtain l r where e: "b @ t = l @ nl # r" "nl \<notin> set l"
    by (cases p) (auto simp: split_once_Some_iff)
  then obtain l' where "l = b @ l'"
    using assms(1) by (auto simp: append_eq_append_conv2 append_eq_Cons_conv)
  with assms(2) e raw_lines_Cons[OF e(2), of r] show ?thesis by simp
qed

lemma raw_lines_terminated:
  "nl \<notin> set b \<Longrightarrow> raw_lines (if b \<noteq> [] then b @ [nl] else b) = raw_lines b"
  using raw_lines_Cons[of b "[]"] raw_lines_last[of b] by simp

lemma run_done:
  assumes "tk_done s" "tk_buf s = (if b \<noteq> [] then b @ [nl] else b)" "nl \<notin> set b"
    and ok: "scan_ok s lines n" "fits n (raw_lines (tk_buf s))"
  shows "run u s lines n = frames u lines (raw_lines (tk_buf s))"
proof -
  have post: "scan_post u [] s lines (scan_lines u s lines n)"
    using ok by (intro scan_lines_frames) simp_all
  have rest: "r = []" if "tk_buf s = pre @ nl # r" for pre r
    using that assms(2,3)
    by (cases r rule: rev_cases) (auto split: if_splits simp: append_eq_Cons_conv)
  show ?thesis
  proof (cases "scan_lines u s lines n")
    case (Inl p)
    obtain x s' where p: "p = (x, s')" by (cases p)
    show ?thesis
    proof (cases x)
      case (Inl e)
      with post \<open>scan_lines _ _ _ _ = Inl p\<close> p show ?thesis
        by (simp add: run_def next_loop_item drain_done)
    next
      case (Inr d)
      with post \<open>scan_lines _ _ _ _ = Inl p\<close> p have "tk_buf s' = []" "tk_done s'"
        "frames u lines (raw_lines (tk_buf s)) = Inr d # frames u [] (raw_lines (tk_buf s'))"
        using rest assms(1) by auto
      with \<open>scan_lines _ _ _ _ = Inl p\<close> p Inr show ?thesis
        by (simp add: run_def next_loop_item drain_done)
    qed
  next
    case (Inr q)
    obtain s1 l1 n1 where q: "q = (s1, l1, n1)" by (cases q)
    note scanned = Inr[unfolded q]
    from post scanned have f: "frames u lines (raw_lines (tk_buf s)) = frames u l1 (raw_lines (tk_buf s1))"
      "n1 \<le> MAX_EVENT_BYTES" "nl \<notin> set (tk_buf s1)" "tk_done s1"
      "tk_buf s1 = tk_buf s \<or> (\<exists>pre. tk_buf s = pre @ nl # tk_buf s1)"
      using assms(1) by simp_all
    from f(5) have "tk_buf s1 = []"
    proof
      assume "tk_buf s1 = tk_buf s"
      with f(3) assms(2) show ?thesis by (cases "b = []") simp_all
    qed (use rest in blast)
    with f next_loop_over[OF scanned] show ?thesis
      by (simp add: run_def drain_done)
  qed
qed

lemma run_frames:
  assumes "\<not> tk_done s" "tk_bytes s = map Inr chunks"
    and "scan_ok s lines n" "fits n (raw_lines (tk_buf s @ concat chunks))"
  shows "run u s lines n = frames u lines (raw_lines (tk_buf s @ concat chunks))"
  using assms
proof (induction "pending s + length (tk_bytes s)" arbitrary: s lines n chunks rule: less_induct)
  case less
  have post: "scan_post u (concat chunks) s lines (scan_lines u s lines n)"
    using less.prems by (intro scan_lines_frames) simp_all
  show ?case
  proof (cases "scan_lines u s lines n")
    case (Inl p)
    obtain x s' where p: "p = (x, s')" by (cases p)
    note item = next_loop_item[OF Inl, unfolded p]
    show ?thesis
    proof (cases x)
      case (Inl e)
      with post \<open>scan_lines _ _ _ _ = Inl p\<close> p show ?thesis
        by (simp add: run_def item drain_done)
    next
      case (Inr d)
      with post \<open>scan_lines _ _ _ _ = Inl p\<close> p
      have f: "frames u lines (raw_lines (tk_buf s @ concat chunks)) =
            Inr d # frames u [] (raw_lines (tk_buf s' @ concat chunks))"
        and s': "fits 0 (raw_lines (tk_buf s' @ concat chunks))" "scan_ok s' [] 0"
          "tk_bytes s' = tk_bytes s" "\<not> tk_done s'"
        using less.prems(1) by simp_all
      have "pending s' < pending s" using item less.prems(1) by (rule next_loop_pending)
      then have "run u s' [] 0 = frames u [] (raw_lines (tk_buf s' @ concat chunks))"
        using s' less.prems(2) by (intro less.hyps) simp_all
      with f Inr s'(4) show ?thesis by (simp add: run_def item drain_run)
    qed
  next
    case (Inr q)
    obtain s1 l1 n1 where q: "q = (s1, l1, n1)" by (cases q)
    note scanned = Inr[unfolded q]
    from post scanned have f:
      "frames u lines (raw_lines (tk_buf s @ concat chunks)) = frames u l1 (raw_lines (tk_buf s1 @ concat chunks))"
      and s1: "fits n1 (raw_lines (tk_buf s1 @ concat chunks))" "l1 = [] \<longrightarrow> n1 = 0" "n1 \<le> MAX_EVENT_BYTES"
        "nl \<notin> set (tk_buf s1)" "tk_bytes s1 = tk_bytes s" "\<not> tk_done s1"
      using less.prems(1) by simp_all
    have cap: "n1 + length (tk_buf s1) \<le> MAX_EVENT_BYTES" using s1 by (intro fits_prefix)
    note poll = next_loop_poll[OF scanned cap s1(6)]
    show ?thesis
    proof (cases chunks)
      case Nil
      let ?s2 = "s1\<lparr>tk_scanned := length (tk_buf s1), tk_done := True,
          tk_buf := (if tk_buf s1 \<noteq> [] then tk_buf s1 @ [nl] else tk_buf s1)\<rparr>"
      have "run u s lines n = run u ?s2 l1 n1"
        using poll Nil s1(5) less.prems(2) by (simp add: run_def)
      also have "\<dots> = frames u l1 (raw_lines (tk_buf ?s2))"
        using s1 Nil raw_lines_terminated[OF s1(4)]
        by (intro run_done[where b = "tk_buf s1"]) (auto simp: scan_ok_def)
      finally show ?thesis using f Nil raw_lines_terminated[OF s1(4)] by simp
    next
      case (Cons c rest)
      let ?s2 = "s1\<lparr>tk_scanned := length (tk_buf s1), tk_bytes := map Inr rest, tk_buf := tk_buf s1 @ c\<rparr>"
      from scan_lines_shrinks[of s u lines n] scanned have "length (tk_buf s1) \<le> length (tk_buf s)" by simp
      then have "pending ?s2 \<le> pending s"
        using s1(5,6) less.prems(1,2) Cons by (simp add: pending_def)
      then have "run u ?s2 l1 n1 = frames u l1 (raw_lines (tk_buf ?s2 @ concat rest))"
        using s1 less.prems(1,2) Cons by (intro less.hyps) (simp_all add: scan_ok_def)
      moreover have "run u s lines n = run u ?s2 l1 n1"
        using poll Cons s1(5) less.prems(2) by (simp add: run_def)
      ultimately show ?thesis using f Cons by simp
    qed
  qed
qed

text \<open>
  C15. However the transport cuts the body into chunks, inside a line or inside a character, the
  stream yields exactly the frames the body's lines spell, an unterminated last line included,
  provided no single event exceeds the cap; and it ends after finitely many polls.
\<close>

theorem tokenize_chunking:
  assumes "fits 0 (raw_lines (concat chunks))" "pending (tokenize_start (map Inr chunks)) < fuel"
  shows "unfold_fuel fuel (next_event u) (tokenize_start (map Inr chunks)) =
           Some (frames u [] (raw_lines (concat chunks)))"
proof -
  let ?s = "tokenize_start (map Inr chunks)"
  have "sse.drain u ?s = run u ?s [] 0" by (rule drain_run) (simp add: tokenize_start_def)
  also have "\<dots> = frames u [] (raw_lines (concat chunks))"
    using run_frames[of ?s chunks "[]" 0 u] assms(1) by (simp add: tokenize_start_def scan_ok_def)
  finally show ?thesis using sse.drain_fuel[OF TrueI assms(2)] by simp
qed

theorem tokenize_chunking_witness:
  "unfold_fuel 30 (next_event (\<lambda>_. ''bad'')) (tokenize_start [Inr ''da'', Inr (''ta: a'' @ [cr]), Inr [nl, nl], Inr ''data:b'']) =
     Some (frames (\<lambda>_. ''bad'') [] [''data: a'' @ [cr], [], ''data:b''])"
proof -
  have r: "raw_lines (concat [''da'', ''ta: a'' @ [cr], [nl, nl], ''data:b'']) = [''data: a'' @ [cr], [], ''data:b'']"
    by code_simp
  show ?thesis
    using tokenize_chunking[of "[''da'', ''ta: a'' @ [cr], [nl, nl], ''data:b'']" 30 "\<lambda>_. ''bad''"]
    unfolding r by (simp add: pending_def tokenize_start_def strip_cr_def MAX_EVENT_BYTES_def)
qed

text \<open>
  C27. Whatever the transport does, errors included, the stream ends, within one poll per byte
  and two more, and nothing follows an error: only the last item can be one.
\<close>

theorem tokenize_ends:
  "\<exists>items. unfold_fuel (Suc (pending s)) (next_event u) s = Some items \<and> list_all (\<lambda>item. \<not> isl item) (butlast items)"
proof -
  have "\<not> isl x" if "x \<in> set (butlast (sse.drain u s))" for x
  proof (cases x)
    case (Inl e)
    with that obtain xs zs where "butlast (sse.drain u s) = xs @ Inl e # zs" by (metis split_list)
    moreover from that have "sse.drain u s \<noteq> []" by auto
    ultimately have "sse.drain u s = xs @ Inl e # zs @ [last (sse.drain u s)]"
      by (metis append.assoc append_Cons append_butlast_last_id)
    then show ?thesis using drain_error_last by blast
  qed simp
  moreover have "unfold_fuel (Suc (pending s)) (next_event u) s = Some (sse.drain u s)"
    by (rule sse.drain_fuel) simp_all
  ultimately show ?thesis by (auto simp: list_all_iff)
qed

text \<open>No frame is longer than its lines, which the cap bounds.\<close>

lemma trim_start_length: "length (trim_start s) \<le> length s"
proof (induction s rule: trim_start.induct)
  case (1 s)
  then show ?case by (subst trim_start.simps) force
qed

lemma parse_event_length: "length (parse_event lines) \<le> sum_list (map length lines)"
proof (induction lines)
  case (Cons l lines)
  show ?case
  proof (cases "strip_prefix ''data:'' l")
    case (Some r)
    then have "length l = length r + 5" by (auto simp: strip_prefix_Some_iff)
    with Some Cons trim_start_length[of r] show ?thesis
      by (cases "List.map_filter (strip_prefix ''data:'') lines")
        (auto simp: parse_event_def List.map_filter_simps)
  qed (use Cons in \<open>simp add: parse_event_def List.map_filter_simps\<close>)
qed (simp add: parse_event_def List.map_filter_simps)

fun sized :: "(frame \<times> tokenizer_state) + (tokenizer_state \<times> string list \<times> nat) \<Rightarrow> bool" where
  "sized (Inl (Inl e, s')) = True"
| "sized (Inl (Inr d, s')) = (length d \<le> MAX_EVENT_BYTES)"
| "sized (Inr (s', lines, n)) = (n = sum_list (map length lines) \<and> n \<le> MAX_EVENT_BYTES)"

lemma scan_lines_sized:
  "n = sum_list (map length lines) \<Longrightarrow> n \<le> MAX_EVENT_BYTES \<Longrightarrow> sized (scan_lines u s lines n)"
proof (induction s lines n rule: scan_induct)
  case (none s lines n)
  then show ?case by (simp add: scan_lines_None)
next
  case (some s lines n i s1)
  define l where "l = strip_cr (take (tk_scanned s + i) (tk_buf s))"
  show ?case
    using parse_event_length[of lines] some(3)[of n lines] some(3)[of "n + length l" "lines @ [l]"] some(4,5)
    unfolding scan_lines_Some[OF some(1) l_def some(2)] by (cases "lines = []") (auto simp: oversized_def)
qed

lemma next_loop_sized:
  "next_loop u s lines n = Some (Inr d, s') \<Longrightarrow> n = sum_list (map length lines) \<Longrightarrow> n \<le> MAX_EVENT_BYTES \<Longrightarrow>
   length d \<le> MAX_EVENT_BYTES"
proof (induction "length (tk_bytes s) + (if tk_done s then 0 else 1)" arbitrary: s lines n rule: less_induct)
  case less
  note sz = scan_lines_sized[OF less.prems(2,3), of u s]
  show ?case
  proof (cases "scan_lines u s lines n")
    case (Inl p)
    with less.prems(1) sz show ?thesis by (simp add: next_loop_item)
  next
    case (Inr q)
    obtain s1 l1 n1 where q: "q = (s1, l1, n1)" by (cases q)
    note scanned = Inr[unfolded q]
    have n1: "n1 = sum_list (map length l1)" "n1 \<le> MAX_EVENT_BYTES" using sz scanned by simp_all
    from scan_lines_shrinks[of s u lines n] scanned
    have keep: "tk_done s1 = tk_done s" "tk_bytes s1 = tk_bytes s" by simp_all
    show ?thesis
    proof (cases "MAX_EVENT_BYTES < n1 + length (tk_buf s1)")
      case True
      with less.prems(1) next_loop_capped[OF scanned] show ?thesis by (simp add: oversized_def)
    next
      case cap: False
      show ?thesis
      proof (cases "tk_done s1")
        case True
        with cap less.prems(1) next_loop_over[OF scanned] have "d = parse_event l1"
          by (auto split: if_splits)
        with n1 parse_event_length[of l1] show ?thesis by simp
      next
        case False
        with cap have "n1 + length (tk_buf s1) \<le> MAX_EVENT_BYTES" by simp
        note poll = next_loop_poll[OF scanned this False]
        show ?thesis
          using less.prems(1) keep False n1 unfolding poll
          by (auto split: list.splits sum.splits dest!: less.hyps[rotated])
      qed
    qed
  qed
qed

text \<open>
  The framing is bounded: no frame it yields is longer than the cap on one event, whatever
  the transport hands over.
\<close>

lemma next_event_bounded:
  assumes "next_event u s = Some (Inr d, s')"
  shows "length d \<le> MAX_EVENT_BYTES"
  using assms next_loop_sized[of u s "[]" 0 d s'] by (auto simp: next_event_def split: if_splits)

lemma next_event_example:
  "next_event (\<lambda>_. []) (tokenize_start [Inr (''data:x'' @ [nl, nl])]) =
     Some (Inr ''x'', \<lparr>tk_bytes = [], tk_buf = [], tk_scanned = 0, tk_done = False\<rparr>)"
proof -
  have start: "scan_lines u (tokenize_start bs) [] 0 = Inr (tokenize_start bs, [], 0)" for u bs
    by (simp add: scan_lines.simps tokenize_start_def)
  let ?s = "\<lparr>tk_bytes = [], tk_buf = ''data:x'' @ [nl, nl], tk_scanned = 0, tk_done = False\<rparr>"
  have "scan_lines (\<lambda>_. []) ?s [] 0 = Inl (Inr ''x'', \<lparr>tk_bytes = [], tk_buf = [], tk_scanned = 0, tk_done = False\<rparr>)"
    by (simp add: scan_lines.simps Let_def strip_cr_def utf8_valid_ascii_Cons MAX_EVENT_BYTES_def
        parse_event_def List.map_filter_simps trim_start.simps ws_width_def)
  then have "next_loop (\<lambda>_. []) ?s [] 0 = Some (Inr ''x'', \<lparr>tk_bytes = [], tk_buf = [], tk_scanned = 0, tk_done = False\<rparr>)"
    by (rule next_loop_item)
  then show ?thesis
    using next_loop_poll[OF start] by (simp add: next_event_def tokenize_start_def)
qed

lemma next_event_bounded_witness: "length ''x'' \<le> MAX_EVENT_BYTES"
  using next_event_bounded[OF next_event_example] by simp

end
