(* ===== verification/Wire.thy ===== *)
theory Wire
  imports Sse
begin

text \<open>
  The frames of one model turn folded into agent events (\<open>anthropic_wire_payload.rs\<close> and
  \<open>anthropic_wire_accumulate.rs\<close> of \<open>sandbx-anthropic\<close>). \<open>serde_json\<close> is not the program's: how a
  frame and a tool input parse, and the empty object, are the fields of a codec.
\<close>

section \<open>Payloads\<close>

record raw_usage =
  ru_input_tokens :: "u32 option"
  ru_output_tokens :: "u32 option"
  ru_cache_creation_input_tokens :: "u32 option"
  ru_cache_read_input_tokens :: "u32 option"

datatype raw_content_block_start =
    RawText string
  | RawThinking string
  | RawRedactedThinking string
  | RawToolUse string string
  | RawUnknownBlock

datatype raw_delta =
    TextDelta string
  | ThinkingDelta string
  | SignatureDelta string
  | InputJsonDelta string
  | UnknownDelta

datatype raw_message_start = RawMessageStart (rms_usage: raw_usage)
datatype raw_message_delta = RawMessageDelta (rmd_stop_reason: "string option")

record raw_api_error_body =
  rae_kind :: string
  rae_message :: string

datatype raw_stream_event =
    MessageStart raw_message_start
  | ContentBlockStart u32 raw_content_block_start
  | ContentBlockDelta u32 raw_delta
  | ContentBlockStop u32
  | MessageDelta raw_message_delta raw_usage
  | MessageStop
  | Ping
  | ErrorEvent raw_api_error_body
  | UnknownEvent

record 'v wire_codec =
  wc_frame :: "string \<Rightarrow> string + raw_stream_event"
  wc_json :: "string \<Rightarrow> string + 'v"
  wc_object :: 'v

section \<open>Accumulation\<close>

definition default_usage :: raw_usage where
  "default_usage = \<lparr>ru_input_tokens = None, ru_output_tokens = None,
     ru_cache_creation_input_tokens = None, ru_cache_read_input_tokens = None\<rparr>"

definition stop_reason_of :: "string \<Rightarrow> stop_reason" where
  "stop_reason_of value' =
     (if value' = ''end_turn'' then EndTurn
      else if value' = ''tool_use'' then StopToolUse
      else if value' = ''max_tokens'' then MaxTokens
      else if value' = ''stop_sequence'' then StopSequence
      else OtherReason value')"

datatype open_block =
    OpenToolUse string string string
  | OpenThinking string "string option"

type_synonym 'v wire_item = "provider_error + 'v agent_event"

record 'v wire_state =
  ws_raw :: "(provider_error + string) list"
  ws_blocks :: "(u32 \<times> open_block) list"
  ws_usage :: raw_usage
  ws_stop_reason :: "stop_reason option"
  ws_pending :: "'v wire_item list"
  ws_ended :: bool

definition event_stream_start :: "(provider_error + string) list \<Rightarrow> 'v wire_state" where
  "event_stream_start raw =
     \<lparr>ws_raw = raw, ws_blocks = [], ws_usage = default_usage, ws_stop_reason = None,
      ws_pending = [], ws_ended = False\<rparr>"

definition or_else :: "'a option \<Rightarrow> 'a option \<Rightarrow> 'a option" where
  "or_else a b = (case a of Some x \<Rightarrow> Some x | None \<Rightarrow> b)"

definition absorb_usage :: "raw_usage \<Rightarrow> raw_usage \<Rightarrow> raw_usage" where
  "absorb_usage u newer =
     \<lparr>ru_input_tokens = or_else (ru_input_tokens newer) (ru_input_tokens u),
      ru_output_tokens = or_else (ru_output_tokens newer) (ru_output_tokens u),
      ru_cache_creation_input_tokens =
        or_else (ru_cache_creation_input_tokens newer) (ru_cache_creation_input_tokens u),
      ru_cache_read_input_tokens =
        or_else (ru_cache_read_input_tokens newer) (ru_cache_read_input_tokens u)\<rparr>"

definition reported :: "raw_usage \<Rightarrow> bool" where
  "reported u = (u \<noteq> default_usage)"

definition push_item :: "'v wire_item \<Rightarrow> 'v wire_state \<Rightarrow> 'v wire_state" where
  "push_item x s = s\<lparr>ws_pending := ws_pending s @ [x]\<rparr>"

definition push_usage :: "'v wire_state \<Rightarrow> 'v wire_state" where
  "push_usage s =
     (if \<not> reported (ws_usage s) then s
      else push_item (Inr (EvUsage (ru_input_tokens (ws_usage s)) (ru_output_tokens (ws_usage s))
                 (ru_cache_creation_input_tokens (ws_usage s)) (ru_cache_read_input_tokens (ws_usage s))))
             (s\<lparr>ws_usage := default_usage\<rparr>))"

definition tool_call_event ::
  "'v wire_codec \<Rightarrow> u32 \<Rightarrow> string \<Rightarrow> string \<Rightarrow> string \<Rightarrow> 'v wire_item" where
  "tool_call_event c index id' name partial_json =
     (if blank partial_json then Inr (EvToolCallRequested id' name (wc_object c))
      else (case wc_json c partial_json of
          Inl source \<Rightarrow>
            Inl (MalformedEvent (''tool_use input for block '' @ dec_nat (unat index) @ '': '' @ source))
        | Inr input \<Rightarrow> Inr (EvToolCallRequested id' name input)))"

fun closed_block_event :: "'v wire_codec \<Rightarrow> u32 \<Rightarrow> open_block \<Rightarrow> 'v wire_item option" where
  "closed_block_event c index (OpenToolUse id' name partial_json) =
     Some (tool_call_event c index id' name partial_json)"
| "closed_block_event c index (OpenThinking txt signature) =
     (case signature of
        None \<Rightarrow> None
      | Some value' \<Rightarrow> if value' = [] then None else Some (Inr (EvThinkingBlock txt value')))"

definition flush_open_blocks :: "'v wire_codec \<Rightarrow> 'v wire_state \<Rightarrow> 'v wire_state" where
  "flush_open_blocks c s =
     s\<lparr>ws_blocks := [],
       ws_pending := ws_pending s
         @ List.map_filter (\<lambda>(index, block). closed_block_event c index block) (ws_blocks s)\<rparr>"

text \<open>The four arms of a block's start, the five of a delta, and the match over the events.\<close>

fun on_block_start :: "u32 \<Rightarrow> raw_content_block_start \<Rightarrow> 'v wire_state \<Rightarrow> 'v wire_state" where
  "on_block_start index (RawToolUse id' name) s =
     s\<lparr>ws_blocks := bt_insert index (OpenToolUse id' name []) (ws_blocks s)\<rparr>"
| "on_block_start index (RawThinking thinking) s =
     s\<lparr>ws_blocks := bt_insert index (OpenThinking thinking None) (ws_blocks s)\<rparr>"
| "on_block_start index (RawRedactedThinking data) s =
     push_item (Inr (EvRedactedThinking data)) (s\<lparr>ws_blocks := bt_remove index (ws_blocks s)\<rparr>)"
| "on_block_start index (RawText _) s = s\<lparr>ws_blocks := bt_remove index (ws_blocks s)\<rparr>"
| "on_block_start index RawUnknownBlock s = s\<lparr>ws_blocks := bt_remove index (ws_blocks s)\<rparr>"

text \<open>\<open>get_mut\<close>: an open block is changed where it stands.\<close>

definition with_block :: "u32 \<Rightarrow> (open_block \<Rightarrow> open_block) \<Rightarrow> 'v wire_state \<Rightarrow> 'v wire_state" where
  "with_block index f s =
     s\<lparr>ws_blocks := map (\<lambda>(i, b). (i, if i = index then f b else b)) (ws_blocks s)\<rparr>"

fun on_delta :: "u32 \<Rightarrow> raw_delta \<Rightarrow> 'v wire_state \<Rightarrow> 'v wire_state" where
  "on_delta index (TextDelta txt) s = push_item (Inr (EvText txt)) s"
| "on_delta index (ThinkingDelta thinking) s =
     push_item (Inr (EvThinking thinking))
       (with_block index (\<lambda>b. case b of OpenThinking txt sig \<Rightarrow> OpenThinking (txt @ thinking) sig | _ \<Rightarrow> b) s)"
| "on_delta index (SignatureDelta value') s =
     with_block index (\<lambda>b. case b of
         OpenThinking txt sig \<Rightarrow>
           OpenThinking txt (Some ((case sig of None \<Rightarrow> [] | Some held \<Rightarrow> held) @ value'))
       | _ \<Rightarrow> b) s"
| "on_delta index (InputJsonDelta partial_json) s =
     with_block index (\<lambda>b. case b of
         OpenToolUse id' name buffered \<Rightarrow> OpenToolUse id' name (buffered @ partial_json)
       | _ \<Rightarrow> b) s"
| "on_delta index UnknownDelta s = s"

fun on_event :: "'v wire_codec \<Rightarrow> 'v wire_state \<Rightarrow> raw_stream_event \<Rightarrow> 'v wire_state" where
  "on_event c s (MessageStart msg) = s\<lparr>ws_usage := absorb_usage (ws_usage s) (rms_usage msg)\<rparr>"
| "on_event c s (ContentBlockStart index block) = on_block_start index block s"
| "on_event c s (ContentBlockDelta index delta) = on_delta index delta s"
| "on_event c s (ContentBlockStop index) =
     (case map_of (ws_blocks s) index of
        None \<Rightarrow> s
      | Some block \<Rightarrow>
          let s' = s\<lparr>ws_blocks := bt_remove index (ws_blocks s)\<rparr>
          in (case closed_block_event c index block of None \<Rightarrow> s' | Some event \<Rightarrow> push_item event s'))"
| "on_event c s (MessageDelta delta newer) =
     (let s' = s\<lparr>ws_usage := absorb_usage (ws_usage s) newer\<rparr>
      in case rmd_stop_reason delta of
           None \<Rightarrow> s'
         | Some reason \<Rightarrow> s'\<lparr>ws_stop_reason := Some (stop_reason_of reason)\<rparr>)"
| "on_event c s MessageStop =
     (let s' = push_usage (flush_open_blocks c (s\<lparr>ws_ended := True\<rparr>))
      in push_item (Inr (EvStop (case ws_stop_reason s' of None \<Rightarrow> Unspecified | Some r \<Rightarrow> r)))
           (s'\<lparr>ws_stop_reason := None\<rparr>))"
| "on_event c s Ping = s"
| "on_event c s UnknownEvent = s"
| "on_event c s (ErrorEvent body) =
     push_item (Inl (ApiError None (rae_kind body) (rae_message body))) (push_usage (s\<lparr>ws_ended := True\<rparr>))"

text \<open>One turn of the loop that found nothing pending and the stream not ended.\<close>

definition pump :: "'v wire_codec \<Rightarrow> 'v wire_state \<Rightarrow> 'v wire_state" where
  "pump c s =
     (case ws_raw s of
        [] \<Rightarrow> push_item (Inl StreamEndedUnexpectedly) (push_usage (s\<lparr>ws_ended := True\<rparr>))
      | Inl error # rest \<Rightarrow>
          push_item (Inl error) (push_usage (s\<lparr>ws_raw := rest, ws_ended := True\<rparr>))
      | Inr data # rest \<Rightarrow>
          let s' = s\<lparr>ws_raw := rest\<rparr>
          in if blank data then s'
             else (case wc_frame c data of
                 Inl source \<Rightarrow>
                   push_item (Inl (MalformedEvent (''unrecognized stream event: '' @ source)))
                     (s'\<lparr>ws_ended := True\<rparr>)
               | Inr parsed \<Rightarrow> on_event c s' parsed))"

lemma push_simps [simp]:
  "ws_raw (push_item x s) = ws_raw s" "ws_ended (push_item x s) = ws_ended s"
  "ws_blocks (push_item x s) = ws_blocks s" "ws_usage (push_item x s) = ws_usage s"
  "ws_pending (push_item x s) = ws_pending s @ [x]"
  by (simp_all add: push_item_def)

lemma push_usage_simps [simp]:
  "ws_raw (push_usage s) = ws_raw s" "ws_ended (push_usage s) = ws_ended s"
  "ws_blocks (push_usage s) = ws_blocks s"
  by (simp_all add: push_usage_def)

lemma flush_simps [simp]:
  "ws_raw (flush_open_blocks c s) = ws_raw s" "ws_ended (flush_open_blocks c s) = ws_ended s"
  "ws_usage (flush_open_blocks c s) = ws_usage s"
  "ws_stop_reason (flush_open_blocks c s) = ws_stop_reason s" "ws_blocks (flush_open_blocks c s) = []"
  by (simp_all add: flush_open_blocks_def)

lemma with_block_simps [simp]:
  "ws_raw (with_block i f s) = ws_raw s" "ws_ended (with_block i f s) = ws_ended s"
  "ws_pending (with_block i f s) = ws_pending s" "length (ws_blocks (with_block i f s)) = length (ws_blocks s)"
  by (simp_all add: with_block_def)

lemma on_block_start_simps [simp]:
  "ws_raw (on_block_start i b s) = ws_raw s" "ws_ended (on_block_start i b s) = ws_ended s"
  "ws_usage (on_block_start i b s) = ws_usage s"
  by (cases b; simp)+

lemma on_delta_simps [simp]:
  "ws_raw (on_delta i d s) = ws_raw s" "ws_ended (on_delta i d s) = ws_ended s"
  "length (ws_blocks (on_delta i d s)) = length (ws_blocks s)"
  by (cases d; simp)+

lemma on_event_raw [simp]: "ws_raw (on_event c s e) = ws_raw s"
  by (cases e) (auto simp: Let_def flush_open_blocks_def split: option.split)

text \<open>What may still be emitted bounds the stream; every turn of the loop keeps within it.\<close>

definition wire_left :: "'v wire_state \<Rightarrow> nat" where
  "wire_left s = length (ws_pending s)
     + (if ws_ended s then 0 else 2 + length (ws_blocks s) + 2 * length (ws_raw s))"

lemma bt_remove_found: "map_of m k = Some v \<Longrightarrow> length (bt_remove k m) < length m"
  unfolding bt_remove_def by (rule length_filter_less[of "(k, v)"]) (auto dest: map_of_SomeD)

lemma map_filter_length: "length (List.map_filter f xs) \<le> length xs"
  by (induction xs) (auto simp: List.map_filter_simps split: option.split)

lemma push_usage_length: "length (ws_pending (push_usage s)) \<le> Suc (length (ws_pending s))"
  by (simp add: push_usage_def)

lemma on_event_left:
  "\<not> ws_ended s \<Longrightarrow> wire_left (on_event c s e) \<le> 2 + wire_left s"
proof (cases e)
  case (ContentBlockStart i b)
  then show "\<not> ws_ended s \<Longrightarrow> ?thesis"
    using bt_remove_length[of i "ws_blocks s"]
    by (cases b) (auto simp: wire_left_def intro: le_trans[OF bt_insert_length])
next
  case (ContentBlockDelta i d)
  then show "\<not> ws_ended s \<Longrightarrow> ?thesis" by (cases d) (auto simp: wire_left_def)
next
  case (ContentBlockStop i)
  then show "\<not> ws_ended s \<Longrightarrow> ?thesis"
    using bt_remove_found[of "ws_blocks s" i] bt_remove_length[of i "ws_blocks s"]
    by (force simp: wire_left_def Let_def split: option.split)
next
  case MessageStop
  then show "\<not> ws_ended s \<Longrightarrow> ?thesis"
    using push_usage_length[of "flush_open_blocks c (s\<lparr>ws_ended := True\<rparr>)"]
      map_filter_length[of "\<lambda>(index, block). closed_block_event c index block" "ws_blocks s"]
    by (simp add: wire_left_def Let_def flush_open_blocks_def)
next
  case (ErrorEvent b)
  then show "\<not> ws_ended s \<Longrightarrow> ?thesis"
    using push_usage_length[of "s\<lparr>ws_ended := True\<rparr>"] by (simp add: wire_left_def Let_def)
qed (auto simp: wire_left_def Let_def split: option.split)

lemma pump_left: "\<not> ws_ended s \<Longrightarrow> wire_left (pump c s) \<le> wire_left s"
proof -
  assume open_: "\<not> ws_ended s"
  show ?thesis
  proof (cases "ws_raw s")
    case Nil
    then show ?thesis
      using open_ push_usage_length[of "s\<lparr>ws_ended := True\<rparr>"] by (simp add: pump_def wire_left_def)
  next
    case (Cons r rest)
    have "wire_left (s\<lparr>ws_raw := rest\<rparr>) + 2 \<le> wire_left s"
      using open_ Cons by (simp add: wire_left_def)
    moreover have "wire_left (on_event c (s\<lparr>ws_raw := rest\<rparr>) e) \<le> 2 + wire_left (s\<lparr>ws_raw := rest\<rparr>)" for e
      using open_ by (intro on_event_left) simp
    ultimately show ?thesis
      using Cons open_ push_usage_length[of "s\<lparr>ws_raw := rest, ws_ended := True\<rparr>"]
      by (cases r) (auto simp: pump_def Let_def wire_left_def[of "push_item _ _"] wire_left_def[of s]
          split: sum.split intro: le_trans)
  qed
qed

lemma pump_consumes: "\<not> ws_ended s \<Longrightarrow> ws_ended (pump c s) \<or> length (ws_raw (pump c s)) < length (ws_raw s)"
  by (auto simp: pump_def Let_def split: list.split sum.split)

function next_agent_event :: "'v wire_codec \<Rightarrow> 'v wire_state \<Rightarrow> ('v wire_item \<times> 'v wire_state) option" where
  "next_agent_event c s =
     (case ws_pending s of
        event # rest \<Rightarrow> Some (event, s\<lparr>ws_pending := rest\<rparr>)
      | [] \<Rightarrow> if ws_ended s then None else next_agent_event c (pump c s))"
  by pat_completeness auto
termination
  by (relation "measure (\<lambda>(_, s). if ws_ended s then 0 else Suc (length (ws_raw s)))")
    (use pump_consumes in \<open>force+\<close>)

declare next_agent_event.simps [simp del]

lemma next_agent_event_left: "next_agent_event c s = Some (x, s') \<Longrightarrow> wire_left s' < wire_left s"
proof (induction c s rule: next_agent_event.induct)
  case (1 c s)
  show ?case
  proof (cases "ws_pending s")
    case Nil
    with 1(2) have "\<not> ws_ended s" "next_agent_event c (pump c s) = Some (x, s')"
      by (auto simp: next_agent_event.simps[of c s] split: if_splits)
    with 1(1)[OF Nil] pump_left[of s c] show ?thesis by simp
  next
    case (Cons y ys)
    with 1(2) show ?thesis by (auto simp: next_agent_event.simps[of c s] wire_left_def)
  qed
qed

interpretation wire: finite_unfold "next_agent_event c" wire_left "\<lambda>_. True" for c
  by unfold_locales (auto dest: next_agent_event_left)

lemma drain_pending:
  "wire.drain c s = ws_pending s @ (if ws_ended s then [] else wire.drain c (pump c (s\<lparr>ws_pending := []\<rparr>)))"
proof (induction "ws_pending s" arbitrary: s)
  case Nil
  then have s: "s\<lparr>ws_pending := []\<rparr> = s" by simp
  show ?case
  proof (cases "ws_ended s")
    case True
    then have "next_agent_event c s = None"
      by (simp add: next_agent_event.simps[of c s] flip: Nil)
    then show ?thesis using True by (simp add: wire.drain_None flip: Nil)
  next
    case False
    then have "next_agent_event c s = next_agent_event c (pump c s)"
      by (simp add: next_agent_event.simps[of c s] flip: Nil)
    then have "wire.drain c s = wire.drain c (pump c s)" by (intro wire.drain_cong) simp_all
    then show ?thesis unfolding s using False Nil by simp
  qed
next
  case (Cons x xs)
  then have "next_agent_event c s = Some (x, s\<lparr>ws_pending := xs\<rparr>)"
    by (simp add: next_agent_event.simps[of c s] flip: Cons.hyps(2))
  with Cons show ?case by (simp add: wire.drain_Some flip: Cons.hyps(2))
qed

text \<open>
  What the queue holds after one turn of the loop: ordinary items while the stream goes on, and
  when it ends, ordinary items, at most one report of usage, and the one item that ends it.
\<close>

fun ordinary :: "'v wire_item \<Rightarrow> bool" where
  "ordinary (Inr (EvStop _)) = False"
| "ordinary (Inr (EvUsage _ _ _ _)) = False"
| "ordinary _ = True"

fun terminal :: "'v wire_item \<Rightarrow> bool" where
  "terminal (Inl _) = True"
| "terminal (Inr (EvStop _)) = True"
| "terminal _ = False"

fun is_usage :: "'v wire_item \<Rightarrow> bool" where
  "is_usage (Inr (EvUsage _ _ _ _)) = True"
| "is_usage _ = False"

fun is_stop :: "'v wire_item \<Rightarrow> bool" where
  "is_stop (Inr (EvStop _)) = True"
| "is_stop _ = False"

definition turn_of :: "'v wire_item list \<Rightarrow> bool" where
  "turn_of items \<longleftrightarrow> (\<exists>body report final. items = body @ report @ [final]
     \<and> list_all ordinary body \<and> (report = [] \<or> (\<exists>u. report = [u] \<and> is_usage u)) \<and> terminal final)"

lemma turn_of_append: "list_all ordinary xs \<Longrightarrow> turn_of ys \<Longrightarrow> turn_of (xs @ ys)"
  unfolding turn_of_def
proof (elim exE conjE)
  fix body report final
  assume "list_all ordinary xs" "ys = body @ report @ [final]" "list_all ordinary body"
    "report = [] \<or> (\<exists>u. report = [u] \<and> is_usage u)" "terminal final"
  then show "\<exists>body report final. xs @ ys = body @ report @ [final]
     \<and> list_all ordinary body \<and> (report = [] \<or> (\<exists>u. report = [u] \<and> is_usage u)) \<and> terminal final"
    by (intro exI[of _ "xs @ body"] exI[of _ report] exI[of _ final]) simp
qed

lemma turn_of_single: "terminal x \<Longrightarrow> turn_of [x]"
  unfolding turn_of_def by (rule exI[of _ "[]"]) simp

lemma ordinary_closed: "closed_block_event c i b = Some x \<Longrightarrow> ordinary x"
  by (cases "(c, i, b)" rule: closed_block_event.cases)
    (auto simp: tool_call_event_def split: option.splits if_splits sum.splits)

lemma turn_of_push_usage:
  "list_all ordinary (ws_pending s) \<Longrightarrow> terminal x \<Longrightarrow> turn_of (ws_pending (push_usage s) @ [x])"
  unfolding turn_of_def push_usage_def
  by (rule exI[of _ "ws_pending s"]) (auto simp: push_item_def)

lemma flush_ordinary: "list_all ordinary (ws_pending s) \<Longrightarrow> list_all ordinary (ws_pending (flush_open_blocks c s))"
  using ordinary_closed
  by (fastforce simp: flush_open_blocks_def list_all_iff List.map_filter_def split: prod.splits option.splits)

lemma on_event_items:
  assumes "\<not> ws_ended s" "list_all ordinary (ws_pending s)"
  shows "if ws_ended (on_event c s e) then turn_of (ws_pending (on_event c s e))
         else list_all ordinary (ws_pending (on_event c s e))"
proof (cases e)
  case (ContentBlockStart i b)
  with assms show ?thesis by (cases b) simp_all
next
  case (ContentBlockDelta i d)
  with assms show ?thesis by (cases d) simp_all
next
  case (ContentBlockStop i)
  with assms show ?thesis by (auto simp: Let_def split: option.split dest: ordinary_closed)
next
  case MessageStop
  with assms show ?thesis
    by (auto simp: Let_def push_item_def[of "Inr (EvStop _)"] intro!: turn_of_push_usage flush_ordinary)
next
  case (ErrorEvent b)
  with assms show ?thesis by (simp add: turn_of_push_usage)
qed (use assms in \<open>auto simp: Let_def split: option.split\<close>)

lemma pump_items:
  assumes "\<not> ws_ended s" "ws_pending s = []"
  shows "if ws_ended (pump c s) then turn_of (ws_pending (pump c s))
         else list_all ordinary (ws_pending (pump c s))"
proof (cases "ws_raw s")
  case Nil
  with assms show ?thesis by (simp add: pump_def turn_of_push_usage)
next
  case (Cons r rest)
  then show ?thesis
    using assms on_event_items[of "s\<lparr>ws_raw := rest\<rparr>" c]
    by (cases r) (simp_all add: pump_def Let_def turn_of_push_usage turn_of_single split: sum.split)
qed

lemma drain_turn:
  "\<not> ws_ended s \<Longrightarrow> list_all ordinary (ws_pending s) \<Longrightarrow> turn_of (wire.drain c s)"
proof (induction "length (ws_raw s)" arbitrary: s rule: less_induct)
  case less
  let ?p = "pump c (s\<lparr>ws_pending := []\<rparr>)"
  have d: "wire.drain c s = ws_pending s @ wire.drain c ?p"
    using less.prems(1) by (subst drain_pending) simp
  have "turn_of (wire.drain c ?p)"
  proof (cases "ws_ended ?p")
    case True
    then show ?thesis
      using pump_items[of "s\<lparr>ws_pending := []\<rparr>" c] less.prems by (subst drain_pending) simp
  next
    case False
    then show ?thesis
      using pump_items[of "s\<lparr>ws_pending := []\<rparr>" c] pump_consumes[of "s\<lparr>ws_pending := []\<rparr>" c] less.prems
      by (intro less.hyps) auto
  qed
  with less.prems(2) show ?case by (simp add: d turn_of_append)
qed


text \<open>Every item of the stream was queued by some turn of the loop.\<close>

lemma drain_all:
  assumes "\<And>s. ws_pending s = [] \<Longrightarrow> list_all Q (ws_pending (pump c s))"
  shows "list_all Q (ws_pending s) \<Longrightarrow> list_all Q (wire.drain c s)"
proof (induction "if ws_ended s then 0 else Suc (length (ws_raw s))" arbitrary: s rule: less_induct)
  case less
  show ?case
  proof (cases "ws_ended s")
    case True
    with less.prems show ?thesis by (subst drain_pending) simp
  next
    case False
    then have "list_all Q (wire.drain c (pump c (s\<lparr>ws_pending := []\<rparr>)))"
      using pump_consumes[of "s\<lparr>ws_pending := []\<rparr>" c] assms by (intro less.hyps) auto
    with less.prems False show ?thesis by (subst drain_pending) simp
  qed
qed

fun signed_item :: "'v wire_item \<Rightarrow> bool" where
  "signed_item (Inr (EvThinkingBlock _ sig)) = (sig \<noteq> [])"
| "signed_item _ = True"

lemma signed_closed: "closed_block_event c i b = Some x \<Longrightarrow> signed_item x"
  by (cases "(c, i, b)" rule: closed_block_event.cases)
    (auto simp: tool_call_event_def split: option.splits if_splits sum.splits)

lemma signed_push_usage: "list_all signed_item (ws_pending s) \<Longrightarrow> list_all signed_item (ws_pending (push_usage s))"
  by (simp add: push_usage_def)

lemma flush_signed: "list_all signed_item (ws_pending s) \<Longrightarrow> list_all signed_item (ws_pending (flush_open_blocks c s))"
  using signed_closed
  by (fastforce simp: flush_open_blocks_def list_all_iff List.map_filter_def split: prod.splits option.splits)

lemma on_event_signed: "list_all signed_item (ws_pending s) \<Longrightarrow> list_all signed_item (ws_pending (on_event c s e))"
proof (cases e)
  case (ContentBlockStart i b)
  then show "list_all signed_item (ws_pending s) \<Longrightarrow> ?thesis" by (cases b) simp_all
next
  case (ContentBlockDelta i d)
  then show "list_all signed_item (ws_pending s) \<Longrightarrow> ?thesis" by (cases d) simp_all
next
  case (ContentBlockStop i)
  then show "list_all signed_item (ws_pending s) \<Longrightarrow> ?thesis"
    by (auto simp: Let_def split: option.split dest: signed_closed)
next
  case MessageStop
  then show "list_all signed_item (ws_pending s) \<Longrightarrow> ?thesis"
    by (auto simp: Let_def push_item_def[of "Inr (EvStop _)"] intro!: signed_push_usage flush_signed)
qed (auto simp: Let_def signed_push_usage split: option.split)

text \<open>
  No reasoning block is passed on that the next request would be refused for: every thinking
  block the stream yields carries a signature that is not empty.
\<close>

lemma thinking_blocks_signed:
  fixes c :: "'v wire_codec"
  shows "\<exists>items. unfold_fuel (Suc (wire_left (event_stream_start raw :: 'v wire_state))) (next_agent_event c) (event_stream_start raw)
       = Some items \<and> list_all signed_item items"
proof -
  have "list_all signed_item (ws_pending (pump c s))" if "ws_pending s = []" for s :: "'v wire_state"
    using that on_event_signed[of "s\<lparr>ws_raw := tl (ws_raw s)\<rparr>" c]
    by (auto simp: pump_def Let_def signed_push_usage split: list.split sum.split)
  from drain_all[OF this] have "list_all signed_item (wire.drain c (event_stream_start raw))"
    by (simp add: event_stream_start_def)
  with wire.drain_fuel[OF TrueI lessI, of "event_stream_start raw" c] show ?thesis
    by (intro exI conjI)
qed

section \<open>A block is what its deltas spell\<close>

text \<open>The frames that leave block \<open>i\<close> open, and what the deltas among them add to it.\<close>

fun leaves_open :: "u32 \<Rightarrow> raw_stream_event \<Rightarrow> bool" where
  "leaves_open i (ContentBlockStart j _) = (j \<noteq> i)"
| "leaves_open i (ContentBlockStop j) = (j \<noteq> i)"
| "leaves_open i MessageStop = False"
| "leaves_open i (ErrorEvent _) = False"
| "leaves_open i _ = True"

fun json_delta :: "u32 \<Rightarrow> raw_stream_event \<Rightarrow> string" where
  "json_delta i (ContentBlockDelta j (InputJsonDelta d)) = (if j = i then d else [])"
| "json_delta i _ = []"

lemma map_of_with_block:
  "map_of (ws_blocks (with_block i f s)) k =
     (if k = i then map_option f (map_of (ws_blocks s) k) else map_of (ws_blocks s) k)"
proof -
  have "map_of (map (\<lambda>(j, b). (j, if j = i then f b else b)) m) k =
     (if k = i then map_option f (map_of m k) else map_of m k)" for m
    by (induction m) auto
  then show ?thesis by (simp add: with_block_def)
qed

lemma tool_block_grows:
  assumes "map_of (ws_blocks s) i = Some (OpenToolUse id' name json)" "leaves_open i e"
  shows "map_of (ws_blocks (on_event c s e)) i = Some (OpenToolUse id' name (json @ json_delta i e))"
proof (cases e)
  case (ContentBlockStart j b)
  with assms show ?thesis by (cases b) (auto simp: map_of_bt_insert map_of_bt_remove)
next
  case (ContentBlockDelta j d)
  with assms show ?thesis by (cases d) (auto simp: map_of_with_block)
next
  case (ContentBlockStop j)
  with assms show ?thesis by (auto simp: Let_def map_of_bt_remove split: option.split)
qed (use assms in \<open>auto simp: Let_def split: option.split\<close>)

lemma tool_block_accumulates:
  "map_of (ws_blocks s) i = Some (OpenToolUse id' name json) \<Longrightarrow> list_all (leaves_open i) mid \<Longrightarrow>
   map_of (ws_blocks (foldl (on_event c) s mid)) i =
     Some (OpenToolUse id' name (json @ concat (map (json_delta i) mid)))"
  by (induction mid arbitrary: s json) (auto dest: tool_block_grows[where c = c])

text \<open>
  A tool call is its own deltas, whatever is interleaved with them: between the start and the
  stop of a \<open>tool_use\<close> block, frames of other blocks neither add to its input nor take from it,
  and the stop queues one item, the call with the concatenated input parsed (or the error that
  the input is malformed), and closes the block.
\<close>

lemma tool_call_accumulates:
  assumes "list_all (leaves_open i) mid"
  shows "let opened = foldl (on_event c) (on_event c s (ContentBlockStart i (RawToolUse id' name))) mid;
             closed = on_event c opened (ContentBlockStop i)
         in ws_pending closed = ws_pending opened
              @ [tool_call_event c i id' name (concat (map (json_delta i) mid))]
            \<and> map_of (ws_blocks closed) i = None"
proof -
  let ?opened = "foldl (on_event c) (on_event c s (ContentBlockStart i (RawToolUse id' name))) mid"
  have "map_of (ws_blocks ?opened) i = Some (OpenToolUse id' name (concat (map (json_delta i) mid)))"
    using tool_block_accumulates[OF _ assms, of "on_event c s (ContentBlockStart i (RawToolUse id' name))" id' name "[]" c]
    by (simp add: map_of_bt_insert)
  then show ?thesis by (simp add: Let_def map_of_bt_remove)
qed

definition demo_codec_wire :: "string wire_codec" where
  "demo_codec_wire = \<lparr>wc_frame = (\<lambda>_. Inr Ping), wc_json = Inr, wc_object = ''{}''\<rparr>"

lemma tool_call_accumulates_witness:
  "tool_call_event demo_codec_wire 1 ''t'' ''read'' ''{}'' \<in>
     set (ws_pending (foldl (on_event demo_codec_wire) (event_stream_start [])
       [ContentBlockStart 1 (RawToolUse ''t'' ''read''), ContentBlockDelta 1 (InputJsonDelta ''{''),
        ContentBlockDelta 2 (InputJsonDelta ''x''), ContentBlockDelta 1 (InputJsonDelta ''}''), ContentBlockStop 1]))"
  using tool_call_accumulates[of 1 "[ContentBlockDelta 1 (InputJsonDelta ''{''),
        ContentBlockDelta 2 (InputJsonDelta ''x''), ContentBlockDelta 1 (InputJsonDelta ''}'')]" demo_codec_wire
        "event_stream_start []" "''t''" "''read''"]
  by (simp add: Let_def del: on_event.simps)

end
