(* ===== verification/Request.thy ===== *)
theory Request
  imports Wire
begin

text \<open>
  What goes out to the provider: a prompt as the JSON body of a request (\<open>body.rs\<close>), and the
  client that decides where it may be sent (\<open>anthropic_client.rs\<close>, both of \<open>sandbx-anthropic\<close>).
  A serializer is called with a list of entries, so a body is that list; a value the program
  never looks into is a leaf. Parsing a URL or an address and sending are not the program's.
\<close>

section \<open>The request body\<close>

datatype 'v body =
    BStr string
  | BNum u32
  | BBool bool
  | BMap "(string \<times> 'v body) list"
  | BSeq "'v body list"
  | BValue 'v

definition role_body :: "role \<Rightarrow> string" where
  "role_body r = (case r of User \<Rightarrow> ''user'' | Assistant \<Rightarrow> ''assistant'')"

fun block_body :: "'v content_block \<Rightarrow> 'v body" where
  "block_body (Text txt) = BMap [(''type'', BStr ''text''), (''text'', BStr txt)]"
| "block_body (Thinking txt signature) =
     BMap [(''type'', BStr ''thinking''), (''thinking'', BStr txt), (''signature'', BStr signature)]"
| "block_body (RedactedThinking data) =
     BMap [(''type'', BStr ''redacted_thinking''), (''data'', BStr data)]"
| "block_body (ToolUse id' name input) =
     BMap [(''type'', BStr ''tool_use''), (''id'', BStr id'), (''name'', BStr name), (''input'', BValue input)]"
| "block_body (ToolResult call_id txt is_error) =
     BMap ([(''type'', BStr ''tool_result''), (''tool_use_id'', BStr call_id), (''content'', BStr txt)]
       @ (case is_error of None \<Rightarrow> [] | Some e \<Rightarrow> [(''is_error'', BBool e)]))"

definition message_body :: "'v request_message \<Rightarrow> 'v body" where
  "message_body m =
     BMap [(''role'', BStr (role_body (rm_role m))), (''content'', BSeq (map block_body (rm_content m)))]"

definition tool_body :: "'v tool_definition \<Rightarrow> 'v body" where
  "tool_body t =
     BMap [(''name'', BStr (td_name t)), (''description'', BStr (td_description t)),
           (''input_schema'', BValue (td_schema t))]"

fun tool_choice_body :: "tool_choice \<Rightarrow> 'v body" where
  "tool_choice_body ChooseNone = BMap [(''type'', BStr ''none'')]"

fun thinking_body :: "thinking \<Rightarrow> 'v body" where
  "thinking_body Visible = BMap [(''type'', BStr ''adaptive''), (''display'', BStr ''summarized'')]"

definition prompt_body :: "'v prompt \<Rightarrow> 'v body" where
  "prompt_body p =
     BMap ([(''model'', BStr (p_model p)), (''max_tokens'', BNum (p_max_output_tokens p))]
       @ (case p_system p of None \<Rightarrow> [] | Some system \<Rightarrow> [(''system'', BStr system)])
       @ [(''messages'', BSeq (map message_body (p_messages p)))]
       @ (if p_tools p \<noteq> [] then [(''tools'', BSeq (map tool_body (p_tools p)))] else [])
       @ (case p_tool_choice p of
            None \<Rightarrow> []
          | Some choice \<Rightarrow> if p_tools p \<noteq> [] then [(''tool_choice'', tool_choice_body choice)] else [])
       @ (case p_thinking p of None \<Rightarrow> [] | Some thinking \<Rightarrow> [(''thinking'', thinking_body thinking)])
       @ [(''stream'', BBool True)])"

section \<open>Where it may be sent\<close>

record url =
  url_scheme :: string
  url_username :: string
  url_password :: "string option"
  url_host :: "string option"
  url_query :: "string option"
  url_fragment :: "string option"

datatype ip_addr = V4 u8 u8 u8 u8 | V6 "128 word"

fun is_loopback :: "ip_addr \<Rightarrow> bool" where
  "is_loopback (V4 a _ _ _) = (a = 127)"
| "is_loopback (V6 w) = (w = 1)"

datatype reachability = PublicHttps | LoopbackHttp

definition trim_end_char :: "char \<Rightarrow> string \<Rightarrow> string" where
  "trim_end_char c s = rev (dropWhile (\<lambda>x. x = c) (rev s))"

definition trim_start_char :: "char \<Rightarrow> string \<Rightarrow> string" where
  "trim_start_char c s = dropWhile (\<lambda>x. x = c) s"

definition is_loopback_host :: "(string \<Rightarrow> ip_addr option) \<Rightarrow> string \<Rightarrow> bool" where
  "is_loopback_host parse_ip host =
     (let host = trim_end_char (CHR '']'') (trim_start_char (CHR ''['') host)
      in host = ''localhost'' \<or> (case parse_ip host of None \<Rightarrow> False | Some ip \<Rightarrow> is_loopback ip))"

definition validate_base_url ::
  "(string \<Rightarrow> url option) \<Rightarrow> (string \<Rightarrow> ip_addr option) \<Rightarrow> string \<Rightarrow> string + reachability" where
  "validate_base_url parse_url parse_ip base_url =
     (case parse_url base_url of
        None \<Rightarrow> Inl ''not a valid absolute URL''
      | Some url \<Rightarrow>
          if url_query url \<noteq> None then Inl ''a base URL may not carry a query string''
          else if url_fragment url \<noteq> None then Inl ''a base URL may not carry a fragment''
          else if url_username url \<noteq> [] \<or> url_password url \<noteq> None
          then Inl ''a base URL may not embed credentials''
          else if url_scheme url = ''https'' then Inr PublicHttps
          else if url_scheme url = ''http''
                  \<and> (case url_host url of None \<Rightarrow> False | Some h \<Rightarrow> is_loopback_host parse_ip h)
          then Inr LoopbackHttp
          else if url_scheme url = ''http''
          then Inl ''http:// would send the API key in cleartext; use https://''
          else Inl ''only https:// (or http:// to a loopback host) is supported'')"

record http_settings =
  hs_connect_timeout :: nat
  hs_read_timeout :: nat
  hs_follow_redirects :: bool
  hs_https_only :: bool
  hs_no_proxy :: bool

definition http_settings_for :: "reachability \<Rightarrow> http_settings" where
  "http_settings_for r =
     (let builder = \<lparr>hs_connect_timeout = 10, hs_read_timeout = 120, hs_follow_redirects = False,
                     hs_https_only = False, hs_no_proxy = False\<rparr>
      in case r of
           PublicHttps \<Rightarrow> builder\<lparr>hs_https_only := True\<rparr>
         | LoopbackHttp \<Rightarrow> builder\<lparr>hs_no_proxy := True\<rparr>)"

definition build_http :: "(http_settings \<Rightarrow> string + 'h) \<Rightarrow> reachability \<Rightarrow> provider_error + 'h" where
  "build_http build r =
     (case build (http_settings_for r) of
        Inl source \<Rightarrow> Inl (Transport ''building HTTP client'' source)
      | Inr http \<Rightarrow> Inr http)"

record 'h anthropic_client =
  ac_http :: 'h
  ac_api_key :: string
  ac_base_url :: string

definition configured ::
  "(string \<Rightarrow> url option) \<Rightarrow> (string \<Rightarrow> ip_addr option) \<Rightarrow> (http_settings \<Rightarrow> string + 'h)
     \<Rightarrow> string \<Rightarrow> string \<Rightarrow> provider_error + 'h anthropic_client" where
  "configured parse_url parse_ip build api_key base_url =
     (let trimmed = trim_end_char (CHR ''/'') base_url
      in case validate_base_url parse_url parse_ip trimmed of
           Inl reason \<Rightarrow> Inl (InvalidBaseUrl base_url reason)
         | Inr reach \<Rightarrow>
             (case build_http build reach of
                Inl e \<Rightarrow> Inl e
              | Inr http \<Rightarrow>
                  Inr \<lparr>ac_http = http, ac_api_key = api_key, ac_base_url = trimmed\<rparr>))"

section \<open>What came back\<close>

record response =
  rs_status :: u16
  rs_retry_after :: "string option"
  rs_chunks :: "(string + string) list"
  rs_text :: "string option"

definition ascii_trim :: "string \<Rightarrow> string" where
  "ascii_trim s = (let ws = (\<lambda>c. c = CHR '' '' \<or> c = tab) in rev (dropWhile ws (rev (dropWhile ws s))))"

definition map_error_response ::
  "(string \<Rightarrow> raw_api_error_body option) \<Rightarrow> response \<Rightarrow> provider_error" where
  "map_error_response parse_envelope r =
     (let retry_after = (case rs_retry_after r of
            None \<Rightarrow> None | Some v \<Rightarrow> map_option of_nat (parse_uint (2 ^ 64) (ascii_trim v)));
          body = (case rs_text r of None \<Rightarrow> [] | Some t \<Rightarrow> t);
          (kind, msg) = (case parse_envelope body of
            Some e \<Rightarrow> (rae_kind e, rae_message e) | None \<Rightarrow> (''unknown_error'', body))
      in if rs_status r = 429 then RateLimited retry_after msg
         else ApiError (Some (rs_status r)) kind msg)"

record 'v http_request =
  rq_url :: string
  rq_headers :: "(string \<times> string) list"
  rq_body :: "'v body"

definition ANTHROPIC_VERSION :: string where "ANTHROPIC_VERSION = ''2023-06-01''"

definition stream_chat ::
  "('h \<Rightarrow> 'v http_request \<Rightarrow> string + response) \<Rightarrow> (string \<Rightarrow> raw_api_error_body option)
     \<Rightarrow> (string \<Rightarrow> string) \<Rightarrow> 'h anthropic_client \<Rightarrow> 'v prompt \<Rightarrow> provider_error + 'v wire_state" where
  "stream_chat send parse_envelope utf8_error client p =
     (case send (ac_http client)
         \<lparr>rq_url = ac_base_url client @ ''/v1/messages'',
          rq_headers = [(''x-api-key'', ac_api_key client), (''anthropic-version'', ANTHROPIC_VERSION)],
          rq_body = prompt_body p\<rparr> of
        Inl source \<Rightarrow> Inl (Transport ''sending request'' source)
      | Inr response \<Rightarrow>
          if \<not> (200 \<le> rs_status response \<and> rs_status response < 300)
          then Inl (map_error_response parse_envelope response)
          else Inr (event_stream_start (sse.drain utf8_error (tokenize_start (rs_chunks response)))))"

section \<open>Nothing of a prompt is lost in its body\<close>

fun body_field :: "'v body \<Rightarrow> string \<Rightarrow> 'v body option" where
  "body_field (BMap entries) k = map_of entries k"
| "body_field _ k = None"

lemma role_body_inject [simp]: "role_body r = role_body r' \<longleftrightarrow> r = r'"
  by (cases r; cases r') (simp_all add: role_body_def)

lemma block_body_inject [simp]: "block_body b = block_body b' \<longleftrightarrow> b = b'"
  by (cases b; cases b') (auto split: option.splits)

lemma map_block_body_inject [simp]: "map block_body bs = map block_body bs' \<longleftrightarrow> bs = bs'"
  by (rule inj_map_eq_map, rule injI, simp)

lemma message_body_inject [simp]: "message_body m = message_body m' \<longleftrightarrow> m = m'"
  by (cases m; cases m') (simp add: message_body_def)

lemma tool_body_inject [simp]: "tool_body t = tool_body t' \<longleftrightarrow> t = t'"
  by (auto simp: tool_body_def)

lemma map_body_inject [simp]:
  "map message_body ms = map message_body ms' \<longleftrightarrow> ms = ms'"
  "map tool_body ts = map tool_body ts' \<longleftrightarrow> ts = ts'"
  by (rule inj_map_eq_map, rule injI, simp)+

lemma prompt_fields:
  "body_field (prompt_body p) ''model'' = Some (BStr (p_model p))"
  "body_field (prompt_body p) ''max_tokens'' = Some (BNum (p_max_output_tokens p))"
  "body_field (prompt_body p) ''system'' = map_option BStr (p_system p)"
  "body_field (prompt_body p) ''messages'' = Some (BSeq (map message_body (p_messages p)))"
  "body_field (prompt_body p) ''tools'' =
     (if p_tools p = [] then None else Some (BSeq (map tool_body (p_tools p))))"
  "body_field (prompt_body p) ''tool_choice'' =
     (if p_tools p = [] then None else map_option tool_choice_body (p_tool_choice p))"
  "body_field (prompt_body p) ''thinking'' = map_option thinking_body (p_thinking p)"
  "body_field (prompt_body p) ''stream'' = Some (BBool True)"
  by (auto simp: prompt_body_def split: option.split)

text \<open>
  The body says all the prompt says and nothing null: two prompts with one body are the same
  prompt, once a tool choice without tools, which the API refuses, is left out; the fields the API
  rejects when empty are absent exactly when the prompt has none; no field is written twice.
\<close>

lemma prompt_body_faithful:
  assumes "p_tools p = [] \<longrightarrow> p_tool_choice p = None" "p_tools q = [] \<longrightarrow> p_tool_choice q = None"
    and "prompt_body p = prompt_body q"
  shows "p = q \<and> (body_field (prompt_body p) ''system'' = None \<longleftrightarrow> p_system p = None)
    \<and> (body_field (prompt_body p) ''tools'' = None \<longleftrightarrow> p_tools p = [])
    \<and> (\<exists>entries. prompt_body p = BMap entries \<and> distinct (map fst entries))"
proof -
  have f: "body_field (prompt_body p) k = body_field (prompt_body q) k" for k using assms(3) by simp
  have "tool_choice_body c = tool_choice_body d \<longleftrightarrow> c = d" for c d by (cases c; cases d) simp
  moreover have "thinking_body c = thinking_body d \<longleftrightarrow> c = d" for c d by (cases c; cases d) simp
  moreover have "p_tools p = p_tools q"
    using f[of "''tools''"] by (auto simp: prompt_fields split: if_splits)
  moreover have "p_messages p = p_messages q"
    using f[of "''messages''"] by (simp add: prompt_fields)
  ultimately have "p = q"
    using f[of "''model''"] f[of "''max_tokens''"] f[of "''system''"] f[of "''tool_choice''"] f[of "''thinking''"]
      assms(1,2)
    by (cases p; cases q)
      (auto simp: prompt_fields split: if_splits elim!: option.inj_map_strong[rotated])
  moreover have "\<exists>entries. prompt_body p = BMap entries \<and> distinct (map fst entries)"
    by (auto simp: prompt_body_def split: option.split)
  ultimately show ?thesis by (simp add: prompt_fields)
qed

definition demo_prompt :: "string \<Rightarrow> unit prompt" where
  "demo_prompt txt = \<lparr>p_model = ''m'', p_max_output_tokens = 8, p_system = None,
     p_messages = [\<lparr>rm_role = User, rm_content = [Text txt]\<rparr>], p_tools = [], p_tool_choice = None,
     p_thinking = Some Visible\<rparr>"

lemma prompt_body_faithful_witness:
  "body_field (prompt_body (demo_prompt ''a'')) ''system'' = None
   \<and> (\<exists>entries. prompt_body (demo_prompt ''a'') = BMap entries \<and> distinct (map fst entries))"
  using prompt_body_faithful[of "demo_prompt ''a''" "demo_prompt ''a''"] by (simp add: demo_prompt_def)

text \<open>
  C29. The key never leaves in cleartext. A client is only ever built for a URL with no query, no
  fragment and no credentials that is https, with an HTTP client that refuses anything else, or
  http to a loopback host, with one that uses no proxy; neither follows a redirect; and the URL
  requests go to is the one validated.
\<close>

theorem client_protects_key:
  assumes "configured parse_url parse_ip build api_key base_url = Inr client"
  shows "\<exists>url settings. parse_url (ac_base_url client) = Some url
    \<and> url_query url = None \<and> url_fragment url = None \<and> url_username url = [] \<and> url_password url = None
    \<and> build settings = Inr (ac_http client) \<and> \<not> hs_follow_redirects settings
    \<and> (url_scheme url = ''https'' \<and> hs_https_only settings
       \<or> url_scheme url = ''http'' \<and> hs_no_proxy settings
         \<and> (\<exists>host. url_host url = Some host \<and> is_loopback_host parse_ip host))
    \<and> ac_base_url client = trim_end_char (CHR ''/'') base_url"
proof -
  obtain reach where v: "validate_base_url parse_url parse_ip (ac_base_url client) = Inr reach"
    and b: "build (http_settings_for reach) = Inr (ac_http client)"
    and u: "ac_base_url client = trim_end_char (CHR ''/'') base_url"
    using assms by (auto simp: configured_def build_http_def Let_def split: sum.splits)
  from v obtain url where url: "parse_url (ac_base_url client) = Some url"
    "url_query url = None" "url_fragment url = None" "url_username url = []" "url_password url = None"
    "url_scheme url = ''https'' \<and> reach = PublicHttps \<or>
     url_scheme url = ''http'' \<and> reach = LoopbackHttp
       \<and> (\<exists>host. url_host url = Some host \<and> is_loopback_host parse_ip host)"
    by (auto simp: validate_base_url_def split: option.splits if_splits)
  then show ?thesis
    using b u by (intro exI[of _ url] exI[of _ "http_settings_for reach"])
      (auto simp: http_settings_for_def Let_def)
qed

definition demo_url :: url where
  "demo_url = \<lparr>url_scheme = ''http'', url_username = [], url_password = None, url_host = Some ''[::1]'',
     url_query = None, url_fragment = None\<rparr>"

theorem client_protects_key_witness:
  "\<exists>host. is_loopback_host (\<lambda>h. if h = ''::1'' then Some (V6 1) else None) host
     \<and> url_host demo_url = Some host \<and> hs_no_proxy (http_settings_for LoopbackHttp)"
proof -
  have "configured (\<lambda>u. if u = ''http://[::1]'' then Some demo_url else None)
      (\<lambda>h. if h = ''::1'' then Some (V6 1) else None) Inr ''k'' ''http://[::1]/'' =
    Inr \<lparr>ac_http = http_settings_for LoopbackHttp, ac_api_key = ''k'', ac_base_url = ''http://[::1]''\<rparr>"
    by (simp add: configured_def validate_base_url_def trim_end_char_def demo_url_def is_loopback_host_def
        trim_start_char_def build_http_def)
  from client_protects_key[OF this] show ?thesis
    by (auto simp: demo_url_def http_settings_for_def)
qed

end
