(* ===== verification/Session_Id.thy ===== *)
theory Session_Id
  imports Prelude
begin

text \<open>
  A session's name and the directory transcripts live in (crates \<open>sandbx-session-id\<close>,
  \<open>sandbx-session-paths\<close>, \<open>sandbx-session-error\<close>). The clock is an argument: the milliseconds
  since the epoch as the host reports them, \<open>None\<close> for a clock before it; the environment
  lookup is an argument, as in the source.
\<close>

section \<open>Errors\<close>

text \<open>What the store tells apart of an I/O failure; \<open>ELOOP\<close> is read by errno.\<close>

datatype io_error = IoNotFound | IoAlreadyExists | IoLoop | IoInvalidData | IoOther string

datatype session_error =
    NoStateHome
  | InvalidIdentifier string string
  | Clock
  | NotFound string
  | Collision u64
  | MissingHeader string
  | UnsupportedVersion string u32
  | Malformed string nat string
  | Writable string u32
  | DirWritable string u32
  | Symlink string
  | ForeignOwner string u32
  | Disordered string
  | Unresumable string
  | IncompleteTurn
  | DisorderedTurn
  | Io string io_error

section \<open>Identifiers\<close>

definition ALPHABET :: string where
  "ALPHABET = ''0123456789abcdefghijklmnopqrstuvwxyz''"

definition MAX_LENGTH :: nat where "MAX_LENGTH = 32"

datatype session_id = SessionId (id_text: string)

function base36_digits :: "u64 \<Rightarrow> string" where
  "base36_digits value =
     (if value > 0 then (ALPHABET ! unat (value mod 36)) # base36_digits (value div 36) else [])"
  by pat_completeness auto
termination
  by (relation "measure unat")
    (auto simp: word_less_nat_alt unat_div intro!: div_less_dividend)

declare base36_digits.simps [simp del]

definition base36 :: "u64 \<Rightarrow> string" where
  "base36 value = (if value = 0 then ''0'' else rev (base36_digits value))"

definition saturating_add_u64 :: "u64 \<Rightarrow> u64 \<Rightarrow> u64" where
  "saturating_add_u64 a b = (if unat a + unat b < 2 ^ 64 then a + b else - 1)"

text \<open>\<open>elapsed\<close> is the clock's \<open>u128\<close> milliseconds, or \<open>None\<close> before the epoch.\<close>

definition clock_millis :: "nat option \<Rightarrow> session_error + u64" where
  "clock_millis elapsed =
     (case elapsed of
        None \<Rightarrow> Inl Clock
      | Some millis \<Rightarrow> if millis < 2 ^ 64 then Inr (of_nat millis) else Inl Clock)"

definition from_clock :: "nat option \<Rightarrow> u64 \<Rightarrow> session_error + session_id" where
  "from_clock elapsed attempt =
     (case clock_millis elapsed of
        Inl e \<Rightarrow> Inl e
      | Inr millis \<Rightarrow> Inr (SessionId (base36 (saturating_add_u64 millis attempt))))"

definition from_str :: "string \<Rightarrow> session_error + session_id" where
  "from_str value =
     (if value = [] then Inl (InvalidIdentifier value ''it is empty'')
      else if length value > MAX_LENGTH
      then Inl (InvalidIdentifier value ''it is longer than 32 characters'')
      else if \<not> list_all (\<lambda>byte. byte \<in> set ALPHABET) value
      then Inl (InvalidIdentifier value
             ''a session id is 1 to 32 characters of 0-9 and a-z, and nothing else'')
      else Inr (SessionId value))"

section \<open>The directory\<close>

definition is_absolute :: "string \<Rightarrow> bool" where
  "is_absolute p = (case p of [] \<Rightarrow> False | c # _ \<Rightarrow> c = CHR ''/'')"

text \<open>\<open>Path::join\<close>: an absolute second part replaces the first.\<close>

definition path_join :: "string \<Rightarrow> string \<Rightarrow> string" where
  "path_join a b =
     (if is_absolute b then b
      else if a = [] \<or> last a = CHR ''/'' then a @ b else a @ ''/'' @ b)"

definition DIRECTORY :: string where "DIRECTORY = ''sandbx/sessions''"

definition sessions_directory :: "(string \<Rightarrow> string option) \<Rightarrow> session_error + string" where
  "sessions_directory lookup =
     (let absolute = (\<lambda>name. case lookup name of
                         None \<Rightarrow> None | Some d \<Rightarrow> if is_absolute d then Some d else None)
      in case absolute ''XDG_STATE_HOME'' of
           Some dir \<Rightarrow> Inr (path_join dir DIRECTORY)
         | None \<Rightarrow>
             (case absolute ''HOME'' of
                None \<Rightarrow> Inl NoStateHome
              | Some home \<Rightarrow>
                  Inr (path_join (path_join (path_join home ''.local'') ''state'') DIRECTORY)))"

section \<open>Legal by construction\<close>

lemma ALPHABET_facts: "length ALPHABET = 36" "distinct ALPHABET"
  by (simp_all add: ALPHABET_def)

lemma mod_36_less: "unat (v mod (36 :: u64)) < 36"
  by (simp add: unat_mod)

lemma base36_digits_alphabet: "set (base36_digits v) \<subseteq> set ALPHABET"
proof (induction v rule: base36_digits.induct)
  case (1 v)
  then show ?case
    using mod_36_less[of v] ALPHABET_facts(1)
    by (subst base36_digits.simps) auto
qed

lemma base36_digits_length: "unat v < 36 ^ n \<Longrightarrow> length (base36_digits v) \<le> n"
proof (induction v arbitrary: n rule: base36_digits.induct)
  case (1 v)
  show ?case
  proof (cases "v > 0")
    case True
    then have "0 < unat v" by (simp add: word_less_nat_alt)
    with "1.prems" obtain k where k: "n = Suc k" by (cases n) auto
    with "1.prems" have "unat (v div 36) < 36 ^ k"
      by (simp add: unat_div less_mult_imp_div_less mult.commute)
    from "1.IH"[OF True this] True k show ?thesis by (subst base36_digits.simps) simp
  qed (subst base36_digits.simps, simp)
qed

lemma base36_digits_Nil_iff: "base36_digits v = [] \<longleftrightarrow> v = 0"
  by (subst base36_digits.simps) (simp add: word_gt_0)

lemma base36_legal: "base36 v \<noteq> [] \<and> length (base36 v) \<le> 13 \<and> set (base36 v) \<subseteq> set ALPHABET"
proof -
  have "unat v < 36 ^ 13" using unsigned_less[of v, where ?'a = nat] by simp
  then have "length (base36_digits v) \<le> 13" by (rule base36_digits_length)
  then show ?thesis
    using base36_digits_alphabet[of v]
    by (auto simp: base36_def base36_digits_Nil_iff ALPHABET_def)
qed

text \<open>
  Every id the clock mints is one the parser accepts, unchanged: \<open>from_clock\<close> skips the
  parser, and what it composes is a spelling \<open>from_str\<close> would have allowed.
\<close>

lemma from_clock_parses:
  assumes "from_clock elapsed attempt = Inr sid"
  shows "from_str (id_text sid) = Inr sid"
proof -
  from assms obtain x where "sid = SessionId (base36 x)"
    by (auto simp: from_clock_def split: sum.splits)
  with base36_legal[of x] show ?thesis
    by (auto simp: from_str_def MAX_LENGTH_def list_all_iff)
qed

lemma from_clock_parses_witness:
  "from_str (id_text (SessionId (base36 (saturating_add_u64 (of_nat 1000) 2))))
     = Inr (SessionId (base36 (saturating_add_u64 (of_nat 1000) 2)))"
  by (rule from_clock_parses[of "Some 1000" 2]) (simp add: from_clock_def clock_millis_def)

text \<open>Reading an id back as a number: distinct numbers have distinct ids.\<close>

lemma base36_digits_inj: "base36_digits v = base36_digits w \<Longrightarrow> v = w"
proof (induction v arbitrary: w rule: base36_digits.induct)
  case (1 v)
  show ?case
  proof (cases "v > 0")
    case True
    with "1.prems" have w: "w > 0" by (metis base36_digits_Nil_iff word_gt_0)
    with True "1.prems" have eq: "ALPHABET ! unat (v mod 36) = ALPHABET ! unat (w mod 36)"
      "base36_digits (v div 36) = base36_digits (w div 36)"
      by (simp_all add: base36_digits.simps[of v] base36_digits.simps[of w])
    from eq(1) have "v mod 36 = w mod 36"
      using mod_36_less ALPHABET_facts by (simp add: nth_eq_iff_index_eq word_unat_eq_iff)
    moreover from "1.IH"[OF True eq(2)] have "v div 36 = w div 36" .
    ultimately show ?thesis by (metis word_mod_div_equality)
  next
    case False
    with "1.prems" show ?thesis
      by (metis base36_digits_Nil_iff word_gt_0)
  qed
qed

lemma base36_inj: "base36 v = base36 w \<Longrightarrow> v = w"
proof -
  have zero: "base36_digits x = ''0'' \<Longrightarrow> x = 0" for x :: u64
  proof (rule ccontr)
    assume x: "base36_digits x = ''0''" "x \<noteq> 0"
    then have "ALPHABET ! unat (x mod 36) = ALPHABET ! 0" "base36_digits (x div 36) = []"
      by (simp_all add: base36_digits.simps[of x] word_gt_0 ALPHABET_def)
    then have "x mod 36 = 0" "x div 36 = 0"
      using mod_36_less[of x] ALPHABET_facts
      by (simp_all add: nth_eq_iff_index_eq base36_digits_Nil_iff unat_eq_0)
    with x(2) show False by (metis word_mod_div_equality mult_zero_left add_0)
  qed
  assume "base36 v = base36 w"
  then show ?thesis
    using zero[of v] zero[of w] base36_digits_inj[of v w]
    by (auto simp: base36_def rev_eq_Cons_iff dest: sym split: if_splits)
qed

text \<open>
  Retrying after a collision asks for a name not asked for before: while the clock does not
  move and the sum does not saturate, two different attempts mint two different ids.
\<close>

lemma from_clock_attempts_distinct:
  assumes "from_clock elapsed a = Inr i" "from_clock elapsed b = Inr j"
    and "clock_millis elapsed = Inr millis"
    and "unat millis + unat a < 2 ^ 64" "unat millis + unat b < 2 ^ 64" "a \<noteq> b"
  shows "i \<noteq> j"
  using assms by (auto simp: from_clock_def saturating_add_u64_def dest: base36_inj)

lemma from_clock_attempts_distinct_witness:
  "SessionId (base36 (saturating_add_u64 (of_nat 7) 0))
     \<noteq> SessionId (base36 (saturating_add_u64 (of_nat 7) 1))"
  by (rule from_clock_attempts_distinct[of "Some 7" 0 _ 1 _ "of_nat 7"])
    (simp_all add: from_clock_def clock_millis_def)

text \<open>
  An accepted id is safe to join to a directory: it is one path component of 1 to 32
  alphanumeric bytes, so it holds no separator, dot or NUL.
\<close>

lemma from_str_safe_component:
  assumes "from_str value = Inr sid"
  shows "id_text sid = value \<and> 1 \<le> length value \<and> length value \<le> 32
         \<and> CHR ''/'' \<notin> set value \<and> CHR ''.'' \<notin> set value \<and> CHR 0x00 \<notin> set value"
proof -
  from assms have v: "value \<noteq> []" "length value \<le> 32" "set value \<subseteq> set ALPHABET" "sid = SessionId value"
    by (auto simp: from_str_def MAX_LENGTH_def list_all_iff split: if_splits)
  moreover have "CHR ''/'' \<notin> set ALPHABET" "CHR ''.'' \<notin> set ALPHABET" "CHR 0x00 \<notin> set ALPHABET"
    by (simp_all add: ALPHABET_def)
  ultimately show ?thesis by (cases "value") auto
qed

lemma from_str_safe_component_witness:
  "id_text (SessionId ''k3'') = ''k3'' \<and> CHR ''/'' \<notin> set ''k3''"
  using from_str_safe_component[of "''k3''" "SessionId ''k3''"]
  by (simp add: from_str_def MAX_LENGTH_def ALPHABET_def)

text \<open>
  The session directory is absolute whenever there is one: nothing falls back to the working
  directory, whose tree a run may be granted write on.
\<close>

lemma sessions_directory_absolute:
  "(case sessions_directory lookup of Inr d \<Rightarrow> is_absolute d | Inl e \<Rightarrow> e = NoStateHome)"
proof -
  have j: "is_absolute a \<Longrightarrow> is_absolute (path_join a b)" for a b
    by (auto simp: is_absolute_def path_join_def split: list.splits)
  show ?thesis
    by (auto simp: sessions_directory_def Let_def split: option.splits intro!: j split: if_splits)
qed

end
