(* ===== verification/Channel.thy ===== *)
theory Channel
  imports Session_Id
begin

text \<open>
  What the sandbox refuses and how a helper stage says so (\<open>sandbox_error.rs\<close>,
  \<open>helper_refusal.rs\<close>, \<open>degradation.rs\<close> and \<open>vetted_path.rs\<close> of \<open>sandbx-core\<close>): the errors and
  the label each is filed under, the closed sets of labels that may cross the helper's channel,
  the channel's line format, and the object a granted path is pinned to.
\<close>

section \<open>The object a path names\<close>

record object_id =
  oi_dev :: u64
  oi_ino :: u64

definition object_display :: "object_id \<Rightarrow> string" where
  "object_display o1 = dec_nat (unat (oi_dev o1)) @ '':'' @ dec_nat (unat (oi_ino o1))"

definition object_parse :: "string \<Rightarrow> object_id option" where
  "object_parse token =
     (case split_once (CHR '':'') token of
        None \<Rightarrow> None
      | Some (dev, ino) \<Rightarrow>
          (case parse_uint (2 ^ 64) dev of
             None \<Rightarrow> None
           | Some d \<Rightarrow>
               (case parse_uint (2 ^ 64) ino of
                  None \<Rightarrow> None
                | Some i \<Rightarrow> Some \<lparr>oi_dev = of_nat d, oi_ino = of_nat i\<rparr>)))"

section \<open>Errors\<close>

datatype access = AccessRead | AccessWrite

definition operation :: "access \<Rightarrow> string" where
  "operation a = (case a of AccessRead \<Rightarrow> ''read'' | AccessWrite \<Rightarrow> ''write'')"

definition outside :: "access \<Rightarrow> string" where
  "outside a = (case a of
      AccessRead \<Rightarrow> ''outside every readable root'' | AccessWrite \<Rightarrow> ''outside every writable root'')"

datatype helper_refusal =
    HrBadHelperArgs | HrLandlock | HrGrantRedirected | HrGrantReplaced | HrSeccomp
  | HrNamespaceSetupFailed | HrProcessHardening | HrInnerStageFailed | HrExecFailed
  | HrPinMismatch | HrPinUnreadable | HrPinnedScript | HrUnsupported

datatype sandbox_error =
    PathNotAllowed string access
  | Unresolvable string io_error
  | PathNotFound string io_error
  | BadHelperArgs string
  | Landlock string
  | GrantRedirected string string
  | GrantReplaced string object_id object_id
  | RootReplaced string object_id object_id
  | GrantUnpinnable string io_error
  | Seccomp string
  | NamespaceSetupFailed string
  | ProcessHardening string
  | ProcessConcealment string
  | SpawnFailed string io_error
  | InnerStageFailed string io_error
  | ExecFailed io_error
  | PinMismatch string "u8 list" "u8 list"
  | PinUnreadable string io_error
  | PinnedScript string
  | HelperRefused helper_refusal string
  | CommandTimedOut nat
  | Unsupported string
  | UnboundedResolution string
  | GrantBoundByResolver string

definition all_refusals :: "helper_refusal list" where
  "all_refusals =
     [HrBadHelperArgs, HrLandlock, HrGrantRedirected, HrGrantReplaced, HrSeccomp,
      HrNamespaceSetupFailed, HrProcessHardening, HrInnerStageFailed, HrExecFailed,
      HrPinMismatch, HrPinUnreadable, HrPinnedScript, HrUnsupported]"

fun refusal_label :: "helper_refusal \<Rightarrow> string" where
  "refusal_label HrBadHelperArgs = ''bad_helper_args''"
| "refusal_label HrLandlock = ''landlock''"
| "refusal_label HrGrantRedirected = ''grant_redirected''"
| "refusal_label HrGrantReplaced = ''grant_replaced''"
| "refusal_label HrSeccomp = ''seccomp''"
| "refusal_label HrNamespaceSetupFailed = ''namespace_setup_failed''"
| "refusal_label HrProcessHardening = ''process_hardening''"
| "refusal_label HrInnerStageFailed = ''inner_stage_failed''"
| "refusal_label HrExecFailed = ''exec_failed''"
| "refusal_label HrPinMismatch = ''pin_mismatch''"
| "refusal_label HrPinUnreadable = ''pin_unreadable''"
| "refusal_label HrPinnedScript = ''pinned_script''"
| "refusal_label HrUnsupported = ''unsupported''"

definition refusal_from_label :: "string \<Rightarrow> helper_refusal option" where
  "refusal_from_label l = from_label_in all_refusals refusal_label l"

datatype decider = Helper helper_refusal | Parent string

fun decided_by :: "sandbox_error \<Rightarrow> decider" where
  "decided_by (BadHelperArgs _) = Helper HrBadHelperArgs"
| "decided_by (Landlock _) = Helper HrLandlock"
| "decided_by (GrantRedirected _ _) = Helper HrGrantRedirected"
| "decided_by (GrantReplaced _ _ _) = Helper HrGrantReplaced"
| "decided_by (Seccomp _) = Helper HrSeccomp"
| "decided_by (NamespaceSetupFailed _) = Helper HrNamespaceSetupFailed"
| "decided_by (ProcessHardening _) = Helper HrProcessHardening"
| "decided_by (InnerStageFailed _ _) = Helper HrInnerStageFailed"
| "decided_by (ExecFailed _) = Helper HrExecFailed"
| "decided_by (PinMismatch _ _ _) = Helper HrPinMismatch"
| "decided_by (PinUnreadable _ _) = Helper HrPinUnreadable"
| "decided_by (PinnedScript _) = Helper HrPinnedScript"
| "decided_by (Unsupported _) = Helper HrUnsupported"
| "decided_by (PathNotAllowed _ _) = Parent ''path_not_allowed''"
| "decided_by (Unresolvable _ _) = Parent ''unresolvable''"
| "decided_by (PathNotFound _ _) = Parent ''not_found''"
| "decided_by (RootReplaced _ _ _) = Parent ''root_replaced''"
| "decided_by (GrantUnpinnable _ _) = Parent ''grant_unpinnable''"
| "decided_by (SpawnFailed _ _) = Parent ''spawn_failed''"
| "decided_by (ProcessConcealment _) = Parent ''process_concealment''"
| "decided_by (UnboundedResolution _) = Parent ''unbounded_resolution''"
| "decided_by (GrantBoundByResolver _) = Parent ''grant_bound_by_resolver''"
| "decided_by (CommandTimedOut _) = Parent ''timeout''"
| "decided_by (HelperRefused r _) = Parent (refusal_label r)"

definition refusal_of :: "sandbox_error \<Rightarrow> helper_refusal option" where
  "refusal_of e = (case decided_by e of Helper r \<Rightarrow> Some r | Parent _ \<Rightarrow> None)"

definition error_label :: "sandbox_error \<Rightarrow> string" where
  "error_label e = (case decided_by e of Helper r \<Rightarrow> refusal_label r | Parent l \<Rightarrow> l)"

section \<open>The channel\<close>

abbreviation SEPARATOR :: char where "SEPARATOR \<equiv> tab"

definition DETAIL_LIMIT :: nat where "DETAIL_LIMIT = 256"

datatype degradation = CapabilityBoundingSet | UsernsIdentityMap | UnresolvedDnsName

definition all_degradations :: "degradation list" where
  "all_degradations = [CapabilityBoundingSet, UsernsIdentityMap, UnresolvedDnsName]"

fun degradation_label :: "degradation \<Rightarrow> string" where
  "degradation_label CapabilityBoundingSet = ''capability_bounding_set''"
| "degradation_label UsernsIdentityMap = ''userns_identity_map''"
| "degradation_label UnresolvedDnsName = ''unresolved_dns_name''"

definition degradation_from_label :: "string \<Rightarrow> degradation option" where
  "degradation_from_label l = from_label_in all_degradations degradation_label l"

definition RECORD_LIMIT :: nat where "RECORD_LIMIT = length all_degradations + 1"

record degraded =
  dg_step :: degradation
  dg_detail :: string

datatype report = Degraded degraded | Failed helper_refusal

text \<open>
  \<open>chars().take(n)\<close> over the bytes of a UTF-8 string: a character is a byte that does not continue
  one and the continuation bytes after it.
\<close>

definition continues :: "char \<Rightarrow> bool" where
  "continues c = utf8_cont (of_char c)"

fun take_chars :: "nat \<Rightarrow> string \<Rightarrow> string" where
  "take_chars n [] = []"
| "take_chars n (c # s) =
     (if continues c then c # take_chars n s
      else case n of 0 \<Rightarrow> [] | Suc m \<Rightarrow> c # take_chars m s)"

definition encoded_detail :: "string \<Rightarrow> string" where
  "encoded_detail detail = take_chars DETAIL_LIMIT (filter (\<lambda>c. c \<noteq> nl \<and> c \<noteq> SEPARATOR) detail)"

definition encode :: "degraded list \<Rightarrow> string" where
  "encode records =
     concat (map (\<lambda>d. degradation_label (dg_step d) @ SEPARATOR # encoded_detail (dg_detail d) @ [nl]) records)"

definition encode_refusal :: "helper_refusal \<Rightarrow> string" where
  "encode_refusal r = refusal_label r @ [SEPARATOR, nl]"

definition decode_line :: "string \<Rightarrow> report option" where
  "decode_line line =
     (case split_once SEPARATOR line of
        None \<Rightarrow> None
      | Some (l, detail) \<Rightarrow>
          (case degradation_from_label l of
             Some step \<Rightarrow> Some (Degraded \<lparr>dg_step = step, dg_detail = detail\<rparr>)
           | None \<Rightarrow> map_option Failed (refusal_from_label l)))"

definition decode :: "string \<Rightarrow> report list" where
  "decode channel = take RECORD_LIMIT (List.map_filter decode_line (rust_lines channel))"

text \<open>
  \<open>relayed\<close>: the prose a refusal is carried with is the stage's own stderr, lossily decoded (an
  argument), trimmed, without the prefix the helper prints and cut to a limit.
\<close>

definition STDERR_LIMIT :: nat where "STDERR_LIMIT = 4096"

definition relayed :: "(string \<Rightarrow> string) \<Rightarrow> string \<Rightarrow> helper_refusal \<Rightarrow> string \<Rightarrow> sandbox_error" where
  "relayed trimmed_lossy prefix r stderr =
     (let text' = trimmed_lossy stderr
      in HelperRefused r
           (take_chars STDERR_LIMIT (case strip_prefix prefix text' of None \<Rightarrow> text' | Some rest \<Rightarrow> rest)))"

section \<open>The labels are closed sets\<close>

interpretation refusal: closed_labels all_refusals refusal_label
proof
  show "r \<in> set all_refusals" for r by (cases r) (simp_all add: all_refusals_def)
  show "distinct (map refusal_label all_refusals)" by (simp add: all_refusals_def)
qed

interpretation degradation: closed_labels all_degradations degradation_label
proof
  show "d \<in> set all_degradations" for d by (cases d) (simp_all add: all_degradations_def)
  show "distinct (map degradation_label all_degradations)" by (simp add: all_degradations_def)
qed

lemma degradation_from_label_label [simp]: "degradation_from_label (degradation_label d) = Some d"
  by (simp add: degradation_from_label_def)

lemma refusal_from_label_label [simp]: "refusal_from_label (refusal_label r) = Some r"
  by (simp add: refusal_from_label_def)

lemma labels_disjoint: "refusal_label r \<noteq> degradation_label d"
  by (cases r; cases d) simp_all

lemma degradation_from_refusal [simp]: "degradation_from_label (refusal_label r) = None"
  by (simp add: degradation_from_label_def degradation.from_label_in_None_iff labels_disjoint)

text \<open>A label is on one line and before the separator whatever stands behind it.\<close>

lemma label_chars:
  "nl \<notin> set (refusal_label r)" "SEPARATOR \<notin> set (refusal_label r)"
  "nl \<notin> set (degradation_label d)" "SEPARATOR \<notin> set (degradation_label d)"
  by (cases r; simp)+ (cases d; simp)+

lemma set_take_chars: "set (take_chars n s) \<subseteq> set s"
  by (induction n s rule: take_chars.induct) (auto split: nat.split)

lemma encoded_detail_chars: "nl \<notin> set (encoded_detail d)" "SEPARATOR \<notin> set (encoded_detail d)"
  using set_take_chars[of DETAIL_LIMIT "filter (\<lambda>c. c \<noteq> nl \<and> c \<noteq> SEPARATOR) d"]
  by (auto simp: encoded_detail_def)

lemma strip_cr_suffix: "t \<noteq> [] \<Longrightarrow> strip_cr (s @ t) = s @ strip_cr t"
  by (simp add: strip_cr_def butlast_append)

lemma decode_line_degraded:
  "decode_line (strip_cr (degradation_label s @ SEPARATOR # encoded_detail d)) =
     Some (Degraded \<lparr>dg_step = s, dg_detail = strip_cr (encoded_detail d)\<rparr>)"
proof -
  have "strip_cr (SEPARATOR # e) = SEPARATOR # strip_cr e" for e
    by (simp add: strip_cr_def)
  then have "strip_cr (degradation_label s @ SEPARATOR # encoded_detail d) =
      degradation_label s @ SEPARATOR # strip_cr (encoded_detail d)"
    by (simp add: strip_cr_suffix)
  then show ?thesis by (simp add: decode_line_def label_chars)
qed

lemma decode_line_refused: "decode_line (strip_cr (refusal_label r @ [SEPARATOR])) = Some (Failed r)"
proof -
  have "strip_cr (refusal_label r @ [SEPARATOR]) = refusal_label r @ [SEPARATOR]"
    by (simp add: strip_cr_def)
  then show ?thesis by (simp add: decode_line_def label_chars split_once_append)
qed

lemma encode_lines:
  "rust_lines (encode ds @ rest) =
     map (\<lambda>d. strip_cr (degradation_label (dg_step d) @ SEPARATOR # encoded_detail (dg_detail d))) ds
       @ rust_lines rest"
proof (induction ds)
  case (Cons d ds)
  have "nl \<notin> set (degradation_label (dg_step d) @ SEPARATOR # encoded_detail (dg_detail d))"
    by (simp add: label_chars encoded_detail_chars)
  from rust_lines_Cons[OF this, of "encode ds @ rest"] Cons show ?case by (simp add: encode_def)
qed (simp add: encode_def)

lemma refusal_lines:
  "rust_lines (concat (map encode_refusal rs)) = map (\<lambda>r. strip_cr (refusal_label r @ [SEPARATOR])) rs"
proof (induction rs)
  case (Cons r rs)
  have "nl \<notin> set (refusal_label r @ [SEPARATOR])" by (simp add: label_chars)
  from rust_lines_Cons[OF this, of "concat (map encode_refusal rs)"] Cons
  show ?case by (simp add: encode_refusal_def[of r])
qed simp

text \<open>
  C30. The parent reads back exactly what the helper's stages reported, in order, up to the record
  limit: each step with its detail (without the line and field separators, cut to the limit) and
  each refusal. Whatever bytes a detail holds, it cannot add a record, rename one, or turn a
  degraded step into a refusal.
\<close>

theorem channel_roundtrip:
  "decode (encode ds @ concat (map encode_refusal rs)) =
     take RECORD_LIMIT
       (map (\<lambda>d. Degraded (d\<lparr>dg_detail := strip_cr (encoded_detail (dg_detail d))\<rparr>)) ds @ map Failed rs)"
proof -
  have "List.map_filter decode_line
      (map (\<lambda>d. strip_cr (degradation_label (dg_step d) @ SEPARATOR # encoded_detail (dg_detail d))) ds @ ls) =
    map (\<lambda>d. Degraded (d\<lparr>dg_detail := strip_cr (encoded_detail (dg_detail d))\<rparr>)) ds
      @ List.map_filter decode_line ls" for ls
    by (induction ds) (simp_all add: List.map_filter_simps decode_line_degraded)
  moreover have "List.map_filter decode_line (map (\<lambda>r. strip_cr (refusal_label r @ [SEPARATOR])) rs) = map Failed rs"
    by (induction rs) (simp_all add: List.map_filter_simps decode_line_refused)
  ultimately show ?thesis by (simp add: decode_def encode_lines refusal_lines)
qed

text \<open>
  A pin survives the helper's argv: what \<open>Display\<close> writes for an object, \<open>parse\<close> reads back as
  that object, so two pins compare equal in the helper exactly when they name one object.
\<close>

lemma object_parse_display [simp]: "object_parse (object_display o1) = Some o1"
proof -
  have "CHR '':'' \<notin> set (dec_nat n)" for n
    using dec_nat_digits[of n] by (auto simp: list_all_iff is_digit_def)
  then show ?thesis
    by (simp add: object_parse_def object_display_def parse_uint_dec_nat
        unsigned_less[where ?'a = nat and ?'b = 64, simplified])
qed

lemma object_display_inject: "object_display o1 = object_display o2 \<longleftrightarrow> o1 = o2"
  by (metis object_parse_display option.inject)

text \<open>\<open>parse\<close> takes more than \<open>Display\<close> writes: a sign and leading zeros.\<close>

lemma object_parse_lenient:
  "object_parse ''+1:02'' = Some \<lparr>oi_dev = 1, oi_ino = 2\<rparr>"
  "object_display \<lparr>oi_dev = 1, oi_ino = 2\<rparr> = ''1:2''"
  by (simp add: object_parse_def parse_uint_def is_digit_def dec_value_def)
    (simp add: object_display_def dec_nat.simps char_of_def bit_iff_odd)

section \<open>Vetted paths\<close>

text \<open>Resolving, measuring and opening are the kernel's.\<close>

record ('w, 'fd) path_os =
  po_canonicalize :: "string \<Rightarrow> ('w, io_error, string) io"
  po_metadata :: "string \<Rightarrow> ('w, io_error, object_id) io"
  po_open_path :: "string \<Rightarrow> ('w, io_error, 'fd) io"
  po_fstat :: "'fd \<Rightarrow> ('w, io_error, object_id) io"

record vetted_path =
  vp_path :: string
  vp_object :: object_id

definition of_fd :: "('w, 'fd) path_os \<Rightarrow> 'fd \<Rightarrow> ('w, sandbox_error, object_id) io" where
  "of_fd os fd = io_map_err (\<lambda>_. Unsupported
     ''a granted path could not be stat'ed through the descriptor it opened as, so it cannot be confirmed to be the object that was vetted'')
     (po_fstat os fd)"

definition vet :: "('w, 'fd) path_os \<Rightarrow> string \<Rightarrow> ('w, sandbox_error, vetted_path) io" where
  "vet os requested =
     io_bind (io_map_err (GrantUnpinnable requested) (po_canonicalize os requested)) (\<lambda>path.
     io_bind (io_map_err (GrantUnpinnable requested) (po_metadata os path)) (\<lambda>object.
       io_ret \<lparr>vp_path = path, vp_object = object\<rparr>))"

datatype confirmation = Vetted | Replaced object_id | Unmeasurable

definition confirm :: "('w, 'fd) path_os \<Rightarrow> vetted_path \<Rightarrow> 'w \<Rightarrow> confirmation \<times> 'w" where
  "confirm os v w =
     (case po_open_path os (vp_path v) w of
        (Inl _, w1) \<Rightarrow> (Unmeasurable, w1)
      | (Inr opened, w1) \<Rightarrow>
          (case of_fd os opened w1 of
             (Inl _, w2) \<Rightarrow> (Unmeasurable, w2)
           | (Inr object, w2) \<Rightarrow>
               if object = vp_object v then (Vetted, w2) else (Replaced object, w2)))"

end
