(* ===== verification/Policy.thy ===== *)
theory Policy
  imports Channel
begin

text \<open>
  What a run is allowed to reach (\<open>sandbox_policy.rs\<close> of \<open>sandbx-core\<close>, with the list of files a
  bounded resolver replaces from \<open>resolver.rs\<close>): the axes and what each confers, the policy and
  every builder that widens it, the questions the enforcement layers ask of it. Resolving a path
  and asking whether it is a directory are the file system's, so they are arguments.
\<close>

section \<open>Axes and networks\<close>

datatype axis = AxRead | AxWrite | AxReadExecute

record grants =
  gr_read :: bool
  gr_write :: bool
  gr_execute :: bool

definition all_axes :: "axis list" where
  "all_axes = [AxRead, AxWrite, AxReadExecute]"

fun axis_grants :: "axis \<Rightarrow> grants" where
  "axis_grants AxRead = \<lparr>gr_read = True, gr_write = False, gr_execute = False\<rparr>"
| "axis_grants AxWrite = \<lparr>gr_read = False, gr_write = True, gr_execute = False\<rparr>"
| "axis_grants AxReadExecute = \<lparr>gr_read = True, gr_write = False, gr_execute = True\<rparr>"

datatype network_policy = NetDenied | AnyPort | Ports "u16 list"

section \<open>The policy\<close>

record sandbox_policy =
  sp_readable :: "vetted_path list"
  sp_writable :: "vetted_path list"
  sp_executable :: "vetted_path list"
  sp_network :: network_policy
  sp_unix_sockets :: bool
  sp_env :: "string list"
  sp_dns_over_tcp :: bool
  sp_dns_names :: "string list"

definition default_policy :: sandbox_policy where
  "default_policy = \<lparr>sp_readable = [], sp_writable = [], sp_executable = [], sp_network = NetDenied,
     sp_unix_sockets = False, sp_env = [], sp_dns_over_tcp = False, sp_dns_names = []\<rparr>"

fun paths :: "sandbox_policy \<Rightarrow> axis \<Rightarrow> vetted_path list" where
  "paths p AxRead = sp_readable p"
| "paths p AxWrite = sp_writable p"
| "paths p AxReadExecute = sp_executable p"

definition granted_paths :: "sandbox_policy \<Rightarrow> (axis \<times> vetted_path) list" where
  "granted_paths p = concat (map (\<lambda>a. map (Pair a) (paths p a)) all_axes)"

definition SYSTEM_EXECUTABLE_PATHS :: "string list" where
  "SYSTEM_EXECUTABLE_PATHS = [''/usr'', ''/bin'', ''/lib'', ''/lib64'']"

definition STANDARD_ENV_NAMES :: "string list" where
  "STANDARD_ENV_NAMES = [''PATH'', ''HOME'', ''TERM'', ''LANG'', ''LC_ALL'', ''LC_CTYPE'', ''TZ'']"

definition DNS_OVER_TCP_ENV :: "(string \<times> string) list" where
  "DNS_OVER_TCP_ENV = [(''RES_OPTIONS'', ''use-vc'')]"

definition DNS_NAME_LIMIT :: nat where "DNS_NAME_LIMIT = 253"

definition NAMESERVER_PORT :: u16 where "NAMESERVER_PORT = 53"

section \<open>The files a bounded resolver replaces (resolver.rs)\<close>

definition HOSTS :: string where "HOSTS = ''/etc/hosts''"
definition NSSWITCH :: string where "NSSWITCH = ''/etc/nsswitch.conf''"
definition RESOLV_CONF :: string where "RESOLV_CONF = ''/etc/resolv.conf''"

definition RESOLVER_FILES :: "string list" where
  "RESOLVER_FILES = [HOSTS, NSSWITCH, RESOLV_CONF]"

definition bound_by_any :: "(string \<Rightarrow> string option) \<Rightarrow> string list \<Rightarrow> string \<Rightarrow> bool" where
  "bound_by_any canonicalize bound path =
     list_ex (\<lambda>b. b = path \<or> canonicalize b = Some path) bound"

definition bound_by_resolver :: "(string \<Rightarrow> string option) \<Rightarrow> string \<Rightarrow> bool" where
  "bound_by_resolver canonicalize path = bound_by_any canonicalize RESOLVER_FILES path"

section \<open>What the layers ask\<close>

definition bounds_resolution :: "sandbox_policy \<Rightarrow> bool" where
  "bounds_resolution p = (sp_dns_names p \<noteq> [])"

definition grant_bound_by_resolver :: "(string \<Rightarrow> string option) \<Rightarrow> sandbox_policy \<Rightarrow> string option" where
  "grant_bound_by_resolver canonicalize p =
     (if \<not> bounds_resolution p then None
      else find (bound_by_resolver canonicalize) (map (\<lambda>g. vp_path (snd g)) (granted_paths p)))"

definition first_directory :: "(string \<Rightarrow> bool) \<Rightarrow> vetted_path list \<Rightarrow> string option" where
  "first_directory is_dir ps = find is_dir (map vp_path ps)"

definition working_root :: "(string \<Rightarrow> bool) \<Rightarrow> sandbox_policy \<Rightarrow> string option" where
  "working_root is_dir p =
     (case first_directory is_dir (sp_writable p) of
        Some d \<Rightarrow> Some d | None \<Rightarrow> first_directory is_dir (sp_readable p))"

definition allows_network :: "sandbox_policy \<Rightarrow> bool" where
  "allows_network p = (sp_network p \<noteq> NetDenied)"

definition imposed_env :: "sandbox_policy \<Rightarrow> (string \<times> string) list" where
  "imposed_env p = (if sp_dns_over_tcp p then DNS_OVER_TCP_ENV else [])"

definition permits_env :: "sandbox_policy \<Rightarrow> string \<Rightarrow> bool" where
  "permits_env p n =
     (list_ex (\<lambda>allowed. n = allowed) (sp_env p) \<or> list_ex (\<lambda>(imposed, _). n = imposed) (imposed_env p))"

definition unbounded_resolution :: "sandbox_policy \<Rightarrow> string option" where
  "unbounded_resolution p =
     (if \<not> bounds_resolution p then None
      else if sp_dns_over_tcp p then
        Some ''a name allowlist asks no nameserver and `--dns-over-tcp` asks one for every name''
      else if sp_unix_sockets p then
        Some ''a local resolver answers over a pathname socket, asked before nsswitch''
      else case sp_network p of
          AnyPort \<Rightarrow>
            Some ''every port is allowlisted, so the command reaches a nameserver by IP literal''
        | Ports ports \<Rightarrow>
            if NAMESERVER_PORT \<in> set ports
            then Some ''port 53 is allowlisted, so a nameserver answers for every name'' else None
        | NetDenied \<Rightarrow> None)"

section \<open>The builders\<close>

fun grant :: "axis \<Rightarrow> vetted_path \<Rightarrow> sandbox_policy \<Rightarrow> sandbox_policy" where
  "grant AxRead v p = p\<lparr>sp_readable := sp_readable p @ [v]\<rparr>"
| "grant AxWrite v p = p\<lparr>sp_writable := sp_writable p @ [v]\<rparr>"
| "grant AxReadExecute v p = p\<lparr>sp_executable := sp_executable p @ [v]\<rparr>"

definition env_name :: "string \<Rightarrow> bool" where
  "env_name n = (n \<noteq> [] \<and> CHR ''='' \<notin> set n \<and> CHR 0x00 \<notin> set n)"

definition allow_env :: "string \<Rightarrow> sandbox_policy \<Rightarrow> sandbox_policy" where
  "allow_env n p = (if env_name n then p\<lparr>sp_env := sp_env p @ [n]\<rparr> else p)"

definition allow_standard_env :: "sandbox_policy \<Rightarrow> sandbox_policy" where
  "allow_standard_env p = fold allow_env STANDARD_ENV_NAMES p"

definition allow_read :: "vetted_path \<Rightarrow> sandbox_policy \<Rightarrow> sandbox_policy" where
  "allow_read = grant AxRead"

definition allow_write :: "vetted_path \<Rightarrow> sandbox_policy \<Rightarrow> sandbox_policy" where
  "allow_write = grant AxWrite"

definition allow_read_execute :: "vetted_path \<Rightarrow> sandbox_policy \<Rightarrow> sandbox_policy" where
  "allow_read_execute = grant AxReadExecute"

text \<open>The system's executables, each vetted now and skipped when it cannot be.\<close>

fun vet_each :: "('w, 'fd) path_os \<Rightarrow> string list \<Rightarrow> sandbox_policy \<Rightarrow> 'w \<Rightarrow> sandbox_policy \<times> 'w" where
  "vet_each os [] p w = (p, w)"
| "vet_each os (path # ps) p w =
     (case vet os path w of
        (Inl _, w') \<Rightarrow> vet_each os ps p w'
      | (Inr v, w') \<Rightarrow> vet_each os ps (allow_read_execute v p) w')"

definition allow_system_executables :: "('w, 'fd) path_os \<Rightarrow> sandbox_policy \<Rightarrow> 'w \<Rightarrow> sandbox_policy \<times> 'w" where
  "allow_system_executables os p = vet_each os SYSTEM_EXECUTABLE_PATHS p"

definition allow_network :: "sandbox_policy \<Rightarrow> sandbox_policy" where
  "allow_network p = p\<lparr>sp_network := AnyPort\<rparr>"

definition allow_network_port :: "u16 \<Rightarrow> sandbox_policy \<Rightarrow> sandbox_policy" where
  "allow_network_port port p =
     (if port = 0 then p
      else p\<lparr>sp_network := (case sp_network p of
               NetDenied \<Rightarrow> Ports [port]
             | AnyPort \<Rightarrow> AnyPort
             | Ports ports \<Rightarrow> Ports (if port \<in> set ports then ports else ports @ [port]))\<rparr>)"

definition allow_unix_sockets :: "sandbox_policy \<Rightarrow> sandbox_policy" where
  "allow_unix_sockets p = p\<lparr>sp_unix_sockets := True\<rparr>"

definition hint_dns_over_tcp :: "sandbox_policy \<Rightarrow> sandbox_policy" where
  "hint_dns_over_tcp p = p\<lparr>sp_dns_over_tcp := True\<rparr>"

fun has_whitespace :: "string \<Rightarrow> bool" where
  "has_whitespace [] = False"
| "has_whitespace (c # s) = (ws_width (c # s) \<noteq> 0 \<or> has_whitespace s)"

definition is_resolvable_name :: "string \<Rightarrow> bool" where
  "is_resolvable_name n =
     (n \<noteq> [] \<and> length n \<le> DNS_NAME_LIMIT \<and> CHR ''#'' \<notin> set n \<and> CHR 0x00 \<notin> set n \<and> \<not> has_whitespace n)"

definition allow_dns :: "string \<Rightarrow> sandbox_policy \<Rightarrow> sandbox_policy" where
  "allow_dns n p =
     (if is_resolvable_name n \<and> n \<notin> set (sp_dns_names p)
      then p\<lparr>sp_dns_names := sp_dns_names p @ [n]\<rparr> else p)"

section \<open>Policies the builders make\<close>

inductive built :: "sandbox_policy \<Rightarrow> bool" where
  built_default: "built default_policy"
| built_grant: "built p \<Longrightarrow> built (grant a v p)"
| built_env: "built p \<Longrightarrow> built (allow_env n p)"
| built_network: "built p \<Longrightarrow> built (allow_network p)"
| built_port: "built p \<Longrightarrow> built (allow_network_port port p)"
| built_unix: "built p \<Longrightarrow> built (allow_unix_sockets p)"
| built_hint: "built p \<Longrightarrow> built (hint_dns_over_tcp p)"
| built_dns: "built p \<Longrightarrow> built (allow_dns n p)"

text \<open>What the fields of such a policy are known to hold.\<close>

fun network_ok :: "network_policy \<Rightarrow> bool" where
  "network_ok (Ports ports) = (ports \<noteq> [] \<and> distinct ports \<and> 0 \<notin> set ports)"
| "network_ok _ = True"

definition policy_ok :: "sandbox_policy \<Rightarrow> bool" where
  "policy_ok p \<longleftrightarrow>
     network_ok (sp_network p) \<and> list_all env_name (sp_env p)
     \<and> list_all is_resolvable_name (sp_dns_names p) \<and> distinct (sp_dns_names p)"

lemma policy_ok_default [step_inv]: "policy_ok default_policy"
  by (simp add: policy_ok_def default_policy_def)

lemma policy_ok_grant [step_inv]: "policy_ok p \<Longrightarrow> policy_ok (grant a v p)"
  by (cases a) (simp_all add: policy_ok_def)

lemma policy_ok_env [step_inv]: "policy_ok p \<Longrightarrow> policy_ok (allow_env n p)"
  by (simp add: policy_ok_def allow_env_def)

lemma policy_ok_network [step_inv]: "policy_ok p \<Longrightarrow> policy_ok (allow_network p)"
  by (simp add: policy_ok_def allow_network_def)

lemma policy_ok_port [step_inv]: "policy_ok p \<Longrightarrow> policy_ok (allow_network_port port p)"
  by (cases "sp_network p") (auto simp: policy_ok_def allow_network_port_def)

lemma policy_ok_unix [step_inv]: "policy_ok p \<Longrightarrow> policy_ok (allow_unix_sockets p)"
  by (simp add: policy_ok_def allow_unix_sockets_def)

lemma policy_ok_hint [step_inv]: "policy_ok p \<Longrightarrow> policy_ok (hint_dns_over_tcp p)"
  by (simp add: policy_ok_def hint_dns_over_tcp_def)

lemma policy_ok_dns [step_inv]: "policy_ok p \<Longrightarrow> policy_ok (allow_dns n p)"
  by (simp add: policy_ok_def allow_dns_def)

lemma built_policy_ok: "built p \<Longrightarrow> policy_ok p"
  by (induction rule: built.induct) (auto intro: step_inv)

lemma built_standard_env [step_inv]: "built p \<Longrightarrow> built (allow_standard_env p)"
  by (simp add: allow_standard_env_def STANDARD_ENV_NAMES_def built_env)

lemma built_vet_each: "built p \<Longrightarrow> built (fst (vet_each os ps p w))"
  by (induction os ps p w rule: vet_each.induct)
    (use built_grant[where a = AxReadExecute] in \<open>auto simp: allow_read_execute_def split: prod.splits sum.splits\<close>)

lemma built_system_executables [step_inv]: "built p \<Longrightarrow> built (fst (allow_system_executables os p w))"
  by (simp add: allow_system_executables_def built_vet_each)

section \<open>The environment a child gets (spawn.rs)\<close>

text \<open>
  \<open>spawn::command\<close> clears the environment and adds the allowlisted variables that are set here,
  then the imposed ones; \<open>Command::envs\<close> keeps the last value of a name. \<open>lookup\<close> is \<open>env::var_os\<close>.
\<close>

definition set_env :: "(string \<times> string) list \<Rightarrow> (string \<rightharpoonup> string) \<Rightarrow> string \<rightharpoonup> string" where
  "set_env vars env = foldl (\<lambda>m (n, v). m(n \<mapsto> v)) env vars"

definition spawn_env :: "(string \<Rightarrow> string option) \<Rightarrow> sandbox_policy \<Rightarrow> string \<rightharpoonup> string" where
  "spawn_env lookup p =
     set_env (imposed_env p)
       (set_env (List.map_filter (\<lambda>n. map_option (Pair n) (lookup n)) (sp_env p)) Map.empty)"

lemma set_env_dom: "dom (set_env vars env) = fst ` set vars \<union> dom env"
  by (induction vars arbitrary: env) (auto simp: set_env_def)

lemma set_env_lookup:
  "set_env (List.map_filter (\<lambda>n. map_option (Pair n) (lookup n)) ns) env n
     = (if n \<in> set ns \<and> lookup n \<noteq> None then lookup n else env n)"
proof (induction ns arbitrary: env)
  case (Cons m ns)
  show ?case
    using Cons[of "case lookup m of None \<Rightarrow> env | Some v \<Rightarrow> env(m \<mapsto> v)"]
    by (auto simp: set_env_def List.map_filter_simps split: option.splits)
qed (simp add: set_env_def List.map_filter_simps)

text \<open>
  What the builder of every command puts in a child's environment is exactly what the policy
  says: a variable is present only if \<open>permits_env\<close> allows its name, the question the helper asks
  of its inherited environment; an imposed one has the policy's value whatever the harness holds,
  and an allowlisted one is inherited as it is here or not at all.
\<close>

lemma child_environment:
  "spawn_env lookup p n =
     (case map_of (imposed_env p) n of
        Some v \<Rightarrow> Some v
      | None \<Rightarrow> if n \<in> set (sp_env p) then lookup n else None)
   \<and> dom (spawn_env lookup p) \<subseteq> {m. permits_env p m}"
proof
  show eq: "spawn_env lookup p n =
     (case map_of (imposed_env p) n of
        Some v \<Rightarrow> Some v
      | None \<Rightarrow> if n \<in> set (sp_env p) then lookup n else None)" for n
    by (auto simp: spawn_env_def set_env_lookup imposed_env_def DNS_OVER_TCP_ENV_def)
      (auto simp: set_env_def set_env_lookup[unfolded set_env_def])
  show "dom (spawn_env lookup p) \<subseteq> {m. permits_env p m}"
    by (auto simp: eq permits_env_def list_ex_iff imposed_env_def DNS_OVER_TCP_ENV_def
        split: option.splits if_splits)
qed

end
