(* ===== verification/Digest.thy ===== *)
theory Digest
  imports Channel
begin

text \<open>
  The SHA-256 of a binary as an operator writes it and as the helper checks it
  (\<open>sha256_digest.rs\<close> of \<open>sandbx-core\<close>), and the text of every sandbox error
  (\<open>Display\<close> in \<open>sandbox_error.rs\<close>), which prints digests. The hash function is the \<open>sha2\<close>
  crate's and the file's reads are the kernel's: both are arguments.
\<close>

section \<open>Hex\<close>

definition HEX_LEN :: nat where "HEX_LEN = 64"

datatype digest_parse_error = DigestLength nat | DigestCharacter u8

text \<open>\<open>chars().count()\<close> of a UTF-8 string: the bytes that do not continue a character.\<close>

definition char_count :: "string \<Rightarrow> nat" where
  "char_count s = length (filter (\<lambda>c. \<not> utf8_cont (of_char c)) s)"

definition nibble :: "char \<Rightarrow> digest_parse_error + u8" where
  "nibble c =
     (let b = (of_char c :: nat)
      in if 48 \<le> b \<and> b \<le> 57 then Inr (of_nat (b - 48))
         else if 97 \<le> b \<and> b \<le> 102 then Inr (of_nat (b - 97 + 10))
         else Inl (DigestCharacter (of_nat b)))"

text \<open>The pairs of the hex string, high nibble first; a byte left over stands in no pair.\<close>

fun digest_bytes :: "string \<Rightarrow> digest_parse_error + u8 list" where
  "digest_bytes (h # l # rest) =
     (case nibble h of
        Inl e \<Rightarrow> Inl e
      | Inr high \<Rightarrow>
          (case nibble l of
             Inl e \<Rightarrow> Inl e
           | Inr low \<Rightarrow>
               (case digest_bytes rest of
                  Inl e \<Rightarrow> Inl e
                | Inr bytes \<Rightarrow> Inr (or (push_bit 4 high) low # bytes))))"
| "digest_bytes _ = Inr []"

text \<open>
  The array has 32 bytes and \<open>zip\<close> stops at the shorter side: pairs behind the 32nd are not read.
\<close>

definition digest_parse :: "string \<Rightarrow> digest_parse_error + u8 list" where
  "digest_parse hex =
     (if char_count hex \<noteq> HEX_LEN then Inl (DigestLength (char_count hex))
      else (case digest_bytes (take HEX_LEN hex) of
          Inl e \<Rightarrow> Inl e
        | Inr bytes \<Rightarrow> Inr bytes))"

definition hex_digit :: "u8 \<Rightarrow> char" where
  "hex_digit n = (if n < 10 then char_of (48 + unat n) else char_of (87 + unat n))"

definition digest_display :: "u8 list \<Rightarrow> string" where
  "digest_display bytes =
     concat (map (\<lambda>b. [hex_digit (drop_bit 4 b), hex_digit (and b 15)]) bytes)"

section \<open>The text of an error (sandbox_error.rs)\<close>

text \<open>
  A path is displayed with \<open>lossy\<close>, an I/O error and a duration as the standard library does; all
  three are arguments.
\<close>

fun error_text ::
  "(string \<Rightarrow> string) \<Rightarrow> (io_error \<Rightarrow> string) \<Rightarrow> (nat \<Rightarrow> string) \<Rightarrow> sandbox_error \<Rightarrow> string" where
  "error_text lossy io dur (PathNotAllowed requested acc) =
     ''path is '' @ outside acc @ '': '' @ lossy requested"
| "error_text lossy io dur (Unresolvable requested source) =
     ''could not resolve path '' @ lossy requested @ '': '' @ io source"
| "error_text lossy io dur (PathNotFound requested source) =
     ''could not find '' @ lossy requested @ '': '' @ io source"
| "error_text lossy io dur (CommandTimedOut after) =
     ''command exceeded its '' @ dur after @ '' limit and was killed''"
| "error_text lossy io dur (Unsupported detail) = ''sandboxing is not available here: '' @ detail"
| "error_text lossy io dur (UnboundedResolution detail) =
     ''a name allowlist would bound nothing here: '' @ detail"
| "error_text lossy io dur (GrantBoundByResolver granted) =
     ''a name allowlist replaces '' @ lossy granted
       @ '' with sandbx's own copy, so a grant naming it pins the rule to the host's file while ''
       @ ''the command reads another object at that same path '' @ map char_of [0xE2, 0x80, 0x94 :: nat]
       @ '' drop the grant, and grant the directory holding it if the command needs the rest of it''"
| "error_text lossy io dur (BadHelperArgs detail) = ''malformed sandbox helper arguments: '' @ detail"
| "error_text lossy io dur (SpawnFailed detail source) = detail @ '': '' @ io source"
| "error_text lossy io dur (InnerStageFailed detail source) = detail @ '': '' @ io source"
| "error_text lossy io dur (ExecFailed source) =
     ''could not execute the sandboxed command: '' @ io source"
| "error_text lossy io dur (PinMismatch program expected actual) =
     program @ '' is not the binary it was pinned to: expected '' @ digest_display expected
       @ '', found '' @ digest_display actual"
| "error_text lossy io dur (PinUnreadable program source) =
     ''could not read '' @ program @ '' to check its pin: '' @ io source @ '' ''
       @ map char_of [0xE2, 0x80, 0x94 :: nat]
       @ '' a pin needs read access, which execute alone does not give''"
| "error_text lossy io dur (PinnedScript program) =
     program @ '' is a #! script, which --pin-sha256 cannot cover: pin an ELF binary, or run the ''
       @ ''interpreter as the program instead''"
| "error_text lossy io dur (Landlock detail) = ''kernel refused the Landlock ruleset: '' @ detail"
| "error_text lossy io dur (GrantRedirected granted opened) =
     ''granted path '' @ lossy granted @ '' opened as '' @ lossy opened
       @ '', so it was not the path the policy was checked against''"
| "error_text lossy io dur (GrantReplaced granted vetted opened) =
     ''granted path '' @ lossy granted @ '' opened as object '' @ object_display opened
       @ '' and not the '' @ object_display vetted
       @ '' it was checked against, so it is no longer the directory the policy judged''"
| "error_text lossy io dur (RootReplaced granted vetted opened) =
     ''granted root '' @ lossy granted @ '' holds object '' @ object_display opened
       @ '' and not the '' @ object_display vetted
       @ '' it was checked against, so it is no longer the directory the policy judged''"
| "error_text lossy io dur (GrantUnpinnable granted source) =
     ''could not pin granted path '' @ lossy granted @ '' to the object it names: '' @ io source"
| "error_text lossy io dur (NamespaceSetupFailed detail) =
     ''could not create the sandbox namespaces: '' @ detail"
| "error_text lossy io dur (ProcessHardening detail) = ''could not harden process state: '' @ detail"
| "error_text lossy io dur (ProcessConcealment detail) =
     ''refusing to run without concealing sandbx's own process state, which is what keeps an ''
       @ ''exported key out of a tool granted /proc: '' @ detail"
| "error_text lossy io dur (Seccomp detail) = ''could not install the syscall filter: '' @ detail"
| "error_text lossy io dur (HelperRefused r detail) =
     (if detail = [] then ''the sandbox refused to run the command: '' @ refusal_label r else detail)"

definition digest_error_text :: "(u8 \<Rightarrow> string) \<Rightarrow> digest_parse_error \<Rightarrow> string" where
  "digest_error_text escape e =
     (case e of
        DigestLength found \<Rightarrow>
          ''a SHA-256 digest is '' @ dec_nat HEX_LEN @ '' hex characters, and this one is '' @ dec_nat found
      | DigestCharacter found \<Rightarrow>
          ''a SHA-256 digest is lowercase hex, and this one contains `'' @ escape found @ ''`'')"

section \<open>One spelling per digest\<close>

lemma u8_less_cases: "(n :: u8) < of_nat k \<Longrightarrow> k \<le> 256 \<Longrightarrow> n \<in> set (map of_nat [0..<k])"
proof -
  assume n: "n < of_nat k" "k \<le> 256"
  have "unat n < 256" using unsigned_less[of n, where 'a = nat] by simp
  then have "unat n < k"
    using n by (cases "k = 256") (auto simp: word_less_nat_alt unat_of_nat)
  then show ?thesis unfolding set_map by (intro image_eqI[of _ _ "unat n"]) simp_all
qed

lemma u8_nibble: "list_all P (map of_nat [0..<16]) \<Longrightarrow> (n :: u8) < 16 \<Longrightarrow> P n"
proof -
  assume P: "list_all P (map of_nat [0..<16])" and n: "n < 16"
  have "n \<in> set (map of_nat [0..<16])" using n by (intro u8_less_cases) simp_all
  with P show "P n" unfolding list_all_iff by (rule bspec)
qed

lemma u8_cases: "(b :: u8) \<in> set (map of_nat [0..<256])"
proof -
  have "unat b < 256" using unsigned_less[of b, where 'a = nat] by simp
  then show ?thesis unfolding set_map by (intro image_eqI[of _ _ "unat b"]) simp_all
qed

lemma nibbles_split:
  "drop_bit 4 (b :: u8) < 16 \<and> and b 15 < 16 \<and> or (push_bit 4 (drop_bit 4 b)) (and b 15) = b"
proof -
  have "list_all (\<lambda>b :: u8. drop_bit 4 b < 16 \<and> and b 15 < 16 \<and> or (push_bit 4 (drop_bit 4 b)) (and b 15) = b)
      (map of_nat [0..<256])" by code_simp
  then show ?thesis unfolding list_all_iff using u8_cases by (rule bspec)
qed

lemma nibble_bits: "(n :: u8) < 16 \<Longrightarrow> bit n i \<Longrightarrow> i < 4"
proof -
  assume "n < 16" and b: "bit n i"
  then have "unat n < 2 ^ 4" by (simp add: word_less_nat_alt)
  then have "unat (take_bit 4 n) = unat n" by (simp add: unsigned_take_bit_eq take_bit_nat_eq_self)
  then have "take_bit 4 n = n" by (simp only: unsigned_word_eqI)
  with b show "i < 4" by (metis bit_take_bit_iff)
qed

lemma nibbles_join:
  assumes "(h :: u8) < 16" "l < 16"
  shows "drop_bit 4 (or (push_bit 4 h) l) = h \<and> and (or (push_bit 4 h) l) 15 = l"
proof -
  have mask: "(15 :: u8) = mask 4" by (simp add: mask_eq_exp_minus_1)
  show ?thesis unfolding mask
    by (auto intro!: bit_word_eqI simp: bit_simps dest: nibble_bits[OF assms(1)] nibble_bits[OF assms(2)])
qed

lemma nibble_hex_digit [simp]:
  assumes "n < 16"
  shows "nibble (hex_digit n) = Inr n"
proof -
  have n: "unat n < 16" using assms by (simp add: word_less_nat_alt)
  show ?thesis
  proof (cases "n < 10")
    case True
    then have "unat n < 10" by (simp add: word_less_nat_alt)
    then show ?thesis using True by (simp add: nibble_def hex_digit_def Let_def)
  next
    case False
    then have "10 \<le> unat n" by (simp add: word_less_nat_alt)
    then show ?thesis using False n by (simp add: nibble_def hex_digit_def Let_def)
  qed
qed

lemma nibble_Inr: "nibble c = Inr n \<Longrightarrow> n < 16 \<and> c = hex_digit n \<and> (of_char c :: nat) < 0x80"
proof -
  assume n: "nibble c = Inr n"
  have unat: "unat (of_nat k :: u8) = k" if "k < 16" for k
    using that by (simp add: unat_of_nat)
  consider (digit) k where "k < 10" "(of_char c :: nat) = 48 + k" "n = of_nat k"
    | (letter) k where "k < 6" "(of_char c :: nat) = 97 + k" "n = of_nat (10 + k)"
  proof -
    from n have "48 \<le> (of_char c :: nat) \<and> (of_char c :: nat) \<le> 57 \<and> n = of_nat (of_char c - 48)
        \<or> 97 \<le> (of_char c :: nat) \<and> (of_char c :: nat) \<le> 102 \<and> n = of_nat (of_char c - 97 + 10)"
      by (auto simp: nibble_def Let_def split: if_splits)
    then show thesis
      using that(1)[of "of_char c - 48"] that(2)[of "of_char c - 97"] by (auto simp: add.commute)
  qed
  then show ?thesis
  proof cases
    case digit
    then have "n < 10" using unat[of k] by (simp add: word_less_nat_alt)
    moreover have "c = char_of (48 + k)" using digit(2) by (metis char_of_char)
    ultimately show ?thesis using digit unat[of k] by (simp add: hex_digit_def word_less_nat_alt)
  next
    case letter
    then have "\<not> n < 10" "n < 16" using unat[of "10 + k"] by (auto simp: word_less_nat_alt)
    moreover have "c = char_of (97 + k)" using letter(2) by (metis char_of_char)
    ultimately show ?thesis using letter unat[of "10 + k"] by (simp add: hex_digit_def)
  qed
qed

lemma digest_bytes_display: "digest_bytes (digest_display d) = Inr d"
  by (induction d) (simp_all add: digest_display_def nibbles_split)

lemma digest_bytes_Inr:
  "digest_bytes s = Inr d \<Longrightarrow> even (length s) \<Longrightarrow>
     s = digest_display d \<and> length s = 2 * length d \<and> list_all (\<lambda>c. (of_char c :: nat) < 0x80) s"
proof (induction s arbitrary: d rule: digest_bytes.induct)
  case (1 h l rest)
  from 1(2) obtain high low bytes where n: "nibble h = Inr high" "nibble l = Inr low"
    "digest_bytes rest = Inr bytes" "d = or (push_bit 4 high) low # bytes"
    by (auto split: sum.splits)
  note IH = 1(1)[OF n(1,2,3)]
  have "even (length rest)" using 1(3) by simp
  note rest = IH[OF this]
  have "digest_display d = hex_digit high # hex_digit low # digest_display bytes"
    using nibbles_join[of high low] nibble_Inr[OF n(1)] nibble_Inr[OF n(2)]
    by (simp only: digest_display_def n(4) list.map concat.simps append_Cons append_Nil)
  with nibble_Inr[OF n(1)] nibble_Inr[OF n(2)] rest n(4) show ?case by (elim conjE) simp
qed (auto simp: digest_display_def)

lemma utf8_valid_ascii_prefix:
  "list_all (\<lambda>c. (of_char c :: nat) < 0x80) a \<Longrightarrow> utf8_valid (a @ b) = utf8_valid b"
  by (induction a) (simp_all add: utf8_valid_ascii_Cons)

lemma char_count_ascii: "list_all (\<lambda>c. (of_char c :: nat) < 0x80) s \<Longrightarrow> char_count s = length s"
  unfolding char_count_def by (auto simp: list_all_iff utf8_cont_def intro!: arg_cong[of _ _ length] filter_True)

lemma utf8_valid_starts: "utf8_valid (c # s) \<Longrightarrow> \<not> utf8_cont (of_char c)"
proof
  assume v: "utf8_valid (c # s)" and c: "utf8_cont (of_char c)"
  from v have w: "utf8_width (map of_char (take 4 (c # s))) \<noteq> 0"
    by (subst (asm) utf8_valid.simps) (auto simp: Let_def split: if_splits)
  with c show False
    by (auto simp: utf8_width_def utf8_cont_def split: list.splits if_splits)
qed

lemma digest_parse_hex:
  assumes "utf8_valid s" "char_count s = HEX_LEN" "digest_bytes (take HEX_LEN s) = Inr d"
  shows "length d = 32 \<and> s = digest_display d"
proof -
  let ?t = "take HEX_LEN s"
  have "char_count s \<le> length s" by (simp add: char_count_def)
  with assms(2) have len: "length ?t = HEX_LEN" by simp
  then have "even (length ?t)" by (simp add: HEX_LEN_def)
  note t = digest_bytes_Inr[OF assms(3) this]
  then have ascii: "list_all (\<lambda>c. (of_char c :: nat) < 0x80) ?t" by blast
  have split: "s = ?t @ drop HEX_LEN s" by simp
  have "utf8_valid (drop HEX_LEN s)"
    using assms(1) utf8_valid_ascii_prefix[OF ascii] by (metis append_take_drop_id)
  moreover have "char_count (drop HEX_LEN s) = 0"
  proof -
    have "char_count s = char_count ?t + char_count (drop HEX_LEN s)"
      by (subst split) (simp add: char_count_def del: append_take_drop_id)
    with assms(2) len char_count_ascii[OF ascii] show ?thesis by simp
  qed
  ultimately have "drop HEX_LEN s = []"
    by (cases "drop HEX_LEN s") (auto simp: char_count_def dest: utf8_valid_starts split: if_splits)
  then have "?t = s" using split by simp
  with t len show ?thesis by (simp add: HEX_LEN_def)
qed

lemma digest_display_hex: "list_all (\<lambda>c. (of_char c :: nat) < 0x80) (digest_display d) \<and> length (digest_display d) = 2 * length d"
proof (induction d)
  case (Cons b d)
  have "nibble (hex_digit (drop_bit 4 b)) = Inr (drop_bit 4 b)" "nibble (hex_digit (and b 15)) = Inr (and b 15)"
    using nibbles_split[of b] by simp_all
  then have "(of_char (hex_digit (drop_bit 4 b)) :: nat) < 0x80 \<and> (of_char (hex_digit (and b 15)) :: nat) < 0x80"
    using nibble_Inr by blast
  with Cons show ?case by (simp add: digest_display_def)
qed (simp add: digest_display_def)

lemma digest_parse_display:
  assumes "length d = 32"
  shows "digest_parse (digest_display d) = Inr d"
proof -
  have "length (digest_display d) = HEX_LEN" "char_count (digest_display d) = HEX_LEN"
    using assms digest_display_hex[of d] char_count_ascii[of "digest_display d"] by (simp_all add: HEX_LEN_def)
  then show ?thesis by (simp add: digest_parse_def digest_bytes_display)
qed

lemma digest_parse_length:
  assumes "digest_parse s = Inr d"
  shows "length d = 32"
proof -
  from assms have c: "char_count s = HEX_LEN" and b: "digest_bytes (take HEX_LEN s) = Inr d"
    by (auto simp: digest_parse_def split: if_splits sum.splits)
  have "char_count s \<le> length s" by (simp add: char_count_def)
  with c have "length (take HEX_LEN s) = 64" by (simp add: HEX_LEN_def)
  with digest_bytes_Inr[OF b] show ?thesis by simp
qed

text \<open>
  A digest has exactly one spelling: a string parses to 32 bytes if and only if it is what
  \<open>Display\<close> writes for them, so a pin cannot be given in two ways and every refused string is one
  no digest is printed as.
\<close>

lemma digest_one_spelling:
  assumes "utf8_valid s"
  shows "digest_parse s = Inr d \<longleftrightarrow> length d = 32 \<and> s = digest_display d"
proof
  assume "digest_parse s = Inr d"
  then show "length d = 32 \<and> s = digest_display d"
    using digest_parse_hex[OF assms] by (auto simp: digest_parse_def split: if_splits sum.splits)
qed (auto simp: digest_parse_display)

section \<open>Hashing and opening a pinned program\<close>

text \<open>
  A file is read from where it stands; a read may be interrupted, and is then made again. The
  loop need not end (a file may be read for ever), so it is a partial function. The hasher is
  the bytes it was fed, hashed at the end.
\<close>

record ('w, 'fd) pin_os =
  pn_open :: "string \<Rightarrow> ('w, io_error, 'fd) io"
  pn_read :: "'fd \<Rightarrow> nat \<Rightarrow> ('w, io_error, string) io"
  pn_rewind :: "'fd \<Rightarrow> ('w, io_error, unit) io"
  pn_interrupted :: "io_error \<Rightarrow> bool"
  pn_sha256 :: "string \<Rightarrow> u8 list"

definition CHUNK :: nat where "CHUNK = 64 * 1024"

partial_function (option) hash_reads ::
  "('w, 'fd) pin_os \<Rightarrow> 'fd \<Rightarrow> string \<Rightarrow> 'w \<Rightarrow> ((io_error + u8 list) \<times> 'w) option" where
  "hash_reads os fd fed w =
     (case pn_read os fd CHUNK w of
        (Inr bytes, w') \<Rightarrow>
          if bytes = [] then Some (Inr (pn_sha256 os fed), w') else hash_reads os fd (fed @ bytes) w'
      | (Inl e, w') \<Rightarrow>
          if pn_interrupted os e then hash_reads os fd fed w' else Some (Inl e, w'))"

definition of_file :: "('w, 'fd) pin_os \<Rightarrow> 'fd \<Rightarrow> 'w \<Rightarrow> ((io_error + u8 list) \<times> 'w) option" where
  "of_file os fd w = hash_reads os fd [] w"

partial_function (option) read_magic ::
  "('w, 'fd) pin_os \<Rightarrow> 'fd \<Rightarrow> string \<Rightarrow> 'w \<Rightarrow> ((io_error + bool) \<times> 'w) option" where
  "read_magic os fd magic w =
     (if 2 \<le> length magic then Some (Inr (magic = ''#!''), w)
      else (case pn_read os fd (2 - length magic) w of
          (Inr bytes, w') \<Rightarrow>
            if bytes = [] then Some (Inr False, w') else read_magic os fd (magic @ bytes) w'
        | (Inl e, w') \<Rightarrow>
            if pn_interrupted os e then read_magic os fd magic w' else Some (Inl e, w')))"

definition starts_with_shebang :: "('w, 'fd) pin_os \<Rightarrow> 'fd \<Rightarrow> 'w \<Rightarrow> ((io_error + bool) \<times> 'w) option" where
  "starts_with_shebang os fd w =
     (case pn_rewind os fd w of
        (Inl e, w') \<Rightarrow> Some (Inl e, w')
      | (Inr _, w') \<Rightarrow> read_magic os fd [] w')"

definition open_verified ::
  "('w, 'fd) pin_os \<Rightarrow> string \<Rightarrow> u8 list \<Rightarrow> 'w \<Rightarrow> ((sandbox_error + 'fd) \<times> 'w) option" where
  "open_verified os program expected w =
     (case pn_open os program w of
        (Inl e, w1) \<Rightarrow> Some (Inl (PinUnreadable program e), w1)
      | (Inr fd, w1) \<Rightarrow>
          (case of_file os fd w1 of
             None \<Rightarrow> None
           | Some (Inl e, w2) \<Rightarrow> Some (Inl (PinUnreadable program e), w2)
           | Some (Inr actual, w2) \<Rightarrow>
               if actual \<noteq> expected then Some (Inl (PinMismatch program expected actual), w2)
               else (case starts_with_shebang os fd w2 of
                   None \<Rightarrow> None
                 | Some (Inl e, w3) \<Rightarrow> Some (Inl (PinUnreadable program e), w3)
                 | Some (Inr script, w3) \<Rightarrow>
                     if script then Some (Inl (PinnedScript program), w3) else Some (Inr fd, w3))))"

text \<open>
  What the code relies on of a regular file that nobody writes: \<open>whole\<close> is its content and
  \<open>left\<close> what is ahead of the handle. A read takes a prefix, empty only at the end; an interrupted
  one takes nothing; opening and rewinding put the handle at the start.
\<close>

definition file_like ::
  "('w, 'fd) pin_os \<Rightarrow> ('fd \<Rightarrow> string) \<Rightarrow> ('fd \<Rightarrow> 'w \<Rightarrow> string) \<Rightarrow> bool" where
  "file_like os whole left \<longleftrightarrow>
     (\<forall>p w fd w'. pn_open os p w = (Inr fd, w') \<longrightarrow> left fd w' = whole fd)
     \<and> (\<forall>fd w w'. pn_rewind os fd w = (Inr (), w') \<longrightarrow> left fd w' = whole fd)
     \<and> (\<forall>fd n w b w'. pn_read os fd n w = (Inr b, w') \<longrightarrow>
          left fd w = b @ left fd w' \<and> length b \<le> n \<and> (b = [] \<longrightarrow> n = 0 \<or> left fd w = []))
     \<and> (\<forall>fd n w e w'. pn_read os fd n w = (Inl e, w') \<longrightarrow> pn_interrupted os e \<longrightarrow> left fd w' = left fd w)"

lemma file_like_read:
  "file_like os whole left \<Longrightarrow> pn_read os fd n w = (Inr b, w') \<Longrightarrow>
     left fd w = b @ left fd w' \<and> length b \<le> n \<and> (b = [] \<longrightarrow> n = 0 \<or> left fd w = [])"
  unfolding file_like_def by blast

lemma file_like_interrupted:
  "file_like os whole left \<Longrightarrow> pn_read os fd n w = (Inl e, w') \<Longrightarrow> pn_interrupted os e \<Longrightarrow>
     left fd w' = left fd w"
  unfolding file_like_def by blast

lemma hash_reads_all:
  assumes "file_like os whole left" "hash_reads os fd fed w = Some (Inr d, w')"
  shows "d = pn_sha256 os (fed @ left fd w)"
proof -
  have "file_like os whole left \<longrightarrow> (\<forall>d w'. y = (Inr d, w') \<longrightarrow> d = pn_sha256 os (fed @ left fd w))"
    if "hash_reads os fd fed w = Some y" for y
  proof (rule hash_reads.raw_induct[where P = "\<lambda>os fd fed w y. file_like os whole left \<longrightarrow>
        (\<forall>d w'. y = (Inr d, w') \<longrightarrow> d = pn_sha256 os (fed @ left fd w))", OF _ that], goal_cases)
    case (1 rec os fd fed w y)
    show ?case
    proof (intro impI allI)
      fix d w' assume f: "file_like os whole left" and y: "y = (Inr d, w')"
      obtain r w1 where read: "pn_read os fd CHUNK w = (r, w1)" by (cases "pn_read os fd CHUNK w")
      show "d = pn_sha256 os (fed @ left fd w)"
      proof (cases r)
        case (Inl e)
        with 1(2) read y have i: "pn_interrupted os e" and r: "rec os fd fed w1 = Some (Inr d, w')"
          by (auto split: if_splits)
        have "left fd w1 = left fd w"
          using file_like_interrupted[OF f read[unfolded Inl] i] .
        with 1(1)[OF r] f show ?thesis by simp
      next
        case (Inr b)
        have step: "left fd w = b @ left fd w1" "b = [] \<longrightarrow> left fd w = []"
          using file_like_read[OF f read[unfolded Inr]] by (auto simp: CHUNK_def)
        show ?thesis
        proof (cases "b = []")
          case True
          with 1(2) read Inr y step show ?thesis by simp
        next
          case False
          with 1(2) read Inr y have r: "rec os fd (fed @ b) w1 = Some (Inr d, w')" by simp
          from 1(1)[OF r] f step(1) show ?thesis by simp
        qed
      qed
    qed
  qed
  with assms show ?thesis by blast
qed

lemma read_magic_all:
  assumes "file_like os whole left" "read_magic os fd magic w = Some (Inr script, w')" "length magic \<le> 2"
  shows "script \<longleftrightarrow> take 2 (magic @ left fd w) = ''#!''"
proof -
  have "file_like os whole left \<longrightarrow> length magic \<le> 2 \<longrightarrow>
      (\<forall>script w'. y = (Inr script, w') \<longrightarrow> script = (take 2 (magic @ left fd w) = ''#!''))"
    if "read_magic os fd magic w = Some y" for y
  proof (rule read_magic.raw_induct[where P = "\<lambda>os fd magic w y. file_like os whole left \<longrightarrow>
        length magic \<le> 2 \<longrightarrow> (\<forall>script w'. y = (Inr script, w') \<longrightarrow> script = (take 2 (magic @ left fd w) = ''#!''))", OF _ that], goal_cases)
    case (1 rec os fd magic w y)
    show ?case
    proof (intro impI allI)
      fix script w' assume f: "file_like os whole left" and y: "y = (Inr script, w')" and m: "length magic \<le> 2"
      show "script = (take 2 (magic @ left fd w) = ''#!'')"
      proof (cases "2 \<le> length magic")
        case True
        with 1(2) y m show ?thesis by simp
      next
        case short: False
        obtain r w1 where read: "pn_read os fd (2 - length magic) w = (r, w1)"
          by (cases "pn_read os fd (2 - length magic) w")
        show ?thesis
        proof (cases r)
          case (Inl e)
          with 1(2) read y short have i: "pn_interrupted os e" and r: "rec os fd magic w1 = Some (Inr script, w')"
            by (auto split: if_splits)
          have "left fd w1 = left fd w"
            using file_like_interrupted[OF f read[unfolded Inl] i] .
          with 1(1)[OF r] f m show ?thesis by simp
        next
          case (Inr b)
          have step: "left fd w = b @ left fd w1" "b = [] \<longrightarrow> left fd w = []" "length b \<le> 2 - length magic"
            using file_like_read[OF f read[unfolded Inr]] short by auto
          show ?thesis
          proof (cases "b = []")
            case True
            with 1(2) read Inr y step short have "\<not> script" "left fd w = []" by simp_all
            moreover have "length (take 2 magic) < 2" using short by simp
            then have "take 2 magic \<noteq> ''#!''" by auto
            ultimately show ?thesis by simp
          next
            case False
            with 1(2) read Inr y short have r: "rec os fd (magic @ b) w1 = Some (Inr script, w')" by simp
            have "length (magic @ b) \<le> 2" using step(3) short by simp
            with 1(1)[OF r] f have "script = (take 2 ((magic @ b) @ left fd w1) = ''#!'')" by blast
            then show ?thesis by (simp only: step(1) append_assoc)
          qed
        qed
      qed
    qed
  qed
  with assms show ?thesis by blast
qed

text \<open>Interruptions run out: one takes of what \<open>calm\<close> counts, and no read adds to it.\<close>

definition interrupts_end :: "('w, 'fd) pin_os \<Rightarrow> ('w \<Rightarrow> nat) \<Rightarrow> bool" where
  "interrupts_end os calm \<longleftrightarrow>
     (\<forall>fd n w r w'. pn_read os fd n w = (r, w') \<longrightarrow>
        (case r of Inr _ \<Rightarrow> calm w' \<le> calm w | Inl e \<Rightarrow> pn_interrupted os e \<longrightarrow> calm w' < calm w))"

lemma interrupts_end_read:
  "interrupts_end os calm \<Longrightarrow> pn_read os fd n w = (Inr b, w') \<Longrightarrow> calm w' \<le> calm w"
  "interrupts_end os calm \<Longrightarrow> pn_read os fd n w = (Inl e, w') \<Longrightarrow> pn_interrupted os e \<Longrightarrow> calm w' < calm w"
  unfolding interrupts_end_def by fastforce+

text \<open>Every further read of a file is of less than the one before: nearer its end, or calmer.\<close>

lemma read_goes_on:
  assumes "file_like os whole left" "interrupts_end os calm" "pn_read os fd n w = (r, w')"
  shows "r = Inr b \<Longrightarrow> b \<noteq> [] \<Longrightarrow> length (left fd w') + calm w' < length (left fd w) + calm w"
    and "r = Inl e \<Longrightarrow> pn_interrupted os e \<Longrightarrow> length (left fd w') + calm w' < length (left fd w) + calm w"
proof -
  assume b: "r = Inr b" "b \<noteq> []"
  then have "left fd w = b @ left fd w'" "calm w' \<le> calm w" "0 < length b"
    using file_like_read[OF assms(1)] interrupts_end_read(1)[OF assms(2)] assms(3) by blast+
  moreover from this(1) have "length (left fd w) = length b + length (left fd w')" by simp
  ultimately show "length (left fd w') + calm w' < length (left fd w) + calm w" by linarith
next
  assume "r = Inl e" "pn_interrupted os e"
  then show "length (left fd w') + calm w' < length (left fd w) + calm w"
    using file_like_interrupted[OF assms(1)] interrupts_end_read(2)[OF assms(2)] assms(3) by fastforce
qed

lemma hash_reads_returns:
  assumes "file_like os whole left" "interrupts_end os calm"
  shows "\<exists>y. hash_reads os fd fed w = Some y"
proof (induction "length (left fd w) + calm w" arbitrary: fed w rule: less_induct)
  case less
  obtain r w1 where read: "pn_read os fd CHUNK w = (r, w1)" by force
  show ?case
    using less read_goes_on[OF assms read] read
    by (cases r) (auto simp: hash_reads.simps[of os fd fed w])
qed

lemma read_magic_returns:
  assumes "file_like os whole left" "interrupts_end os calm"
  shows "\<exists>y. read_magic os fd magic w = Some y"
proof (induction "length (left fd w) + calm w" arbitrary: magic w rule: less_induct)
  case less
  obtain r w1 where read: "pn_read os fd (2 - length magic) w = (r, w1)" by force
  show ?case
    using less read_goes_on[OF assms read] read
    by (cases r) (auto simp: read_magic.simps[of os fd magic w])
qed

lemma open_verified_returns:
  assumes "file_like os whole left" "interrupts_end os calm"
  shows "\<exists>y. open_verified os program expected w = Some y"
proof -
  have reads: "hash_reads os fd fed v \<noteq> None" "read_magic os fd magic v \<noteq> None" for fd fed magic v
    using hash_reads_returns[OF assms] read_magic_returns[OF assms] by (metis option.distinct(1))+
  have "open_verified os program expected w \<noteq> None"
    by (simp add: open_verified_def of_file_def starts_with_shebang_def reads split: prod.split sum.split option.split)
  then show ?thesis by auto
qed

text \<open>What \<open>open_verified\<close> answers, of a file with the content it read.\<close>

definition verdict_holds ::
  "('w, 'fd) pin_os \<Rightarrow> ('fd \<Rightarrow> string) \<Rightarrow> u8 list \<Rightarrow> sandbox_error + 'fd \<Rightarrow> bool" where
  "verdict_holds os whole expected r \<longleftrightarrow>
     (case r of
        Inr fd \<Rightarrow> pn_sha256 os (whole fd) = expected \<and> take 2 (whole fd) \<noteq> ''#!''
      | Inl (PinMismatch p e actual) \<Rightarrow> e = expected \<and> actual \<noteq> expected \<and> (\<exists>fd. actual = pn_sha256 os (whole fd))
      | Inl (PinnedScript p) \<Rightarrow> \<exists>fd. pn_sha256 os (whole fd) = expected \<and> take 2 (whole fd) = ''#!''
      | Inl e \<Rightarrow> \<exists>p source. e = PinUnreadable p source)"

lemma verdict_holds_simps [simp]:
  "verdict_holds os whole expected (Inr fd)
     \<longleftrightarrow> pn_sha256 os (whole fd) = expected \<and> take 2 (whole fd) \<noteq> ''#!''"
  "verdict_holds os whole expected (Inl (PinUnreadable p source))"
  "verdict_holds os whole expected (Inl (PinMismatch p e actual))
     \<longleftrightarrow> e = expected \<and> actual \<noteq> expected \<and> (\<exists>fd. actual = pn_sha256 os (whole fd))"
  "verdict_holds os whole expected (Inl (PinnedScript p))
     \<longleftrightarrow> (\<exists>fd. pn_sha256 os (whole fd) = expected \<and> take 2 (whole fd) = ''#!'')"
  by (simp_all add: verdict_holds_def)

lemma open_verified_verdict:
  assumes run: "open_verified os program expected w = Some (r, w')" and f: "file_like os whole left"
  shows "verdict_holds os whole expected r"
proof (cases "pn_open os program w")
  case (Pair r1 w1)
  show ?thesis
  proof (cases r1)
    case (Inl e)
    with run Pair have "r = Inl (PinUnreadable program e)" by (simp add: open_verified_def)
    then show ?thesis by simp
  next
    case (Inr fd)
    note opened = Pair[unfolded Inr]
    from run opened obtain r2 w2 where hash: "hash_reads os fd [] w1 = Some (r2, w2)"
      by (cases "hash_reads os fd [] w1") (auto simp: open_verified_def of_file_def)
    have hashed: "r2 = Inr (pn_sha256 os (whole fd)) \<or> (\<exists>e. r2 = Inl e)"
      using hash_reads_all[OF f] hash opened f by (cases r2) (fastforce simp: file_like_def)+
    have script: "script \<longleftrightarrow> take 2 (whole fd) = ''#!''"
      if "starts_with_shebang os fd w2 = Some (Inr script, w3)" for script w3
    proof -
      from that obtain v where v: "pn_rewind os fd w2 = (Inr (), v)" "read_magic os fd [] v = Some (Inr script, w3)"
        by (auto simp: starts_with_shebang_def split: prod.splits sum.splits)
      with f have "left fd v = whole fd" by (auto simp: file_like_def)
      with read_magic_all[OF f v(2)] show ?thesis by simp
    qed
    have run': "(case r2 of Inl e \<Rightarrow> Some (Inl (PinUnreadable program e), w2)
         | Inr actual \<Rightarrow>
             if actual \<noteq> expected then Some (Inl (PinMismatch program expected actual), w2)
             else (case starts_with_shebang os fd w2 of
                 None \<Rightarrow> None
               | Some (Inl e, w3) \<Rightarrow> Some (Inl (PinUnreadable program e), w3)
               | Some (Inr script, w3) \<Rightarrow>
                   if script then Some (Inl (PinnedScript program), w3) else Some (Inr fd, w3)))
       = Some (r, w')"
      using run opened hash by (simp add: open_verified_def of_file_def split: sum.splits)
    show ?thesis
      using run' hashed script by (auto split: if_splits option.splits prod.splits sum.splits)
  qed
qed


text \<open>A file of two bytes to evaluate it on: the world is what is ahead of the handle.\<close>

definition demo_pin_os :: "(string, unit) pin_os" where
  "demo_pin_os = \<lparr>pn_open = (\<lambda>_ _. (Inr (), ''ab'')), pn_read = (\<lambda>_ n w. (Inr (take n w), drop n w)),
     pn_rewind = (\<lambda>_ _. (Inr (), ''ab'')), pn_interrupted = (\<lambda>_. False),
     pn_sha256 = map (\<lambda>c. of_nat (of_char c))\<rparr>"

lemma demo_pin_run: "open_verified demo_pin_os ''/p'' [97, 98] [] = Some (Inr (), [])"
  by (simp add: open_verified_def of_file_def starts_with_shebang_def demo_pin_os_def CHUNK_def
      hash_reads.simps[of demo_pin_os] hash_reads.simps read_magic.simps)


lemma digest_one_spelling_witness:
  "digest_parse (replicate 64 CHR ''0'') = Inr (replicate 32 0)"
proof -
  have "utf8_valid (replicate 64 CHR ''0'')" by code_simp
  moreover have "length (replicate 32 (0 :: u8)) = 32 \<and> replicate 64 CHR ''0'' = digest_display (replicate 32 0)"
    by code_simp
  ultimately show ?thesis using digest_one_spelling by blast
qed

end
