(* ===== verification/Helper_Args.thy ===== *)
theory Helper_Args
  imports Policy Digest
begin

text \<open>
  The argv seam (\<open>helper_args.rs\<close> of \<open>sandbx-core\<close>): a policy and a command rendered as the
  helper's argv, and parsed back in the re-executed helper. \<open>lossy\<close> is how a path that is no
  valid UTF-8 is displayed; it leaves valid UTF-8 alone, and a theorem that needs that says so.
\<close>

definition FLAG_NET :: string where "FLAG_NET = ''--allow-network''"
definition FLAG_NET_PORT :: string where "FLAG_NET_PORT = ''--allow-network-port''"
definition FLAG_UNIX :: string where "FLAG_UNIX = ''--allow-unix-sockets''"
definition FLAG_ENV :: string where "FLAG_ENV = ''--env''"
definition FLAG_DNS_OVER_TCP :: string where "FLAG_DNS_OVER_TCP = ''--dns-over-tcp''"
definition FLAG_DNS_NAME :: string where "FLAG_DNS_NAME = ''--allow-dns-name''"
definition FLAG_PIN :: string where "FLAG_PIN = ''--pin-sha256''"
definition ARGS_SEPARATOR :: string where "ARGS_SEPARATOR = ''--''"

lemmas flag_defs = FLAG_NET_def FLAG_NET_PORT_def FLAG_UNIX_def FLAG_ENV_def FLAG_DNS_OVER_TCP_def
  FLAG_DNS_NAME_def FLAG_PIN_def ARGS_SEPARATOR_def

fun path_flag :: "axis \<Rightarrow> string" where
  "path_flag AxRead = ''--ro''"
| "path_flag AxWrite = ''--rw''"
| "path_flag AxReadExecute = ''--rx''"

definition axis_for :: "string \<Rightarrow> axis option" where
  "axis_for flag = from_label_in all_axes path_flag flag"

interpretation axis_flag: closed_labels all_axes path_flag
proof
  fix a :: axis
  show "a \<in> set all_axes" by (cases a) (simp_all add: all_axes_def)
  show "distinct (map path_flag all_axes)" by (simp add: all_axes_def)
qed

record helper_args =
  ha_policy :: sandbox_policy
  ha_program :: string
  ha_args :: "string list"
  ha_pin :: "u8 list option"

section \<open>Encoding\<close>

definition grant_args :: "(string \<Rightarrow> string) \<Rightarrow> axis \<times> vetted_path \<Rightarrow> string list" where
  "grant_args lossy g =
     [path_flag (fst g), lossy (vp_path (snd g)), object_display (vp_object (snd g))]"

definition network_args :: "network_policy \<Rightarrow> string list" where
  "network_args n =
     (case n of
        NetDenied \<Rightarrow> []
      | AnyPort \<Rightarrow> [FLAG_NET]
      | Ports ports \<Rightarrow> concat (map (\<lambda>port. [FLAG_NET_PORT, dec_nat (unat port)]) ports))"

definition encode_args ::
  "(string \<Rightarrow> string) \<Rightarrow> sandbox_policy \<Rightarrow> string \<Rightarrow> string list \<Rightarrow> u8 list option \<Rightarrow> string list" where
  "encode_args lossy policy program args pin =
     concat (map (grant_args lossy) (granted_paths policy))
     @ network_args (sp_network policy)
     @ (if sp_unix_sockets policy then [FLAG_UNIX] else [])
     @ (if sp_dns_over_tcp policy then [FLAG_DNS_OVER_TCP] else [])
     @ concat (map (\<lambda>n. [FLAG_ENV, n]) (sp_env policy))
     @ concat (map (\<lambda>n. [FLAG_DNS_NAME, n]) (sp_dns_names policy))
     @ (case pin of None \<Rightarrow> [] | Some digest \<Rightarrow> [FLAG_PIN, digest_display digest])
     @ [ARGS_SEPARATOR, program] @ args"

section \<open>Decoding\<close>

text \<open>The loop over the argv: what is built so far, until the separator and the command.\<close>

fun decode_loop ::
  "string list \<Rightarrow> sandbox_policy \<Rightarrow> u8 list option
     \<Rightarrow> sandbox_error + (sandbox_policy \<times> u8 list option \<times> string \<times> string list)" where
  "decode_loop [] policy pin = Inl (BadHelperArgs ''missing `--` separator before the command'')"
| "decode_loop (arg # rest) policy pin =
     (if arg = ARGS_SEPARATOR then
        (case rest of
           [] \<Rightarrow> Inl (BadHelperArgs ''no command after `--`'')
         | program # args \<Rightarrow> Inr (policy, pin, program, args))
      else if arg = FLAG_NET then decode_loop rest (allow_network policy) pin
      else if arg = FLAG_NET_PORT then
        (case rest of
           [] \<Rightarrow> Inl (BadHelperArgs ''network port flag with no port after it'')
         | port # rest' \<Rightarrow>
             (case parse_uint (2 ^ 16) port of
                None \<Rightarrow> Inl (BadHelperArgs ''network port that is not a number in 1..=65535'')
              | Some n \<Rightarrow>
                  if n = 0 then Inl (BadHelperArgs ''network port 0, which matches no port'')
                  else decode_loop rest' (allow_network_port (of_nat n) policy) pin))
      else if arg = FLAG_UNIX then decode_loop rest (allow_unix_sockets policy) pin
      else if arg = FLAG_DNS_OVER_TCP then decode_loop rest (hint_dns_over_tcp policy) pin
      else if arg = FLAG_ENV then
        (case rest of
           [] \<Rightarrow> Inl (BadHelperArgs ''env flag with no variable name after it'')
         | n # rest' \<Rightarrow>
             if CHR ''='' \<in> set n then Inl (BadHelperArgs ''env variable name containing `=`'')
             else decode_loop rest' (allow_env n policy) pin)
      else if arg = FLAG_DNS_NAME then
        (case rest of
           [] \<Rightarrow> Inl (BadHelperArgs ''dns name flag with no name after it'')
         | n # rest' \<Rightarrow>
             if \<not> is_resolvable_name n then
               Inl (BadHelperArgs
                 ''dns name that is empty, over-long, or carries whitespace, `#` or a NUL'')
             else decode_loop rest' (allow_dns n policy) pin)
      else if arg = FLAG_PIN then
        (case rest of
           [] \<Rightarrow> Inl (BadHelperArgs ''pin flag with no digest after it'')
         | hex # rest' \<Rightarrow>
             (case digest_parse hex of
                Inl _ \<Rightarrow> Inl (BadHelperArgs ''pin digest that is not 64 lowercase hex characters'')
              | Inr digest \<Rightarrow>
                  if pin \<noteq> None then
                    Inl (BadHelperArgs
                      ''more than one pin flag, which names two images for one program'')
                  else decode_loop rest' policy (Some digest)))
      else
        (case axis_for arg of
           None \<Rightarrow> Inl (BadHelperArgs ''unrecognised helper flag'')
         | Some ax \<Rightarrow>
             (case rest of
                [] \<Rightarrow> Inl (BadHelperArgs ''path flag with no path after it'')
              | path # rest' \<Rightarrow>
                  (case rest' of
                     [] \<Rightarrow> Inl (BadHelperArgs ''granted path with no object pin after it'')
                   | object # rest'' \<Rightarrow>
                       (case object_parse object of
                          None \<Rightarrow> Inl (BadHelperArgs
                            ''object pin that is not a device and an inode parted by `:`'')
                        | Some ob \<Rightarrow>
                            decode_loop rest''
                              (grant ax \<lparr>vp_path = path, vp_object = ob\<rparr> policy) pin)))))"

definition decode_args :: "string list \<Rightarrow> sandbox_error + helper_args" where
  "decode_args argv =
     (case decode_loop argv default_policy None of
        Inl e \<Rightarrow> Inl e
      | Inr (policy, pin, program, args) \<Rightarrow>
          if pin \<noteq> None \<and> \<not> is_absolute program then
            Inl (BadHelperArgs ''a pinned program that is not an absolute path'')
          else (case unbounded_resolution policy of
              Some detail \<Rightarrow> Inl (BadHelperArgs detail)
            | None \<Rightarrow> Inr \<lparr>ha_policy = policy, ha_program = program, ha_args = args, ha_pin = pin\<rparr>))"

declare decode_loop.simps(2) [simp del]

section \<open>Each part of the argv decodes to the builder it stands for\<close>

lemma decode_separator [simp]: "decode_loop (ARGS_SEPARATOR # program # args) p pin = Inr (p, pin, program, args)"
  by (simp add: decode_loop.simps)

lemma decode_net [simp]: "decode_loop (FLAG_NET # rest) p pin = decode_loop rest (allow_network p) pin"
  by (subst decode_loop.simps(2)) (simp add: flag_defs)

lemma decode_port [simp]:
  "port \<noteq> 0 \<Longrightarrow> decode_loop (FLAG_NET_PORT # dec_nat (unat port) # rest) p pin
     = decode_loop rest (allow_network_port port p) pin"
  using unsigned_less[of port, where 'a = nat]
  by (subst decode_loop.simps(2)) (simp add: flag_defs parse_uint_dec_nat unat_eq_0)

lemma decode_unix [simp]: "decode_loop (FLAG_UNIX # rest) p pin = decode_loop rest (allow_unix_sockets p) pin"
  by (subst decode_loop.simps(2)) (simp add: flag_defs)

lemma decode_hint [simp]: "decode_loop (FLAG_DNS_OVER_TCP # rest) p pin = decode_loop rest (hint_dns_over_tcp p) pin"
  by (subst decode_loop.simps(2)) (simp add: flag_defs)

lemma decode_env [simp]:
  "env_name n \<Longrightarrow> decode_loop (FLAG_ENV # n # rest) p pin = decode_loop rest (allow_env n p) pin"
  by (subst decode_loop.simps(2)) (simp add: flag_defs env_name_def)

lemma decode_dns [simp]:
  "is_resolvable_name n \<Longrightarrow> decode_loop (FLAG_DNS_NAME # n # rest) p pin = decode_loop rest (allow_dns n p) pin"
  by (subst decode_loop.simps(2)) (simp add: flag_defs)

lemma decode_pin [simp]:
  "digest_parse hex = Inr d \<Longrightarrow> decode_loop (FLAG_PIN # hex # rest) p None = decode_loop rest p (Some d)"
  by (subst decode_loop.simps(2)) (simp add: flag_defs)

lemma path_flag_other:
  "path_flag a \<notin> {ARGS_SEPARATOR, FLAG_NET, FLAG_NET_PORT, FLAG_UNIX, FLAG_DNS_OVER_TCP, FLAG_ENV, FLAG_DNS_NAME, FLAG_PIN}"
  by (cases a) (simp_all add: flag_defs)

lemma decode_path [simp]:
  "object_parse ob = Some i \<Longrightarrow> decode_loop (path_flag a # path # ob # rest) p pin
     = decode_loop rest (grant a \<lparr>vp_path = path, vp_object = i\<rparr> p) pin"
  using path_flag_other[of a]
  by (subst decode_loop.simps(2)) (simp add: axis_for_def)

lemma vetted_path_eta [simp]: "\<lparr>vp_path = vp_path v, vp_object = vp_object v\<rparr> = v"
  by (cases v) simp

lemma decode_grants:
  "list_all (\<lambda>g. lossy (vp_path (snd g)) = vp_path (snd g)) gs \<Longrightarrow>
     decode_loop (concat (map (grant_args lossy) gs) @ rest) p pin
       = decode_loop rest (fold (\<lambda>(a, v). grant a v) gs p) pin"
  by (induction gs arbitrary: p) (auto simp: grant_args_def object_parse_display)

lemma decode_ports:
  "0 \<notin> set ports \<Longrightarrow>
     decode_loop (concat (map (\<lambda>port. [FLAG_NET_PORT, dec_nat (unat port)]) ports) @ rest) p pin
       = decode_loop rest (fold allow_network_port ports p) pin"
  by (induction ports arbitrary: p) auto

lemma decode_envs:
  "list_all env_name ns \<Longrightarrow>
     decode_loop (concat (map (\<lambda>n. [FLAG_ENV, n]) ns) @ rest) p pin = decode_loop rest (fold allow_env ns p) pin"
  by (induction ns arbitrary: p) auto

lemma decode_dns_names:
  "list_all is_resolvable_name ns \<Longrightarrow>
     decode_loop (concat (map (\<lambda>n. [FLAG_DNS_NAME, n]) ns) @ rest) p pin = decode_loop rest (fold allow_dns ns p) pin"
  by (induction ns arbitrary: p) auto

text \<open>And the builders, in that order, build the policy the argv was made from.\<close>

lemma fold_grant_pairs:
  "fold (\<lambda>(a, v). grant a v) (map (Pair AxRead) vs) p = p\<lparr>sp_readable := sp_readable p @ vs\<rparr>"
  "fold (\<lambda>(a, v). grant a v) (map (Pair AxWrite) vs) p = p\<lparr>sp_writable := sp_writable p @ vs\<rparr>"
  "fold (\<lambda>(a, v). grant a v) (map (Pair AxReadExecute) vs) p = p\<lparr>sp_executable := sp_executable p @ vs\<rparr>"
  by (induction vs arbitrary: p) simp_all

lemma fold_ports:
  "sp_network p = Ports qs \<Longrightarrow> distinct (qs @ ports) \<Longrightarrow> 0 \<notin> set ports \<Longrightarrow>
     fold allow_network_port ports p = p\<lparr>sp_network := Ports (qs @ ports)\<rparr>"
  by (induction ports arbitrary: p qs) (simp_all add: allow_network_port_def)

lemma fold_envs: "list_all env_name ns \<Longrightarrow> fold allow_env ns p = p\<lparr>sp_env := sp_env p @ ns\<rparr>"
  by (induction ns arbitrary: p) (simp_all add: allow_env_def)

lemma fold_dns:
  "list_all is_resolvable_name ns \<Longrightarrow> distinct (sp_dns_names p @ ns) \<Longrightarrow>
     fold allow_dns ns p = p\<lparr>sp_dns_names := sp_dns_names p @ ns\<rparr>"
  by (induction ns arbitrary: p) (auto simp: allow_dns_def)

lemma fold_granted_paths:
  "fold (\<lambda>(a, v). grant a v) (granted_paths p) q =
     q\<lparr>sp_readable := sp_readable q @ sp_readable p, sp_writable := sp_writable q @ sp_writable p,
       sp_executable := sp_executable q @ sp_executable p\<rparr>"
  by (simp add: granted_paths_def all_axes_def fold_grant_pairs)

lemma decode_network:
  assumes "network_ok n" "sp_network p = NetDenied"
  shows "decode_loop (network_args n @ rest) p pin = decode_loop rest (p\<lparr>sp_network := n\<rparr>) pin"
proof (cases n)
  case NetDenied
  with assms show ?thesis by (simp add: network_args_def) (metis sandbox_policy.surjective sandbox_policy.update_convs(4))
next
  case AnyPort
  then show ?thesis by (simp add: network_args_def allow_network_def)
next
  case (Ports ports)
  with assms obtain port ps where ports: "ports = port # ps" "port \<noteq> 0" "0 \<notin> set ports" "distinct ports"
    by (cases ports) auto
  have "fold allow_network_port ports p = p\<lparr>sp_network := Ports ports\<rparr>"
    using ports assms(2) fold_ports[of "allow_network_port port p" "[port]" ps]
    by (simp add: allow_network_port_def)
  with decode_ports[OF ports(3)] Ports show ?thesis by (simp add: network_args_def)
qed

text \<open>The paths of a policy that cross the argv as they are: valid UTF-8, which \<open>lossy\<close> leaves alone.\<close>

definition displayable :: "(string \<Rightarrow> string) \<Rightarrow> sandbox_policy \<Rightarrow> bool" where
  "displayable lossy p \<longleftrightarrow> list_all (\<lambda>g. lossy (vp_path (snd g)) = vp_path (snd g)) (granted_paths p)"

lemma decode_loop_encode:
  assumes "policy_ok p" "displayable lossy p" "\<forall>d. pin = Some d \<longrightarrow> digest_parse (digest_display d) = Inr d"
  shows "decode_loop (encode_args lossy p program args pin) default_policy None = Inr (p, pin, program, args)"
proof -
  let ?q = "default_policy\<lparr>sp_readable := sp_readable p, sp_writable := sp_writable p, sp_executable := sp_executable p\<rparr>"
  let ?r = "?q\<lparr>sp_network := sp_network p\<rparr>"
  let ?s = "?r\<lparr>sp_unix_sockets := sp_unix_sockets p, sp_dns_over_tcp := sp_dns_over_tcp p\<rparr>"
  have q: "fold (\<lambda>(a, v). grant a v) (granted_paths p) default_policy = ?q"
    by (simp add: fold_granted_paths default_policy_def)
  have net: "network_ok (sp_network p)" "sp_network ?q = NetDenied"
    using assms(1) by (simp_all add: policy_ok_def default_policy_def)
  have envs: "list_all env_name (sp_env p)" "fold allow_env (sp_env p) ?s = ?s\<lparr>sp_env := sp_env p\<rparr>"
    using assms(1) fold_envs[of "sp_env p" ?s] by (simp_all add: policy_ok_def default_policy_def)
  have dns: "list_all is_resolvable_name (sp_dns_names p)"
      "fold allow_dns (sp_dns_names p) (?s\<lparr>sp_env := sp_env p\<rparr>) = ?s\<lparr>sp_env := sp_env p, sp_dns_names := sp_dns_names p\<rparr>"
    using assms(1) fold_dns[of "sp_dns_names p" "?s\<lparr>sp_env := sp_env p\<rparr>"]
    by (simp_all add: policy_ok_def default_policy_def)
  have p: "?s\<lparr>sp_env := sp_env p, sp_dns_names := sp_dns_names p\<rparr> = p"
    by (cases p) (simp add: default_policy_def)
  have flags: "decode_loop ((if sp_unix_sockets p then [FLAG_UNIX] else []) @ (if sp_dns_over_tcp p then [FLAG_DNS_OVER_TCP] else []) @ rest) ?r None
      = decode_loop rest ?s None" for rest
    by (simp add: allow_unix_sockets_def hint_dns_over_tcp_def default_policy_def)
  have pin: "decode_loop ((case pin of None \<Rightarrow> [] | Some d \<Rightarrow> [FLAG_PIN, digest_display d]) @ rest) r None
      = decode_loop rest r pin" for rest r
    using assms(3) by (cases pin) simp_all
  show ?thesis
    unfolding encode_args_def decode_grants[OF assms(2)[unfolded displayable_def]] q decode_network[OF net] flags
      decode_envs[OF envs(1)] envs(2) decode_dns_names[OF dns(1)] dns(2) pin p
    by simp
qed

lemma decode_encode:
  assumes "built policy" "displayable lossy policy" "unbounded_resolution policy = None"
    and "\<forall>d. pin = Some d \<longrightarrow> length d = 32 \<and> is_absolute program"
  shows "decode_args (encode_args lossy policy program args pin)
    = Inr \<lparr>ha_policy = policy, ha_program = program, ha_args = args, ha_pin = pin\<rparr>"
proof -
  have "\<forall>d. pin = Some d \<longrightarrow> digest_parse (digest_display d) = Inr d"
    using assms(4) digest_parse_display by blast
  from decode_loop_encode[OF built_policy_ok[OF assms(1)] assms(2) this] assms(3,4) show ?thesis
    by (cases pin) (simp_all add: decode_args_def)
qed

text \<open>
  The helper enforces the policy the harness decided: for every policy the builders can make
  whose paths display as they are and whose resolution is bounded or unrestricted, decoding the
  encoded argv gives back exactly that policy, program, arguments and pin.
\<close>

lemma helper_args_roundtrip:
  assumes "built policy" "displayable lossy policy" "unbounded_resolution policy = None"
    and "\<forall>d. pin = Some d \<longrightarrow> length d = 32 \<and> is_absolute program"
  shows "decode_args (encode_args lossy policy program args pin)
    = Inr \<lparr>ha_policy = policy, ha_program = program, ha_args = args, ha_pin = pin\<rparr>"
  using assms by (rule decode_encode)

text \<open>What decoding an argv of strings keeps of the policy and the pin it builds.\<close>

definition decoding :: "sandbox_policy \<Rightarrow> u8 list option \<Rightarrow> bool" where
  "decoding p pin \<longleftrightarrow>
     built p \<and> (\<forall>g \<in> set (granted_paths p). utf8_valid (vp_path (snd g)))
     \<and> (\<forall>d. pin = Some d \<longrightarrow> length d = 32)"

lemma granted_builders [simp]:
  "granted_paths (allow_network p) = granted_paths p"
  "granted_paths (allow_network_port port p) = granted_paths p"
  "granted_paths (allow_unix_sockets p) = granted_paths p"
  "granted_paths (hint_dns_over_tcp p) = granted_paths p"
  "granted_paths (allow_env n p) = granted_paths p"
  "granted_paths (allow_dns n p) = granted_paths p"
  by (simp_all add: granted_paths_def all_axes_def allow_network_def allow_network_port_def
      allow_unix_sockets_def hint_dns_over_tcp_def allow_env_def allow_dns_def)

lemma set_granted_grant: "set (granted_paths (grant a v p)) = insert (a, v) (set (granted_paths p))"
  by (cases a) (auto simp: granted_paths_def all_axes_def)

lemma decoding_builders [step_inv]:
  "decoding p pin \<Longrightarrow> decoding (allow_network p) pin"
  "decoding p pin \<Longrightarrow> decoding (allow_network_port port p) pin"
  "decoding p pin \<Longrightarrow> decoding (allow_unix_sockets p) pin"
  "decoding p pin \<Longrightarrow> decoding (hint_dns_over_tcp p) pin"
  "decoding p pin \<Longrightarrow> decoding (allow_env n p) pin"
  "decoding p pin \<Longrightarrow> decoding (allow_dns n p) pin"
  "decoding p pin \<Longrightarrow> utf8_valid path \<Longrightarrow> decoding (grant a \<lparr>vp_path = path, vp_object = ob\<rparr> p) pin"
  "decoding p pin \<Longrightarrow> digest_parse hex = Inr d \<Longrightarrow> decoding p (Some d)"
  by (auto simp: decoding_def set_granted_grant digest_parse_length intro: built.intros)

lemma decode_loop_keeps:
  "decode_loop argv p pin = Inr (p', pin', program, args) \<Longrightarrow> list_all utf8_valid argv
     \<Longrightarrow> decoding p pin \<Longrightarrow> decoding p' pin'"
proof (induction argv p pin rule: decode_loop.induct)
  case (1 p pin)
  then show ?case by simp
next
  case (2 arg rest p pin)
  from 2(9) show ?case
    apply (subst (asm) decode_loop.simps(2))
    using 2(10,11)
    by (auto split: if_splits list.splits option.splits sum.splits intro: 2(1-8) step_inv)
qed

lemma decode_args_typed:
  assumes "decode_args argv = Inr h" "list_all utf8_valid argv"
  shows "decoding (ha_policy h) (ha_pin h) \<and> unbounded_resolution (ha_policy h) = None
    \<and> (ha_pin h \<noteq> None \<longrightarrow> is_absolute (ha_program h))"
proof -
  from assms(1) obtain p pin program args where
    loop: "decode_loop argv default_policy None = Inr (p, pin, program, args)"
    and h: "h = \<lparr>ha_policy = p, ha_program = program, ha_args = args, ha_pin = pin\<rparr>"
    and checks: "pin \<noteq> None \<longrightarrow> is_absolute program" "unbounded_resolution p = None"
    by (auto simp: decode_args_def split: sum.splits prod.splits if_splits option.splits)
  have "decoding default_policy None"
    using built_default by (simp add: decoding_def granted_paths_def all_axes_def default_policy_def)
  with decode_loop_keeps[OF loop assms(2)] h checks show ?thesis by simp
qed


text \<open>
  One shape gets through that \<open>encode\<close> does not write: an empty variable name, which narrows the
  policy, and numbers \<open>FromStr\<close> reads that \<open>Display\<close> does not write.
\<close>

lemma decode_accepts_more:
  "decode_args [FLAG_ENV, [], ARGS_SEPARATOR, ''/p''] = decode_args [ARGS_SEPARATOR, ''/p'']"
  "decode_args [FLAG_NET_PORT, ''+080'', ARGS_SEPARATOR, ''/p''] = decode_args [FLAG_NET_PORT, ''80'', ARGS_SEPARATOR, ''/p'']"
proof -
  show "decode_args [FLAG_ENV, [], ARGS_SEPARATOR, ''/p''] = decode_args [ARGS_SEPARATOR, ''/p'']"
    by (simp add: decode_args_def decode_loop.simps(2)[of FLAG_ENV] allow_env_def env_name_def)
      (simp add: flag_defs)
  have "parse_uint (2 ^ 16) ''+080'' = parse_uint (2 ^ 16) ''80''"
    by (simp add: parse_uint_def dec_value_def is_digit_def)
  then have "decode_loop (FLAG_NET_PORT # ''+080'' # rest) p pin = decode_loop (FLAG_NET_PORT # ''80'' # rest) p pin" for rest p pin
    by (subst (1 2) decode_loop.simps(2)) (simp add: flag_defs)
  then show "decode_args [FLAG_NET_PORT, ''+080'', ARGS_SEPARATOR, ''/p''] = decode_args [FLAG_NET_PORT, ''80'', ARGS_SEPARATOR, ''/p'']"
    by (simp add: decode_args_def)
qed

section \<open>A policy to evaluate them on\<close>

definition demo_policy :: sandbox_policy where
  "demo_policy = allow_dns ''a.b'' (allow_network_port 443 (allow_env ''HOME''
     (grant AxReadExecute \<lparr>vp_path = ''/usr'', vp_object = \<lparr>oi_dev = 1, oi_ino = 2\<rparr>\<rparr> default_policy)))"

lemma demo_policy_ok:
  "built demo_policy" "displayable id demo_policy" "unbounded_resolution demo_policy = None"
proof -
  show "built demo_policy" unfolding demo_policy_def by (intro built.intros)
  show "displayable id demo_policy" by (simp add: displayable_def list_all_iff)
  show "unbounded_resolution demo_policy = None" by code_simp
qed

lemma helper_args_roundtrip_witness:
  "decode_args (encode_args id demo_policy ''/bin/sh'' [''-c'', ''--''] (Some (replicate 32 7)))
     = Inr \<lparr>ha_policy = demo_policy, ha_program = ''/bin/sh'', ha_args = [''-c'', ''--''], ha_pin = Some (replicate 32 7)\<rparr>"
  by (rule helper_args_roundtrip[OF demo_policy_ok]) (simp add: is_absolute_def)


end
