(* ===== verification/Seccomp.thy ===== *)
theory Seccomp
  imports Policy
begin

unbundle bit_operations_syntax

text \<open>
  The seccomp filter of the sandboxed command (\<open>helper_seccomp_rules.rs\<close> and
  \<open>helper_seccomp_filter.rs\<close> of \<open>sandbx-core\<close>) and the interpreter its tests read filters through
  (\<open>helper_seccomp_tests_bpf.rs\<close>). The rules are data, what they deny is read off them as the
  \<open>seccompiler\<close> crate documents: rules of one system call are alternatives, conditions of one rule
  hold together, an empty list of rules matches every call, a \<open>Dword\<close> condition sees the low half
  of an argument. The compiler itself is that crate's, so it is an argument, and so is the number
  of a system call, which is the target's; the other constants are Linux's.
\<close>

section \<open>System calls and constants (libc)\<close>

datatype sysname =
    SYS_ptrace | SYS_process_vm_readv | SYS_process_vm_writev
  | SYS_mount | SYS_umount2 | SYS_pivot_root | SYS_chroot
  | SYS_open_tree | SYS_move_mount | SYS_fsopen | SYS_fsconfig | SYS_fsmount | SYS_fspick
  | SYS_mount_setattr
  | SYS_setns | SYS_unshare
  | SYS_init_module | SYS_finit_module | SYS_delete_module | SYS_bpf | SYS_kexec_load
  | SYS_add_key | SYS_request_key | SYS_keyctl
  | SYS_perf_event_open
  | SYS_pidfd_open | SYS_pidfd_getfd
  | SYS_userfaultfd
  | SYS_io_uring_setup | SYS_io_uring_enter | SYS_io_uring_register
  | SYS_memfd_create
  | SYS_reboot | SYS_swapon | SYS_swapoff
  | SYS_clone | SYS_clone3 | SYS_socket | SYS_socketpair | SYS_setsockopt
  | SYS_sendto | SYS_sendmsg | SYS_sendmmsg

definition BLOCKED_SYSCALLS :: "sysname list" where
  "BLOCKED_SYSCALLS =
     [SYS_ptrace, SYS_process_vm_readv, SYS_process_vm_writev,
      SYS_mount, SYS_umount2, SYS_pivot_root, SYS_chroot,
      SYS_open_tree, SYS_move_mount, SYS_fsopen, SYS_fsconfig, SYS_fsmount, SYS_fspick,
      SYS_mount_setattr,
      SYS_setns, SYS_unshare,
      SYS_init_module, SYS_finit_module, SYS_delete_module, SYS_bpf, SYS_kexec_load,
      SYS_add_key, SYS_request_key, SYS_keyctl,
      SYS_perf_event_open,
      SYS_pidfd_open, SYS_pidfd_getfd,
      SYS_userfaultfd,
      SYS_io_uring_setup, SYS_io_uring_enter, SYS_io_uring_register,
      SYS_memfd_create,
      SYS_reboot, SYS_swapon, SYS_swapoff]"

abbreviation "AF_UNIX \<equiv> (1 :: u64)"
abbreviation "AF_INET \<equiv> (2 :: u64)"
abbreviation "AF_INET6 \<equiv> (10 :: u64)"
abbreviation "SOCK_STREAM \<equiv> (1 :: u64)"
abbreviation "SOCK_SEQPACKET \<equiv> (5 :: u64)"
abbreviation "IPPROTO_TCP \<equiv> (6 :: u64)"
abbreviation "TCP_ULP \<equiv> (31 :: u64)"
abbreviation "MSG_FASTOPEN \<equiv> (0x20000000 :: u64)"

abbreviation "CLONE_NEWNS \<equiv> (0x00020000 :: u64)"
abbreviation "CLONE_NEWCGROUP \<equiv> (0x02000000 :: u64)"
abbreviation "CLONE_NEWUTS \<equiv> (0x04000000 :: u64)"
abbreviation "CLONE_NEWIPC \<equiv> (0x08000000 :: u64)"
abbreviation "CLONE_NEWUSER \<equiv> (0x10000000 :: u64)"
abbreviation "CLONE_NEWPID \<equiv> (0x20000000 :: u64)"
abbreviation "CLONE_NEWNET \<equiv> (0x40000000 :: u64)"

definition NAMESPACE_CLONE_FLAGS :: "u64 list" where
  "NAMESPACE_CLONE_FLAGS =
     [CLONE_NEWNS, CLONE_NEWCGROUP, CLONE_NEWUTS, CLONE_NEWIPC, CLONE_NEWUSER, CLONE_NEWPID, CLONE_NEWNET]"

definition SOCK_TYPE_MASK :: u64 where "SOCK_TYPE_MASK = 0xf"

section \<open>Rules as data, and what they deny\<close>

datatype cmp_op = CmpEq | CmpNe | CmpMaskedEq u64

record condition =
  cd_index :: nat
  cd_op :: cmp_op
  cd_value :: u64

datatype sc_error = InvalidArgumentNumber | EmptyRule

type_synonym rules = "(int \<times> condition list list) list"

definition low :: "u64 \<Rightarrow> u32" where "low x = ucast x"

definition cond_holds :: "u64 list \<Rightarrow> condition \<Rightarrow> bool" where
  "cond_holds args c =
     (let v = low (args ! cd_index c)
      in case cd_op c of
           CmpEq \<Rightarrow> v = low (cd_value c)
         | CmpNe \<Rightarrow> v \<noteq> low (cd_value c)
         | CmpMaskedEq m \<Rightarrow> v AND low m = low (cd_value c))"

definition denies :: "rules \<Rightarrow> int \<Rightarrow> u64 list \<Rightarrow> bool" where
  "denies rules nr args =
     (case map_of rules nr of
        None \<Rightarrow> False
      | Some rs \<Rightarrow> rs = [] \<or> list_ex (list_all (cond_holds args)) rs)"

section \<open>Building the denylist (helper_seccomp_rules.rs)\<close>

definition seccomp_failed :: "(sc_error \<Rightarrow> string) \<Rightarrow> sc_error \<Rightarrow> sandbox_error" where
  "seccomp_failed etext e = Seccomp (etext e)"

text \<open>\<open>SeccompCondition::new\<close> refuses an argument index above 5.\<close>

definition arg_condition ::
  "(sc_error \<Rightarrow> string) \<Rightarrow> nat \<Rightarrow> cmp_op \<Rightarrow> u64 \<Rightarrow> sandbox_error + condition" where
  "arg_condition etext index op v =
     (if 5 < index then Inl (seccomp_failed etext InvalidArgumentNumber)
      else Inr \<lparr>cd_index = index, cd_op = op, cd_value = v\<rparr>)"

fun arg_conditions ::
  "(sc_error \<Rightarrow> string) \<Rightarrow> (nat \<times> cmp_op \<times> u64) list \<Rightarrow> sandbox_error + condition list" where
  "arg_conditions etext [] = Inr []"
| "arg_conditions etext ((i, op, v) # cs) =
     (case arg_condition etext i op v of
        Inl e \<Rightarrow> Inl e
      | Inr c \<Rightarrow> (case arg_conditions etext cs of Inl e \<Rightarrow> Inl e | Inr cs' \<Rightarrow> Inr (c # cs')))"

text \<open>\<open>SeccompRule::new\<close> refuses a rule with no condition.\<close>

definition deny_when ::
  "(sc_error \<Rightarrow> string) \<Rightarrow> rules \<Rightarrow> int \<Rightarrow> condition list \<Rightarrow> sandbox_error + rules" where
  "deny_when etext rules nr conditions =
     (if map_of rules nr = Some [] then Inr rules
      else if conditions = [] then Inl (seccomp_failed etext EmptyRule)
      else Inr (bt_insert nr
             ((case map_of rules nr of None \<Rightarrow> [] | Some rs \<Rightarrow> rs) @ [conditions]) rules))"

text \<open>The rules of one loop of the source, each made and added in order.\<close>

fun deny_each ::
  "(sc_error \<Rightarrow> string) \<Rightarrow> (sysname \<Rightarrow> int) \<Rightarrow> (sysname \<times> (nat \<times> cmp_op \<times> u64) list) list \<Rightarrow> rules
     \<Rightarrow> sandbox_error + rules" where
  "deny_each etext sys [] rules = Inr rules"
| "deny_each etext sys ((call, cs) # later) rules =
     (case arg_conditions etext cs of
        Inl e \<Rightarrow> Inl e
      | Inr conditions \<Rightarrow>
          (case deny_when etext rules (sys call) conditions of
             Inl e \<Rightarrow> Inl e
           | Inr rules' \<Rightarrow> deny_each etext sys later rules'))"

definition namespace_rules :: "(sysname \<times> (nat \<times> cmp_op \<times> u64) list) list" where
  "namespace_rules = map (\<lambda>flag. (SYS_clone, [(0, CmpMaskedEq flag, flag)])) NAMESPACE_CLONE_FLAGS"

definition socket_types :: "u64 list" where
  "socket_types = map of_nat [0..<Suc (unat SOCK_TYPE_MASK)]"

definition unix_rules :: "(sysname \<times> (nat \<times> cmp_op \<times> u64) list) list" where
  "unix_rules =
     (SYS_socket, [(0, CmpEq, AF_UNIX)])
     # map (\<lambda>t. (SYS_socketpair, [(0, CmpEq, AF_UNIX), (1, CmpMaskedEq SOCK_TYPE_MASK, t)]))
         (filter (\<lambda>t. \<not> (t = SOCK_STREAM \<or> t = SOCK_SEQPACKET)) socket_types)"

definition tcp_rules :: "(sysname \<times> (nat \<times> cmp_op \<times> u64) list) list" where
  "tcp_rules =
     map (\<lambda>t. (SYS_socket, [(0, CmpNe, AF_UNIX), (1, CmpMaskedEq SOCK_TYPE_MASK, t)]))
       (filter (\<lambda>t. t \<noteq> SOCK_STREAM) socket_types)
     @ [(SYS_socket, [(1, CmpMaskedEq SOCK_TYPE_MASK, SOCK_STREAM), (0, CmpNe, AF_UNIX),
                      (0, CmpNe, AF_INET), (0, CmpNe, AF_INET6)]),
        (SYS_setsockopt, [(1, CmpEq, IPPROTO_TCP), (2, CmpEq, TCP_ULP)])]
     @ map (\<lambda>family. (SYS_socket, [(0, CmpEq, family), (2, CmpNe, 0), (2, CmpNe, IPPROTO_TCP)]))
         [AF_INET, AF_INET6]
     @ map (\<lambda>(call, flags_arg). (call, [(flags_arg, CmpMaskedEq MSG_FASTOPEN, MSG_FASTOPEN)]))
         [(SYS_sendto, 3), (SYS_sendmsg, 2), (SYS_sendmmsg, 3)]"

definition seed_rules :: "(sysname \<Rightarrow> int) \<Rightarrow> rules" where
  "seed_rules sys = fold (\<lambda>call m. bt_insert (sys call) [] m) BLOCKED_SYSCALLS []"

definition confine_to_tcp :: "sandbox_policy \<Rightarrow> bool" where
  "confine_to_tcp p = (case sp_network p of Ports _ \<Rightarrow> True | _ \<Rightarrow> False)"

definition blocked_syscalls ::
  "(sc_error \<Rightarrow> string) \<Rightarrow> (sysname \<Rightarrow> int) \<Rightarrow> sandbox_policy \<Rightarrow> sandbox_error + rules" where
  "blocked_syscalls etext sys p =
     (case deny_each etext sys namespace_rules (seed_rules sys) of
        Inl e \<Rightarrow> Inl e
      | Inr r1 \<Rightarrow>
          (case (if \<not> sp_unix_sockets p then deny_each etext sys unix_rules r1 else Inr r1) of
             Inl e \<Rightarrow> Inl e
           | Inr r2 \<Rightarrow> if confine_to_tcp p then deny_each etext sys tcp_rules r2 else Inr r2))"

section \<open>What a rule adds\<close>

definition req_holds :: "u64 list \<Rightarrow> (nat \<times> cmp_op \<times> u64) \<Rightarrow> bool" where
  "req_holds args r = cond_holds args \<lparr>cd_index = fst r, cd_op = fst (snd r), cd_value = snd (snd r)\<rparr>"

definition well_formed :: "(sysname \<times> (nat \<times> cmp_op \<times> u64) list) list \<Rightarrow> bool" where
  "well_formed reqs = list_all (\<lambda>(_, cs). cs \<noteq> [] \<and> list_all (\<lambda>(i, _, _). i \<le> 5) cs) reqs"

lemma arg_conditions_ok:
  "list_all (\<lambda>(i, _, _). i \<le> 5) cs \<Longrightarrow>
     arg_conditions etext cs = Inr (map (\<lambda>r. \<lparr>cd_index = fst r, cd_op = fst (snd r), cd_value = snd (snd r)\<rparr>) cs)"
  by (induction etext cs rule: arg_conditions.induct) (auto simp: arg_condition_def)

lemma deny_when_ok:
  assumes "conditions \<noteq> []"
  shows "\<exists>r. deny_when etext rules nr conditions = Inr r
    \<and> (\<forall>n args. denies r n args \<longleftrightarrow> denies rules n args \<or> n = nr \<and> list_all (cond_holds args) conditions)"
  using assms by (auto simp: deny_when_def denies_def map_of_bt_insert split: option.splits)

lemma deny_each_ok:
  "well_formed reqs \<Longrightarrow>
     \<exists>r. deny_each etext sys reqs rules = Inr r
       \<and> (\<forall>n args. denies r n args \<longleftrightarrow>
            denies rules n args \<or> list_ex (\<lambda>(call, cs). n = sys call \<and> list_all (req_holds args) cs) reqs)"
proof (induction reqs arbitrary: rules)
  case (Cons q reqs)
  obtain call cs where q: "q = (call, cs)" by (cases q)
  let ?cs = "map (\<lambda>r. \<lparr>cd_index = fst r, cd_op = fst (snd r), cd_value = snd (snd r)\<rparr>) cs"
  from Cons.prems q have cs: "cs \<noteq> []" "list_all (\<lambda>(i, _, _). i \<le> 5) cs" "well_formed reqs"
    by (simp_all add: well_formed_def)
  from deny_when_ok[of ?cs etext rules "sys call"] cs(1) obtain r1 where
    r1: "deny_when etext rules (sys call) ?cs = Inr r1"
      "\<forall>n args. denies r1 n args \<longleftrightarrow> denies rules n args \<or> n = sys call \<and> list_all (cond_holds args) ?cs"
    by auto
  from Cons.IH[OF cs(3), of r1] obtain r where
    r: "deny_each etext sys reqs r1 = Inr r"
      "\<forall>n args. denies r n args \<longleftrightarrow>
         denies r1 n args \<or> list_ex (\<lambda>(call, cs). n = sys call \<and> list_all (req_holds args) cs) reqs"
    by blast
  have "list_all (cond_holds args) ?cs = list_all (req_holds args) cs" for args
    by (simp add: list_all_length req_holds_def)
  with r r1 cs(2) show ?case by (auto simp: q arg_conditions_ok)
qed simp

section \<open>The denylist, exactly\<close>

text \<open>
  The specification, call by call, over the 32-bit values the kernel reads: which calls a policy
  denies. \<open>clone\<close> is denied exactly when it asks for a namespace; under a port allowlist a socket
  is a unix one (if granted) or plain TCP over IP.
\<close>

definition tcp_over_ip :: "u32 \<Rightarrow> u32 \<Rightarrow> u32 \<Rightarrow> bool" where
  "tcp_over_ip domain kind protocol \<longleftrightarrow>
     kind AND 15 = 1 \<and> (domain = 2 \<or> domain = 10) \<and> (protocol = 0 \<or> protocol = 6)"

fun call_denied :: "sandbox_policy \<Rightarrow> sysname \<Rightarrow> u64 list \<Rightarrow> bool" where
  "call_denied p SYS_clone args \<longleftrightarrow> list_ex (bit (low (args ! 0))) [17, 25, 26, 27, 28, 29, 30]"
| "call_denied p SYS_socket args \<longleftrightarrow>
     (if low (args ! 0) = 1 then \<not> sp_unix_sockets p
      else confine_to_tcp p \<and> \<not> tcp_over_ip (low (args ! 0)) (low (args ! 1)) (low (args ! 2)))"
| "call_denied p SYS_socketpair args \<longleftrightarrow>
     \<not> sp_unix_sockets p \<and> low (args ! 0) = 1
     \<and> low (args ! 1) AND 15 \<noteq> 1 \<and> low (args ! 1) AND 15 \<noteq> 5"
| "call_denied p SYS_setsockopt args \<longleftrightarrow> confine_to_tcp p \<and> low (args ! 1) = 6 \<and> low (args ! 2) = 31"
| "call_denied p SYS_sendto args \<longleftrightarrow> confine_to_tcp p \<and> bit (low (args ! 3)) 29"
| "call_denied p SYS_sendmsg args \<longleftrightarrow> confine_to_tcp p \<and> bit (low (args ! 2)) 29"
| "call_denied p SYS_sendmmsg args \<longleftrightarrow> confine_to_tcp p \<and> bit (low (args ! 3)) 29"
| "call_denied p call args \<longleftrightarrow> call \<in> set BLOCKED_SYSCALLS"

lemma and_single_bit: "k < 32 \<Longrightarrow> (x :: u32) AND push_bit k 1 = push_bit k 1 \<longleftrightarrow> bit x k"
proof
  assume k: "k < 32" and "x AND push_bit k 1 = push_bit k 1"
  then have "bit (x AND push_bit k 1) k = bit (push_bit k (1 :: u32)) k" by simp
  with k show "bit x k" by (simp add: bit_simps)
next
  assume "k < 32" "bit x k"
  then show "x AND push_bit k 1 = push_bit k 1"
    by (auto intro!: bit_word_eqI simp: bit_simps)
qed

lemma low_flags:
  "low CLONE_NEWNS = push_bit 17 1" "low CLONE_NEWCGROUP = push_bit 25 1" "low CLONE_NEWUTS = push_bit 26 1"
  "low CLONE_NEWIPC = push_bit 27 1" "low CLONE_NEWUSER = push_bit 28 1" "low CLONE_NEWPID = push_bit 29 1"
  "low CLONE_NEWNET = push_bit 30 1" "low MSG_FASTOPEN = push_bit 29 1"
  by (simp_all add: low_def push_bit_eq_mult)

lemma low_numeral [simp]: "low 0 = 0" "low 1 = 1" "low 2 = 2" "low 5 = 5" "low 6 = 6" "low 10 = 10" "low 31 = 31" "low 15 = 15"
  by (simp_all add: low_def)

text \<open>The four-bit type field takes every value of the loop, so a rule per value covers it.\<close>

lemma socket_types_cover:
  "list_ex (\<lambda>t. P t \<and> (v :: u32) AND low SOCK_TYPE_MASK = low t) socket_types \<longleftrightarrow> P (ucast (v AND 15))"
proof -
  have "(15 :: u32) = mask 4" by (simp add: mask_eq_exp_minus_1)
  then have "v AND 15 = take_bit 4 v" by (simp only: take_bit_eq_mask)
  then have small: "unat (v AND 15) < 16"
    by (simp only: unsigned_take_bit_eq) (rule order_less_le_trans[OF take_bit_nat_less_exp], simp)
  have types: "t \<in> set socket_types \<longleftrightarrow> unat t < 16" for t
  proof
    assume "t \<in> set socket_types"
    then show "unat t < 16" by (auto simp: socket_types_def SOCK_TYPE_MASK_def unat_of_nat)
  next
    assume "unat t < 16"
    then have "t \<in> of_nat ` set [0..<16]" by (intro image_eqI[of _ _ "unat t"]) simp_all
    then show "t \<in> set socket_types" by (simp add: socket_types_def SOCK_TYPE_MASK_def)
  qed
  have low: "v AND 15 = low t \<longleftrightarrow> t = ucast (v AND 15)" if "unat t < 16" for t
  proof -
    have "unat (low t) = unat t" using that by (simp add: low_def unsigned_ucast_eq take_bit_nat_eq_self)
    moreover have "unat (ucast (v AND 15) :: u64) = unat (v AND 15)"
      using small by (simp add: unsigned_ucast_eq take_bit_nat_eq_self)
    ultimately show ?thesis by (metis unsigned_word_eqI)
  qed
  have "unat (ucast (v AND 15) :: u64) < 16"
    using small by (simp add: unsigned_ucast_eq take_bit_nat_eq_self)
  with types low show ?thesis
    by (auto simp: list_ex_iff SOCK_TYPE_MASK_def)
qed

lemma filter_ex: "list_ex P (filter Q xs) = list_ex (\<lambda>x. Q x \<and> P x) xs"
  by (induction xs) auto

definition hits :: "(sysname \<times> (nat \<times> cmp_op \<times> u64) list) list \<Rightarrow> sysname \<Rightarrow> u64 list \<Rightarrow> bool" where
  "hits reqs call args = list_ex (\<lambda>(c, cs). c = call \<and> list_all (req_holds args) cs) reqs"

lemma hits_append [simp]: "hits (xs @ ys) call args \<longleftrightarrow> hits xs call args \<or> hits ys call args"
  by (simp add: hits_def)

lemma hits_Nil [simp]: "\<not> hits [] call args"
  by (simp add: hits_def)

lemma hits_Cons [simp]:
  "hits ((c, cs) # reqs) call args \<longleftrightarrow> c = call \<and> list_all (req_holds args) cs \<or> hits reqs call args"
  by (simp add: hits_def)

lemma req_holds_simps [simp]:
  "req_holds args (i, CmpEq, v) \<longleftrightarrow> low (args ! i) = low v"
  "req_holds args (i, CmpNe, v) \<longleftrightarrow> low (args ! i) \<noteq> low v"
  "req_holds args (i, CmpMaskedEq m, v) \<longleftrightarrow> low (args ! i) AND low m = low v"
  by (simp_all add: req_holds_def cond_holds_def)

lemma masked_flags:
  "low x AND low CLONE_NEWNS = low CLONE_NEWNS \<longleftrightarrow> bit (low x) 17"
  "low x AND low CLONE_NEWCGROUP = low CLONE_NEWCGROUP \<longleftrightarrow> bit (low x) 25"
  "low x AND low CLONE_NEWUTS = low CLONE_NEWUTS \<longleftrightarrow> bit (low x) 26"
  "low x AND low CLONE_NEWIPC = low CLONE_NEWIPC \<longleftrightarrow> bit (low x) 27"
  "low x AND low CLONE_NEWUSER = low CLONE_NEWUSER \<longleftrightarrow> bit (low x) 28"
  "low x AND low CLONE_NEWPID = low CLONE_NEWPID \<longleftrightarrow> bit (low x) 29"
  "low x AND low CLONE_NEWNET = low CLONE_NEWNET \<longleftrightarrow> bit (low x) 30"
  "low x AND low MSG_FASTOPEN = low MSG_FASTOPEN \<longleftrightarrow> bit (low x) 29"
  unfolding low_flags by (rule and_single_bit; simp)+

lemma hits_namespace:
  "hits namespace_rules call args \<longleftrightarrow>
     call = SYS_clone \<and> list_ex (bit (low (args ! 0))) [17, 25, 26, 27, 28, 29, 30]"
  by (auto simp: namespace_rules_def NAMESPACE_CLONE_FLAGS_def masked_flags)

lemma hits_types:
  "hits (map (\<lambda>t. (c, cs t @ [(1, CmpMaskedEq SOCK_TYPE_MASK, t)])) (filter Q socket_types)) call args
     \<longleftrightarrow> c = call
       \<and> (let k = ucast (low (args ! 1) AND 15) in Q k \<and> list_all (req_holds args) (cs k))"
proof -
  have "hits (map (\<lambda>t. (c, cs t @ [(1, CmpMaskedEq SOCK_TYPE_MASK, t)])) (filter Q socket_types)) call args
      \<longleftrightarrow> list_ex (\<lambda>t. (c = call \<and> Q t \<and> list_all (req_holds args) (cs t))
            \<and> low (args ! 1) AND low SOCK_TYPE_MASK = low t) socket_types"
    by (simp add: hits_def list_ex_iff) blast
  then show ?thesis
    unfolding socket_types_cover Let_def by blast
qed

lemma kind_eq: "(ucast (v :: u32) :: u64) = 1 \<longleftrightarrow> v = 1" "(ucast (v :: u32) :: u64) = 5 \<longleftrightarrow> v = 5"
proof -
  have "unat (ucast v :: u64) = unat v"
    using unsigned_less[of v, where 'a = nat] by (simp add: unsigned_ucast_eq take_bit_nat_eq_self)
  moreover have "(x :: u64) = y \<longleftrightarrow> unat x = unat y" "(z :: u32) = u \<longleftrightarrow> unat z = unat u" for x y z u
    by (rule word_unat_eq_iff)+
  ultimately show "(ucast v :: u64) = 1 \<longleftrightarrow> v = 1" "(ucast v :: u64) = 5 \<longleftrightarrow> v = 5"
    by simp_all
qed

lemma hits_unix:
  "hits unix_rules call args \<longleftrightarrow>
     low (args ! 0) = 1
     \<and> (call = SYS_socket
        \<or> call = SYS_socketpair \<and> low (args ! 1) AND 15 \<noteq> 1 \<and> low (args ! 1) AND 15 \<noteq> 5)"
  using hits_types[of SYS_socketpair "\<lambda>_. [(0, CmpEq, AF_UNIX)]" "\<lambda>t. \<not> (t = SOCK_STREAM \<or> t = SOCK_SEQPACKET)" call args]
  by (auto simp: unix_rules_def kind_eq Let_def)

lemma hits_tcp:
  "hits tcp_rules call args \<longleftrightarrow>
     call = SYS_socket \<and> low (args ! 0) \<noteq> 1
       \<and> \<not> tcp_over_ip (low (args ! 0)) (low (args ! 1)) (low (args ! 2))
     \<or> call = SYS_setsockopt \<and> low (args ! 1) = 6 \<and> low (args ! 2) = 31
     \<or> (call = SYS_sendto \<or> call = SYS_sendmmsg) \<and> bit (low (args ! 3)) 29
     \<or> call = SYS_sendmsg \<and> bit (low (args ! 2)) 29"
  using hits_types[of SYS_socket "\<lambda>_. [(0, CmpNe, AF_UNIX)]" "\<lambda>t. t \<noteq> SOCK_STREAM" call args]
  by (auto simp: tcp_rules_def kind_eq Let_def masked_flags tcp_over_ip_def SOCK_TYPE_MASK_def)

lemma seed_lookup:
  "map_of (fold (\<lambda>call. bt_insert (sys call) []) calls m) nr
     = (if nr \<in> sys ` set calls then Some [] else map_of m nr)"
  by (induction calls arbitrary: m) (auto simp: map_of_bt_insert)

lemma seed_denies:
  assumes "inj sys"
  shows "denies (seed_rules sys) (sys call) args \<longleftrightarrow> call \<in> set BLOCKED_SYSCALLS"
    and "nr \<notin> range sys \<Longrightarrow> \<not> denies (seed_rules sys) nr args"
  using assms by (auto simp: seed_rules_def denies_def seed_lookup inj_image_mem_iff)

lemma well_formed_rules: "well_formed namespace_rules" "well_formed unix_rules" "well_formed tcp_rules"
  by (simp_all add: well_formed_def namespace_rules_def unix_rules_def tcp_rules_def list_all_iff)

lemma list_ex_hits:
  "inj sys \<Longrightarrow> list_ex (\<lambda>(c, cs). sys call = sys c \<and> list_all (req_holds args) cs) reqs = hits reqs call args"
  by (induction reqs) (auto simp: hits_def inj_eq)

lemma blocked_syscalls_ok:
  "\<exists>rules. blocked_syscalls etext sys p = Inr rules
     \<and> (\<forall>n args. denies rules n args \<longleftrightarrow>
          denies (seed_rules sys) n args
          \<or> list_ex (\<lambda>(c, cs). n = sys c \<and> list_all (req_holds args) cs)
              (namespace_rules @ (if sp_unix_sockets p then [] else unix_rules)
                @ (if confine_to_tcp p then tcp_rules else [])))"
proof -
  let ?adds = "\<lambda>r r' reqs. \<forall>n args. denies r' n args \<longleftrightarrow>
      denies r n args \<or> list_ex (\<lambda>(c, cs). n = sys c \<and> list_all (req_holds args) cs) reqs"
  from deny_each_ok[OF well_formed_rules(1), of etext sys "seed_rules sys"] obtain r1 where
    r1: "deny_each etext sys namespace_rules (seed_rules sys) = Inr r1" "?adds (seed_rules sys) r1 namespace_rules"
    by blast
  from deny_each_ok[OF well_formed_rules(2), of etext sys r1] obtain r2 where
    r2: "(if \<not> sp_unix_sockets p then deny_each etext sys unix_rules r1 else Inr r1) = Inr r2"
      "?adds r1 r2 (if sp_unix_sockets p then [] else unix_rules)"
    by (cases "sp_unix_sockets p") auto
  from deny_each_ok[OF well_formed_rules(3), of etext sys r2] obtain r3 where
    r3: "(if confine_to_tcp p then deny_each etext sys tcp_rules r2 else Inr r2) = Inr r3"
      "?adds r2 r3 (if confine_to_tcp p then tcp_rules else [])"
    by (cases "confine_to_tcp p") auto
  have "blocked_syscalls etext sys p = Inr r3"
    unfolding blocked_syscalls_def r1(1) sum.case r2(1) r3(1) ..
  with r1(2) r2(2) r3(2) show ?thesis by auto
qed

lemma call_denied_hits:
  "call_denied p call args \<longleftrightarrow>
     call \<in> set BLOCKED_SYSCALLS
     \<or> hits (namespace_rules @ (if sp_unix_sockets p then [] else unix_rules)
          @ (if confine_to_tcp p then tcp_rules else [])) call args"
  by (cases call) (auto simp: hits_namespace hits_unix hits_tcp BLOCKED_SYSCALLS_def)

text \<open>
  The denylist is built for every policy and denies exactly what the specification says, by
  number and low argument halves, and nothing else: the dangerous calls whatever the arguments,
  \<open>clone\<close> for a namespace, unix sockets unless granted, and under a port allowlist every socket
  that is not TCP over IP, the ULP option and fast open. No later rule weakens an earlier one.
\<close>

lemma denylist_exact:
  assumes "inj sys"
  shows "\<exists>rules. blocked_syscalls etext sys p = Inr rules
    \<and> (\<forall>call args. denies rules (sys call) args \<longleftrightarrow> call_denied p call args)
    \<and> (\<forall>nr args. nr \<notin> range sys \<longrightarrow> \<not> denies rules nr args)"
proof -
  from blocked_syscalls_ok[of etext sys p] obtain rules where
    rules: "blocked_syscalls etext sys p = Inr rules"
      "\<And>n args. denies rules n args \<longleftrightarrow>
          denies (seed_rules sys) n args
          \<or> list_ex (\<lambda>(c, cs). n = sys c \<and> list_all (req_holds args) cs)
              (namespace_rules @ (if sp_unix_sockets p then [] else unix_rules)
                @ (if confine_to_tcp p then tcp_rules else []))"
    by blast
  have "denies rules (sys call) args \<longleftrightarrow> call_denied p call args" for call args
    unfolding rules(2) call_denied_hits seed_denies(1)[OF assms] list_ex_hits[OF assms] ..
  moreover have "\<not> denies rules nr args" if "nr \<notin> range sys" for nr args
    unfolding rules(2) using seed_denies(2)[OF assms that] that by (auto simp: list_ex_iff)
  ultimately show ?thesis using rules(1) by blast
qed

section \<open>The program a filter is (helper_seccomp_tests_bpf.rs)\<close>

record insn =
  in_code :: u16
  in_jt :: u8
  in_jf :: u8
  in_k :: u32

abbreviation "BPF_LD \<equiv> (0x00 :: u16)"
abbreviation "BPF_ALU \<equiv> (0x04 :: u16)"
abbreviation "BPF_JMP \<equiv> (0x05 :: u16)"
abbreviation "BPF_RET \<equiv> (0x06 :: u16)"
abbreviation "BPF_W \<equiv> (0x00 :: u16)"
abbreviation "BPF_ABS \<equiv> (0x20 :: u16)"
abbreviation "BPF_AND \<equiv> (0x50 :: u16)"
abbreviation "BPF_K \<equiv> (0x00 :: u16)"
abbreviation "BPF_JA \<equiv> (0x00 :: u16)"
abbreviation "BPF_JEQ \<equiv> (0x10 :: u16)"
abbreviation "BPF_JGT \<equiv> (0x20 :: u16)"
abbreviation "BPF_JGE \<equiv> (0x30 :: u16)"

definition LD_W_ABS :: u16 where "LD_W_ABS = (BPF_LD OR BPF_W OR BPF_ABS)"
definition ALU_AND_K :: u16 where "ALU_AND_K = (BPF_ALU OR BPF_AND OR BPF_K)"
definition JA :: u16 where "JA = (BPF_JMP OR BPF_JA)"
definition JEQ_K :: u16 where "JEQ_K = (BPF_JMP OR BPF_JEQ OR BPF_K)"
definition JGT_K :: u16 where "JGT_K = (BPF_JMP OR BPF_JGT OR BPF_K)"
definition JGE_K :: u16 where "JGE_K = (BPF_JMP OR BPF_JGE OR BPF_K)"
definition RET_K :: u16 where "RET_K = (BPF_RET OR BPF_K)"

lemma opcodes [simp]:
  "LD_W_ABS = 0x20" "ALU_AND_K = 0x54" "JA = 0x05" "JEQ_K = 0x15" "JGT_K = 0x25" "JGE_K = 0x35" "RET_K = 0x06"
  by (simp_all add: LD_W_ABS_def ALU_AND_K_def JA_def JEQ_K_def JGT_K_def JGE_K_def RET_K_def)

definition V_ALLOW :: u32 where "V_ALLOW = 0x7fff0000"
definition V_EPERM :: u32 where "V_EPERM = (0x00050000 OR 1)"
definition V_ENOSYS :: u32 where "V_ENOSYS = (0x00050000 OR 38)"
definition V_KILL :: u32 where "V_KILL = 0x80000000"

lemma verdicts [simp]: "V_ALLOW = 0x7fff0000" "V_EPERM = 0x00050001" "V_ENOSYS = 0x00050026" "V_KILL = 0x80000000"
  by (simp_all add: V_ALLOW_def V_EPERM_def V_ENOSYS_def V_KILL_def)

text \<open>On x86_64: the machine, 64 bits, little-endian.\<close>

definition AUDIT_ARCH :: u32 where "AUDIT_ARCH = (62 OR 0x80000000 OR 0x40000000)"

definition seccomp_data :: "int \<Rightarrow> u64 list \<Rightarrow> u32 list" where
  "seccomp_data nr args =
     [of_int nr, AUDIT_ARCH, 0, 0] @ concat (map (\<lambda>a. [ucast a, ucast (drop_bit 32 a)]) args)"

text \<open>
  \<open>eval\<close>: every arm goes forward, so it ends. What panics (off the end, a load the kernel would
  refuse, an opcode it does not implement) is None.
\<close>

function eval_from :: "insn list \<Rightarrow> u32 list \<Rightarrow> nat \<Rightarrow> u32 \<Rightarrow> u32 option" where
  "eval_from program data pc acc =
     (case get_at program pc of
        None \<Rightarrow> None
      | Some i \<Rightarrow>
          (let nxt = Suc pc; jump = (\<lambda>taken. nxt + unat (if taken then in_jt i else in_jf i))
           in if in_code i = LD_W_ABS then
                (if unat (in_k i) mod 4 \<noteq> 0 then None
                 else (case get_at data (unat (in_k i) div 4) of
                     None \<Rightarrow> None | Some word \<Rightarrow> eval_from program data nxt word))
              else if in_code i = ALU_AND_K then eval_from program data nxt (acc AND in_k i)
              else if in_code i = JA then eval_from program data (nxt + unat (in_k i)) acc
              else if in_code i = JEQ_K then eval_from program data (jump (acc = in_k i)) acc
              else if in_code i = JGT_K then eval_from program data (jump (acc > in_k i)) acc
              else if in_code i = JGE_K then eval_from program data (jump (acc \<ge> in_k i)) acc
              else if in_code i = RET_K then Some (in_k i)
              else None))"
  by pat_completeness auto
termination
  by (relation "measure (\<lambda>(program, _, pc, _). length program - pc)") auto

declare eval_from.simps [simp del]

definition eval :: "insn list \<Rightarrow> u32 list \<Rightarrow> u32 option" where
  "eval program data = eval_from program data 0 0"

definition verdict_with_args :: "insn list \<Rightarrow> int \<Rightarrow> u64 list \<Rightarrow> u32 option" where
  "verdict_with_args program nr args = eval program (seccomp_data nr args)"

definition verdict_from_arch :: "insn list \<Rightarrow> int \<Rightarrow> u32 \<Rightarrow> u32 option" where
  "verdict_from_arch program nr arch = eval program ((seccomp_data nr (replicate 6 0))[1 := arch])"

text \<open>
  Running a program from a point is running what is left of it, so a piece of a program can be read
  on its own: \<open>go\<close> runs a suffix, and a jump drops instructions of it.
\<close>

lemma eval_from_suffix: "eval_from (pre @ program) data (length pre + pc) acc = eval_from program data pc acc"
proof (induction program data pc acc rule: eval_from.induct)
  case (1 program data pc acc)
  have get: "get_at (pre @ program) (length pre + pc) = get_at program pc"
    by (simp add: get_at_def nth_append)
  show ?case
    apply (subst (1 2) eval_from.simps)
    unfolding get
    apply (rule option.case_cong[OF refl])
     apply simp
    apply (simp only: Let_def add_Suc_right[symmetric] add.assoc)
    using 1 by (auto simp: Let_def split: option.splits if_splits)
qed

abbreviation go :: "insn list \<Rightarrow> u32 list \<Rightarrow> u32 \<Rightarrow> u32 option" where
  "go program data acc \<equiv> eval_from program data 0 acc"

end
