(* ===== verification/Seccomp_Filter.thy ===== *)
theory Seccomp_Filter
  imports Seccomp
begin

text \<open>
  How the filter reaches the kernel (\<open>helper_seccomp_filter.rs\<close>): the denylist program, the
  \<open>clone3\<close> and x32 filters beside it, and the verdict of the three together. The \<open>seccompiler\<close>
  compiler is an argument; what the code relies on is \<open>compiler_sound\<close>, its documented meaning,
  and \<open>plain_compile\<close> is a compiler proved to have it, so the hypothesis can hold.
\<close>

section \<open>Reading a program piece by piece\<close>

lemma eval_from_end: "length program \<le> pc \<Longrightarrow> eval_from program data pc acc = None"
  by (subst eval_from.simps) (simp add: get_at_def)

lemma go_jump: "eval_from (i # is) data (Suc n) acc = go (drop n is) data acc"
proof (cases "n \<le> length is")
  case True
  then have "i # is = (i # take n is) @ drop n is" "Suc n = length (i # take n is) + 0" by simp_all
  then show ?thesis by (metis eval_from_suffix)
next
  case False
  then show ?thesis by (simp add: eval_from_end)
qed

lemma go_Nil: "go [] data acc = None"
  by (simp add: eval_from_end)

lemma go_step:
  "go (i # is) data acc =
     (let jump = (\<lambda>taken. go (drop (unat (if taken then in_jt i else in_jf i)) is) data acc)
      in if in_code i = LD_W_ABS then
           (if unat (in_k i) mod 4 \<noteq> 0 then None
            else (case get_at data (unat (in_k i) div 4) of
                None \<Rightarrow> None | Some word \<Rightarrow> go is data word))
         else if in_code i = ALU_AND_K then go is data (acc AND in_k i)
         else if in_code i = JA then go (drop (unat (in_k i)) is) data acc
         else if in_code i = JEQ_K then jump (acc = in_k i)
         else if in_code i = JGT_K then jump (acc > in_k i)
         else if in_code i = JGE_K then jump (acc \<ge> in_k i)
         else if in_code i = RET_K then Some (in_k i)
         else None)"
  by (subst eval_from.simps) (simp add: Let_def go_jump go_jump[where n = 0, simplified] del: opcodes cong: option.case_cong)

definition insn_of :: "u16 \<Rightarrow> u8 \<Rightarrow> u8 \<Rightarrow> u32 \<Rightarrow> insn" where
  "insn_of code jt jf k = \<lparr>in_code = code, in_jt = jt, in_jf = jf, in_k = k\<rparr>"

lemma go_simps:
  "go (insn_of RET_K jt jf k # is) data acc = Some k"
  "go (insn_of ALU_AND_K jt jf k # is) data acc = go is data (acc AND k)"
  "go (insn_of JA jt jf k # is) data acc = go (drop (unat k) is) data acc"
  "go (insn_of JEQ_K jt jf k # is) data acc = go (drop (unat (if acc = k then jt else jf)) is) data acc"
  by (simp_all add: go_step insn_of_def)

lemma go_load:
  "unat k = 4 * w \<Longrightarrow> get_at data w = Some word \<Longrightarrow> go (insn_of LD_W_ABS jt jf k # is) data acc = go is data word"
  by (simp add: go_step insn_of_def del: get_at_Some)

section \<open>The x32 gate\<close>

definition X32_SYSCALL_BIT :: u32 where "X32_SYSCALL_BIT = 0x40000000"

definition x32_gate :: "insn list" where
  "x32_gate =
     [insn_of (BPF_LD OR BPF_W OR BPF_ABS) 0 0 0,
      insn_of (BPF_JMP OR BPF_JGE OR BPF_K) 3 0 0x80000000,
      insn_of (BPF_ALU OR BPF_AND OR BPF_K) 0 0 X32_SYSCALL_BIT,
      insn_of (BPF_JMP OR BPF_JEQ OR BPF_K) 0 1 X32_SYSCALL_BIT,
      insn_of (BPF_RET OR BPF_K) 0 0 0x80000000,
      insn_of (BPF_RET OR BPF_K) 0 0 0x7fff0000]"

definition x32_number :: "u32 \<Rightarrow> bool" where
  "x32_number nr \<longleftrightarrow> bit nr 30 \<and> \<not> bit nr 31"

lemma bit31: "(0x80000000 :: u32) \<le> nr \<longleftrightarrow> bit nr 31"
proof -
  have "bit nr 31 = bit (unat nr) 31"
    by (simp add: bit_unsigned_iff)
  also have "\<dots> = odd (unat nr div 2 ^ 31)"
    by (rule bit_iff_odd)
  also have "\<dots> = (2 ^ 31 \<le> unat nr)"
  proof -
    have "unat nr div 2 ^ 31 < 2"
      using unsigned_less[of nr, where 'a = nat] by (simp add: less_mult_imp_div_less)
    then have "odd (unat nr div 2 ^ 31) \<longleftrightarrow> 0 < unat nr div 2 ^ 31"
      by (auto dest: less_2_cases)
    then show ?thesis by (simp only: div_greater_zero_iff) simp
  qed
  also have "\<dots> = ((0x80000000 :: u32) \<le> nr)"
    by (simp add: word_le_nat_alt)
  finally show ?thesis ..
qed

lemma and_bit30: "nr AND (0x40000000 :: u32) = 0x40000000 \<longleftrightarrow> bit nr 30"
  using and_single_bit[of 30 nr] by (simp add: push_bit_eq_mult)

lemma x32_gate_verdict:
  assumes "data \<noteq> []"
  shows "eval x32_gate data = Some (if x32_number (hd data) then V_KILL else V_ALLOW)"
  using assms by (cases data)
    (simp_all add: eval_def x32_gate_def insn_of_def go_step X32_SYSCALL_BIT_def bit31 and_bit30 x32_number_def)

section \<open>The filters (helper_seccomp_filter.rs)\<close>

datatype action = Allow | Errno u32

type_synonym compiler = "rules \<Rightarrow> action \<Rightarrow> action \<Rightarrow> string + insn list"

definition deny_with :: "compiler \<Rightarrow> rules \<Rightarrow> u32 \<Rightarrow> sandbox_error + insn list" where
  "deny_with compile rules errno =
     (let unlisted = Allow; listed = Errno errno
      in case compile rules unlisted listed of Inl detail \<Rightarrow> Inl (Seccomp detail) | Inr p \<Rightarrow> Inr p)"

definition compiled_filter ::
  "compiler \<Rightarrow> (sc_error \<Rightarrow> string) \<Rightarrow> (sysname \<Rightarrow> int) \<Rightarrow> sandbox_policy \<Rightarrow> sandbox_error + insn list" where
  "compiled_filter compile etext sys p =
     (case blocked_syscalls etext sys p of Inl e \<Rightarrow> Inl e | Inr rules \<Rightarrow> deny_with compile rules 1)"

definition clone3_filter :: "compiler \<Rightarrow> (sysname \<Rightarrow> int) \<Rightarrow> sandbox_error + insn list" where
  "clone3_filter compile sys = deny_with compile [(sys SYS_clone3, [])] 38"

definition installed_filters ::
  "compiler \<Rightarrow> (sc_error \<Rightarrow> string) \<Rightarrow> (sysname \<Rightarrow> int) \<Rightarrow> sandbox_policy \<Rightarrow> sandbox_error + insn list list" where
  "installed_filters compile etext sys p =
     (case compiled_filter compile etext sys p of
        Inl e \<Rightarrow> Inl e
      | Inr denylist \<Rightarrow>
          (case clone3_filter compile sys of
             Inl e \<Rightarrow> Inl e
           | Inr clone3 \<Rightarrow> Inr [denylist, clone3, x32_gate]))"

text \<open>\<open>apply\<close> is the crate's \<open>apply_filter\<close>: the filters installed so far are its state.\<close>

fun install_each ::
  "(insn list \<Rightarrow> 'w \<Rightarrow> (string + unit) \<times> 'w) \<Rightarrow> insn list list \<Rightarrow> 'w \<Rightarrow> (sandbox_error + unit) \<times> 'w" where
  "install_each apply [] w = (Inr (), w)"
| "install_each apply (f # fs) w =
     (case apply f w of
        (Inl detail, w') \<Rightarrow> (Inl (Seccomp detail), w')
      | (Inr _, w') \<Rightarrow> install_each apply fs w')"

definition deny_dangerous_syscalls ::
  "compiler \<Rightarrow> (sc_error \<Rightarrow> string) \<Rightarrow> (sysname \<Rightarrow> int) \<Rightarrow> (insn list \<Rightarrow> 'w \<Rightarrow> (string + unit) \<times> 'w)
     \<Rightarrow> sandbox_policy \<Rightarrow> 'w \<Rightarrow> (sandbox_error + unit) \<times> 'w" where
  "deny_dangerous_syscalls compile etext sys apply p w =
     (case installed_filters compile etext sys p of
        Inl e \<Rightarrow> (Inl e, w)
      | Inr fs \<Rightarrow> install_each apply fs w)"

section \<open>What the compiler and the kernel promise\<close>

fun ret_of :: "action \<Rightarrow> u32" where
  "ret_of Allow = V_ALLOW"
| "ret_of (Errno e) = (0x00050000 OR (e AND 0xffff))"

definition numbers_ok :: "rules \<Rightarrow> bool" where
  "numbers_ok rules \<longleftrightarrow> list_all (\<lambda>(nr, _). 0 \<le> nr \<and> nr < 2 ^ 32) rules"

definition compiler_sound :: "compiler \<Rightarrow> bool" where
  "compiler_sound compile \<longleftrightarrow>
     (\<forall>rules unlisted listed program.
        compile rules unlisted listed = Inr program \<and> numbers_ok rules \<longrightarrow>
        (\<forall>nr args. 0 \<le> nr \<and> nr < 2 ^ 32 \<and> length args = 6 \<longrightarrow>
           verdict_with_args program nr args = Some (ret_of (if denies rules nr args then listed else unlisted)))
        \<and> (\<forall>nr arch. arch \<noteq> AUDIT_ARCH \<longrightarrow> verdict_from_arch program nr arch = Some V_KILL))"

text \<open>
  The kernel runs every installed filter, the newest first, and keeps the most severe action: the
  one whose action bits are least as a signed number, an earlier result on a tie.
\<close>

definition more_severe :: "u32 \<Rightarrow> u32 \<Rightarrow> bool" where
  "more_severe a b \<longleftrightarrow> sint (a AND 0xffff0000) < sint (b AND 0xffff0000)"

fun stack_verdict :: "(insn list \<Rightarrow> u32 option) \<Rightarrow> insn list list \<Rightarrow> u32 option" where
  "stack_verdict run [] = Some V_ALLOW"
| "stack_verdict run (f # older) =
     (case (run f, stack_verdict run older) of
        (Some v, Some w) \<Rightarrow> Some (if more_severe w v then w else v)
      | _ \<Rightarrow> None)"

lemma compiler_soundD:
  assumes "compiler_sound compile" "compile rules unlisted listed = Inr program" "numbers_ok rules"
  shows "0 \<le> nr \<Longrightarrow> nr < 2 ^ 32 \<Longrightarrow> length args = 6 \<Longrightarrow>
      verdict_with_args program nr args = Some (ret_of (if denies rules nr args then listed else unlisted))"
    and "arch \<noteq> AUDIT_ARCH \<Longrightarrow> verdict_from_arch program nr arch = Some V_KILL"
  using assms unfolding compiler_sound_def by blast+

subsection \<open>The keys of the denylist\<close>

abbreviation keys_in :: "(sysname \<Rightarrow> int) \<Rightarrow> rules \<Rightarrow> bool" where
  "keys_in sys rules \<equiv> dom (map_of rules) \<subseteq> range sys"

lemma deny_each_keys:
  "deny_each etext sys reqs rules = Inr r \<Longrightarrow> keys_in sys rules \<Longrightarrow> keys_in sys r"
proof (induction reqs arbitrary: rules)
  case (Cons q reqs)
  obtain call cs where q: "q = (call, cs)" by (cases q)
  from Cons.prems(1) q obtain conditions r1 where
    r1: "deny_when etext rules (sys call) conditions = Inr r1" "deny_each etext sys reqs r1 = Inr r"
    by (auto split: sum.splits)
  from r1(1) Cons.prems(2) have "keys_in sys r1"
    by (auto simp: deny_when_def map_of_bt_insert split: if_splits) blast
  with Cons.IH r1(2) show ?case by blast
qed simp

lemma blocked_syscalls_keys: "blocked_syscalls etext sys p = Inr rules \<Longrightarrow> keys_in sys rules"
proof -
  assume b: "blocked_syscalls etext sys p = Inr rules"
  have "keys_in sys (seed_rules sys)"
    by (auto simp: seed_rules_def seed_lookup split: if_splits)
  with b show ?thesis
    unfolding blocked_syscalls_def
    by (auto split: sum.splits if_splits dest!: deny_each_keys)
qed

lemma numbers_okI:
  assumes "keys_in sys rules" "\<And>call. 0 \<le> sys call \<and> sys call < 2 ^ 32"
  shows "numbers_ok rules"
  unfolding numbers_ok_def list_all_iff
proof (intro ballI, clarify)
  fix nr rs assume "(nr, rs) \<in> set rules"
  then have "nr \<in> dom (map_of rules)" unfolding dom_map_of_conv_image_fst by (rule image_eqI[rotated]) simp
  with assms show "0 \<le> nr \<and> nr < 2 ^ 32" by auto
qed

subsection \<open>The verdict of the three\<close>

lemma verdict_x32:
  "verdict_with_args x32_gate nr args = Some (if x32_number (of_int nr) then V_KILL else V_ALLOW)"
  "verdict_from_arch x32_gate nr arch = Some (if x32_number (of_int nr) then V_KILL else V_ALLOW)"
  by (simp_all add: verdict_with_args_def verdict_from_arch_def x32_gate_verdict seccomp_data_def)

lemma native_not_x32: "0 \<le> nr \<Longrightarrow> nr < 2 ^ 30 \<Longrightarrow> \<not> x32_number (of_int nr)"
proof -
  assume nr: "0 \<le> nr" "nr < 2 ^ 30"
  then have "nr div 2 ^ 30 = 0" by simp
  then have "\<not> bit nr 30" by (simp add: bit_iff_odd)
  then show ?thesis by (simp add: x32_number_def bit_word_of_int_iff)
qed

lemma severity:
  "more_severe V_EPERM V_ALLOW" "more_severe V_ENOSYS V_ALLOW" "more_severe V_KILL V_ALLOW"
  "more_severe V_KILL V_EPERM" "more_severe V_KILL V_ENOSYS"
  "\<not> more_severe V_ALLOW V_ALLOW" "\<not> more_severe V_ALLOW V_KILL" "\<not> more_severe V_ALLOW V_EPERM"
  "\<not> more_severe V_ALLOW V_ENOSYS" "\<not> more_severe V_EPERM V_KILL" "\<not> more_severe V_ENOSYS V_KILL"
  "\<not> more_severe V_ENOSYS V_EPERM" "\<not> more_severe V_EPERM V_ENOSYS" "\<not> more_severe V_KILL V_KILL"
  by (simp_all add: more_severe_def)

text \<open>
  C3. What the kernel answers behind the installed filters, for every policy: \<open>clone3\<close> gets
  ENOSYS (so that libc falls back to the filtered \<open>clone\<close>), a call the denylist specification
  denies gets EPERM, whatever else the target numbers runs; a number the target does not have is
  killed exactly when it is an x32 one (so -1 is not), and any other architecture is killed.
\<close>

theorem filters_verdict:
  assumes "inj sys" "\<forall>call. 0 \<le> sys call \<and> sys call < 2 ^ 30" "compiler_sound compile"
    and "installed_filters compile etext sys p = Inr filters" "length args = 6"
  shows "stack_verdict (\<lambda>f. verdict_with_args f (sys call) args) (rev filters)
      = Some (if call = SYS_clone3 then V_ENOSYS else if call_denied p call args then V_EPERM else V_ALLOW)
    \<and> (0 \<le> nr \<and> nr < 2 ^ 32 \<and> nr \<notin> range sys \<longrightarrow>
         stack_verdict (\<lambda>f. verdict_with_args f nr args) (rev filters)
           = Some (if x32_number (of_int nr) then V_KILL else V_ALLOW))
    \<and> (arch \<noteq> AUDIT_ARCH \<longrightarrow>
         stack_verdict (\<lambda>f. verdict_from_arch f nr arch) (rev filters) = Some V_KILL)"
proof -
  from denylist_exact[OF assms(1), of etext p] obtain rules where
    rules: "blocked_syscalls etext sys p = Inr rules"
      "\<And>call args. denies rules (sys call) args \<longleftrightarrow> call_denied p call args"
      "\<And>nr args. nr \<notin> range sys \<Longrightarrow> \<not> denies rules nr args"
    by blast
  let ?clone3 = "[(sys SYS_clone3, [])]"
  from assms(4) rules(1) obtain d c where
    d: "compile rules Allow (Errno 1) = Inr d" and c: "compile ?clone3 Allow (Errno 38) = Inr c"
    and filters: "filters = [d, c, x32_gate]"
    by (auto simp: installed_filters_def compiled_filter_def clone3_filter_def deny_with_def Let_def
        split: sum.splits)
  have range: "0 \<le> sys call \<and> sys call < 2 ^ 32" for call
    using assms(2)[rule_format, of call] by simp
  have ok: "numbers_ok rules" "numbers_ok ?clone3"
    using numbers_okI[OF blocked_syscalls_keys[OF rules(1)]] range by (auto simp: numbers_ok_def)
  note d' = compiler_soundD[OF assms(3) d ok(1)] and c' = compiler_soundD[OF assms(3) c ok(2)]
  have clone3: "denies ?clone3 n args \<longleftrightarrow> n = sys SYS_clone3" for n
    by (simp add: denies_def)
  have rets: "ret_of Allow = V_ALLOW" "ret_of (Errno 1) = V_EPERM" "ret_of (Errno 38) = V_ENOSYS"
    by simp_all
  note run = filters verdict_x32 clone3 rets severity
  have "stack_verdict (\<lambda>f. verdict_with_args f (sys call) args) (rev filters)
      = Some (if call = SYS_clone3 then V_ENOSYS else if call_denied p call args then V_EPERM else V_ALLOW)"
    using range[of call] native_not_x32[of "sys call"] assms(2)[rule_format, of call] inj_eq[OF assms(1)]
    by (simp add: run d'(1) c'(1) rules(2) assms(5) BLOCKED_SYSCALLS_def del: verdicts ret_of.simps(2))
  moreover have "stack_verdict (\<lambda>f. verdict_with_args f nr args) (rev filters)
      = Some (if x32_number (of_int nr) then V_KILL else V_ALLOW)"
    if "0 \<le> nr \<and> nr < 2 ^ 32 \<and> nr \<notin> range sys"
    using that by (auto simp add: run d'(1) c'(1) rules(3) assms(5) simp del: verdicts ret_of.simps(2))
  moreover have "stack_verdict (\<lambda>f. verdict_from_arch f nr arch) (rev filters) = Some V_KILL"
    if "arch \<noteq> AUDIT_ARCH"
    using that by (simp add: run d'(2) c'(2) del: verdicts ret_of.simps(2))
  ultimately show ?thesis by blast
qed

section \<open>A compiler with the documented meaning\<close>

text \<open>
  Not the crate's code: the shortest compiler that has the meaning, one block per rule, each
  reading the number again and falling through to the next when a condition fails. It refuses
  what a program of 32-bit words could not hold.
\<close>

definition load_arg :: "nat \<Rightarrow> insn" where
  "load_arg i = insn_of LD_W_ABS 0 0 (of_nat (16 + 8 * i))"

definition skip :: "insn list \<Rightarrow> insn" where
  "skip rest = insn_of JA 0 0 (of_nat (length rest))"

fun rule_code :: "u32 \<Rightarrow> condition list \<Rightarrow> insn list" where
  "rule_code ret [] = [insn_of RET_K 0 0 ret]"
| "rule_code ret (c # cs) =
     (let rest = rule_code ret cs; v = low (cd_value c)
      in load_arg (cd_index c)
         # (case cd_op c of
              CmpEq \<Rightarrow> [insn_of JEQ_K 1 0 v]
            | CmpNe \<Rightarrow> [insn_of JEQ_K 0 1 v]
            | CmpMaskedEq m \<Rightarrow> [insn_of ALU_AND_K 0 0 (low m), insn_of JEQ_K 1 0 v])
         @ skip rest # rest)"

definition rule_block :: "u32 \<Rightarrow> int \<times> condition list \<Rightarrow> insn list" where
  "rule_block ret r =
     (let body = rule_code ret (snd r)
      in insn_of LD_W_ABS 0 0 0 # insn_of JEQ_K 1 0 (of_int (fst r)) # skip body # body)"

definition flat :: "rules \<Rightarrow> (int \<times> condition list) list" where
  "flat rules = concat (map (\<lambda>(nr, rs). if rs = [] then [(nr, [])] else map (Pair nr) rs) rules)"

definition small_rule :: "int \<times> condition list \<Rightarrow> bool" where
  "small_rule r \<longleftrightarrow> list_all (\<lambda>c. cd_index c \<le> 5) (snd r) \<and> length (snd r) \<le> 1000"

definition plain_compile :: compiler where
  "plain_compile rules unlisted listed =
     (if distinct (map fst rules) \<and> list_all small_rule (flat rules)
      then Inr ([insn_of LD_W_ABS 0 0 4, insn_of JEQ_K 1 0 AUDIT_ARCH, insn_of RET_K 0 0 V_KILL]
        @ concat (map (rule_block (ret_of listed)) (flat rules)) @ [insn_of RET_K 0 0 (ret_of unlisted)])
      else Inl ''too large'')"

lemma rule_code_length: "length (rule_code ret cs) \<le> 4 * length cs + 1"
  by (induction cs) (auto simp: Let_def split: cmp_op.splits)

lemma skip_length: "length xs < 2 ^ 32 \<Longrightarrow> unat (of_nat (length xs) :: u32) = length xs"
  by (simp add: unat_of_nat)

lemma index_cases: "i \<le> 5 \<Longrightarrow> i = 0 \<or> i = 1 \<or> i = 2 \<or> i = 3 \<or> i = 4 \<or> i = (5 :: nat)"
  by arith

lemma load_offset: "i \<le> 5 \<Longrightarrow> unat (of_nat (16 + 8 * i) :: u32) = 4 * (4 + 2 * i)"
  by (drule index_cases) auto

lemma data_words:
  assumes "length args = 6"
  shows "i \<le> 5 \<Longrightarrow> get_at (seccomp_data nr args) (4 + 2 * i) = Some (low (args ! i))"
    and "get_at (seccomp_data nr args) 0 = Some (of_int nr)"
    and "get_at (seccomp_data nr args) 1 = Some AUDIT_ARCH"
proof -
  obtain a b c d e f where args: "args = [a, b, c, d, e, f]"
    using assms by (auto simp: length_Suc_conv numeral_eq_Suc)
  show "i \<le> 5 \<Longrightarrow> get_at (seccomp_data nr args) (4 + 2 * i) = Some (low (args ! i))"
    by (drule index_cases) (auto simp: args seccomp_data_def low_def)
  show "get_at (seccomp_data nr args) 0 = Some (of_int nr)" "get_at (seccomp_data nr args) 1 = Some AUDIT_ARCH"
    by (simp_all add: seccomp_data_def)
qed

lemma go_rule_code:
  assumes "length args = 6" "list_all (\<lambda>c. cd_index c \<le> 5) cs" "length cs \<le> 1000"
  shows "if list_all (cond_holds args) cs then go (rule_code ret cs @ rest) (seccomp_data nr args) acc = Some ret
    else \<exists>acc'. go (rule_code ret cs @ rest) (seccomp_data nr args) acc = go rest (seccomp_data nr args) acc'"
  using assms(2,3)
proof (induction cs arbitrary: acc)
  case Nil
  then show ?case by (simp add: go_simps del: opcodes)
next
  case (Cons c cs)
  let ?v = "low (args ! cd_index c)"
  have i: "cd_index c \<le> 5" using Cons.prems by simp
  have aligned: "unat (of_nat (16 + 8 * cd_index c) :: u32) = 4 * (4 + 2 * cd_index c)"
    using i by (rule load_offset)
  have load: "go (load_arg (cd_index c) # is) (seccomp_data nr args) a = go is (seccomp_data nr args) ?v" for "is" a
    unfolding load_arg_def by (rule go_load[OF aligned data_words(1)[OF assms(1) i]])
  have small: "length (rule_code ret cs) < 2 ^ 32"
    using rule_code_length[of ret cs] Cons.prems by simp
  have over: "go (skip (rule_code ret cs) # rule_code ret cs @ rest) (seccomp_data nr args) a
      = go rest (seccomp_data nr args) a" for a
    by (simp add: go_simps skip_def skip_length[OF small] del: opcodes)
  show ?case
  proof (cases "cond_holds args c")
    case True
    then have "go (rule_code ret (c # cs) @ rest) (seccomp_data nr args) acc
        = go (rule_code ret cs @ rest) (seccomp_data nr args) (case cd_op c of CmpMaskedEq m \<Rightarrow> ?v AND low m | _ \<Rightarrow> ?v)"
      by (cases "cd_op c") (simp_all add: Let_def load cond_holds_def go_simps del: opcodes)
    with True Cons show ?thesis by simp
  next
    case False
    then have "go (rule_code ret (c # cs) @ rest) (seccomp_data nr args) acc
        = go rest (seccomp_data nr args) (case cd_op c of CmpMaskedEq m \<Rightarrow> ?v AND low m | _ \<Rightarrow> ?v)"
      by (cases "cd_op c") (simp_all add: Let_def load over cond_holds_def go_simps del: opcodes)
    with False show ?thesis by auto
  qed
qed

lemma go_blocks:
  assumes "length args = 6" "0 \<le> nr" "nr < 2 ^ 32"
    and "list_all small_rule rs" "list_all (\<lambda>(n, _). 0 \<le> n \<and> n < 2 ^ 32) rs"
  shows "go (concat (map (rule_block ret) rs) @ [insn_of RET_K 0 0 out]) (seccomp_data nr args) acc
    = Some (if list_ex (\<lambda>(n, cs). n = nr \<and> list_all (cond_holds args) cs) rs then ret else out)"
  using assms(4,5)
proof (induction rs arbitrary: acc)
  case Nil
  then show ?case by (simp add: go_simps del: opcodes)
next
  case (Cons r rs)
  obtain n cs where r: "r = (n, cs)" by (cases r)
  let ?rest = "concat (map (rule_block ret) rs) @ [insn_of RET_K 0 0 out]"
  from Cons.prems r have cs: "list_all (\<lambda>c. cd_index c \<le> 5) cs" "length cs \<le> 1000"
    and n: "0 \<le> n" "n < 2 ^ 32"
    by (simp_all add: small_rule_def)
  have small: "length (rule_code ret cs) < 2 ^ 32"
    using rule_code_length[of ret cs] cs by simp
  have same: "(of_int nr :: u32) = of_int n \<longleftrightarrow> n = nr"
    using n assms(2,3) by (auto simp: word_of_int_eq_iff take_bit_int_eq_self)
  have start: "go (rule_block ret r @ ?rest) (seccomp_data nr args) acc
      = (if n = nr then go (rule_code ret cs @ ?rest) (seccomp_data nr args) (of_int nr)
         else go ?rest (seccomp_data nr args) (of_int nr))"
    by (simp add: rule_block_def r Let_def go_load[OF _ data_words(2)[OF assms(1)]] go_simps skip_def
        skip_length[OF small] same del: opcodes)
  from go_rule_code[OF assms(1) cs, of ret ?rest nr "of_int nr"] Cons start r
  show ?case by (auto split: if_splits)
qed

lemma list_ex_map: "list_ex P (map f xs) = list_ex (P \<circ> f) xs"
  by (induction xs) auto

lemma flat_ex:
  "list_ex P (flat rules) \<longleftrightarrow>
     list_ex (\<lambda>(n, rs). if rs = [] then P (n, []) else list_ex (\<lambda>cs. P (n, cs)) rs) rules"
  by (induction rules) (auto simp: flat_def list_ex_map o_def)

lemma flat_all:
  "list_all P (flat rules) \<longleftrightarrow>
     list_all (\<lambda>(n, rs). if rs = [] then P (n, []) else list_all (\<lambda>cs. P (n, cs)) rs) rules"
  by (induction rules) (auto simp: flat_def list.pred_map o_def)

lemma denies_flat:
  assumes "distinct (map fst rules)"
  shows "denies rules nr args \<longleftrightarrow> list_ex (\<lambda>(n, cs). n = nr \<and> list_all (cond_holds args) cs) (flat rules)"
proof -
  let ?hit = "\<lambda>rs. rs = [] \<or> list_ex (list_all (cond_holds args)) rs"
  have "denies rules nr args \<longleftrightarrow> (\<exists>rs. (nr, rs) \<in> set rules \<and> ?hit rs)"
    by (simp add: denies_def map_of_eq_Some_iff[OF assms, symmetric] split: option.splits)
  also have "\<dots> \<longleftrightarrow> list_ex (\<lambda>(n, rs). n = nr \<and> ?hit rs) rules"
    by (auto simp: list_ex_iff)
  also have "(\<lambda>(n, rs). n = nr \<and> ?hit rs) = (\<lambda>(n, rs). if rs = [] then n = nr \<and> list_all (cond_holds args) []
      else list_ex (\<lambda>cs. n = nr \<and> list_all (cond_holds args) cs) rs)"
    by (auto simp: fun_eq_iff list_ex_iff)
  finally show ?thesis by (simp add: flat_ex)
qed

lemma flat_numbers: "numbers_ok rules \<Longrightarrow> list_all (\<lambda>(n, _). 0 \<le> n \<and> n < 2 ^ 32) (flat rules)"
  unfolding numbers_ok_def flat_all by (auto simp: list_all_iff)

lemma plain_compile_sound: "compiler_sound plain_compile"
  unfolding compiler_sound_def
proof (intro allI impI conjI; elim conjE)
  fix rules unlisted listed program
  assume made: "plain_compile rules unlisted listed = Inr program" and ok: "numbers_ok rules"
  let ?gate = "[insn_of LD_W_ABS 0 0 4, insn_of JEQ_K 1 0 AUDIT_ARCH, insn_of RET_K 0 0 V_KILL]"
  let ?code = "concat (map (rule_block (ret_of listed)) (flat rules)) @ [insn_of RET_K 0 0 (ret_of unlisted)]"
  from made have program: "program = ?gate @ ?code" and "distinct (map fst rules)" "list_all small_rule (flat rules)"
    by (auto simp: plain_compile_def split: if_splits)
  note code = go_blocks[OF _ _ _ this(3) flat_numbers[OF ok]] denies_flat[OF this(2), symmetric]
  have gate: "eval program data = (if arch = AUDIT_ARCH then go ?code data arch else Some V_KILL)"
    if "get_at data 1 = Some arch" for data arch
    unfolding eval_def program
    by (simp add: go_load[OF _ that] go_simps del: opcodes verdicts)
  show "verdict_with_args program nr args = Some (ret_of (if denies rules nr args then listed else unlisted))"
    if "0 \<le> nr" "nr < 2 ^ 32" "length args = 6" for nr args
    unfolding verdict_with_args_def gate[OF data_words(3)[OF that(3)]]
    using code(1)[OF that(3,1,2)] by (simp add: code(2))
  show "verdict_from_arch program nr arch = Some V_KILL" if "arch \<noteq> AUDIT_ARCH" for nr arch
  proof -
    have "get_at ((seccomp_data nr (replicate 6 0))[1 := arch]) 1 = Some arch"
      by (simp add: seccomp_data_def)
    from gate[OF this] that show ?thesis by (simp add: verdict_from_arch_def)
  qed
qed

subsection \<open>The filters of a concrete target\<close>

definition every_call :: "sysname list" where
  "every_call = BLOCKED_SYSCALLS
     @ [SYS_clone, SYS_clone3, SYS_socket, SYS_socketpair, SYS_setsockopt, SYS_sendto, SYS_sendmsg, SYS_sendmmsg]"

definition number :: "sysname \<Rightarrow> int" where
  "number call = int (length (takeWhile (\<lambda>c. c \<noteq> call) every_call))"

lemma first_index:
  "x \<in> set xs \<Longrightarrow> length (takeWhile (\<lambda>c. c \<noteq> x) xs) < length xs \<and> xs ! length (takeWhile (\<lambda>c. c \<noteq> x) xs) = x"
  by (induction xs) auto

lemma every_call_complete: "call \<in> set every_call"
  by (cases call) (simp_all add: every_call_def BLOCKED_SYSCALLS_def)

lemma number_inj: "inj number"
proof (rule injI)
  fix a b assume "number a = number b"
  then have same: "length (takeWhile (\<lambda>c. c \<noteq> a) every_call) = length (takeWhile (\<lambda>c. c \<noteq> b) every_call)"
    by (simp only: number_def of_nat_eq_iff)
  have "every_call ! length (takeWhile (\<lambda>c. c \<noteq> c') every_call) = c'" for c'
    by (rule conjunct2[OF first_index[OF every_call_complete]])
  with same show "a = b" by metis
qed

lemma number_range: "0 \<le> number call \<and> number call < 2 ^ 30"
proof -
  have "length every_call = 43" by (simp add: every_call_def BLOCKED_SYSCALLS_def)
  then show ?thesis
    using conjunct1[OF first_index[OF every_call_complete[of call]]] by (simp add: number_def)
qed

definition web_only :: sandbox_policy where
  "web_only = default_policy\<lparr>sp_network := Ports [443]\<rparr>"

lemma filters_made: "\<not> isl (installed_filters plain_compile (\<lambda>_. ''refused'') number web_only)"
  by code_simp

theorem filters_verdict_witness:
  "\<exists>filters. installed_filters plain_compile (\<lambda>_. ''refused'') number web_only = Inr filters
     \<and> stack_verdict (\<lambda>f. verdict_with_args f (number SYS_socket) [2, 2, 0, 0, 0, 0]) (rev filters)
         = Some V_EPERM
     \<and> stack_verdict (\<lambda>f. verdict_with_args f 0x40000000 [2, 2, 0, 0, 0, 0]) (rev filters) = Some V_KILL
     \<and> stack_verdict (\<lambda>f. verdict_from_arch f 0x40000000 3) (rev filters) = Some V_KILL"
proof -
  obtain filters where made: "installed_filters plain_compile (\<lambda>_. ''refused'') number web_only = Inr filters"
    using filters_made by (cases "installed_filters plain_compile (\<lambda>_. ''refused'') number web_only") auto
  have sys: "\<forall>call. 0 \<le> number call \<and> number call < 2 ^ 30"
    using number_range by blast
  have denied: "call_denied web_only SYS_socket [2, 2, 0, 0, 0, 0]"
    by (simp add: web_only_def default_policy_def confine_to_tcp_def tcp_over_ip_def)
  have "(0x40000000 :: int) \<notin> range number"
  proof
    assume "(0x40000000 :: int) \<in> range number"
    then obtain call where "number call = 0x40000000" by auto
    with number_range[of call] show False by simp
  qed
  moreover have "x32_number (of_int 0x40000000)"
    by (simp add: x32_number_def bit_word_of_int_iff bit_numeral_rec)
  ultimately show ?thesis
    using filters_verdict[OF number_inj sys plain_compile_sound made, where args = "[2, 2, 0, 0, 0, 0]"
          and call = SYS_socket and nr = "0x40000000" and arch = 3]
      denied made by (simp add: AUDIT_ARCH_def del: verdicts)
qed

end
