(* ===== verification/Resolver.thy ===== *)
theory Resolver
  imports Policy
begin

text \<open>
  What a bounded resolver is on disk (\<open>resolver.rs\<close>) and how it is put in place
  (\<open>helper_resolver.rs\<close>): the lookups of the allowlisted names, the three bodies rendered from
  them, and the ordered mount sequence. Lookups, the clock, the filesystem and \<open>mount(2)\<close> are the
  fields of \<open>resolve_os\<close>; a nix errno is its number.
\<close>

type_synonym errno = nat

abbreviation EPERM :: errno where "EPERM \<equiv> 1"
abbreviation EINTR :: errno where "EINTR \<equiv> 4"
abbreviation EACCES :: errno where "EACCES \<equiv> 13"

datatype ip_addr = IpV4 u8 u8 u8 u8 | IpV6 u16 "u16 list"

text \<open>\<open>Ipv6Addr::is_unicast_link_local\<close>: the first segment under \<open>fe80::/10\<close>.\<close>

definition link_local :: "ip_addr \<Rightarrow> bool" where
  "link_local a = (case a of IpV4 _ _ _ _ \<Rightarrow> False | IpV6 s _ \<Rightarrow> and s 0xFFC0 = 0xFE80)"

datatype ms_flag = MS_REC | MS_PRIVATE | MS_BIND | MS_REMOUNT | MS_RDONLY | MS_NOSUID | MS_NODEV

text \<open>
  \<open>rs_addrs\<close> is \<open>to_socket_addrs\<close>, \<open>rs_lstat\<close> whether the name itself is a link, \<open>rs_create_new\<close> an
  exclusive open and \<open>rs_mount\<close> the call with its source, target, type, flags and data.
\<close>

record ('w, 'fd) resolve_os =
  rs_addrs :: "string \<Rightarrow> ('w, io_error, ip_addr list) io"
  rs_ip_text :: "ip_addr \<Rightarrow> string"
  rs_pause :: "nat \<Rightarrow> 'w \<Rightarrow> 'w"
  rs_read :: "string \<Rightarrow> ('w, io_error, string) io"
  rs_temp_dir :: "'w \<Rightarrow> string \<times> 'w"
  rs_pid :: "nat"
  rs_clock :: "'w \<Rightarrow> nat option \<times> 'w"
  rs_create_dir :: "string \<Rightarrow> nat \<Rightarrow> ('w, io_error, unit) io"
  rs_remove_dir :: "string \<Rightarrow> 'w \<Rightarrow> 'w"
  rs_lstat :: "string \<Rightarrow> ('w, io_error, bool) io"
  rs_exists :: "string \<Rightarrow> 'w \<Rightarrow> bool \<times> 'w"
  rs_create_new :: "string \<Rightarrow> nat \<Rightarrow> ('w, io_error, 'fd) io"
  rs_write_all :: "'fd \<Rightarrow> string \<Rightarrow> ('w, io_error, unit) io"
  rs_mount :: "string option \<Rightarrow> string \<Rightarrow> string option \<Rightarrow> ms_flag list \<Rightarrow> string option \<Rightarrow> ('w, errno, unit) io"
  rs_detach :: "string \<Rightarrow> 'w \<Rightarrow> 'w"

section \<open>The bodies\<close>

definition LOOPBACK :: string where
  "LOOPBACK = ''127.0.0.1'' @ [tab] @ ''localhost'' @ [nl]
     @ ''::1'' @ [tab] @ ''localhost ip6-localhost ip6-loopback'' @ [nl]"

definition BOUNDED_SOURCES :: string where
  "BOUNDED_SOURCES =
     ''# sandbx: `hosts` and `networks` read files alone, so /etc/hosts is the whole of resolution.'' @ [nl]
     @ ''hosts: files'' @ [nl] @ ''networks: files'' @ [nl]"

definition RESOLV_BODY :: string where
  "RESOLV_BODY =
     ''# sandbx: no nameserver. glibc has no `dns` source to use one (see /etc/nsswitch.conf); musl'' @ [nl]
     @ ''# ignores nsswitch.conf and falls back to 127.0.0.1:53, which a port allowlist denies at the'' @ [nl]
     @ ''# socket, UDP included.'' @ [nl]
     @ ''options attempts:1 timeout:1'' @ [nl]"

definition HOSTS_HEADER :: string where
  "HOSTS_HEADER =
     ''# sandbx: the names --allow-dns granted, and nothing else resolves at all.'' @ [nl]"

record lookup =
  lk_name :: string
  lk_addresses :: "ip_addr list"

record resolver_file =
  rf_target :: string
  rf_body :: string
  rf_required :: bool

record resolved =
  rv_files :: "resolver_file list"
  rv_unresolved :: nat

text \<open>\<open>str::trim\<close>: \<open>trim_end\<close> stops before the first suffix that is white space alone.\<close>

fun trim_end :: "string \<Rightarrow> string" where
  "trim_end [] = []"
| "trim_end (c # s) = (if blank (c # s) then [] else c # trim_end s)"

definition trim_text :: "string \<Rightarrow> string" where
  "trim_text s = trim_end (trim_start s)"

definition database :: "string \<Rightarrow> string option" where
  "database line =
     (case split_once CHR '':'' line of
        None \<Rightarrow> None
      | Some (db, _) \<Rightarrow>
          (let db = trim_text db in if db \<noteq> [] \<and> hd db \<noteq> CHR ''#'' then Some db else None))"

definition bounded_database :: "string \<Rightarrow> bool" where
  "bounded_database line = (database line \<in> {Some ''hosts'', Some ''networks''})"

definition nsswitch_body :: "string \<Rightarrow> string" where
  "nsswitch_body host =
     BOUNDED_SOURCES @ concat (map (\<lambda>line. line @ [nl]) (filter (\<lambda>line. \<not> bounded_database line) (rust_lines host)))"

definition hosts_lines :: "(ip_addr \<Rightarrow> string) \<Rightarrow> lookup \<Rightarrow> string" where
  "hosts_lines ip_text l = concat (map (\<lambda>a. ip_text a @ [tab] @ lk_name l @ [nl]) (lk_addresses l))"

definition hosts_body :: "(ip_addr \<Rightarrow> string) \<Rightarrow> lookup list \<Rightarrow> string" where
  "hosts_body ip_text found = HOSTS_HEADER @ LOOPBACK @ concat (map (hosts_lines ip_text) found)"

section \<open>The lookups\<close>

fun kept_addresses :: "ip_addr list \<Rightarrow> ip_addr list \<Rightarrow> ip_addr list" where
  "kept_addresses found [] = found"
| "kept_addresses found (a # as) =
     kept_addresses (if \<not> link_local a \<and> a \<notin> set found then found @ [a] else found) as"

definition addresses :: "('w, 'fd) resolve_os \<Rightarrow> string \<Rightarrow> 'w \<Rightarrow> ip_addr list \<times> 'w" where
  "addresses os n =
     st_bind (rs_addrs os n) (\<lambda>r. st_ret (case r of Inl _ \<Rightarrow> [] | Inr as \<Rightarrow> kept_addresses [] as))"

definition REWRITE_PAUSE :: nat where "REWRITE_PAUSE = 100000000"

fun look_up :: "(string \<Rightarrow> 'w \<Rightarrow> ip_addr list \<times> 'w) \<Rightarrow> string list \<Rightarrow> 'w \<Rightarrow> lookup list \<times> 'w" where
  "look_up f [] = st_ret []"
| "look_up f (n # ns) =
     st_bind (f n) (\<lambda>as. st_bind (look_up f ns) (\<lambda>later.
       st_ret (\<lparr>lk_name = n, lk_addresses = as\<rparr> # later)))"

fun look_again :: "(string \<Rightarrow> 'w \<Rightarrow> ip_addr list \<times> 'w) \<Rightarrow> lookup list \<Rightarrow> 'w \<Rightarrow> lookup list \<times> 'w" where
  "look_again f [] = st_ret []"
| "look_again f (l # ls) =
     (if lk_addresses l \<noteq> [] then st_bind (look_again f ls) (\<lambda>later. st_ret (l # later))
      else st_bind (f (lk_name l)) (\<lambda>as. st_bind (look_again f ls) (\<lambda>later.
        st_ret (l\<lparr>lk_addresses := as\<rparr> # later))))"

definition retried_once ::
  "string list \<Rightarrow> (string \<Rightarrow> 'w \<Rightarrow> ip_addr list \<times> 'w) \<Rightarrow> ('w \<Rightarrow> 'w) \<Rightarrow> 'w \<Rightarrow> lookup list \<times> 'w" where
  "retried_once names f pause =
     st_bind (look_up f names) (\<lambda>found.
       if list_ex (\<lambda>l. lk_addresses l = []) found
       then st_bind (st_do pause) (\<lambda>_. look_again f found)
       else st_ret found)"

definition resolver_files :: "('w, 'fd) resolve_os \<Rightarrow> sandbox_policy \<Rightarrow> 'w \<Rightarrow> resolved option \<times> 'w" where
  "resolver_files os p =
     (if \<not> bounds_resolution p then st_ret None
      else st_bind (retried_once (sp_dns_names p) (addresses os) (rs_pause os REWRITE_PAUSE)) (\<lambda>found.
        st_bind (rs_read os NSSWITCH) (\<lambda>host.
          st_ret (Some \<lparr>
            rv_files =
              [\<lparr>rf_target = HOSTS, rf_body = hosts_body (rs_ip_text os) found, rf_required = True\<rparr>,
               \<lparr>rf_target = NSSWITCH,
                rf_body = nsswitch_body (case host of Inl _ \<Rightarrow> [] | Inr s \<Rightarrow> s), rf_required = True\<rparr>,
               \<lparr>rf_target = RESOLV_CONF, rf_body = RESOLV_BODY, rf_required = False\<rparr>],
            rv_unresolved = length (filter (\<lambda>l. lk_addresses l = []) found)\<rparr>))))"

section \<open>Putting them in place (helper_resolver.rs)\<close>

definition SOURCE_DIR_MODE :: nat where "SOURCE_DIR_MODE = 448"
definition SOURCE_FILE_MODE :: nat where "SOURCE_FILE_MODE = 384"

definition detach_refused :: "errno \<Rightarrow> string" where
  "detach_refused e =
     (if e = EACCES then
        ''a host policy denies CAP_SYS_ADMIN inside an unprivileged user namespace, so resolution cannot be bounded; refusing rather than resolving every name''
      else if e = EPERM then
        ''the kernel refused to detach mount propagation, so resolution cannot be bounded; refusing rather than resolving every name''
      else ''could not detach mount propagation from the host'')"

definition detach_mount_propagation :: "('w, 'fd) resolve_os \<Rightarrow> ('w, sandbox_error, unit) io" where
  "detach_mount_propagation os =
     io_map_err (\<lambda>e. NamespaceSetupFailed (detach_refused e))
       (rs_mount os None ''/'' None [MS_REC, MS_PRIVATE] None)"

definition absent_why :: "string \<Rightarrow> string" where
  "absent_why target =
     (if target = HOSTS then
        ''this host has no /etc/hosts, and that file is the whole of a bounded resolver, so --allow-dns cannot be honoured here''
      else
        ''this host has no /etc/nsswitch.conf, so glibc would keep its built-in dns source and resolve a name --allow-dns never listed; an empty file at that path is enough, and is what a musl-only image is missing'')"

definition symlinked_why :: "string \<Rightarrow> string" where
  "symlinked_why target =
     (if target = HOSTS then
        ''/etc/hosts is a symlink on this host, so replacing it would leave the link itself writable under a write grant on /etc '' @ map char_of [0xE2, 0x80, 0x94 :: nat] @ '' refusing rather than claiming a bound the command could undo''
      else
        ''/etc/nsswitch.conf is a symlink on this host, so replacing it would leave the link itself writable under a write grant on /etc, and a restored dns source resolves every name'')"

definition mount_why :: "string \<Rightarrow> string" where
  "mount_why target =
     (if target = HOSTS then ''could not replace /etc/hosts with the resolved names''
      else if target = NSSWITCH then
        ''could not replace /etc/nsswitch.conf, which is what leaves glibc no dns source to resolve an unlisted name by''
      else ''could not replace /etc/resolv.conf'')"

definition write_body :: "('w, 'fd) resolve_os \<Rightarrow> string \<Rightarrow> string \<Rightarrow> ('w, sandbox_error, unit) io" where
  "write_body os path body =
     io_map_err (\<lambda>_. NamespaceSetupFailed ''could not write the files that bound resolution'')
       (io_bind (rs_create_new os path SOURCE_FILE_MODE) (\<lambda>fd. rs_write_all os fd body))"

definition absent_target :: "resolver_file \<Rightarrow> ('w, sandbox_error, unit) io" where
  "absent_target f =
     (if rf_required f then io_fail (NamespaceSetupFailed (absent_why (rf_target f))) else io_ret ())"

definition replace_file :: "('w, 'fd) resolve_os \<Rightarrow> string \<Rightarrow> resolver_file \<Rightarrow> ('w, sandbox_error, unit) io" where
  "replace_file os written f =
     (let failed = io_map_err (\<lambda>_. NamespaceSetupFailed (mount_why (rf_target f)))
      in io_bind (write_body os written (rf_body f)) (\<lambda>_.
         io_bind (failed (rs_mount os (Some written) (rf_target f) None [MS_BIND] None)) (\<lambda>_.
         failed (rs_mount os None (rf_target f) None [MS_BIND, MS_REMOUNT, MS_RDONLY] None))))"

text \<open>The three targets name a file, so \<open>file_name\<close> of a target is its last segment.\<close>

definition install_file :: "('w, 'fd) resolve_os \<Rightarrow> string \<Rightarrow> resolver_file \<Rightarrow> ('w, sandbox_error, unit) io" where
  "install_file os source f =
     (let written = path_join source (rev (takeWhile (\<lambda>c. c \<noteq> CHR ''/'') (rev (rf_target f))))
      in st_bind (rs_lstat os (rf_target f)) (\<lambda>target.
        case target of
          Inl _ \<Rightarrow> absent_target f
        | Inr link \<Rightarrow>
            st_bind (if link then rs_exists os (rf_target f) else st_ret True) (\<lambda>there.
              if \<not> there then absent_target f
              else if link \<and> rf_required f
              then io_fail (NamespaceSetupFailed (symlinked_why (rf_target f)))
              else replace_file os written f)))"

definition source_path :: "('w, 'fd) resolve_os \<Rightarrow> string \<Rightarrow> nat option \<Rightarrow> string" where
  "source_path os tmp now =
     path_join tmp (''sandbx-resolver-'' @ dec_nat (rs_pid os) @ ''-''
       @ dec_nat (case now of None \<Rightarrow> 0 | Some nanos \<Rightarrow> nanos mod 1000000000))"

definition source_dir :: "('w, 'fd) resolve_os \<Rightarrow> ('w, sandbox_error, string) io" where
  "source_dir os =
     st_bind (rs_temp_dir os) (\<lambda>tmp. st_bind (rs_clock os) (\<lambda>now.
       let path = source_path os tmp now
       in io_bind (io_map_err (\<lambda>_. NamespaceSetupFailed
                     ''could not create a directory to write the files that bound resolution'')
                   (rs_create_dir os path SOURCE_DIR_MODE)) (\<lambda>_.
          st_bind (rs_mount os (Some ''tmpfs'') path (Some ''tmpfs'') [MS_NOSUID, MS_NODEV] (Some ''mode=700''))
            (\<lambda>mounted.
               case mounted of
                 Inr _ \<Rightarrow> io_ret path
               | Inl _ \<Rightarrow> st_bind (st_do (rs_remove_dir os path)) (\<lambda>_. io_fail (NamespaceSetupFailed
                     ''could not mount a tmpfs to write the files that bound resolution into''))))))"

definition remove_source :: "('w, 'fd) resolve_os \<Rightarrow> string \<Rightarrow> 'w \<Rightarrow> unit \<times> 'w" where
  "remove_source os source =
     st_bind (st_do (rs_detach os source)) (\<lambda>_. st_do (rs_remove_dir os source))"

fun install_files :: "('w, 'fd) resolve_os \<Rightarrow> string \<Rightarrow> resolver_file list \<Rightarrow> ('w, sandbox_error, unit) io" where
  "install_files os source [] = io_ret ()"
| "install_files os source (f # fs) = io_bind (install_file os source f) (\<lambda>_. install_files os source fs)"

definition bound_resolution ::
  "('w, 'fd) resolve_os \<Rightarrow> resolver_file list option \<Rightarrow> ('w, sandbox_error, unit) io" where
  "bound_resolution os files =
     (case files of
        None \<Rightarrow> io_ret ()
      | Some files \<Rightarrow>
          io_bind (detach_mount_propagation os) (\<lambda>_.
          io_bind (source_dir os) (\<lambda>source.
          st_bind (install_files os source files) (\<lambda>installed.
          st_bind (remove_source os source) (\<lambda>_. st_ret installed)))))"

end
