(* ===== verification/Tools.thy ===== *)
theory Tools
  imports Channel "HOL-Library.List_Lexorder" "HOL-Library.Char_ord"
begin

text \<open>
  The built-in tools (\<open>sandbx-tools\<close>): the closed set and its names, what each returns to the
  model and within which limits, and the seven executors. Everything a tool reaches outside
  itself is a field of \<open>tool_os\<close>: the guard's vetted handles, the handles' own operations, the
  sandboxed shell, and how a path, an I/O error or a refusal is displayed. Arguments arrive as a
  JSON value that \<open>serde\<close> parses, so the parsers are a record too.
\<close>

section \<open>White space at the end\<close>

definition ws_suffix :: "string \<Rightarrow> nat" where
  "ws_suffix s =
     (let n = length s
      in if 1 \<le> n \<and> ws_width (drop (n - 1) s) = 1 then 1
         else if 2 \<le> n \<and> ws_width (drop (n - 2) s) = 2 then 2
         else if 3 \<le> n \<and> ws_width (drop (n - 3) s) = 3 then 3 else 0)"

function trim_end :: "string \<Rightarrow> string" where
  "trim_end s = (if ws_suffix s = 0 then s else trim_end (take (length s - ws_suffix s) s))"
  by pat_completeness auto
termination
  by (relation "measure length") (auto simp: ws_suffix_def Let_def split: if_splits)

declare trim_end.simps [simp del]

definition trim :: "string \<Rightarrow> string" where
  "trim s = trim_end (trim_start s)"

section \<open>The closed set (builtin_tool.rs)\<close>

datatype builtin_tool = ToolRead | ToolWrite | ToolBash | ToolEdit | ToolLs | ToolGrep | ToolFind

datatype risk_level = ReadOnly | Writes | Executes

instantiation risk_level :: linorder
begin

fun risk_rank :: "risk_level \<Rightarrow> nat" where
  "risk_rank ReadOnly = 0"
| "risk_rank Writes = 1"
| "risk_rank Executes = 2"

definition less_eq_risk_level :: "risk_level \<Rightarrow> risk_level \<Rightarrow> bool" where
  "less_eq_risk_level a b = (risk_rank a \<le> risk_rank b)"

definition less_risk_level :: "risk_level \<Rightarrow> risk_level \<Rightarrow> bool" where
  "less_risk_level a b = (risk_rank a < risk_rank b)"

instance
proof
  fix a b c :: risk_level
  show "(a < b) = (a \<le> b \<and> \<not> b \<le> a)" by (auto simp: less_eq_risk_level_def less_risk_level_def)
  show "a \<le> a" by (simp add: less_eq_risk_level_def)
  show "a \<le> b \<Longrightarrow> b \<le> c \<Longrightarrow> a \<le> c" by (simp add: less_eq_risk_level_def)
  show "a \<le> b \<Longrightarrow> b \<le> a \<Longrightarrow> a = b" by (cases a; cases b) (simp_all add: less_eq_risk_level_def)
  show "a \<le> b \<or> b \<le> a" by (auto simp: less_eq_risk_level_def)
qed

end

definition all_tools :: "builtin_tool list" where
  "all_tools = [ToolRead, ToolWrite, ToolBash, ToolEdit, ToolLs, ToolGrep, ToolFind]"

record tool_spec =
  ts_name :: string
  ts_description :: string
  ts_risk :: risk_level

fun spec :: "builtin_tool \<Rightarrow> tool_spec" where
  "spec ToolRead = \<lparr>ts_name = ''read'',
     ts_description = ''Read a file's contents. Takes an absolute path.'', ts_risk = ReadOnly\<rparr>"
| "spec ToolWrite = \<lparr>ts_name = ''write'',
     ts_description = ''Write a file, creating it or replacing its contents entirely. Takes an absolute path.'',
     ts_risk = Writes\<rparr>"
| "spec ToolBash = \<lparr>ts_name = ''bash'',
     ts_description = ''Run a shell command. Use it for what the other tools do not cover; prefer a dedicated tool wherever one fits.'',
     ts_risk = Executes\<rparr>"
| "spec ToolEdit = \<lparr>ts_name = ''edit'',
     ts_description = ''Replace one exact occurrence of a string in a file. The text must appear exactly once '' @
       map char_of [0xE2, 0x80, 0x94 :: nat] @ '' an absent or ambiguous match is an error, not a guess.'',
     ts_risk = Writes\<rparr>"
| "spec ToolLs = \<lparr>ts_name = ''ls'',
     ts_description = ''List a directory's entries. Directories are marked with a trailing slash.'', ts_risk = ReadOnly\<rparr>"
| "spec ToolGrep = \<lparr>ts_name = ''grep'',
     ts_description = ''Search file contents beneath a directory for a literal string. Not a regular expression.'',
     ts_risk = ReadOnly\<rparr>"
| "spec ToolFind = \<lparr>ts_name = ''find'',
     ts_description = ''Find files beneath a directory whose name contains a substring.'', ts_risk = ReadOnly\<rparr>"

definition tool_name :: "builtin_tool \<Rightarrow> string" where
  "tool_name t = ts_name (spec t)"

definition tool_description :: "builtin_tool \<Rightarrow> string" where
  "tool_description t = ts_description (spec t)"

definition tool_risk :: "builtin_tool \<Rightarrow> risk_level" where
  "tool_risk t = ts_risk (spec t)"

definition from_name :: "string \<Rightarrow> builtin_tool option" where
  "from_name name = from_label_in all_tools tool_name name"

interpretation tools: closed_labels all_tools tool_name
proof
  show "t \<in> set all_tools" for t by (cases t) (simp_all add: all_tools_def)
  show "distinct (map tool_name all_tools)" by (simp add: all_tools_def tool_name_def)
qed

section \<open>What a tool returns\<close>

definition EMPTY_OUTPUT :: string where "EMPTY_OUTPUT = ''(no output)''"

datatype tool_output = ToolOutput (output_content: string)

definition new_output :: "string \<Rightarrow> tool_output" where
  "new_output content = ToolOutput (if blank content then EMPTY_OUTPUT else content)"

datatype tool_error =
    Denied string string
  | BadInput string
  | ToolFailed string string
  | TimedOut string nat

text \<open>\<open>Display\<close>; how a duration prints is an argument.\<close>

fun tool_error_text :: "(nat \<Rightarrow> string) \<Rightarrow> tool_error \<Rightarrow> string" where
  "tool_error_text dur (Denied subject reason) =
     ''refused by the sandbox policy: '' @ subject @ '' ('' @ reason @ '')''"
| "tool_error_text dur (BadInput detail) = ''invalid tool arguments: '' @ detail"
| "tool_error_text dur (ToolFailed subject detail) = subject @ '' failed: '' @ detail"
| "tool_error_text dur (TimedOut subject after) =
     subject @ '' timed out after '' @ dur after @ '' and was killed''"

section \<open>Limits (tool_limits.rs)\<close>

record tool_limits =
  tl_max_entries :: nat
  tl_max_bytes :: nat
  tl_max_files_scanned :: nat
  tl_max_bytes_scanned :: nat

definition default_limits :: tool_limits where
  "default_limits = \<lparr>tl_max_entries = 200, tl_max_bytes = 256 * 1024, tl_max_files_scanned = 10000,
     tl_max_bytes_scanned = 64 * 1024 * 1024\<rparr>"

definition cap_entries :: "tool_limits \<Rightarrow> string list \<Rightarrow> string list" where
  "cap_entries l lines =
     (let total = length lines
      in if total > tl_max_entries l
         then take (tl_max_entries l) lines
           @ [''... truncated: showing '' @ dec_nat (tl_max_entries l) @ '' of '' @ dec_nat total @ '' results'']
         else lines)"

definition is_char_boundary :: "string \<Rightarrow> nat \<Rightarrow> bool" where
  "is_char_boundary s i =
     (i = 0 \<or> i = length s \<or> i < length s \<and> \<not> continues (s ! i))"

fun boundary_below :: "string \<Rightarrow> nat \<Rightarrow> nat" where
  "boundary_below s 0 = 0"
| "boundary_below s (Suc n) = (if is_char_boundary s (Suc n) then Suc n else boundary_below s n)"

definition cap_bytes :: "tool_limits \<Rightarrow> string \<Rightarrow> string" where
  "cap_bytes l content =
     (if length content > tl_max_bytes l
      then let end' = boundary_below content (tl_max_bytes l)
           in take end' content @ nl # ''... truncated: showing '' @ dec_nat end' @ '' of ''
                @ dec_nat (length content) @ '' bytes''
      else content)"

section \<open>What a tool reaches (shared.rs)\<close>

record readable_walk =
  rw_files :: "string list"
  rw_truncated :: bool

record dir_entry =
  de_name :: string
  de_directory :: bool

datatype exit_status = ExitCode nat | Signalled

record command_output =
  co_status :: exit_status
  co_stdout :: string
  co_stderr :: string

record ('w, 'h) tool_os =
  to_open_read :: "string \<Rightarrow> ('w, sandbox_error, 'h) io"
  to_open_write :: "string \<Rightarrow> ('w, sandbox_error, 'h) io"
  to_walk_readable :: "string \<Rightarrow> nat \<Rightarrow> ('w, sandbox_error, readable_walk) io"
  to_read_dir :: "string \<Rightarrow> ('w, sandbox_error, io_error + dir_entry list) io"
  to_len :: "'h \<Rightarrow> ('w, io_error, nat) io"
  to_read_to_string :: "'h \<Rightarrow> ('w, io_error, string) io"
  to_write_all :: "'h \<Rightarrow> string \<Rightarrow> ('w, io_error, unit) io"
  to_shell :: "string \<Rightarrow> ('w, sandbox_error, command_output) io"
  to_lossy :: "string \<Rightarrow> string"
  to_io_text :: "io_error \<Rightarrow> string"
  to_error_text :: "sandbox_error \<Rightarrow> string"

definition guard_error :: "('w, 'h) tool_os \<Rightarrow> string \<Rightarrow> sandbox_error \<Rightarrow> tool_error" where
  "guard_error os path e =
     (let subject = to_lossy os path
      in case e of
           PathNotFound _ _ \<Rightarrow> ToolFailed subject (to_error_text os e)
         | RootReplaced granted _ _ \<Rightarrow>
             Denied subject (''granted root '' @ to_lossy os granted
               @ '' is no longer the directory the policy judged'')
         | _ \<Rightarrow> Denied subject (to_error_text os e))"

definition failed :: "('w, 'h) tool_os \<Rightarrow> string \<Rightarrow> string \<Rightarrow> string \<Rightarrow> tool_error" where
  "failed os verb path detail = ToolFailed (verb @ '' '' @ to_lossy os path) detail"

definition slurp :: "('w, 'h) tool_os \<Rightarrow> 'h \<Rightarrow> string \<Rightarrow> ('w, tool_error, string) io" where
  "slurp os file path =
     io_map_err (\<lambda>e. failed os ''read'' path (to_io_text os e)) (to_read_to_string os file)"

definition read_file :: "('w, 'h) tool_os \<Rightarrow> string \<Rightarrow> ('w, tool_error, string) io" where
  "read_file os path =
     io_bind (io_map_err (guard_error os path) (to_open_read os path)) (\<lambda>file. slurp os file path)"

definition read_capped :: "('w, 'h) tool_os \<Rightarrow> string \<Rightarrow> nat \<Rightarrow> 'w \<Rightarrow> string option \<times> 'w" where
  "read_capped os path maximum w =
     (case to_open_read os path w of
        (Inl _, w1) \<Rightarrow> (None, w1)
      | (Inr file, w1) \<Rightarrow>
          (case to_len os file w1 of
             (Inl _, w2) \<Rightarrow> (None, w2)
           | (Inr len, w2) \<Rightarrow>
               if len > maximum then (None, w2)
               else (case slurp os file path w2 of
                   (Inl _, w3) \<Rightarrow> (None, w3)
                 | (Inr content, w3) \<Rightarrow> (Some content, w3))))"

datatype scan = Complete | StoppedEarly

definition scan_of :: "readable_walk \<Rightarrow> scan" where
  "scan_of walk = (if rw_truncated walk then StoppedEarly else Complete)"

definition PARTIAL_SEARCH :: string where
  "PARTIAL_SEARCH = ''... stopped early: results are incomplete''"

definition listing :: "tool_limits \<Rightarrow> string list \<Rightarrow> scan \<Rightarrow> tool_output" where
  "listing l lines sc =
     (if lines = [] \<and> sc = Complete then new_output ''no matches''
      else (let rendered = cap_entries l lines;
                rendered = (if sc = StoppedEarly then rendered @ [PARTIAL_SEARCH] else rendered)
            in new_output (join_with [nl] rendered)))"

section \<open>Searching a string\<close>

text \<open>\<open>str::contains\<close>, \<open>str::matches(..).count()\<close> and \<open>str::replace\<close>. An empty pattern matches at
  every character boundary, the end included.\<close>

fun contains :: "string \<Rightarrow> string \<Rightarrow> bool" where
  "contains pat [] = (pat = [])"
| "contains pat (c # s) = (strip_prefix pat (c # s) \<noteq> None \<or> contains pat s)"

function count_matches :: "string \<Rightarrow> string \<Rightarrow> nat" where
  "count_matches pat s =
     (if pat = [] then Suc (length (filter (\<lambda>c. \<not> continues c) s))
      else (case s of
          [] \<Rightarrow> 0
        | c # cs \<Rightarrow> (case strip_prefix pat s of
              Some rest \<Rightarrow> Suc (count_matches pat rest)
            | None \<Rightarrow> count_matches pat cs)))"
  by pat_completeness auto
termination
  by (relation "measure (\<lambda>(_, s). length s)") (auto simp: strip_prefix_Some_iff)

declare count_matches.simps [simp del]

fun replace_empty :: "string \<Rightarrow> string \<Rightarrow> string" where
  "replace_empty new [] = new"
| "replace_empty new (c # s) = (if continues c then [] else new) @ c # replace_empty new s"

function replace_all :: "string \<Rightarrow> string \<Rightarrow> string \<Rightarrow> string" where
  "replace_all old new s =
     (if old = [] then replace_empty new s
      else (case s of
          [] \<Rightarrow> []
        | c # cs \<Rightarrow> (case strip_prefix old s of
              Some rest \<Rightarrow> new @ replace_all old new rest
            | None \<Rightarrow> c # replace_all old new cs)))"
  by pat_completeness auto
termination
  by (relation "measure (\<lambda>(_, _, s). length s)") (auto simp: strip_prefix_Some_iff)

declare replace_all.simps [simp del]

text \<open>\<open>Path::file_name\<close>: the last component, unless that is the root, a dot or a double dot.\<close>

function path_segments :: "string \<Rightarrow> string list" where
  "path_segments s =
     (case split_once (CHR ''/'') s of None \<Rightarrow> [s] | Some (a, b) \<Rightarrow> a # path_segments b)"
  by pat_completeness auto
termination
  by (relation "measure length") (auto dest: split_once_length)

declare path_segments.simps [simp del]

definition file_name :: "string \<Rightarrow> string option" where
  "file_name p =
     (case last_opt (filter (\<lambda>c. c \<noteq> [] \<and> c \<noteq> ''.'') (path_segments p)) of
        None \<Rightarrow> None
      | Some c \<Rightarrow> if c = ''..'' then None else Some c)"

section \<open>The executors (tools_*.rs)\<close>

record edit_input =
  ei_path :: string
  ei_old :: string
  ei_new :: string

record write_input =
  wi_path :: string
  wi_content :: string

record grep_input =
  gi_path :: string
  gi_pattern :: string

record find_input =
  fi_path :: string
  fi_name :: string

text \<open>What \<open>serde_json::from_value\<close> makes of a tool's arguments, or its complaint.\<close>

record 'v tool_parsers =
  tp_read :: "'v \<Rightarrow> string + string"
  tp_write :: "'v \<Rightarrow> string + write_input"
  tp_bash :: "'v \<Rightarrow> string + string"
  tp_edit :: "'v \<Rightarrow> string + edit_input"
  tp_ls :: "'v \<Rightarrow> string + string"
  tp_grep :: "'v \<Rightarrow> string + grep_input"
  tp_find :: "'v \<Rightarrow> string + find_input"

definition parse_input :: "('v \<Rightarrow> string + 'a) \<Rightarrow> 'v \<Rightarrow> ('w, tool_error, 'a) io" where
  "parse_input parse input = io_map_err BadInput (io_of_sum (parse input))"

definition execute_read :: "('w, 'h) tool_os \<Rightarrow> tool_limits \<Rightarrow> string \<Rightarrow> ('w, tool_error, tool_output) io" where
  "execute_read os l path =
     io_bind (read_file os path) (\<lambda>content. io_ret (new_output (cap_bytes l content)))"

definition execute_write :: "('w, 'h) tool_os \<Rightarrow> write_input \<Rightarrow> ('w, tool_error, tool_output) io" where
  "execute_write os input =
     io_bind (io_map_err (guard_error os (wi_path input)) (to_open_write os (wi_path input))) (\<lambda>file.
     io_bind (io_map_err (\<lambda>e. failed os ''write'' (wi_path input) (to_io_text os e))
               (to_write_all os file (wi_content input))) (\<lambda>_.
       io_ret (new_output (''wrote '' @ dec_nat (length (wi_content input)) @ '' bytes to ''
         @ to_lossy os (wi_path input)))))"

definition execute_edit :: "('w, 'h) tool_os \<Rightarrow> edit_input \<Rightarrow> ('w, tool_error, tool_output) io" where
  "execute_edit os input =
     io_bind (read_file os (ei_path input)) (\<lambda>content.
       let occurrences = count_matches (ei_old input) content in
       if occurrences \<noteq> 1
       then io_fail (failed os ''edit'' (ei_path input)
              (if occurrences = 0 then ''the text to replace does not appear in the file''
               else ''the text to replace appears '' @ dec_nat occurrences @ '' times; it must be unique''))
       else
       io_bind (io_map_err (guard_error os (ei_path input)) (to_open_write os (ei_path input))) (\<lambda>target.
       io_bind (io_map_err (\<lambda>e. failed os ''write'' (ei_path input) (to_io_text os e))
                 (to_write_all os target (replace_all (ei_old input) (ei_new input) content))) (\<lambda>_.
         io_ret (new_output (''edited '' @ to_lossy os (ei_path input))))))"

definition execute_ls :: "('w, 'h) tool_os \<Rightarrow> tool_limits \<Rightarrow> string \<Rightarrow> ('w, tool_error, tool_output) io" where
  "execute_ls os l path =
     io_bind (io_map_err (guard_error os path) (to_read_dir os path)) (\<lambda>entries.
     io_bind (io_map_err (\<lambda>e. failed os ''list'' path (to_io_text os e)) (io_of_sum entries)) (\<lambda>entries.
       io_ret (listing l (sort (map (\<lambda>entry.
         to_lossy os (de_name entry) @ (if de_directory entry then ''/'' else [])) entries)) Complete)))"

definition MAX_FILE_BYTES :: nat where "MAX_FILE_BYTES = 2 * 1024 * 1024"

definition grep_hits :: "('w, 'h) tool_os \<Rightarrow> string \<Rightarrow> string \<Rightarrow> string \<Rightarrow> string list" where
  "grep_hits os pattern file content =
     map (\<lambda>(number, line). to_lossy os file @ '':'' @ dec_nat (number + 1) @ '': '' @ trim line)
       (filter (\<lambda>(_, line). contains pattern line) (enumerate 0 (rust_lines content)))"

text \<open>The loop over the walked files: bytes scanned, whether anything was left out, the hits.\<close>

fun grep_loop ::
  "('w, 'h) tool_os \<Rightarrow> tool_limits \<Rightarrow> string \<Rightarrow> string list \<Rightarrow> nat \<Rightarrow> scan \<Rightarrow> string list \<Rightarrow> 'w
     \<Rightarrow> (string list \<times> scan \<times> nat) \<times> 'w" where
  "grep_loop os l pattern [] scanned sc hits w = ((hits, sc, scanned), w)"
| "grep_loop os l pattern (file # files) scanned sc hits w =
     (if scanned \<ge> tl_max_bytes_scanned l then ((hits, StoppedEarly, scanned), w)
      else (case read_capped os file MAX_FILE_BYTES w of
          (None, w') \<Rightarrow> grep_loop os l pattern files scanned StoppedEarly hits w'
        | (Some content, w') \<Rightarrow>
            grep_loop os l pattern files (scanned + length content) sc
              (hits @ grep_hits os pattern file content) w'))"

definition execute_grep :: "('w, 'h) tool_os \<Rightarrow> tool_limits \<Rightarrow> grep_input \<Rightarrow> ('w, tool_error, tool_output) io" where
  "execute_grep os l input =
     io_bind (io_map_err (guard_error os (gi_path input))
               (to_walk_readable os (gi_path input) (tl_max_files_scanned l))) (\<lambda>walk.
       (\<lambda>w. case grep_loop os l (gi_pattern input) (rw_files walk) 0 (scan_of walk) [] w of
             ((hits, sc, _), w') \<Rightarrow> (Inr (listing l hits sc), w')))"

definition execute_find :: "('w, 'h) tool_os \<Rightarrow> tool_limits \<Rightarrow> find_input \<Rightarrow> ('w, tool_error, tool_output) io" where
  "execute_find os l input =
     io_bind (io_map_err (guard_error os (fi_path input))
               (to_walk_readable os (fi_path input) (tl_max_files_scanned l))) (\<lambda>walk.
       io_ret (listing l
         (map (to_lossy os) (filter (\<lambda>path. case file_name path of
              None \<Rightarrow> False | Some name \<Rightarrow> contains (fi_name input) (to_lossy os name)) (rw_files walk)))
         (scan_of walk)))"

definition combine :: "string \<Rightarrow> string \<Rightarrow> string" where
  "combine stdout stderr =
     (if blank stderr then trim_end stdout
      else if blank stdout then ''stderr: '' @ trim_end stderr
      else trim_end stdout @ nl # ''stderr: '' @ trim_end stderr)"

definition shell_error :: "('w, 'h) tool_os \<Rightarrow> string \<Rightarrow> sandbox_error \<Rightarrow> tool_error" where
  "shell_error os command e =
     (let ran = ''run `'' @ command @ ''`''; applied = ''sandbox `'' @ command @ ''`''
      in case e of
           CommandTimedOut after \<Rightarrow> TimedOut ran after
         | HelperRefused r detail \<Rightarrow>
             (let detail = (if detail = [] then refusal_label r else detail)
              in if r \<in> {HrPinMismatch, HrPinUnreadable, HrPinnedScript, HrGrantRedirected, HrGrantReplaced}
                 then Denied ran detail else ToolFailed applied detail)
         | _ \<Rightarrow> ToolFailed applied (to_error_text os e))"

definition execute_bash :: "('w, 'h) tool_os \<Rightarrow> tool_limits \<Rightarrow> string \<Rightarrow> ('w, tool_error, tool_output) io" where
  "execute_bash os l command =
     io_bind (io_map_err (shell_error os command) (to_shell os command)) (\<lambda>output.
       let stdout = to_lossy os (co_stdout output); stderr = to_lossy os (co_stderr output)
       in if co_status output = ExitCode 0
          then io_ret (new_output (cap_bytes l (combine stdout stderr)))
          else io_fail (ToolFailed (''run `'' @ command @ ''`'')
                 (''exit '' @ (case co_status output of ExitCode c \<Rightarrow> dec_nat c | Signalled \<Rightarrow> ''signal'')
                  @ '': '' @ cap_bytes l (combine stdout stderr))))"

fun execute ::
  "('w, 'h) tool_os \<Rightarrow> 'v tool_parsers \<Rightarrow> tool_limits \<Rightarrow> builtin_tool \<Rightarrow> 'v \<Rightarrow> ('w, tool_error, tool_output) io" where
  "execute os p l ToolRead v = io_bind (parse_input (tp_read p) v) (execute_read os l)"
| "execute os p l ToolWrite v = io_bind (parse_input (tp_write p) v) (execute_write os)"
| "execute os p l ToolBash v = io_bind (parse_input (tp_bash p) v) (execute_bash os l)"
| "execute os p l ToolEdit v = io_bind (parse_input (tp_edit p) v) (execute_edit os)"
| "execute os p l ToolLs v = io_bind (parse_input (tp_ls p) v) (execute_ls os l)"
| "execute os p l ToolGrep v = io_bind (parse_input (tp_grep p) v) (execute_grep os l)"
| "execute os p l ToolFind v = io_bind (parse_input (tp_find p) v) (execute_find os l)"

section \<open>Properties of the tools\<close>

lemma count_zero_replace: "count_matches old s = 0 \<Longrightarrow> replace_all old new s = s"
proof (induction old new s rule: replace_all.induct)
  case (1 old new s)
  then show ?case
    by (subst replace_all.simps)
      (auto simp: count_matches.simps[of old s] split: if_splits list.splits option.splits)
qed

lemma count_one_replace:
  "count_matches old s = 1 \<Longrightarrow> \<exists>a b. s = a @ old @ b \<and> replace_all old new s = a @ new @ b"
proof (induction old new s rule: replace_all.induct)
  case (1 old new s)
  show ?case
  proof (cases "old = []")
    case True
    have "replace_empty new s = s @ new" if "filter (\<lambda>c. \<not> continues c) s = []" for s
      using that by (induction s) (auto split: if_splits)
    with 1(3) True show ?thesis
      by (intro exI[of _ s] exI[of _ "[]"]) (simp add: count_matches.simps[of "[]"] replace_all.simps[of "[]"])
  next
    case False
    with 1(3) obtain c cs where s: "s = c # cs"
      by (cases s) (simp_all add: count_matches.simps)
    show ?thesis
    proof (cases "strip_prefix old s")
      case (Some rest)
      then have "s = old @ rest" by (simp add: strip_prefix_Some_iff)
      moreover from 1(3) False s Some have "count_matches old rest = 0"
        by (simp add: count_matches.simps[of old "c # cs"])
      moreover from this have "replace_all old new s = new @ rest"
        using False s Some count_zero_replace[of old rest new] by (simp add: replace_all.simps[of old new "c # cs"])
      ultimately have "s = [] @ old @ rest \<and> replace_all old new s = [] @ new @ rest"
        using \<open>s = old @ rest\<close> by simp
      then show ?thesis by blast
    next
      case None
      with 1(3) False s have one: "count_matches old cs = 1" by (simp add: count_matches.simps[of old "c # cs"])
      from 1(1)[OF False s _ one] None s obtain a b
        where "cs = a @ old @ b" "replace_all old new cs = a @ new @ b" by blast
      moreover have "replace_all old new s = c # replace_all old new cs"
        using None False s by (simp add: replace_all.simps[of old new "c # cs"])
      ultimately have "s = (c # a) @ old @ b \<and> replace_all old new s = (c # a) @ new @ b"
        using s by simp
      then show ?thesis by blast
    qed
  qed
qed

text \<open>
  An edit that succeeds wrote the file it read with one occurrence of the text replaced and
  everything around it unchanged, through a handle opened for writing only after the read half
  was granted and the match counted; an edit refused for its match opened nothing for writing.
\<close>

lemma edit_replaces_once:
  assumes "execute_edit os input w = (r, w')" "read_file os (ei_path input) w = (Inr content, w1)"
  shows "(count_matches (ei_old input) content \<noteq> 1 \<longrightarrow> isl r \<and> w' = w1)
    \<and> (\<not> isl r \<longrightarrow> (\<exists>a b target w2. content = a @ ei_old input @ b
         \<and> to_open_write os (ei_path input) w1 = (Inr target, w2)
         \<and> to_write_all os target (a @ ei_new input @ b) w2 = (Inr (), w')))"
proof -
  have run: "(let occurrences = count_matches (ei_old input) content in
       if occurrences \<noteq> 1
       then io_fail (failed os ''edit'' (ei_path input)
              (if occurrences = 0 then ''the text to replace does not appear in the file''
               else ''the text to replace appears '' @ dec_nat occurrences @ '' times; it must be unique''))
       else
       io_bind (io_map_err (guard_error os (ei_path input)) (to_open_write os (ei_path input))) (\<lambda>target.
       io_bind (io_map_err (\<lambda>e. failed os ''write'' (ei_path input) (to_io_text os e))
                 (to_write_all os target (replace_all (ei_old input) (ei_new input) content))) (\<lambda>_.
         io_ret (new_output (''edited '' @ to_lossy os (ei_path input)))))) w1 = (r, w')"
    using assms by (simp add: execute_edit_def io_bind_def[of "read_file _ _"])
  show ?thesis
  proof (cases "count_matches (ei_old input) content = 1")
    case True
    obtain a b where ab: "content = a @ ei_old input @ b"
      "replace_all (ei_old input) (ei_new input) content = a @ ei_new input @ b"
      using count_one_replace[OF True] by blast
    show ?thesis using run True ab by (cases r) (auto simp: Let_def)
  next
    case False
    with run show ?thesis by (auto simp: Let_def)
  qed
qed

text \<open>
  \<open>matches\<close> counts occurrences that do not overlap, so a text that appears twice, overlapping
  itself, is counted once and the edit takes the first.
\<close>

lemma edit_accepts_overlap:
  "count_matches ''aba'' ''ababa'' = 1 \<and> replace_all ''aba'' ''x'' ''ababa'' = ''xba''
   \<and> ''ababa'' = [] @ ''aba'' @ ''ba'' \<and> ''ababa'' = ''ab'' @ ''aba'' @ []"
  by (simp add: count_matches.simps replace_all.simps)

lemma EMPTY_OUTPUT_not_blank: "\<not> blank EMPTY_OUTPUT"
  by code_simp

lemma new_output_not_blank [simp]: "\<not> blank (output_content (new_output c))"
  using EMPTY_OUTPUT_not_blank by (simp add: new_output_def)

lemma listing_not_blank [simp]: "\<not> blank (output_content (listing l ls sc))"
  by (simp add: listing_def Let_def)

lemma execute_grep_not_blank: "execute_grep os l input w = (Inr out, w') \<Longrightarrow> \<not> blank (output_content out)"
  by (auto simp: execute_grep_def case_prod_beta)

text \<open>
  No tool hands back an empty result: whatever the file, the directory, the search or the
  command came to, what a successful call returns to the model is not blank.
\<close>

lemma output_never_blank:
  assumes "execute os p l tool input w = (Inr out, w')"
  shows "\<not> blank (output_content out)"
  using assms
  by (cases tool)
    (auto simp: execute_read_def execute_write_def execute_edit_def execute_ls_def
      execute_find_def execute_bash_def Let_def dest: execute_grep_not_blank split: if_splits)

section \<open>Limits hold\<close>

lemma boundary_below_le: "boundary_below s n \<le> n"
  by (induction n) auto

lemma boundary_below_boundary: "is_char_boundary s (boundary_below s n)"
  by (induction n) (auto simp: is_char_boundary_def)

lemma utf8_width_bytes:
  assumes "utf8_width bs = w" "0 < i" "i < w" "w \<le> length bs"
  shows "utf8_cont (bs ! i)"
proof -
  have "w \<le> 4" using assms(1)
    by (auto simp: utf8_width_def split: list.splits if_splits)
  with assms(2,3) have "i = 1 \<or> i = 2 \<or> i = 3" by auto
  with assms show ?thesis
    by (auto simp: utf8_width_def split: list.splits if_splits)
qed

lemma utf8_width_le: "utf8_width bs \<le> length bs \<and> utf8_width bs \<le> 4"
  by (auto simp: utf8_width_def split: list.splits)

lemma utf8_width_take:
  "utf8_width bs = w \<Longrightarrow> 0 < w \<Longrightarrow> w \<le> n \<Longrightarrow> utf8_width (take n bs) = w"
  by (auto simp: utf8_width_def take_Cons split: list.splits if_splits nat.splits)

lemma utf8_width_extend: "utf8_width xs = w \<Longrightarrow> 0 < w \<Longrightarrow> utf8_width (xs @ ys) = w"
  by (auto simp: utf8_width_def split: list.splits if_splits)

lemma utf8_valid_take:
  "utf8_valid s \<Longrightarrow> is_char_boundary s i \<Longrightarrow> i \<le> length s \<Longrightarrow> utf8_valid (take i s)"
proof (induction s arbitrary: i rule: utf8_valid.induct)
  case (1 s)
  define w where "w = utf8_width (map of_char (take 4 s))"
  show ?case
  proof (cases "s = [] \<or> i = 0")
    case False
    with 1(2) have w: "w \<noteq> 0" "utf8_valid (drop w s)"
      by (subst (asm) utf8_valid.simps, simp add: w_def Let_def split: if_splits)+
    have wl: "w \<le> length s" "w \<le> 4"
      using utf8_width_le[of "map of_char (take 4 s)"] by (simp_all add: w_def)
    have "w \<le> i"
    proof (rule ccontr)
      assume "\<not> w \<le> i"
      with False wl have "utf8_cont (map of_char (take 4 s) ! i)"
        by (intro utf8_width_bytes[of _ w]) (auto simp: w_def)
      with \<open>\<not> w \<le> i\<close> wl have "continues (s ! i)" by (simp add: continues_def)
      with 1(3) False wl \<open>\<not> w \<le> i\<close> show False by (auto simp: is_char_boundary_def)
    qed
    have "is_char_boundary (drop w s) (i - w)"
      using 1(3) \<open>w \<le> i\<close> wl by (auto simp: is_char_boundary_def)
    then have "utf8_valid (take (i - w) (drop w s))"
      using 1(1)[OF _ w_def] False w 1(4) by simp
    moreover have "utf8_width (map of_char (take 4 (take i s))) = w"
      using utf8_width_take[of "map of_char (take 4 s)" w i] w(1) \<open>w \<le> i\<close>
      by (simp add: w_def take_map min.commute)
    ultimately show ?thesis
      using w(1) False \<open>w \<le> i\<close> by (subst utf8_valid.simps) (simp add: Let_def drop_take)
  qed auto
qed

lemma utf8_valid_append: "utf8_valid a \<Longrightarrow> utf8_valid b \<Longrightarrow> utf8_valid (a @ b)"
proof (induction a rule: utf8_valid.induct)
  case (1 a)
  define w where "w = utf8_width (map of_char (take 4 a))"
  show ?case
  proof (cases "a = []")
    case False
    with 1(2) have w: "w \<noteq> 0" "utf8_valid (drop w a)"
      by (subst (asm) utf8_valid.simps, simp add: w_def Let_def split: if_splits)+
    have wl: "w \<le> length a" "w \<le> 4"
      using utf8_width_le[of "map of_char (take 4 a)"] by (simp_all add: w_def)
    have "map of_char (take 4 (a @ b)) = take w (map of_char (take 4 a)) @ drop w (map of_char (take 4 (a @ b)) :: nat list)"
      using wl append_take_drop_id[of w "map of_char (take 4 (a @ b)) :: nat list"]
      by (simp add: take_map min_def)
    moreover have "utf8_width (take w (map of_char (take 4 a))) = w"
      using utf8_width_take[of "map of_char (take 4 a)" w w] w(1) by (simp add: w_def)
    ultimately have "utf8_width (map of_char (take 4 (a @ b))) = w"
      using utf8_width_extend w(1) by (metis neq0_conv)
    moreover have "utf8_valid (drop w a @ b)"
      using 1(1)[OF False w_def w(1) w(2) 1(3)] .
    ultimately show ?thesis
      using w(1) False wl by (subst utf8_valid.simps) (simp add: Let_def)
  qed (use 1(3) in simp)
qed

text \<open>A valid text has a boundary at most three bytes below any position.\<close>

lemma utf8_valid_head: "utf8_valid (c # s) \<Longrightarrow> \<not> continues c"
  by (subst (asm) utf8_valid.simps)
    (auto simp: Let_def utf8_width_def continues_def utf8_cont_def split: if_splits list.splits)

lemma boundary_between:
  "utf8_valid s \<Longrightarrow> n < length s \<Longrightarrow> \<exists>b \<le> n. n < b + 4 \<and> is_char_boundary s b"
proof (induction s arbitrary: n rule: utf8_valid.induct)
  case (1 s)
  define w where "w = utf8_width (map of_char (take 4 s))"
  from 1(3) have ne: "s \<noteq> []" by auto
  with 1(2) have w: "w \<noteq> 0" "utf8_valid (drop w s)"
    by (subst (asm) utf8_valid.simps, simp add: w_def Let_def split: if_splits)+
  have wl: "w \<le> length s" "w \<le> 4"
    using utf8_width_le[of "map of_char (take 4 s)"] by (simp_all add: w_def)
  show ?case
  proof (cases "n < w")
    case True
    then show ?thesis using wl by (intro exI[of _ 0]) (simp add: is_char_boundary_def)
  next
    case False
    then have "n - w < length (drop w s)" using 1(3) by simp
    from 1(1)[OF ne w_def w(1) w(2) this] obtain b where b: "b \<le> n - w" "n - w < b + 4"
      "is_char_boundary (drop w s) b" by blast
    show ?thesis
    proof (cases "b = 0")
      case True
      show ?thesis
      proof (cases "continues (s ! w)")
        case True
        moreover have "drop w s = s ! w # drop (Suc w) s" using False 1(3) by (simp add: Cons_nth_drop_Suc)
        ultimately show ?thesis using w(2) utf8_valid_head by metis
      next
        case False
        then show ?thesis using b \<open>b = 0\<close> \<open>\<not> n < w\<close> 1(3)
          by (intro exI[of _ w]) (auto simp: is_char_boundary_def)
      qed
    next
      case False
      then show ?thesis using b \<open>\<not> n < w\<close> wl
        by (intro exI[of _ "w + b"]) (auto simp: is_char_boundary_def)
    qed
  qed
qed

lemma boundary_near:
  assumes "utf8_valid s" "n < length s"
  shows "n < boundary_below s n + 4"
proof -
  have "is_char_boundary s b \<Longrightarrow> b \<le> n \<Longrightarrow> b \<le> boundary_below s n" for b
    by (induction n) (auto simp: le_Suc_eq)
  with boundary_between[OF assms] show ?thesis by fastforce
qed

lemma is_digit_ascii: "is_digit c \<Longrightarrow> (of_char c :: nat) < 0x80"
  by (simp add: is_digit_def)

lemma utf8_valid_ascii: "list_all (\<lambda>c. (of_char c :: nat) < 0x80) s \<Longrightarrow> utf8_valid s"
  by (induction s) (simp_all add: utf8_valid_ascii_Cons)


text \<open>A file does not grow between being measured and being read.\<close>

definition reads_measured :: "('w, 'h) tool_os \<Rightarrow> bool" where
  "reads_measured os \<longleftrightarrow>
     (\<forall>h w n w1 content w2. to_len os h w = (Inr n, w1) \<longrightarrow>
        to_read_to_string os h w1 = (Inr content, w2) \<longrightarrow> length content \<le> n)"

lemma read_capped_Some:
  assumes "read_capped os file maximum w = (Some content, w')" "reads_measured os"
  shows "length content \<le> maximum"
proof -
  from assms(1) obtain h w1 n w2 where "to_len os h w1 = (Inr n, w2)" "n \<le> maximum"
    "to_read_to_string os h w2 = (Inr content, w')"
    by (auto simp: read_capped_def slurp_def split: prod.splits sum.splits if_splits)
  with assms(2) show ?thesis unfolding reads_measured_def by fastforce
qed

lemma grep_loop_scan:
  "grep_loop os l pattern files scanned sc hits w = ((hits', sc', scanned'), w') \<Longrightarrow>
     (sc' = Complete \<longrightarrow> sc = Complete \<and> (\<exists>contents. length contents = length files
        \<and> hits' = hits @ concat (map2 (grep_hits os pattern) files contents)
        \<and> scanned' = scanned + sum_list (map length contents)))
     \<and> (reads_measured os \<longrightarrow> scanned \<le> tl_max_bytes_scanned l + MAX_FILE_BYTES \<longrightarrow>
        scanned' \<le> tl_max_bytes_scanned l + MAX_FILE_BYTES)"
proof (induction os l pattern files scanned sc hits w rule: grep_loop.induct)
  case (1 os l pattern scanned sc hits w)
  then show ?case by simp
next
  case (2 os l pattern f files scanned sc hits w)
  show ?case
  proof (cases "scanned \<ge> tl_max_bytes_scanned l")
    case True
    with 2(3) show ?thesis by auto
  next
    case False
    obtain r w1 where r: "read_capped os f MAX_FILE_BYTES w = (r, w1)" by (cases "read_capped os f MAX_FILE_BYTES w")
    show ?thesis
    proof (cases r)
      case None
      with 2(1)[OF False r[symmetric] None] 2(3) False r show ?thesis by simp
    next
      case (Some content)
      with 2(3) False r have next_file: "grep_loop os l pattern files (scanned + length content) sc
          (hits @ grep_hits os pattern f content) w1 = ((hits', sc', scanned'), w')" by simp
      note IH = 2(2)[OF False r[symmetric] Some next_file]
      have "scanned + length content \<le> tl_max_bytes_scanned l + MAX_FILE_BYTES" if "reads_measured os"
        using read_capped_Some[OF r[unfolded Some] that] False by simp
      moreover have "\<exists>contents'. length contents' = length (f # files)
          \<and> hits' = hits @ concat (map2 (grep_hits os pattern) (f # files) contents')
          \<and> scanned' = scanned + sum_list (map length contents')"
        if "length contents = length files"
          "hits' = (hits @ grep_hits os pattern f content) @ concat (map2 (grep_hits os pattern) files contents)"
          "scanned' = (scanned + length content) + sum_list (map length contents)" for contents
        using that by (intro exI[of _ "content # contents"]) simp
      ultimately show ?thesis using IH by blast
    qed
  qed
qed

text \<open>
  A search that does not say it stopped early searched everything: the walk was not cut short,
  every file in it was read, and the hits are those of every file in order. And it reads at most
  the budget and one capped file more, if no file grows between being measured and read.
\<close>

lemma grep_complete_searched_all:
  assumes "grep_loop os l pattern (rw_files walk) 0 (scan_of walk) [] w = ((hits, sc, scanned), w')"
    and "reads_measured os"
  shows "(sc = Complete \<longrightarrow> \<not> rw_truncated walk \<and> (\<exists>contents. length contents = length (rw_files walk)
           \<and> hits = concat (map2 (grep_hits os pattern) (rw_files walk) contents)))
    \<and> scanned \<le> tl_max_bytes_scanned l + MAX_FILE_BYTES"
  using grep_loop_scan[OF assms(1)] assms(2) by (auto simp: scan_of_def split: if_splits)

section \<open>A file to evaluate the tools on\<close>

definition demo_tool_os :: "(string, nat) tool_os" where
  "demo_tool_os = \<lparr>
     to_open_read = (\<lambda>_ w. (Inr 0, w)), to_open_write = (\<lambda>_ w. (Inr 1, [])),
     to_walk_readable = (\<lambda>_ _ w. (Inr \<lparr>rw_files = [''/f''], rw_truncated = False\<rparr>, w)),
     to_read_dir = (\<lambda>_ w. (Inr (Inr []), w)), to_len = (\<lambda>_ w. (Inr (length w), w)),
     to_read_to_string = (\<lambda>_ w. (Inr w, w)), to_write_all = (\<lambda>_ t w. (Inr (), w @ t)),
     to_shell = (\<lambda>_ w. (Inr \<lparr>co_status = ExitCode 0, co_stdout = [], co_stderr = []\<rparr>, w)),
     to_lossy = id, to_io_text = (\<lambda>_. ''io''), to_error_text = (\<lambda>_. ''refused'')\<rparr>"

lemma edit_replaces_once_witness:
  "\<exists>a b. ''let x = 1'' = a @ ''x'' @ b \<and> a @ ''yy'' @ b = ''let yy = 1''"
proof -
  let ?in = "\<lparr>ei_path = ''/f'', ei_old = ''x'', ei_new = ''yy''\<rparr>"
  have run: "execute_edit demo_tool_os ?in ''let x = 1'' = (Inr (ToolOutput ''edited /f''), ''let yy = 1'')"
    by code_simp
  have read: "read_file demo_tool_os (ei_path ?in) ''let x = 1'' = (Inr ''let x = 1'', ''let x = 1'')"
    by code_simp
  from edit_replaces_once[OF run read] show ?thesis
    by (auto simp: demo_tool_os_def)
qed

definition demo_parsers :: "string tool_parsers" where
  "demo_parsers = \<lparr>tp_read = Inr, tp_write = (\<lambda>_. Inl []), tp_bash = Inr, tp_edit = (\<lambda>_. Inl []),
     tp_ls = Inr, tp_grep = (\<lambda>_. Inl []), tp_find = (\<lambda>_. Inl [])\<rparr>"

lemma output_never_blank_witness:
  "\<not> blank (output_content (ToolOutput EMPTY_OUTPUT))"
proof -
  have "execute demo_tool_os demo_parsers \<lparr>tl_max_entries = 2, tl_max_bytes = 5, tl_max_files_scanned = 2, tl_max_bytes_scanned = 9\<rparr>
      ToolBash ''true'' [] = (Inr (ToolOutput EMPTY_OUTPUT), [])"
    by code_simp
  from output_never_blank[OF this] show ?thesis .
qed


lemma grep_complete_searched_all_witness:
  "\<exists>contents. length contents = 1 \<and> [''/f:1: ab''] = concat (map2 (grep_hits demo_tool_os ''b'') [''/f''] contents)"
proof -
  have run: "grep_loop demo_tool_os \<lparr>tl_max_entries = 2, tl_max_bytes = 5, tl_max_files_scanned = 2, tl_max_bytes_scanned = 9\<rparr>
      ''b'' [''/f''] 0 Complete [] '' ab'' = (([''/f:1: ab''], Complete, 3), '' ab'')"
  proof -
    have "read_capped demo_tool_os ''/f'' MAX_FILE_BYTES '' ab'' = (Some '' ab'', '' ab'')"
      by (simp add: read_capped_def slurp_def demo_tool_os_def MAX_FILE_BYTES_def io_map_err_def)
    moreover have "grep_hits demo_tool_os ''b'' ''/f'' '' ab'' = [''/f:1: ab'']" by code_simp
    ultimately show ?thesis by simp
  qed
  have "reads_measured demo_tool_os" by (simp add: reads_measured_def demo_tool_os_def)
  moreover have "grep_loop demo_tool_os \<lparr>tl_max_entries = 2, tl_max_bytes = 5, tl_max_files_scanned = 2, tl_max_bytes_scanned = 9\<rparr>
      ''b'' (rw_files \<lparr>rw_files = [''/f''], rw_truncated = False\<rparr>) 0
      (scan_of \<lparr>rw_files = [''/f''], rw_truncated = False\<rparr>) [] '' ab'' = (([''/f:1: ab''], Complete, 3), '' ab'')"
    unfolding scan_of_def readable_walk.select_convs if_False by (rule run)
  ultimately have "\<exists>contents. length contents = length [''/f''] \<and>
      [''/f:1: ab''] = concat (map2 (grep_hits demo_tool_os ''b'') [''/f''] contents)"
    using grep_complete_searched_all[THEN conjunct1, rule_format, OF _ _ refl, THEN conjunct2]
    unfolding readable_walk.select_convs by (metis readable_walk.select_convs(1))
  then show ?thesis unfolding list.size One_nat_def add_0 add_0_right plus_1_eq_Suc by simp
qed

end
