(* ===== verification/Paths.thy ===== *)
theory Paths
  imports Tools
begin

text \<open>
  \<open>std::path::Path\<close> on Unix, as the guard of \<open>sandbx-core\<close> reads it: a path is its bytes, equality
  and containment go by components, and \<open>parent\<close>, \<open>ancestors\<close> and \<open>strip_prefix\<close> answer the part of
  the bytes those components span. Empty segments and dots are no components, except a dot that
  opens a relative path.
\<close>

section \<open>Components\<close>

datatype component = RootDir | CurDir | ParentDir | Normal string

definition real_segment :: "string \<Rightarrow> bool" where
  "real_segment s \<longleftrightarrow> s \<noteq> [] \<and> s \<noteq> ''.''"

definition segment_component :: "string \<Rightarrow> component" where
  "segment_component s = (if s = ''..'' then ParentDir else Normal s)"

text \<open>The root or the lead dot, which the body of segments follows.\<close>

definition body_start :: "string \<Rightarrow> nat" where
  "body_start p = (if is_absolute p \<or> hd (path_segments p) = ''.'' then 1 else 0)"

definition body :: "string \<Rightarrow> string list" where
  "body p = path_segments (drop (body_start p) p)"

definition lead :: "string \<Rightarrow> component list" where
  "lead p = (if is_absolute p then [RootDir] else if body_start p = 1 then [CurDir] else [])"

definition components :: "string \<Rightarrow> component list" where
  "components p = lead p @ map segment_component (filter real_segment (body p))"

definition path_eq :: "string \<Rightarrow> string \<Rightarrow> bool" where
  "path_eq p q \<longleftrightarrow> components p = components q"

definition starts_with :: "string \<Rightarrow> string \<Rightarrow> bool" where
  "starts_with p base \<longleftrightarrow> take (length (components base)) (components p) = components base"

text \<open>\<open>Ord\<close> of a path is the order of its components: variants first, then the names by their bytes.\<close>

fun component_rank :: "component \<Rightarrow> nat \<times> string" where
  "component_rank RootDir = (0, [])"
| "component_rank CurDir = (1, [])"
| "component_rank ParentDir = (2, [])"
| "component_rank (Normal s) = (3, s)"

lemma component_rank_inject: "component_rank a = component_rank b \<Longrightarrow> a = b"
  by (cases a; cases b) simp_all

instantiation component :: linorder
begin

definition less_eq_component :: "component \<Rightarrow> component \<Rightarrow> bool" where
  "less_eq_component a b \<longleftrightarrow>
     fst (component_rank a) < fst (component_rank b)
     \<or> fst (component_rank a) = fst (component_rank b) \<and> snd (component_rank a) \<le> snd (component_rank b)"

definition less_component :: "component \<Rightarrow> component \<Rightarrow> bool" where
  "less_component a b \<longleftrightarrow> a \<le> b \<and> \<not> b \<le> a"

instance
proof
  fix a b c :: component
  show "(a < b) = (a \<le> b \<and> \<not> b \<le> a)" by (rule less_component_def)
  show "a \<le> a" by (simp add: less_eq_component_def)
  show "a \<le> b \<Longrightarrow> b \<le> c \<Longrightarrow> a \<le> c" by (auto simp: less_eq_component_def)
  show "a \<le> b \<Longrightarrow> b \<le> a \<Longrightarrow> a = b"
    by (rule component_rank_inject) (auto simp: less_eq_component_def prod_eq_iff)
  show "a \<le> b \<or> b \<le> a" by (auto simp: less_eq_component_def)
qed

end

section \<open>Parts of a path\<close>

definition trim_segments :: "string list \<Rightarrow> string list" where
  "trim_segments segs = rev (dropWhile (\<lambda>s. \<not> real_segment s) (rev segs))"

definition with_lead :: "string \<Rightarrow> string list \<Rightarrow> string" where
  "with_lead p segs = take (body_start p) p @ join_with ''/'' segs"

definition parent :: "string \<Rightarrow> string option" where
  "parent p =
     (let segs = trim_segments (body p)
      in if segs \<noteq> [] then Some (with_lead p (trim_segments (butlast segs)))
         else if is_absolute p \<or> body_start p = 0 then None else Some [])"

definition path_file_name :: "string \<Rightarrow> string option" where
  "path_file_name p =
     (case last_opt (components p) of Some (Normal s) \<Rightarrow> Some s | _ \<Rightarrow> None)"

text \<open>What is left of a body behind some components, its leading empty segments and dots skipped.\<close>

fun behind :: "nat \<Rightarrow> string list \<Rightarrow> string list" where
  "behind n [] = []"
| "behind n (s # segs) =
     (if \<not> real_segment s then behind n segs
      else (case n of 0 \<Rightarrow> s # segs | Suc m \<Rightarrow> behind m segs))"

definition strip_path :: "string \<Rightarrow> string \<Rightarrow> string option" where
  "strip_path base p =
     (if \<not> starts_with p base then None
      else if components base = [] then Some (with_lead p (trim_segments (body p)))
      else Some (join_with ''/'' (trim_segments (behind (length (components base) - length (lead p)) (body p)))))"

lemma join_with_cons: "join_with sep (x # xs) = (if xs = [] then x else x @ sep @ join_with sep xs)"
  by (cases xs) auto

lemma join_segments: "join_with ''/'' (path_segments s) = s"
proof (induction s rule: path_segments.induct)
  case (1 s)
  show ?case
  proof (cases "split_once (CHR ''/'') s")
    case None
    then show ?thesis by (simp add: path_segments.simps[of s] None del: split_once_None_iff)
  next
    case (Some p)
    then obtain a b where p: "p = (a, b)" "s = a @ CHR ''/'' # b"
      by (cases p) (auto simp: split_once_Some_iff)
    have "path_segments b \<noteq> []" by (subst path_segments.simps) (simp split: option.splits prod.splits)
    with 1 Some p show ?thesis
      by (subst path_segments.simps) (simp add: join_with_cons)
  qed
qed

lemma path_segments_nonempty [simp]: "path_segments s \<noteq> []"
  by (subst path_segments.simps) (simp split: option.splits prod.splits)

lemma join_append_length: "length (join_with sep xs) \<le> length (join_with sep (xs @ ys))"
  by (induction xs) (auto simp: join_with_cons)

lemma trim_split: "\<exists>rest. segs = trim_segments segs @ rest"
proof -
  have "rev segs = takeWhile (\<lambda>s. \<not> real_segment s) (rev segs) @ dropWhile (\<lambda>s. \<not> real_segment s) (rev segs)"
    by simp
  then have "segs = trim_segments segs @ rev (takeWhile (\<lambda>s. \<not> real_segment s) (rev segs))"
    unfolding trim_segments_def by (metis rev_append rev_rev_ident)
  then show ?thesis ..
qed

lemma trim_last: "trim_segments segs \<noteq> [] \<Longrightarrow> real_segment (last (trim_segments segs))"
  using hd_dropWhile[of "\<lambda>s. \<not> real_segment s" "rev segs"]
  unfolding trim_segments_def rev_is_Nil_conv by (simp add: last_rev del: dropWhile_eq_Nil_conv)

lemma trim_length: "length (join_with sep (trim_segments segs)) \<le> length (join_with sep segs)"
  using trim_split[of segs] join_append_length by metis

lemma join_snoc_length: "s \<noteq> [] \<Longrightarrow> length (join_with sep xs) < length (join_with sep (xs @ [s]))"
  by (induction xs) (auto simp: join_with_cons)

lemma lead_body: "take (body_start p) p @ join_with ''/'' (body p) = p"
  by (simp add: body_def join_segments)

lemma parent_shorter: "parent p = Some q \<Longrightarrow> length q < length p"
proof -
  assume q: "parent p = Some q"
  let ?segs = "trim_segments (body p)"
  show ?thesis
  proof (cases "?segs = []")
    case True
    with q have "q = []" "body_start p \<noteq> 0" by (auto simp: parent_def Let_def split: if_splits)
    then show ?thesis
      by (cases p) (auto simp: body_start_def path_segments.simps[of "[]"] is_absolute_def)
  next
    case False
    then have "q = take (body_start p) p @ join_with ''/'' (trim_segments (butlast ?segs))"
      using q unfolding parent_def Let_def with_lead_def if_P[OF False] by simp
    moreover have "length (join_with ''/'' (trim_segments (butlast ?segs))) < length (join_with ''/'' ?segs)"
    proof -
      have "last ?segs \<noteq> []" using trim_last[OF False] by (simp add: real_segment_def)
      from join_snoc_length[OF this, of "''/''" "butlast ?segs"] False
      have "length (join_with ''/'' (butlast ?segs)) < length (join_with ''/'' ?segs)" by simp
      with trim_length[of "''/''" "butlast ?segs"] show ?thesis by simp
    qed
    moreover have "length (join_with ''/'' ?segs) \<le> length (join_with ''/'' (body p))"
      by (rule trim_length)
    moreover have "length p = length (take (body_start p) p) + length (join_with ''/'' (body p))"
      using arg_cong[OF lead_body[of p], of length] by (simp only: length_append)
    ultimately show ?thesis by (simp only: length_append)
  qed
qed

text \<open>\<open>Path::ancestors\<close>: the path itself, then parent after parent.\<close>

function ancestors :: "string \<Rightarrow> string list" where
  "ancestors p = p # (case parent p of None \<Rightarrow> [] | Some q \<Rightarrow> ancestors q)"
  by pat_completeness auto
termination
  by (relation "measure length") (auto dest: parent_shorter)

declare ancestors.simps [simp del]

text \<open>\<open>requested\<close> made absolute with dots resolved away: \<open>PathBuf::push\<close> and \<open>pop\<close> over the components.\<close>

definition component_text :: "component \<Rightarrow> string" where
  "component_text c = (case c of RootDir \<Rightarrow> ''/'' | CurDir \<Rightarrow> ''.'' | ParentDir \<Rightarrow> ''..'' | Normal s \<Rightarrow> s)"

definition collapse_step :: "string \<Rightarrow> component \<Rightarrow> string" where
  "collapse_step form c =
     (case c of
        ParentDir \<Rightarrow> (case parent form of None \<Rightarrow> form | Some p \<Rightarrow> p)
      | CurDir \<Rightarrow> form
      | _ \<Rightarrow> path_join form (component_text c))"

definition collapse :: "string \<Rightarrow> string" where
  "collapse p = foldl collapse_step [] (components p)"

section \<open>Agreement with std on the cases its documentation gives\<close>

lemma path_examples:
  "components ''/a/./b//c/'' = [RootDir, Normal ''a'', Normal ''b'', Normal ''c'']"
  "components ''./a/..'' = [CurDir, Normal ''a'', ParentDir]"
  "parent ''/a//b/.'' = Some ''/a''" "parent ''a'' = Some []" "parent ''/'' = None" "parent [] = None"
  "ancestors ''/a/b'' = [''/a/b'', ''/a'', ''/'']"
  "strip_path ''/a'' ''/a/b//c'' = Some ''b//c''" "strip_path ''/a'' ''/a'' = Some []" "strip_path ''/a'' ''/ab'' = None"
  "collapse ''/a/../../b/./c'' = ''/b/c''"
  by code_simp+

end
