(* ===== verification/Ruleset.thy ===== *)
theory Ruleset
  imports Policy Paths
begin

text \<open>
  The Landlock ruleset a policy asks for: the ABI ladder (\<open>helper_ruleset_compat.rs\<close>), the rights
  and rules of the grants (\<open>helper_ruleset_rights.rs\<close>), what one ABI asks for (\<open>requested.rs\<close>) and
  the open that confirms a grant (\<open>helper_ruleset_opened.rs\<close>). The \<open>landlock\<close> crate's right sets
  and its ruleset builder are the fields of \<open>landlock_os\<close>; a set of rights is a set, \<open>&\<close>, \<open>|\<close> and
  \<open>! \<close> its operations, \<open>'rs\<close> a builder, \<open>'rc\<close> a created ruleset.
\<close>

datatype landlock_abi = V5 | V6 | V7 | V8 | V9

datatype ruleset_error = HandleAccesses string | OtherRuleset string

definition ruleset_text :: "ruleset_error \<Rightarrow> string" where
  "ruleset_text e = (case e of HandleAccesses t \<Rightarrow> t | OtherRuleset t \<Rightarrow> t)"

datatype ruleset_status = FullyEnforced | PartiallyEnforced | NotEnforced

record ('r, 'n) landlock_sets =
  ll_execute :: 'r
  ll_resolve_unix :: 'r
  ll_from_read :: "landlock_abi \<Rightarrow> 'r set"
  ll_from_all :: "landlock_abi \<Rightarrow> 'r set"
  ll_from_file :: "landlock_abi \<Rightarrow> 'r set"
  ll_net_all :: "landlock_abi \<Rightarrow> 'n set"
  ll_bind_tcp :: 'n
  ll_connect_tcp :: 'n

record ('w, 'fd, 'rs, 'rc, 'r, 'n) landlock_os =
  ll_sets :: "('r, 'n) landlock_sets"
  ll_path :: "('w, 'fd) path_os"
  ll_is_dir :: "string \<Rightarrow> 'w \<Rightarrow> bool \<times> 'w"
  ll_lstat :: "string \<Rightarrow> 'w \<Rightarrow> bool option \<times> 'w"
  ll_open_path :: "string \<Rightarrow> ('w, string, 'fd) io"
  ll_read_back :: "'fd \<Rightarrow> ('w, io_error, string) io"
  ll_default :: "'w \<Rightarrow> 'rs \<times> 'w"
  ll_handle_fs :: "'r set \<Rightarrow> 'rs \<Rightarrow> ('w, ruleset_error, 'rs) io"
  ll_handle_net :: "'n set \<Rightarrow> 'rs \<Rightarrow> ('w, ruleset_error, 'rs) io"
  ll_create :: "'rs \<Rightarrow> ('w, ruleset_error, 'rc) io"
  ll_add_path :: "'fd \<Rightarrow> 'r set \<Rightarrow> 'rc \<Rightarrow> ('w, ruleset_error, 'rc) io"
  ll_add_port :: "u16 \<Rightarrow> 'n set \<Rightarrow> 'rc \<Rightarrow> ('w, ruleset_error, 'rc) io"
  ll_restrict :: "'rc \<Rightarrow> ('w, ruleset_error, ruleset_status) io"

section \<open>The ABI (helper_ruleset_compat.rs)\<close>

definition BASELINE_ABI :: landlock_abi where "BASELINE_ABI = V5"
definition LATEST_ABI :: landlock_abi where "LATEST_ABI = V9"

definition NEGOTIABLE_ABI :: "landlock_abi list" where
  "NEGOTIABLE_ABI = [LATEST_ABI, V8, V7, V6, BASELINE_ABI]"

definition handled_access :: "('r, 'n) landlock_sets \<Rightarrow> landlock_abi \<Rightarrow> 'r set" where
  "handled_access L abi = ll_from_all L abi"

definition handled_net_access :: "('r, 'n) landlock_sets \<Rightarrow> landlock_abi \<Rightarrow> 'n set" where
  "handled_net_access L abi = ll_net_all L abi"

definition landlock_failed :: "ruleset_error \<Rightarrow> sandbox_error" where
  "landlock_failed e = Landlock (ruleset_text e)"

definition abi_probe ::
  "('w, 'fd, 'rs, 'rc, 'r, 'n) landlock_os \<Rightarrow> landlock_abi \<Rightarrow> ('w, ruleset_error, unit) io" where
  "abi_probe os abi =
     st_bind (ll_default os) (\<lambda>builder.
     io_bind (ll_handle_fs os (handled_access (ll_sets os) abi) builder) (\<lambda>builder.
     io_bind (ll_handle_net os (handled_net_access (ll_sets os) abi) builder) (\<lambda>builder.
     io_bind (ll_create os builder) (\<lambda>_. io_ret ()))))"

definition BELOW_BASELINE :: string where
  "BELOW_BASELINE = ''kernel does not support the Landlock baseline this build requires (ABI 5, Linux 6.10); refusing to run unconfined''"

fun negotiate ::
  "(landlock_abi \<Rightarrow> ('w, ruleset_error, unit) io) \<Rightarrow> landlock_abi list \<Rightarrow> ('w, sandbox_error, landlock_abi) io" where
  "negotiate probe [] = io_fail (Unsupported BELOW_BASELINE)"
| "negotiate probe (abi # abis) =
     st_bind (probe abi) (\<lambda>answer.
       case answer of
         Inr _ \<Rightarrow> io_ret abi
       | Inl (HandleAccesses _) \<Rightarrow> negotiate probe abis
       | Inl e \<Rightarrow> io_fail (landlock_failed e))"

definition negotiated_abi_from ::
  "(landlock_abi \<Rightarrow> ('w, ruleset_error, unit) io) \<Rightarrow> ('w, sandbox_error, landlock_abi) io" where
  "negotiated_abi_from probe = negotiate probe NEGOTIABLE_ABI"

definition negotiated_abi ::
  "('w, 'fd, 'rs, 'rc, 'r, 'n) landlock_os \<Rightarrow> ('w, sandbox_error, landlock_abi) io" where
  "negotiated_abi os = negotiated_abi_from (abi_probe os)"

fun enforcement_verdict :: "ruleset_status \<Rightarrow> sandbox_error + unit" where
  "enforcement_verdict FullyEnforced = Inr ()"
| "enforcement_verdict PartiallyEnforced = Inl (Unsupported
     ''kernel enforced only part of the ruleset; some access type is unrestricted, so the sandbox would not hold'')"
| "enforcement_verdict NotEnforced = Inl (Unsupported
     ''kernel accepted the ruleset but enforced none of it'')"

section \<open>The rights (helper_ruleset_rights.rs)\<close>

datatype inode = InodeDir | InodeNonDir

definition inode_of :: "('w, 'fd, 'rs, 'rc, 'r, 'n) landlock_os \<Rightarrow> string \<Rightarrow> 'w \<Rightarrow> inode \<times> 'w" where
  "inode_of os path = st_bind (ll_is_dir os path) (\<lambda>dir. st_ret (if dir then InodeDir else InodeNonDir))"

definition rights_for :: "('r, 'n) landlock_sets \<Rightarrow> axis \<Rightarrow> inode \<Rightarrow> landlock_abi \<Rightarrow> 'r set" where
  "rights_for L ax target abi =
     (let read_rights = ll_from_read L abi \<inter> - {ll_execute L};
          write_rights = ll_from_all L abi \<inter> - ll_from_read L abi \<inter> - {ll_resolve_unix L};
          g = axis_grants ax;
          rights = (if gr_read g then read_rights else {})
            \<union> (if gr_write g then write_rights else {})
            \<union> (if gr_execute g then {ll_execute L} else {})
      in case target of InodeDir \<Rightarrow> rights | InodeNonDir \<Rightarrow> rights \<inter> ll_from_file L abi)"

datatype rule_target = Granted vetted_path | Installed string

fun target_path :: "rule_target \<Rightarrow> string" where
  "target_path (Granted v) = vp_path v"
| "target_path (Installed path) = path"

record 'r fs_rule =
  fr_axis :: axis
  fr_target :: rule_target
  fr_rights :: "'r set"

definition unix_socket_rights :: "('r, 'n) landlock_sets \<Rightarrow> bool \<Rightarrow> landlock_abi \<Rightarrow> 'r set" where
  "unix_socket_rights L granted abi = (if granted then ll_from_all L abi \<inter> {ll_resolve_unix L} else {})"

definition opens_as_itself ::
  "('w, 'fd, 'rs, 'rc, 'r, 'n) landlock_os \<Rightarrow> string \<Rightarrow> 'w \<Rightarrow> bool \<times> 'w" where
  "opens_as_itself os path = st_bind (ll_lstat os path) (\<lambda>at. st_ret (at = Some False))"

fun kept_paths ::
  "('w, 'fd, 'rs, 'rc, 'r, 'n) landlock_os \<Rightarrow> string list \<Rightarrow> 'w \<Rightarrow> string list \<times> 'w" where
  "kept_paths os [] = st_ret []"
| "kept_paths os (path # later) =
     st_bind (opens_as_itself os path) (\<lambda>itself.
     st_bind (kept_paths os later) (\<lambda>kept. st_ret (if itself then path # kept else kept)))"

definition resolver_paths ::
  "('w, 'fd, 'rs, 'rc, 'r, 'n) landlock_os \<Rightarrow> bool \<Rightarrow> 'w \<Rightarrow> string list \<times> 'w" where
  "resolver_paths os bounded = (if bounded then kept_paths os RESOLVER_FILES else st_ret [])"

fun rules_of ::
  "('w, 'fd, 'rs, 'rc, 'r, 'n) landlock_os \<Rightarrow> landlock_abi \<Rightarrow> (axis \<times> rule_target \<times> 'r set) list
     \<Rightarrow> 'w \<Rightarrow> 'r fs_rule list \<times> 'w" where
  "rules_of os abi [] = st_ret []"
| "rules_of os abi ((ax, target, conferred) # later) =
     st_bind (inode_of os (target_path target)) (\<lambda>inode.
     st_bind (rules_of os abi later) (\<lambda>rules.
       st_ret (\<lparr>fr_axis = ax, fr_target = target,
                fr_rights = rights_for (ll_sets os) ax inode abi \<union> conferred\<rparr> # rules)))"

definition fs_rules ::
  "('w, 'fd, 'rs, 'rc, 'r, 'n) landlock_os \<Rightarrow> sandbox_policy \<Rightarrow> landlock_abi \<Rightarrow> 'w \<Rightarrow> 'r fs_rule list \<times> 'w" where
  "fs_rules os p abi =
     st_bind (resolver_paths os (bounds_resolution p)) (\<lambda>resolver.
       let unix = unix_socket_rights (ll_sets os) (sp_unix_sockets p) abi
       in rules_of os abi
            (map (\<lambda>(ax, v). (ax, Granted v, unix)) (granted_paths p)
             @ map (\<lambda>path. (AxRead, Installed path, {})) resolver))"

datatype 'n requested_net = NetUnhandled | NetPorts "'n set" "'n set" "u16 list"

definition net_rules :: "('r, 'n) landlock_sets \<Rightarrow> sandbox_policy \<Rightarrow> landlock_abi \<Rightarrow> 'n requested_net" where
  "net_rules L p abi =
     (case sp_network p of
        Ports ports \<Rightarrow> NetPorts (handled_net_access L abi) {ll_bind_tcp L, ll_connect_tcp L} ports
      | _ \<Rightarrow> NetUnhandled)"

section \<open>What one ABI asks for (requested.rs)\<close>

record ('r, 'n) requested =
  rd_handled :: "'r set"
  rd_rules :: "'r fs_rule list"
  rd_net :: "'n requested_net"

definition requested_at ::
  "('w, 'fd, 'rs, 'rc, 'r, 'n) landlock_os \<Rightarrow> sandbox_policy \<Rightarrow> landlock_abi \<Rightarrow> 'w \<Rightarrow> ('r, 'n) requested \<times> 'w" where
  "requested_at os p abi =
     st_bind (fs_rules os p abi) (\<lambda>rules.
       st_ret \<lparr>rd_handled = handled_access (ll_sets os) abi, rd_rules = rules,
               rd_net = net_rules (ll_sets os) p abi\<rparr>)"

definition requested_rules ::
  "('w, 'fd, 'rs, 'rc, 'r, 'n) landlock_os \<Rightarrow> sandbox_policy \<Rightarrow> ('w, sandbox_error, ('r, 'n) requested) io" where
  "requested_rules os p =
     io_bind (negotiated_abi os) (\<lambda>abi. st_bind (requested_at os p abi) io_ret)"

section \<open>Opening a grant (helper_ruleset_opened.rs)\<close>

definition reads_back ::
  "('w, 'fd, 'rs, 'rc, 'r, 'n) landlock_os \<Rightarrow> 'fd \<Rightarrow> ('w, sandbox_error, string) io" where
  "reads_back os fd =
     io_map_err (\<lambda>_. Unsupported
       ''a granted path could not be read back through /proc/self/fd, so it cannot be confirmed to be the path that was opened'')
       (ll_read_back os fd)"

definition open_grant ::
  "('w, 'fd, 'rs, 'rc, 'r, 'n) landlock_os \<Rightarrow> rule_target \<Rightarrow> ('w, sandbox_error, 'fd) io" where
  "open_grant os target =
     io_bind (io_map_err Landlock (ll_open_path os (target_path target))) (\<lambda>fd.
     io_bind (reads_back os fd) (\<lambda>opened.
       if \<not> path_eq opened (target_path target) then io_fail (GrantRedirected (target_path target) opened)
       else case target of
         Installed _ \<Rightarrow> io_ret fd
       | Granted v \<Rightarrow>
           io_bind (of_fd (ll_path os) fd) (\<lambda>object.
             if object \<noteq> vp_object v then io_fail (GrantReplaced (vp_path v) (vp_object v) object)
             else io_ret fd)))"

section \<open>What a grant confers\<close>

text \<open>
  What the code relies on of the crate's sets: \<open>from_read\<close> bundles execution with reading and lies
  within \<open>from_all\<close>, connecting a socket is no reading right, and a file can be executed.
\<close>

definition landlock_like :: "('r, 'n) landlock_sets \<Rightarrow> bool" where
  "landlock_like L \<longleftrightarrow>
     (\<forall>abi. ll_execute L \<in> ll_from_read L abi \<and> ll_execute L \<in> ll_from_file L abi
        \<and> ll_from_read L abi \<subseteq> ll_from_all L abi \<and> ll_resolve_unix L \<notin> ll_from_read L abi)"

definition reading :: "('r, 'n) landlock_sets \<Rightarrow> landlock_abi \<Rightarrow> 'r set" where
  "reading L abi = ll_from_read L abi - {ll_execute L}"

definition writing :: "('r, 'n) landlock_sets \<Rightarrow> landlock_abi \<Rightarrow> 'r set" where
  "writing L abi = ll_from_all L abi - ll_from_read L abi - {ll_resolve_unix L}"

text \<open>A rule confers no more than its axis says, nothing the ruleset does not handle.\<close>

definition rule_lawful :: "('r, 'n) landlock_sets \<Rightarrow> landlock_abi \<Rightarrow> sandbox_policy \<Rightarrow> 'r fs_rule \<Rightarrow> bool" where
  "rule_lawful L abi p r \<longleftrightarrow>
     fr_rights r \<subseteq> handled_access L abi
     \<and> (ll_execute L \<in> fr_rights r \<longleftrightarrow> fr_axis r = AxReadExecute)
     \<and> (fr_axis r = AxWrite \<longrightarrow> fr_rights r \<inter> reading L abi = {})
     \<and> (fr_axis r \<noteq> AxWrite \<longrightarrow> fr_rights r \<inter> writing L abi = {})
     \<and> (ll_resolve_unix L \<in> fr_rights r \<longleftrightarrow>
          (\<exists>v. fr_target r = Granted v) \<and> sp_unix_sockets p \<and> ll_resolve_unix L \<in> ll_from_all L abi)"

lemma rights_for_lawful:
  assumes "landlock_like L"
  shows "rights_for L ax inode abi \<subseteq> ll_from_all L abi - {ll_resolve_unix L}"
    "ll_execute L \<in> rights_for L ax inode abi \<longleftrightarrow> ax = AxReadExecute"
    "ax = AxWrite \<Longrightarrow> rights_for L ax inode abi \<inter> reading L abi = {}"
    "ax \<noteq> AxWrite \<Longrightarrow> rights_for L ax inode abi \<inter> writing L abi = {}"
proof -
  have facts: "ll_execute L \<in> ll_from_read L abi" "ll_execute L \<in> ll_from_file L abi"
    "ll_from_read L abi \<subseteq> ll_from_all L abi" "ll_resolve_unix L \<notin> ll_from_read L abi"
    "ll_execute L \<noteq> ll_resolve_unix L"
    using assms by (auto simp: landlock_like_def)
  show "rights_for L ax inode abi \<subseteq> ll_from_all L abi - {ll_resolve_unix L}"
    "ll_execute L \<in> rights_for L ax inode abi \<longleftrightarrow> ax = AxReadExecute"
    "ax = AxWrite \<Longrightarrow> rights_for L ax inode abi \<inter> reading L abi = {}"
    "ax \<noteq> AxWrite \<Longrightarrow> rights_for L ax inode abi \<inter> writing L abi = {}"
    using facts by (cases ax; cases inode; auto simp: rights_for_def Let_def reading_def writing_def)+
qed

lemma unix_rights:
  "unix_socket_rights L granted abi = (if granted \<and> ll_resolve_unix L \<in> ll_from_all L abi then {ll_resolve_unix L} else {})"
  by (auto simp: unix_socket_rights_def)

lemma rules_of_lawful:
  assumes "landlock_like (ll_sets os)"
  shows "rules_of os abi entries w = (rules, w') \<Longrightarrow>
    list_all (\<lambda>(ax, target, conferred). conferred = (case target of
        Granted _ \<Rightarrow> unix_socket_rights (ll_sets os) (sp_unix_sockets p) abi | Installed _ \<Rightarrow> {})) entries \<Longrightarrow>
    list_all (rule_lawful (ll_sets os) abi p) rules"
proof (induction entries arbitrary: w rules w')
  case (Cons entry entries)
  obtain ax target conferred where entry: "entry = (ax, target, conferred)" by (cases entry)
  obtain inode w1 where inode: "inode_of os (target_path target) w = (inode, w1)" by force
  obtain later w2 where later: "rules_of os abi entries w1 = (later, w2)" by force
  define r where "r = \<lparr>fr_axis = ax, fr_target = target,
    fr_rights = rights_for (ll_sets os) ax inode abi \<union> conferred\<rparr>"
  from Cons.prems(1) entry inode later have rules: "rules = r # later"
    by (auto simp: st_bind_def r_def)
  have resolve: "ll_resolve_unix (ll_sets os) \<notin> reading (ll_sets os) abi"
    "ll_resolve_unix (ll_sets os) \<notin> writing (ll_sets os) abi" "ll_execute (ll_sets os) \<noteq> ll_resolve_unix (ll_sets os)"
    using assms by (auto simp: landlock_like_def reading_def writing_def)
  note lawful = rights_for_lawful[OF assms, of ax inode abi]
  have "rule_lawful (ll_sets os) abi p r"
    using Cons.prems(2) lawful resolve
    by (cases target) (auto simp: entry r_def rule_lawful_def handled_access_def unix_rights split: if_splits)
  with Cons.IH[OF later] Cons.prems(2) show ?case by (simp add: rules entry r_def)
qed simp

lemma kept_paths_subset: "kept_paths os ps w = (kept, w') \<Longrightarrow> set kept \<subseteq> set ps"
  by (induction ps arbitrary: w kept w') (fastforce simp: st_bind_def split: prod.splits if_splits)+

lemma rules_of_shape:
  "rules_of os abi entries w = (rules, w') \<Longrightarrow>
     map (\<lambda>r. (fr_axis r, fr_target r)) rules = map (\<lambda>(ax, target, conferred). (ax, target)) entries"
  by (induction entries arbitrary: w rules w') (fastforce simp: st_bind_def split: prod.splits)+

definition rules_shape :: "sandbox_policy \<Rightarrow> 'r fs_rule list \<Rightarrow> bool" where
  "rules_shape p rules \<longleftrightarrow>
     (\<exists>installed. map (\<lambda>r. (fr_axis r, fr_target r)) rules
        = map (\<lambda>(ax, v). (ax, Granted v)) (granted_paths p) @ map (\<lambda>path. (AxRead, Installed path)) installed
      \<and> set installed \<subseteq> (if bounds_resolution p then set RESOLVER_FILES else {}))"

lemma fs_rules_shape:
  assumes run: "fs_rules os p abi w = (rules, w')"
  shows "rules_shape p rules \<and> (landlock_like (ll_sets os) \<longrightarrow> list_all (rule_lawful (ll_sets os) abi p) rules)"
proof -
  obtain resolver w1 where resolver: "resolver_paths os (bounds_resolution p) w = (resolver, w1)" by force
  have kept: "set resolver \<subseteq> (if bounds_resolution p then set RESOLVER_FILES else {})"
    using resolver kept_paths_subset[of os RESOLVER_FILES w resolver w1]
    by (cases "bounds_resolution p") (auto simp: resolver_paths_def)
  let ?unix = "unix_socket_rights (ll_sets os) (sp_unix_sockets p) abi"
  let ?entries = "map (\<lambda>(ax, v). (ax, Granted v, ?unix)) (granted_paths p)
     @ map (\<lambda>path. (AxRead, Installed path, {})) resolver"
  from run resolver have rules: "rules_of os abi ?entries w1 = (rules, w')"
    by (simp add: fs_rules_def st_bind_def Let_def)
  have conferred: "list_all (\<lambda>(ax, target, conferred). conferred = (case target of Granted _ \<Rightarrow> ?unix | Installed _ \<Rightarrow> {})) ?entries"
    by (auto simp: list_all_iff)
  have "map (\<lambda>r. (fr_axis r, fr_target r)) rules
      = map (\<lambda>(ax, v). (ax, Granted v)) (granted_paths p) @ map (\<lambda>path. (AxRead, Installed path)) resolver"
    using rules_of_shape[OF rules] by (simp add: case_prod_unfold comp_def)
  with kept have "rules_shape p rules" unfolding rules_shape_def by blast
  with rules_of_lawful[OF _ rules conferred] show ?thesis by blast
qed


text \<open>A crate with seven rights: 0 executes, 1 and 2 read, 3 to 5 write, 9 connects at the newest ABI.\<close>

definition demo_sets :: "(nat, nat) landlock_sets" where
  "demo_sets = \<lparr>ll_execute = 0, ll_resolve_unix = 9, ll_from_read = (\<lambda>_. {0, 1, 2}),
     ll_from_all = (\<lambda>abi. {0, 1, 2, 3, 4, 5} \<union> (if abi = V9 then {9} else {})),
     ll_from_file = (\<lambda>_. {0, 1, 3}), ll_net_all = (\<lambda>_. {1, 2}), ll_bind_tcp = 1, ll_connect_tcp = 2\<rparr>"

lemma demo_sets_like: "landlock_like demo_sets"
  by (simp add: landlock_like_def demo_sets_def)

definition demo_landlock :: "(nat, nat, unit, unit, nat, nat) landlock_os" where
  "demo_landlock = \<lparr>ll_sets = demo_sets,
     ll_path = \<lparr>po_canonicalize = io_ret, po_metadata = (\<lambda>_. io_fail IoNotFound),
       po_open_path = (\<lambda>_. io_fail IoNotFound), po_fstat = (\<lambda>_. io_fail IoNotFound)\<rparr>,
     ll_is_dir = (\<lambda>p w. (p = ''/work'', w)), ll_lstat = (\<lambda>_ w. (Some False, w)),
     ll_open_path = (\<lambda>_. io_ret 3), ll_read_back = (\<lambda>_. io_ret ''/work''),
     ll_default = (\<lambda>w. ((), w)), ll_handle_fs = (\<lambda>_ _. io_ret ()), ll_handle_net = (\<lambda>_ _. io_ret ()),
     ll_create = (\<lambda>_. io_ret ()), ll_add_path = (\<lambda>_ _ _. io_ret ()), ll_add_port = (\<lambda>_ _ _. io_ret ()),
     ll_restrict = (\<lambda>_. io_ret FullyEnforced)\<rparr>"

definition demo_grants :: sandbox_policy where
  "demo_grants = allow_unix_sockets (grant AxReadExecute \<lparr>vp_path = ''/bin/ls'', vp_object = \<lparr>oi_dev = 1, oi_ino = 2\<rparr>\<rparr>
     (grant AxWrite \<lparr>vp_path = ''/work'', vp_object = \<lparr>oi_dev = 1, oi_ino = 3\<rparr>\<rparr> default_policy))"


section \<open>The ladder\<close>

fun unheld :: "ruleset_error + unit \<Rightarrow> bool" where
  "unheld (Inl (HandleAccesses _)) = True"
| "unheld _ = False"

definition ladder_log ::
  "landlock_abi list \<Rightarrow> sandbox_error + landlock_abi \<Rightarrow> (landlock_abi \<times> (ruleset_error + unit)) list \<Rightarrow> bool" where
  "ladder_log abis r es \<longleftrightarrow>
     (if length es = length abis \<and> list_all (unheld \<circ> snd) es
      then map fst es = abis \<and> r = Inl (Unsupported BELOW_BASELINE)
      else \<exists>newer abi answer. es = newer @ [(abi, answer)] \<and> list_all (unheld \<circ> snd) newer
        \<and> map fst es = take (length es) abis
        \<and> (case answer of Inr _ \<Rightarrow> r = Inr abi | Inl e \<Rightarrow> \<not> unheld answer \<and> r = Inl (landlock_failed e)))"

lemma ladder_log_later:
  assumes "ladder_log abis r es"
  shows "ladder_log (abi # abis) r ((abi, Inl (HandleAccesses t)) # es)"
proof (cases "length es = length abis \<and> list_all (unheld \<circ> snd) es")
  case True
  with assms show ?thesis by (simp add: ladder_log_def)
next
  case False
  with assms obtain newer a answer where "es = newer @ [(a, answer)]" "list_all (unheld \<circ> snd) newer"
    "map fst es = take (length es) abis"
    "case answer of Inr _ \<Rightarrow> r = Inr a | Inl e \<Rightarrow> \<not> unheld answer \<and> r = Inl (landlock_failed e)"
    by (auto simp: ladder_log_def split: if_splits)
  with False show ?thesis
    unfolding ladder_log_def by (auto intro!: exI[of _ "(abi, Inl (HandleAccesses t)) # newer"])
qed

lemma writes_negotiate: "writes (negotiate (\<lambda>abi. noting (Pair abi) (probe abi)) abis) (ladder_log abis)"
proof (induction abis)
  case Nil
  then show ?case by (auto intro!: writes_fail simp: ladder_log_def)
next
  case (Cons abi abis)
  show ?case
    unfolding negotiate.simps
  proof (rule writes_st_bind[where P = "\<lambda>answer es. es = [(abi, answer)]"])
    show "writes (noting (Pair abi) (probe abi)) (\<lambda>answer es. es = [(abi, answer)])"
      by (rule writes_noting) simp
    fix answer :: "ruleset_error + unit" and es assume es: "es = [(abi, answer)]"
    show "writes (case answer of
         Inl (HandleAccesses x) \<Rightarrow> negotiate (\<lambda>abi. noting (Pair abi) (probe abi)) abis
       | Inl e \<Rightarrow> io_fail (landlock_failed e) | Inr _ \<Rightarrow> io_ret abi) (\<lambda>r es'. ladder_log (abi # abis) r (es @ es'))"
    proof (cases "unheld answer")
      case True
      then obtain t where t: "answer = Inl (HandleAccesses t)" by (cases answer rule: unheld.cases) auto
      show ?thesis
        unfolding t sum.case ruleset_error.case
        by (rule writes_mono[OF Cons]) (simp add: es t ladder_log_later)
    next
      case False
      have stop: "ladder_log (abi # abis) (case answer of Inr _ \<Rightarrow> Inr abi | Inl e \<Rightarrow> Inl (landlock_failed e)) (es @ [])"
        using False by (auto simp: ladder_log_def es split: sum.splits intro!: exI[of _ "[]"])
      show ?thesis
      proof (cases answer)
        case (Inl e)
        with False obtain t where "e = OtherRuleset t" by (cases e) auto
        with Inl stop show ?thesis by (auto intro!: writes_fail)
      next
        case (Inr u)
        with stop show ?thesis by (auto intro!: writes_ret)
      qed
    qed
  qed
qed

text \<open>
  The ABI a ruleset is built at is the newest one the kernel will hold in full: the rungs are
  asked newest first, each next one only when the kernel named rights it lacks; the first it accepts is
  the answer. Any other error refuses at once, with the kernel's reason, and a kernel that
  lacks rights at every rung is refused as below the baseline.
\<close>

lemma newest_abi:
  "writes (negotiated_abi_from (\<lambda>abi. noting (Pair abi) (probe abi))) (ladder_log [V9, V8, V7, V6, V5])"
  unfolding negotiated_abi_from_def NEGOTIABLE_ABI_def LATEST_ABI_def BASELINE_ABI_def
  by (rule writes_negotiate)

end
