(* ===== verification/Audit_Trail.thy ===== *)
theory Audit_Trail
  imports Policy
begin

text \<open>
  The audit trail (\<open>audit_event.rs\<close>) and the ids that pair its records (\<open>spawn_id.rs\<close>): what each
  record carries and the fields it is emitted with. \<open>tracing\<close> is outside, so emitting is an effect
  the callers take; \<open>Debug\<close> of a list of strings is an argument of \<open>args_field\<close>, its escapes being
  Unicode tables.
\<close>

section \<open>Run ids (spawn_id.rs)\<close>

definition hex_char :: "nat \<Rightarrow> char" where
  "hex_char d = (if d < 10 then char_of (48 + d) else char_of (87 + d))"

fun hex_nat :: "nat \<Rightarrow> string" where
  "hex_nat n = (if n < 16 then [hex_char n] else hex_nat (n div 16) @ [hex_char (n mod 16)])"

declare hex_nat.simps [simp del]

text \<open>
  The statics of the process: the nonce once it is made, and how many runs were opened. \<open>fetch_add\<close>
  wraps at 64 bits.
\<close>

record spawn_state =
  sn_nonce :: "string option"
  sn_spawns :: u64

definition spawn_nonce :: "nat \<Rightarrow> nat option \<Rightarrow> string" where
  "spawn_nonce pid clock =
     (let nanos = (case clock of None \<Rightarrow> 0 | Some since \<Rightarrow> since)
      in hex_nat pid @ ''.'' @ hex_nat nanos)"

definition next_spawn_id :: "nat \<Rightarrow> nat option \<Rightarrow> spawn_state \<Rightarrow> string \<times> spawn_state" where
  "next_spawn_id pid clock s =
     (let nonce = (case sn_nonce s of Some n \<Rightarrow> n | None \<Rightarrow> spawn_nonce pid clock)
      in (nonce @ ''.'' @ dec_nat (unat (sn_spawns s)),
          \<lparr>sn_nonce = Some nonce, sn_spawns = sn_spawns s + 1\<rparr>))"

text \<open>The ids of a whole process: one per run, whatever the clock says when each is asked for.\<close>

fun spawn_ids :: "nat \<Rightarrow> nat option list \<Rightarrow> spawn_state \<Rightarrow> string list" where
  "spawn_ids pid [] s = []"
| "spawn_ids pid (clock # clocks) s =
     (case next_spawn_id pid clock s of (i, s') \<Rightarrow> i # spawn_ids pid clocks s')"

section \<open>Records\<close>

definition ARGS_CAP :: nat where "ARGS_CAP = 512"
definition SESSION_ABSENT :: string where "SESSION_ABSENT = ''-''"
definition SPAWN_ABSENT :: string where "SPAWN_ABSENT = ''-''"

datatype pinning = Pinned | Unpinned

definition pinning_of :: "'d option \<Rightarrow> pinning" where
  "pinning_of pin = (case pin of Some _ \<Rightarrow> Pinned | None \<Rightarrow> Unpinned)"

definition ellipsis :: string where
  "ellipsis = map char_of [0xE2, 0x80, 0xA6 :: nat]"

definition args_field :: "(string list \<Rightarrow> string) \<Rightarrow> string list \<Rightarrow> string" where
  "args_field debug args =
     (let rendered = debug args; out = take_chars ARGS_CAP rendered
      in if out \<noteq> rendered then out @ ellipsis else out)"

datatype audit_event =
    EvAllowed (ev_session: string) (ev_tool: string) (ev_subject: string)
  | EvAbsent (ev_session: string) (ev_tool: string) (ev_subject: string)
  | EvDenied (ev_session: string) (ev_tool: string) (ev_subject: string) (ev_reason: string)
  | EvDegraded (ev_mechanism: string) (ev_spawn: string) (ev_session: string) (ev_detail: string)
  | EvSpawned (ev_spawn: string) (ev_session: string) (ev_program: string)
      (ev_readable: nat) (ev_writable: nat) (ev_executable: nat)
      (ev_network: string) (ev_network_ports: nat) (ev_unix_sockets: bool) (ev_env: nat)
      (ev_dns_over_tcp: bool) (ev_dns_names: nat) (ev_pinned: bool) (ev_args: string)
  | EvExited (ev_spawn: string) (ev_session: string) (ev_program: string) (ev_code: int)
  | EvFailed (ev_spawn: string) (ev_session: string) (ev_program: string) (ev_reason: string)

definition session_field :: "string option \<Rightarrow> string" where
  "session_field s = (case s of None \<Rightarrow> SESSION_ABSENT | Some i \<Rightarrow> i)"

definition ev_allowed :: "string \<Rightarrow> string option \<Rightarrow> string \<Rightarrow> audit_event" where
  "ev_allowed tool session subject = EvAllowed (session_field session) tool subject"

definition ev_absent :: "string \<Rightarrow> string option \<Rightarrow> string \<Rightarrow> audit_event" where
  "ev_absent tool session subject = EvAbsent (session_field session) tool subject"

definition ev_denied :: "string \<Rightarrow> string option \<Rightarrow> string \<Rightarrow> string \<Rightarrow> audit_event" where
  "ev_denied tool session subject reason = EvDenied (session_field session) tool subject reason"

definition ev_degraded :: "string \<Rightarrow> string option \<Rightarrow> string option \<Rightarrow> string \<Rightarrow> audit_event" where
  "ev_degraded mechanism spawn session detail =
     EvDegraded mechanism (case spawn of None \<Rightarrow> SPAWN_ABSENT | Some i \<Rightarrow> i) (session_field session) detail"

definition ev_spawned ::
  "string \<Rightarrow> string \<Rightarrow> string \<Rightarrow> string option \<Rightarrow> sandbox_policy \<Rightarrow> pinning \<Rightarrow> audit_event" where
  "ev_spawned program args spawn session p pin =
     (let (network, network_ports) =
            (case sp_network p of
               NetDenied \<Rightarrow> (''denied'', 0) | AnyPort \<Rightarrow> (''any'', 0) | Ports ports \<Rightarrow> (''ports'', length ports))
      in EvSpawned spawn (session_field session) program
           (length (paths p AxRead)) (length (paths p AxWrite)) (length (paths p AxReadExecute))
           network network_ports (sp_unix_sockets p) (length (sp_env p))
           (sp_dns_over_tcp p) (length (sp_dns_names p)) (pin = Pinned) args)"

definition ev_exited :: "string \<Rightarrow> string \<Rightarrow> string option \<Rightarrow> int \<Rightarrow> audit_event" where
  "ev_exited program spawn session code = EvExited spawn (session_field session) program code"

definition ev_failed :: "string \<Rightarrow> string \<Rightarrow> string option \<Rightarrow> string \<Rightarrow> audit_event" where
  "ev_failed program spawn session reason = EvFailed spawn (session_field session) program reason"

section \<open>The fields on the trail\<close>

datatype field_value = FText string | FNat nat | FInt int | FBool bool

fun emitted :: "audit_event \<Rightarrow> (string \<times> field_value) list" where
  "emitted (EvAllowed session tool subject) =
     [(''decision'', FText ''allowed''), (''session'', FText session), (''tool'', FText tool),
      (''subject'', FText subject)]"
| "emitted (EvAbsent session tool subject) =
     [(''decision'', FText ''absent''), (''session'', FText session), (''tool'', FText tool),
      (''subject'', FText subject)]"
| "emitted (EvDenied session tool subject reason) =
     [(''decision'', FText ''denied''), (''session'', FText session), (''tool'', FText tool),
      (''subject'', FText subject), (''reason'', FText reason)]"
| "emitted (EvDegraded mechanism spawn session detail) =
     [(''decision'', FText ''degraded''), (''spawn'', FText spawn), (''session'', FText session),
      (''mechanism'', FText mechanism), (''detail'', FText detail)]"
| "emitted (EvSpawned spawn session program readable writable executable network network_ports
       unix_sockets env dns_over_tcp dns_names pinned args) =
     [(''decision'', FText ''spawned''), (''spawn'', FText spawn), (''session'', FText session),
      (''program'', FText program), (''readable'', FNat readable), (''writable'', FNat writable),
      (''executable'', FNat executable), (''network'', FText network),
      (''network_ports'', FNat network_ports), (''unix_sockets'', FBool unix_sockets),
      (''env'', FNat env), (''dns_over_tcp'', FBool dns_over_tcp), (''dns_names'', FNat dns_names),
      (''pinned'', FBool pinned), (''args'', FText args)]"
| "emitted (EvExited spawn session program code) =
     [(''decision'', FText ''exited''), (''spawn'', FText spawn), (''session'', FText session),
      (''program'', FText program), (''code'', FInt code)]"
| "emitted (EvFailed spawn session program reason) =
     [(''decision'', FText ''failed''), (''spawn'', FText spawn), (''session'', FText session),
      (''program'', FText program), (''reason'', FText reason)]"

section \<open>Run ids are never given twice\<close>

lemma map_upt_first: "map f [0..<Suc n] = f 0 # map (\<lambda>i. f (Suc i)) [0..<n]"
  by (induction n) auto

lemma spawn_ids_from:
  assumes "sn_nonce s = Some nonce"
  shows "spawn_ids pid clocks s
    = map (\<lambda>i. nonce @ ''.'' @ dec_nat (unat (sn_spawns s + of_nat i))) [0..<length clocks]"
  using assms
proof (induction clocks arbitrary: s)
  case (Cons clock clocks)
  from Cons.prems show ?case
    unfolding list.size(4) add_Suc_right add_0_right map_upt_first
    by (simp add: next_spawn_id_def Let_def Cons.IH algebra_simps)
qed simp

lemma dec_nat_inject [simp]: "dec_nat n = dec_nat m \<longleftrightarrow> n = m"
  by (metis dec_value_dec_nat)

lemma spawn_ids_distinct:
  assumes "length clocks \<le> 2 ^ 64"
  shows "distinct (spawn_ids pid clocks s)"
proof (cases clocks)
  case (Cons clock later)
  define s' where "s' = snd (next_spawn_id pid clock s)"
  define nonce where "nonce = the (sn_nonce s')"
  have s': "sn_nonce s' = Some nonce" "sn_spawns s' = sn_spawns s + 1"
    and first: "fst (next_spawn_id pid clock s) = nonce @ ''.'' @ dec_nat (unat (sn_spawns s))"
    by (simp_all add: s'_def nonce_def next_spawn_id_def Let_def)
  have "spawn_ids pid clocks s
      = map (\<lambda>i. nonce @ ''.'' @ dec_nat (unat (sn_spawns s + of_nat i))) [0..<length clocks]"
    unfolding Cons list.size(4) add_Suc_right add_0_right map_upt_first
    using first spawn_ids_from[OF s'(1), of pid later] s'(2)
    by (cases "next_spawn_id pid clock s") (simp add: s'_def algebra_simps)
  moreover have "inj_on (\<lambda>i. sn_spawns s + of_nat i) {0..<length clocks}"
  proof (rule inj_onI)
    fix i j assume "i \<in> {0..<length clocks}" "j \<in> {0..<length clocks}" "sn_spawns s + of_nat i = sn_spawns s + of_nat j"
    moreover then have "(of_nat i :: u64) = of_nat j" by simp
    ultimately show "i = j" using assms by (simp add: of_nat_eq_iff word_of_nat_eq_iff take_bit_nat_eq_self)
  qed
  ultimately show ?thesis
    by (simp add: distinct_map inj_on_def word_unat_eq_iff[symmetric])
qed simp

end
