(* ===== verification/Supervision.thy ===== *)
theory Supervision
  imports Helper_Args Audit_Trail
begin

text \<open>
  Running a command under a policy (\<open>sandboxed_command.rs\<close>) and the host's entry into helper mode
  (\<open>command_dispatch.rs\<close>): the argv, the spawn with and without a deadline, the audit channel and
  the two records of a run. Processes, pipes, the clock and the trail are the fields of \<open>run_os\<close>,
  each taking and returning the world; the threads that drain a pipe are seen as whether they are
  finished and what they have read so far. A wait that may never end is None.
\<close>

section \<open>The command\<close>

datatype exit_status = ExitCode int | ExitSignal int | ExitOther

definition exit_code :: "exit_status \<Rightarrow> int" where
  "exit_code s = (case s of ExitCode c \<Rightarrow> c | ExitSignal n \<Rightarrow> 128 + n | ExitOther \<Rightarrow> 1)"

record run_output =
  out_status :: exit_status
  out_stdout :: string
  out_stderr :: string

record sandboxed_command =
  cm_program :: string
  cm_args :: "string list"
  cm_policy :: sandbox_policy
  cm_helper :: "string option"
  cm_timeout :: "nat option"
  cm_pin :: "u8 list option"
  cm_session :: "string option"

definition new_command :: "string \<Rightarrow> sandbox_policy \<Rightarrow> sandboxed_command" where
  "new_command program p = \<lparr>cm_program = program, cm_args = [], cm_policy = p, cm_helper = None,
     cm_timeout = None, cm_pin = None, cm_session = None\<rparr>"

definition cm_arg :: "string \<Rightarrow> sandboxed_command \<Rightarrow> sandboxed_command" where
  "cm_arg a c = c\<lparr>cm_args := cm_args c @ [a]\<rparr>"

definition cm_more_args :: "string list \<Rightarrow> sandboxed_command \<Rightarrow> sandboxed_command" where
  "cm_more_args as c = c\<lparr>cm_args := cm_args c @ as\<rparr>"

definition with_helper :: "string \<Rightarrow> sandboxed_command \<Rightarrow> sandboxed_command" where
  "with_helper path c = c\<lparr>cm_helper := Some path\<rparr>"

definition with_timeout :: "nat \<Rightarrow> sandboxed_command \<Rightarrow> sandboxed_command" where
  "with_timeout limit c = c\<lparr>cm_timeout := Some limit\<rparr>"

definition with_session :: "string \<Rightarrow> sandboxed_command \<Rightarrow> sandboxed_command" where
  "with_session session c = c\<lparr>cm_session := Some session\<rparr>"

definition with_pin :: "u8 list \<Rightarrow> sandboxed_command \<Rightarrow> sandboxed_command" where
  "with_pin digest c = c\<lparr>cm_pin := Some digest\<rparr>"

text \<open>Durations are in nanoseconds.\<close>

definition POLL_INTERVAL :: nat where "POLL_INTERVAL = 10000000"
definition DRAIN_GRACE :: nat where "DRAIN_GRACE = 200000000"
definition SELF_EXE :: string where "SELF_EXE = ''/proc/self/exe''"

definition HELPER_FLAG :: string where "HELPER_FLAG = ''--sandbx-core-exec''"
definition HELPER_INNER_FLAG :: string where "HELPER_INNER_FLAG = ''--sandbx-core-exec-inner''"
definition AUDIT_STDIN_FLAG :: string where "AUDIT_STDIN_FLAG = ''--sandbx-audit-stdin''"
definition HELPER_FAILURE_PREFIX :: string where
  "HELPER_FAILURE_PREFIX = ''sandbx: sandbox helper failed: ''"

section \<open>The system\<close>

text \<open>What the helper is spawned with; its stdin is the audit channel's write end.\<close>

record spawn_request =
  rq_program :: string
  rq_argv :: "string list"
  rq_env :: "string \<rightharpoonup> string"
  rq_directory :: "string option"
  rq_own_group :: bool

text \<open>
  \<open>ro_output\<close> is \<open>Command::output\<close>; \<open>ro_drained\<close> tells whether both readers of a child are done,
  \<open>ro_taken\<close> takes what they have collected. \<open>ro_lookup\<close> and \<open>ro_canonicalize\<close> are the environment
  and the names the policy's own questions read.
\<close>

record ('w, 'p, 'c) run_os =
  ro_read_link :: "string \<Rightarrow> ('w, io_error, string) io"
  ro_canonicalize :: "string \<Rightarrow> string option"
  ro_is_dir :: "string \<Rightarrow> bool"
  ro_lookup :: "string \<Rightarrow> string option"
  ro_lossy :: "string \<Rightarrow> string"
  ro_trimmed :: "string \<Rightarrow> string"
  ro_debug :: "string list \<Rightarrow> string"
  ro_pipe :: "('w, io_error, 'p) io"
  ro_read_channel :: "'p \<Rightarrow> ('w, io_error, string) io"
  ro_spawn_id :: "'w \<Rightarrow> string \<times> 'w"
  ro_output :: "spawn_request \<Rightarrow> ('w, io_error, run_output) io"
  ro_spawn :: "spawn_request \<Rightarrow> ('w, io_error, 'c) io"
  ro_child_id :: "'c \<Rightarrow> nat"
  ro_try_wait :: "'c \<Rightarrow> ('w, io_error, exit_status option) io"
  ro_reap :: "'c \<Rightarrow> 'w \<Rightarrow> 'w"
  ro_kill_group :: "nat \<Rightarrow> 'w \<Rightarrow> 'w"
  ro_now :: "'w \<Rightarrow> nat \<times> 'w"
  ro_sleep :: "nat \<Rightarrow> 'w \<Rightarrow> 'w"
  ro_drained :: "'c \<Rightarrow> 'w \<Rightarrow> bool \<times> 'w"
  ro_taken :: "'c \<Rightarrow> 'w \<Rightarrow> (string \<times> string) \<times> 'w"
  ro_emit :: "audit_event \<Rightarrow> 'w \<Rightarrow> 'w"

section \<open>The command line\<close>

record command_line =
  cl_helper :: string
  cl_argv :: "string list"

definition self_exe :: "(string \<Rightarrow> ('w, io_error, string) io) \<Rightarrow> ('w, sandbox_error, string) io" where
  "self_exe read_link =
     io_bind (io_map_err (SpawnFailed ''could not locate the running executable to re-exec as the sandbox helper'')
               (read_link SELF_EXE))
       (\<lambda>_. io_ret SELF_EXE)"

definition make_command_line :: "('w, 'p, 'c) run_os \<Rightarrow> sandboxed_command \<Rightarrow> ('w, sandbox_error, command_line) io" where
  "make_command_line os c =
     (case unbounded_resolution (cm_policy c) of
        Some detail \<Rightarrow> io_fail (UnboundedResolution detail)
      | None \<Rightarrow>
          (case grant_bound_by_resolver (ro_canonicalize os) (cm_policy c) of
             Some granted \<Rightarrow> io_fail (GrantBoundByResolver granted)
           | None \<Rightarrow>
               io_bind (case cm_helper c of Some h \<Rightarrow> io_ret h | None \<Rightarrow> self_exe (ro_read_link os)) (\<lambda>helper.
                 io_ret \<lparr>cl_helper = helper,
                   cl_argv = [HELPER_FLAG, AUDIT_STDIN_FLAG]
                     @ encode_args (ro_lossy os) (cm_policy c) (cm_program c) (cm_args c) (cm_pin c)\<rparr>)))"

definition helper_command ::
  "('w, 'p, 'c) run_os \<Rightarrow> string \<Rightarrow> string list \<Rightarrow> sandbox_policy \<Rightarrow> spawn_request" where
  "helper_command os helper argv p =
     \<lparr>rq_program = helper, rq_argv = argv, rq_env = spawn_env (ro_lookup os) p,
      rq_directory = working_root (ro_is_dir os) p, rq_own_group = False\<rparr>"

section \<open>Running it\<close>

definition START_FAILED :: string where "START_FAILED = ''could not start the sandbox helper''"

definition run_to_completion ::
  "('w, 'p, 'c) run_os \<Rightarrow> string \<Rightarrow> string list \<Rightarrow> sandbox_policy \<Rightarrow> ('w, sandbox_error, run_output) io" where
  "run_to_completion os helper argv p =
     io_map_err (SpawnFailed START_FAILED) (ro_output os (helper_command os helper argv p))"

definition audit_channel :: "('w, 'p, 'c) run_os \<Rightarrow> ('w, sandbox_error, 'p) io" where
  "audit_channel os =
     io_map_err (SpawnFailed ''could not open a channel for the sandbox helper's audit records'') (ro_pipe os)"

fun emit_reports ::
  "('w, 'p, 'c) run_os \<Rightarrow> string \<Rightarrow> string option \<Rightarrow> report list \<Rightarrow> helper_refusal option \<Rightarrow> 'w
     \<Rightarrow> helper_refusal option \<times> 'w" where
  "emit_reports os spawn session [] refused = st_ret refused"
| "emit_reports os spawn session (Degraded d # reports) refused =
     st_bind (st_do (ro_emit os (ev_degraded (degradation_label (dg_step d)) (Some spawn) session (dg_detail d))))
       (\<lambda>_. emit_reports os spawn session reports refused)"
| "emit_reports os spawn session (Failed r # reports) refused =
     emit_reports os spawn session reports (Some r)"

definition record_reports ::
  "('w, 'p, 'c) run_os \<Rightarrow> 'p \<Rightarrow> string \<Rightarrow> string option \<Rightarrow> 'w \<Rightarrow> helper_refusal option \<times> 'w" where
  "record_reports os audit spawn session =
     st_bind (ro_read_channel os audit) (\<lambda>records.
       case records of
         Inl _ \<Rightarrow> st_ret None
       | Inr records \<Rightarrow> emit_reports os spawn session (decode records) None)"

text \<open>The poll for the child's exit: a status, None at the deadline, or why the wait failed.\<close>

partial_function (option) poll_exit ::
  "('w, 'p, 'c) run_os \<Rightarrow> 'c \<Rightarrow> nat \<Rightarrow> 'w \<Rightarrow> ((sandbox_error + exit_status option) \<times> 'w) option" where
  "poll_exit os child deadline w =
     (case ro_try_wait os child w of
        (Inl source, w1) \<Rightarrow> Some (Inl (SpawnFailed START_FAILED source), w1)
      | (Inr (Some status), w1) \<Rightarrow> Some (Inr (Some status), w1)
      | (Inr None, w1) \<Rightarrow>
          (case ro_now os w1 of (now, w2) \<Rightarrow>
             if now \<ge> deadline then Some (Inr None, w2)
             else poll_exit os child deadline (ro_sleep os POLL_INTERVAL w2)))"

partial_function (option) settle_loop ::
  "('w, 'p, 'c) run_os \<Rightarrow> 'c \<Rightarrow> nat \<Rightarrow> 'w \<Rightarrow> (unit \<times> 'w) option" where
  "settle_loop os child until w =
     (case ro_now os w of (now, w1) \<Rightarrow>
        if now \<ge> until then Some ((), w1)
        else (case ro_drained os child w1 of (drained, w2) \<Rightarrow>
          if drained then Some ((), w2)
          else settle_loop os child until (ro_sleep os POLL_INTERVAL w2)))"

definition settle_readers :: "('w, 'p, 'c) run_os \<Rightarrow> 'c \<Rightarrow> 'w \<Rightarrow> (unit \<times> 'w) option" where
  "settle_readers os child w =
     (case ro_now os w of (now, w1) \<Rightarrow> settle_loop os child (now + DRAIN_GRACE) w1)"

text \<open>\<open>kill_group\<close>: a pid that is no \<open>i32\<close> names no group.\<close>

definition kill_group :: "('w, 'p, 'c) run_os \<Rightarrow> nat \<Rightarrow> 'w \<Rightarrow> 'w" where
  "kill_group os pgid w = (if pgid < 2 ^ 31 then ro_kill_group os pgid w else w)"

definition run_with_deadline ::
  "('w, 'p, 'c) run_os \<Rightarrow> string \<Rightarrow> string list \<Rightarrow> sandbox_policy \<Rightarrow> nat \<Rightarrow> 'w
     \<Rightarrow> ((sandbox_error + run_output) \<times> 'w) option" where
  "run_with_deadline os helper argv p limit w =
     (case ro_spawn os ((helper_command os helper argv p)\<lparr>rq_own_group := True\<rparr>) w of
        (Inl source, w1) \<Rightarrow> Some (Inl (SpawnFailed START_FAILED source), w1)
      | (Inr child, w1) \<Rightarrow>
          (case ro_now os w1 of (start, w2) \<Rightarrow>
             (case poll_exit os child (start + limit) w2 of
                None \<Rightarrow> None
              | Some (finished, w3) \<Rightarrow>
                  (let w4 = kill_group os (ro_child_id os child) w3
                   in case finished of
                        Inr (Some status) \<Rightarrow>
                          (case settle_readers os child w4 of
                             None \<Rightarrow> None
                           | Some (_, w5) \<Rightarrow>
                               (case ro_taken os child w5 of ((stdout, stderr), w6) \<Rightarrow>
                                  Some (Inr \<lparr>out_status = status, out_stdout = stdout, out_stderr = stderr\<rparr>, w6)))
                      | outcome \<Rightarrow>
                          (case settle_readers os child (ro_reap os child w4) of
                             None \<Rightarrow> None
                           | Some (_, w5) \<Rightarrow>
                               Some (Inl (case outcome of Inl e \<Rightarrow> e | Inr _ \<Rightarrow> CommandTimedOut limit), w5))))))"

definition outcome_event ::
  "sandboxed_command \<Rightarrow> string \<Rightarrow> sandbox_error + run_output \<Rightarrow> helper_refusal option \<Rightarrow> audit_event" where
  "outcome_event c spawn result refused =
     (case (result, refused) of
        (_, Some refusal) \<Rightarrow> ev_failed (cm_program c) spawn (cm_session c) (refusal_label refusal)
      | (Inr out, None) \<Rightarrow> ev_exited (cm_program c) spawn (cm_session c) (exit_code (out_status out))
      | (Inl error, None) \<Rightarrow> ev_failed (cm_program c) spawn (cm_session c) (error_label error))"

definition run_helper ::
  "('w, 'p, 'c) run_os \<Rightarrow> sandboxed_command \<Rightarrow> command_line \<Rightarrow> 'w \<Rightarrow> ((sandbox_error + run_output) \<times> 'w) option" where
  "run_helper os c line w =
     (case cm_timeout c of
        None \<Rightarrow> Some (run_to_completion os (cl_helper line) (cl_argv line) (cm_policy c) w)
      | Some limit \<Rightarrow> run_with_deadline os (cl_helper line) (cl_argv line) (cm_policy c) limit w)"

definition run_command ::
  "('w, 'p, 'c) run_os \<Rightarrow> sandboxed_command \<Rightarrow> 'w \<Rightarrow> ((sandbox_error + run_output) \<times> 'w) option" where
  "run_command os c w =
     (case make_command_line os c w of
        (Inl e, w1) \<Rightarrow> Some (Inl e, w1)
      | (Inr line, w1) \<Rightarrow>
          (case audit_channel os w1 of
             (Inl e, w2) \<Rightarrow> Some (Inl e, w2)
           | (Inr audit, w2) \<Rightarrow>
               (case ro_spawn_id os w2 of (spawn, w3) \<Rightarrow>
                  (let args = args_field (ro_debug os) (cm_args c);
                       w4 = ro_emit os (ev_spawned (cm_program c) args spawn (cm_session c) (cm_policy c)
                              (pinning_of (cm_pin c))) w3
                   in case run_helper os c line w4 of
                        None \<Rightarrow> None
                      | Some (result, w5) \<Rightarrow>
                          (case record_reports os audit spawn (cm_session c) w5 of (refused, w6) \<Rightarrow>
                             (let w7 = ro_emit os (outcome_event c spawn result refused) w6
                              in Some ((case (result, refused) of
                                          (Inr out, Some refusal) \<Rightarrow>
                                            Inl (relayed (ro_trimmed os) HELPER_FAILURE_PREFIX refusal (out_stderr out))
                                        | (result, _) \<Rightarrow> result), w7)))))))"

section \<open>Helper dispatch (command_dispatch.rs)\<close>

datatype ('w, 'x) dispatched = Returned 'x 'w | HelperFailed string 'w

text \<open>
  The two stages never return but to fail; \<open>ordinary\<close> is the program's own main. A failure is
  printed with the prefix the parent strips.
\<close>

definition with_helper_dispatch ::
  "(sandbox_error \<Rightarrow> string) \<Rightarrow> (string list \<Rightarrow> 'w \<Rightarrow> sandbox_error \<times> 'w) \<Rightarrow> (string list \<Rightarrow> 'w \<Rightarrow> sandbox_error \<times> 'w)
     \<Rightarrow> ('w \<Rightarrow> 'x \<times> 'w) \<Rightarrow> string list \<Rightarrow> 'w \<Rightarrow> ('w, 'x) dispatched" where
  "with_helper_dispatch etext exec_outer exec_inner ordinary argv w =
     (let own = (case ordinary w of (x, w') \<Rightarrow> Returned x w');
          failed = (\<lambda>(e, w'). HelperFailed (HELPER_FAILURE_PREFIX @ etext e) w')
      in case argv of
           _ # flag # args \<Rightarrow>
             if flag = HELPER_FLAG then failed (exec_outer args w)
             else if flag = HELPER_INNER_FLAG then failed (exec_inner args w)
             else own
         | _ \<Rightarrow> own)"

end
