(* ===== verification/Hardening.thy ===== *)
theory Hardening
  imports Helper_Args Seccomp_Filter Resolver Ruleset Supervision
begin

text \<open>
  The process state a sandboxed run depends on besides Landlock and seccomp
  (\<open>helper_hardening.rs\<close>): namespaces, capability sets, the core limit, the tie to the supervisor.
  Every call of either helper stage is a field of \<open>stage_os\<close>; the resolver's, the ruleset's and the
  pin's systems are parts of it. An errno and an error of a crate carry how they are displayed.
\<close>

datatype clone_flag = CLONE_NEWUSER | CLONE_NEWPID | CLONE_NEWNET | CLONE_NEWNS

datatype cap_set = CapBounding | CapEffective | CapPermitted | CapInheritable | CapAmbient

datatype wait_event = WExited nat int | WSignaled nat int | WOther

text \<open>What \<open>spawn::command\<close> starts: the environment is the policy's alone.\<close>

record stage_request =
  sr_program :: string
  sr_arg0 :: "string option"
  sr_args :: "string list"
  sr_env :: "string \<rightharpoonup> string"

record ('w, 'fd, 'rs, 'rc, 'r, 'n) stage_os =
  so_resolve :: "('w, 'fd) resolve_os"
  so_landlock :: "('w, 'fd, 'rs, 'rc, 'r, 'n) landlock_os"
  so_pin :: "('w, 'fd) pin_os"
  so_compile :: compiler
  so_rule_text :: "sc_error \<Rightarrow> string"
  so_number :: "sysname \<Rightarrow> int"
  so_filter :: "insn list \<Rightarrow> 'w \<Rightarrow> (string + unit) \<times> 'w"
  so_environ :: "(string \<times> string) list"
  so_pid :: nat
  so_uid :: nat
  so_gid :: nat
  so_errno_text :: "errno \<Rightarrow> string"
  so_io_text :: "io_error \<Rightarrow> string"
  so_raw_fd :: "'fd \<Rightarrow> nat"
  so_read_link :: "string \<Rightarrow> ('w, io_error, string) io"
  so_pdeathsig :: "('w, errno, unit) io"
  so_read_stat :: "('w, io_error, string) io"
  so_no_new_privs :: "('w, errno, unit) io"
  so_unshare :: "clone_flag list \<Rightarrow> ('w, errno, unit) io"
  so_write_file :: "string \<Rightarrow> string \<Rightarrow> ('w, io_error, unit) io"
  so_clear_caps :: "cap_set \<Rightarrow> ('w, string, unit) io"
  so_rlimit_core :: "('w, errno, unit) io"
  so_undumpable :: "('w, errno, unit) io"
  so_dup_stdin :: "('w, io_error, 'fd) io"
  so_open_null :: "('w, io_error, 'fd) io"
  so_dup2_stdin :: "'fd \<Rightarrow> ('w, errno, unit) io"
  so_write_fd :: "'fd \<Rightarrow> string \<Rightarrow> ('w, io_error, unit) io"
  so_start :: "stage_request \<Rightarrow> ('w, io_error, nat) io"
  so_wait_child :: "nat \<Rightarrow> ('w, io_error, exit_status) io"
  so_wait :: "('w, errno, wait_event) io"
  so_raise :: "int \<Rightarrow> 'w \<Rightarrow> 'w"
  so_signal_known :: "int \<Rightarrow> bool"

definition set_no_new_privs ::
  "('w, 'fd, 'rs, 'rc, 'r, 'n) stage_os \<Rightarrow> ('w, sandbox_error, unit) io" where
  "set_no_new_privs os =
     io_map_err (\<lambda>e. Seccomp (''could not set no_new_privs: '' @ so_errno_text os e)) (so_no_new_privs os)"

section \<open>The supervisor's own process (stage 1)\<close>

definition isolate_flags :: "sandbox_policy \<Rightarrow> clone_flag list" where
  "isolate_flags p =
     [CLONE_NEWUSER, CLONE_NEWPID]
     @ (if \<not> allows_network p then [CLONE_NEWNET] else [])
     @ (if bounds_resolution p then [CLONE_NEWNS] else [])"

fun write_maps ::
  "(string \<Rightarrow> string \<Rightarrow> ('w, io_error, unit) io) \<Rightarrow> (string \<times> string) list \<Rightarrow> 'w \<Rightarrow> io_error option \<times> 'w" where
  "write_maps write [] = st_ret None"
| "write_maps write ((path, contents) # maps) =
     st_bind (write path contents) (\<lambda>r.
       case r of Inl e \<Rightarrow> st_ret (Some e) | Inr _ \<Rightarrow> write_maps write maps)"

definition map_identity_into_userns ::
  "('w, 'fd, 'rs, 'rc, 'r, 'n) stage_os \<Rightarrow> nat \<Rightarrow> nat \<Rightarrow> 'w \<Rightarrow> degraded option \<times> 'w" where
  "map_identity_into_userns os uid gid =
     st_bind (write_maps (so_write_file os)
         [(''/proc/self/setgroups'', ''deny''),
          (''/proc/self/gid_map'', dec_nat gid @ '' '' @ dec_nat gid @ '' 1''),
          (''/proc/self/uid_map'', dec_nat uid @ '' '' @ dec_nat uid @ '' 1'')])
       (\<lambda>refused. st_ret (map_option (\<lambda>e.
          \<lparr>dg_step = UsernsIdentityMap, dg_detail = ''running as nobody: '' @ so_io_text os e\<rparr>) refused))"

definition unshare_refused :: "errno \<Rightarrow> string" where
  "unshare_refused e =
     (if e = EPERM then
        ''kernel refused an unprivileged user namespace; unprivileged userns may be disabled (see kernel.unprivileged_userns_clone and kernel.apparmor_restrict_unprivileged_userns)''
      else ''could not create the sandbox namespaces'')"

definition isolate ::
  "('w, 'fd, 'rs, 'rc, 'r, 'n) stage_os \<Rightarrow> sandbox_policy \<Rightarrow> ('w, sandbox_error, degraded option) io" where
  "isolate os p =
     io_bind (io_map_err (\<lambda>e. NamespaceSetupFailed (unshare_refused e)) (so_unshare os (isolate_flags p))) (\<lambda>_.
       st_bind (map_identity_into_userns os (so_uid os) (so_gid os)) io_ret)"

definition drop_bounding_set ::
  "('w, string, unit) io \<Rightarrow> 'w \<Rightarrow> degraded option \<times> 'w" where
  "drop_bounding_set clear =
     st_bind clear (\<lambda>r. st_ret (case r of
       Inr _ \<Rightarrow> None
     | Inl e \<Rightarrow> Some \<lparr>dg_step = CapabilityBoundingSet, dg_detail = ''left as inherited: '' @ e\<rparr>))"

fun clear_each ::
  "('w, 'fd, 'rs, 'rc, 'r, 'n) stage_os \<Rightarrow> cap_set list \<Rightarrow> ('w, sandbox_error, unit) io" where
  "clear_each os [] = io_ret ()"
| "clear_each os (s # sets) =
     io_bind (io_map_err ProcessHardening (so_clear_caps os s)) (\<lambda>_. clear_each os sets)"

definition harden_process_state ::
  "('w, 'fd, 'rs, 'rc, 'r, 'n) stage_os \<Rightarrow> ('w, sandbox_error, degraded option) io" where
  "harden_process_state os =
     st_bind (drop_bounding_set (so_clear_caps os CapBounding)) (\<lambda>degraded.
     io_bind (clear_each os [CapEffective, CapPermitted, CapInheritable, CapAmbient]) (\<lambda>_.
     io_bind (io_map_err (\<lambda>e. ProcessHardening (''could not set RLIMIT_CORE: '' @ so_errno_text os e))
               (so_rlimit_core os)) (\<lambda>_. io_ret degraded)))"

definition unresolved_names :: "resolved option \<Rightarrow> degraded list" where
  "unresolved_names r =
     (case r of
        None \<Rightarrow> []
      | Some r \<Rightarrow>
          if rv_unresolved r > 0
          then [\<lparr>dg_step = UnresolvedDnsName,
                 dg_detail = dec_nat (rv_unresolved r) @ '' allowlisted name(s) resolved to no address''\<rparr>]
          else [])"

definition list_of :: "'a option \<Rightarrow> 'a list" where
  "list_of x = (case x of None \<Rightarrow> [] | Some y \<Rightarrow> [y])"

definition prepare_supervisor ::
  "('w, 'fd, 'rs, 'rc, 'r, 'n) stage_os \<Rightarrow> sandbox_policy \<Rightarrow> ('w, sandbox_error, degraded list) io" where
  "prepare_supervisor os p =
     st_bind (resolver_files (so_resolve os) p) (\<lambda>resolved.
     io_bind (isolate os p) (\<lambda>unmapped.
     io_bind (bound_resolution (so_resolve os) (map_option rv_files resolved)) (\<lambda>_.
     io_bind (harden_process_state os) (\<lambda>kept.
     io_bind (set_no_new_privs os) (\<lambda>_.
       io_ret (unresolved_names resolved @ list_of unmapped @ list_of kept))))))"

section \<open>The tie to the supervisor (stage 2)\<close>

definition bind_lifetime_to_supervisor ::
  "('w, 'fd, 'rs, 'rc, 'r, 'n) stage_os \<Rightarrow> ('w, sandbox_error, unit) io" where
  "bind_lifetime_to_supervisor os =
     io_map_err (\<lambda>e. NamespaceSetupFailed
       (if e = EPERM
        then ''kernel refused a parent death signal; the sandboxed command could outlive the call that started it''
        else ''could not bind the command's lifetime to its supervisor''))
       (so_pdeathsig os)"

text \<open>\<open>split_whitespace().nth(n)\<close>, and \<open>rsplit_once\<close>.\<close>

fun word_of :: "string \<Rightarrow> string" where
  "word_of [] = []"
| "word_of (c # s) = (if ws_width (c # s) \<noteq> 0 then [] else c # word_of s)"

fun nth_word :: "nat \<Rightarrow> string \<Rightarrow> string option" where
  "nth_word 0 s = (let s' = trim_start s in if s' = [] then None else Some (word_of s'))"
| "nth_word (Suc n) s =
     (let s' = trim_start s in if s' = [] then None else nth_word n (drop (length (word_of s')) s'))"

definition rsplit_once :: "char \<Rightarrow> string \<Rightarrow> (string \<times> string) option" where
  "rsplit_once c s = map_option (\<lambda>(a, b). (rev b, rev a)) (split_once c (rev s))"

definition ppid_from_stat :: "string \<Rightarrow> string option" where
  "ppid_from_stat stat =
     (case rsplit_once CHR '')'' stat of None \<Rightarrow> None | Some (_, rest) \<Rightarrow> nth_word 1 rest)"

definition confirm_supervisor ::
  "('w, 'fd, 'rs, 'rc, 'r, 'n) stage_os \<Rightarrow> string \<Rightarrow> ('w, sandbox_error, unit) io" where
  "confirm_supervisor os expected =
     io_bind (io_map_err (\<lambda>_. NamespaceSetupFailed
         ''could not read this process's parent to confirm the supervisor is still watching it'')
       (so_read_stat os)) (\<lambda>stat.
       if ppid_from_stat stat = Some expected then io_ret ()
       else io_fail (NamespaceSetupFailed
         ''the supervisor process is gone; refusing to run the command where nothing can reap it''))"

text \<open>
  Whatever the executable's name holds, brackets and spaces included, the parent's pid is read
  from behind the last bracket.
\<close>

lemma rsplit_once_last: "c \<notin> set b \<Longrightarrow> rsplit_once c (a @ c # b) = Some (a, b)"
  by (simp add: rsplit_once_def)

definition visible :: "string \<Rightarrow> bool" where
  "visible s \<longleftrightarrow> list_all (\<lambda>c. (0x20::nat) < of_char c \<and> (of_char c :: nat) < 0x7F) s"

lemma visible_Cons: "visible (c # s) \<longleftrightarrow> visible [c] \<and> visible s"
  by (auto simp: visible_def)

lemma ws_width_visible: "visible [c] \<Longrightarrow> ws_width (c # t) = 0"
  by (auto simp: visible_def ws_width_def split: list.splits)

lemma ws_width_space: "ws_width (CHR '' '' # s) = 1"
  by (simp add: ws_width_def)

lemma word_of_word: "visible w \<Longrightarrow> word_of (w @ CHR '' '' # s) = w"
proof (induction w)
  case (Cons c w)
  from Cons.prems have "visible [c]" "visible w" by (metis visible_Cons)+
  with Cons.IH show ?case by (simp add: ws_width_visible)
qed (simp add: ws_width_space)

lemma trim_start_word:
  assumes "visible w" "w \<noteq> []"
  shows "trim_start (CHR '' '' # w @ s) = w @ s"
proof -
  from assms obtain c w' where w: "w = c # w'" "visible [c]" by (cases w) (metis visible_Cons)+
  have "trim_start (w @ s) = w @ s"
    using w by (simp add: trim_start.simps ws_width_visible)
  moreover have "trim_start (CHR '' '' # w @ s) = trim_start (w @ s)"
    by (subst trim_start.simps) (simp add: ws_width_space)
  ultimately show ?thesis by simp
qed

lemma ppid_from_stat_any_name:
  assumes "visible st" "visible ppid" "st \<noteq> []" "ppid \<noteq> []" "CHR '')'' \<notin> set (st @ ppid @ later)"
  shows "ppid_from_stat (pid @ '' ('' @ comm @ '') '' @ st @ '' '' @ ppid @ '' '' @ later) = Some ppid"
proof -
  let ?rest = "CHR '' '' # st @ CHR '' '' # ppid @ CHR '' '' # later"
  have "rsplit_once CHR '')'' ((pid @ '' ('' @ comm) @ CHR '')'' # ?rest) = Some (pid @ '' ('' @ comm, ?rest)"
    by (rule rsplit_once_last) (use assms in auto)
  moreover have "nth_word 1 ?rest = Some ppid"
    using assms by (simp add: trim_start_word word_of_word Let_def)
  ultimately show ?thesis by (simp add: ppid_from_stat_def)
qed

end
