(* ===== verification/Helper_Exec.thy ===== *)
theory Helper_Exec
  imports Hardening
begin

text \<open>
  The two helper stages (\<open>helper_exec.rs\<close>): the supervisor that makes the namespaces and starts the
  inner stage, and the inner stage that confines itself, starts the command and reaps until it ends.
  A stage ends by refusing, or by exiting as the command did (raising its signal first, where
  stage 1 does). A hash of an endless file or a wait for ever is None.
\<close>

section \<open>Shared by the stages\<close>

datatype stage_end = StageRefused sandbox_error | StageEnded "int option" int

definition split_audit :: "string list \<Rightarrow> bool \<times> string list" where
  "split_audit argv =
     (case argv of
        flag # later \<Rightarrow> if flag = AUDIT_STDIN_FLAG then (True, later) else (False, argv)
      | [] \<Rightarrow> (False, []))"

definition spawn_command ::
  "('w, 'fd, 'rs, 'rc, 'r, 'n) stage_os \<Rightarrow> string \<Rightarrow> sandbox_policy \<Rightarrow> stage_request" where
  "spawn_command os program p =
     \<lparr>sr_program = program, sr_arg0 = None, sr_args = [], sr_env = spawn_env (map_of (so_environ os)) p\<rparr>"

definition report_records ::
  "('w, 'fd, 'rs, 'rc, 'r, 'n) stage_os \<Rightarrow> string \<Rightarrow> 'w \<Rightarrow> unit \<times> 'w" where
  "report_records os records =
     (if records = [] then st_ret ()
      else st_bind (so_dup_stdin os) (\<lambda>channel.
        case channel of
          Inl _ \<Rightarrow> st_ret ()
        | Inr fd \<Rightarrow> st_bind (so_write_fd os fd records) (\<lambda>_. st_ret ())))"

section \<open>Stage 1\<close>

definition start_inner_stage ::
  "('w, 'fd, 'rs, 'rc, 'r, 'n) stage_os \<Rightarrow> string \<Rightarrow> string list \<Rightarrow> bool \<Rightarrow> ('w, sandbox_error, nat) io" where
  "start_inner_stage os exe argv audit =
     io_bind (io_of_sum (decode_args argv)) (\<lambda>request.
     io_bind (prepare_supervisor os (ha_policy request)) (\<lambda>degraded.
     st_bind (if audit then report_records os (encode degraded) else st_ret ()) (\<lambda>_.
       io_map_err (InnerStageFailed ''could not start the inner sandbox stage'')
         (so_start os ((spawn_command os exe (ha_policy request))\<lparr>sr_args :=
            [HELPER_INNER_FLAG, dec_nat (so_pid os)] @ (if audit then [AUDIT_STDIN_FLAG] else []) @ argv\<rparr>)))))"

definition relay ::
  "('w, 'fd, 'rs, 'rc, 'r, 'n) stage_os \<Rightarrow> exit_status \<Rightarrow> 'w \<Rightarrow> stage_end \<times> 'w" where
  "relay os status =
     (case status of
        ExitSignal n \<Rightarrow>
          if so_signal_known os n
          then st_bind (st_do (so_raise os n)) (\<lambda>_. st_ret (StageEnded (Some n) (exit_code status)))
          else st_ret (StageEnded None (exit_code status))
      | _ \<Rightarrow> st_ret (StageEnded None (exit_code status)))"

definition report_refusal ::
  "('w, 'fd, 'rs, 'rc, 'r, 'n) stage_os \<Rightarrow> bool \<Rightarrow> sandbox_error + 'a \<Rightarrow> 'w \<Rightarrow> unit \<times> 'w" where
  "report_refusal os audit outcome =
     (case outcome of
        Inl e \<Rightarrow>
          (case (audit, refusal_of e) of
             (True, Some refusal) \<Rightarrow> report_records os (encode_refusal refusal)
           | _ \<Rightarrow> st_ret ())
      | Inr _ \<Rightarrow> st_ret ())"

definition exec_sandboxed ::
  "('w, 'fd, 'rs, 'rc, 'r, 'n) stage_os \<Rightarrow> string list \<Rightarrow> 'w \<Rightarrow> stage_end \<times> 'w" where
  "exec_sandboxed os argv =
     (case split_audit argv of (audit, argv) \<Rightarrow>
        st_bind (self_exe (so_read_link os)) (\<lambda>exe.
          case exe of
            Inl e \<Rightarrow> st_ret (StageRefused e)
          | Inr exe \<Rightarrow>
              st_bind (start_inner_stage os exe argv audit) (\<lambda>started.
              st_bind (report_refusal os audit started) (\<lambda>_.
                case started of
                  Inl e \<Rightarrow> st_ret (StageRefused e)
                | Inr child \<Rightarrow>
                    st_bind (so_wait_child os child) (\<lambda>waited.
                      case waited of
                        Inl e \<Rightarrow> st_ret (StageRefused (SpawnFailed ''could not wait for the sandboxed command'' e))
                      | Inr status \<Rightarrow> relay os status)))))"

section \<open>Confining this process\<close>

fun add_rules ::
  "('w, 'fd, 'rs, 'rc, 'r, 'n) landlock_os \<Rightarrow> 'r fs_rule list \<Rightarrow> 'rc \<Rightarrow> ('w, sandbox_error, 'rc) io" where
  "add_rules L [] ruleset = io_ret ruleset"
| "add_rules L (rule # rules) ruleset =
     io_bind (open_grant L (fr_target rule)) (\<lambda>fd.
     io_bind (io_map_err landlock_failed (ll_add_path L fd (fr_rights rule) ruleset)) (\<lambda>ruleset.
       add_rules L rules ruleset))"

fun add_ports ::
  "('w, 'fd, 'rs, 'rc, 'r, 'n) landlock_os \<Rightarrow> 'n set \<Rightarrow> u16 list \<Rightarrow> 'rc \<Rightarrow> ('w, sandbox_error, 'rc) io" where
  "add_ports L granted [] ruleset = io_ret ruleset"
| "add_ports L granted (port # ports) ruleset =
     io_bind (io_map_err landlock_failed (ll_add_port L port granted ruleset)) (\<lambda>ruleset.
       add_ports L granted ports ruleset)"

definition build_ruleset ::
  "('w, 'fd, 'rs, 'rc, 'r, 'n) landlock_os \<Rightarrow> ('r, 'n) requested \<Rightarrow> ('w, sandbox_error, 'rc) io" where
  "build_ruleset L rq =
     st_bind (ll_default L) (\<lambda>builder.
     io_bind (io_map_err landlock_failed (ll_handle_fs L (rd_handled rq) builder)) (\<lambda>builder.
     io_bind (case rd_net rq of
                NetUnhandled \<Rightarrow> io_ret builder
              | NetPorts handled _ _ \<Rightarrow> io_map_err landlock_failed (ll_handle_net L handled builder)) (\<lambda>builder.
     io_bind (io_map_err landlock_failed (ll_create L builder)) (\<lambda>ruleset.
     io_bind (add_rules L (rd_rules rq) ruleset) (\<lambda>ruleset.
       case rd_net rq of
         NetUnhandled \<Rightarrow> io_ret ruleset
       | NetPorts _ granted ports \<Rightarrow> add_ports L granted ports ruleset)))))"

definition apply_policy ::
  "('w, 'fd, 'rs, 'rc, 'r, 'n) stage_os \<Rightarrow> sandbox_policy \<Rightarrow> ('w, sandbox_error, unit) io" where
  "apply_policy os p =
     io_bind (set_no_new_privs os) (\<lambda>_.
     io_bind (deny_dangerous_syscalls (so_compile os) (so_rule_text os) (so_number os) (so_filter os) p) (\<lambda>_.
     io_bind (requested_rules (so_landlock os) p) (\<lambda>rq.
     io_bind (build_ruleset (so_landlock os) rq) (\<lambda>ruleset.
     io_bind (io_map_err landlock_failed (ll_restrict (so_landlock os) ruleset)) (\<lambda>status.
       io_of_sum (enforcement_verdict status))))))"

definition UNNARROWED :: string where
  "UNNARROWED = ''the inner stage inherited a variable the policy does not permit; an earlier stage did not narrow the environment''"

definition restrict_self ::
  "('w, 'fd, 'rs, 'rc, 'r, 'n) stage_os \<Rightarrow> string \<Rightarrow> string list \<Rightarrow> ('w, sandbox_error, helper_args) io" where
  "restrict_self os supervisor argv =
     io_bind (io_of_sum (decode_args argv)) (\<lambda>request.
     io_bind (bind_lifetime_to_supervisor os) (\<lambda>_.
     io_bind (confirm_supervisor os supervisor) (\<lambda>_.
       if list_ex (\<lambda>(n, _). \<not> permits_env (ha_policy request) n) (so_environ os)
       then io_fail (ProcessHardening UNNARROWED)
       else io_bind (apply_policy os (ha_policy request)) (\<lambda>_. io_ret request))))"

section \<open>Stage 2\<close>

definition fd_path :: "('w, 'fd, 'rs, 'rc, 'r, 'n) stage_os \<Rightarrow> 'fd \<Rightarrow> string" where
  "fd_path os fd = ''/proc/self/fd/'' @ dec_nat (so_raw_fd os fd)"

definition pinned_image ::
  "('w, 'fd, 'rs, 'rc, 'r, 'n) stage_os \<Rightarrow> helper_args \<Rightarrow> 'w \<Rightarrow> ((sandbox_error + 'fd option) \<times> 'w) option" where
  "pinned_image os request w =
     (case ha_pin request of
        None \<Rightarrow> Some (Inr None, w)
      | Some expected \<Rightarrow>
          map_option (apfst (map_sum id Some)) (open_verified (so_pin os) (ha_program request) expected w))"

definition start_command ::
  "('w, 'fd, 'rs, 'rc, 'r, 'n) stage_os \<Rightarrow> helper_args \<Rightarrow> 'fd option \<Rightarrow> ('w, sandbox_error, nat) io" where
  "start_command os request binary =
     (let program = (case binary of None \<Rightarrow> ha_program request | Some fd \<Rightarrow> fd_path os fd)
      in io_bind (io_map_err (\<lambda>e. ProcessHardening
             (''could not make the namespace's init non-dumpable: '' @ so_errno_text os e)) (so_undumpable os)) (\<lambda>_.
         io_map_err ExecFailed (so_start os ((spawn_command os program (ha_policy request))
           \<lparr>sr_arg0 := Some (ha_program request), sr_args := ha_args request\<rparr>))))"

definition restrict_and_spawn ::
  "('w, 'fd, 'rs, 'rc, 'r, 'n) stage_os \<Rightarrow> string \<Rightarrow> string list \<Rightarrow> 'w \<Rightarrow> ((sandbox_error + nat) \<times> 'w) option" where
  "restrict_and_spawn os supervisor argv w =
     (case restrict_self os supervisor argv w of
        (Inl e, w1) \<Rightarrow> Some (Inl e, w1)
      | (Inr request, w1) \<Rightarrow>
          (case pinned_image os request w1 of
             None \<Rightarrow> None
           | Some (Inl e, w2) \<Rightarrow> Some (Inl e, w2)
           | Some (Inr binary, w2) \<Rightarrow> Some (start_command os request binary w2)))"

text \<open>\<open>from_raw ((code & 0xff) << 8)\<close> is an exit with that byte, \<open>from_raw signal\<close> a death by it.\<close>

partial_function (option) reap_until ::
  "('w, 'fd, 'rs, 'rc, 'r, 'n) stage_os \<Rightarrow> nat \<Rightarrow> 'w \<Rightarrow> (int \<times> 'w) option" where
  "reap_until os command w =
     (case so_wait os w of
        (Inr (WExited pid code), w1) \<Rightarrow>
          if pid = command then Some (exit_code (ExitCode (code mod 256)), w1) else reap_until os command w1
      | (Inr (WSignaled pid signal), w1) \<Rightarrow>
          if pid = command then Some (exit_code (ExitSignal signal), w1) else reap_until os command w1
      | (Inr WOther, w1) \<Rightarrow> reap_until os command w1
      | (Inl e, w1) \<Rightarrow>
          if e = EINTR then reap_until os command w1 else Some (exit_code (ExitCode 1), w1))"

declare reap_until.simps [code]

definition claim_audit_channel ::
  "('w, 'fd, 'rs, 'rc, 'r, 'n) stage_os \<Rightarrow> ('w, sandbox_error, 'fd) io" where
  "claim_audit_channel os =
     (let no = (\<lambda>what source. ProcessHardening (what @ '': '' @ source))
      in io_bind (io_map_err (\<lambda>e. no ''could not take the audit channel off stdin'' (so_io_text os e)) (so_dup_stdin os)) (\<lambda>channel.
         io_bind (io_map_err (\<lambda>e. no ''could not open /dev/null for the command'' (so_io_text os e)) (so_open_null os)) (\<lambda>null.
         io_bind (io_map_err (\<lambda>e. no ''could not put /dev/null in the stdin slot'' (so_errno_text os e)) (so_dup2_stdin os null)) (\<lambda>_.
           io_ret channel))))"

definition exec_inner ::
  "('w, 'fd, 'rs, 'rc, 'r, 'n) stage_os \<Rightarrow> string list \<Rightarrow> 'w \<Rightarrow> (stage_end \<times> 'w) option" where
  "exec_inner os argv w =
     (case argv of
        [] \<Rightarrow> Some (StageRefused (BadHelperArgs ''inner helper mode without a supervisor pid''), w)
      | supervisor # later \<Rightarrow>
          (case split_audit later of (audit, argv) \<Rightarrow>
             (case (if audit then io_bind (claim_audit_channel os) (\<lambda>fd. io_ret (Some fd)) else io_ret None) w of
                (Inl e, w1) \<Rightarrow> Some (StageRefused e, w1)
              | (Inr channel, w1) \<Rightarrow>
                  (case restrict_and_spawn os supervisor argv w1 of
                     None \<Rightarrow> None
                   | Some (Inr command, w2) \<Rightarrow>
                       map_option (\<lambda>(code, w3). (StageEnded None code, w3)) (reap_until os command w2)
                   | Some (Inl e, w2) \<Rightarrow>
                       Some (StageRefused e,
                         (case (channel, refusal_of e) of
                            (Some fd, Some refusal) \<Rightarrow> snd (so_write_fd os fd (encode_refusal refusal) w2)
                          | _ \<Rightarrow> w2))))))"

end
