(* ===== verification/Resolver_Bounds.thy ===== *)
theory Resolver_Bounds
  imports Resolver
begin

text \<open>
  What a bounded resolver bounds: the names its hosts file holds, the sources its
  \<open>nsswitch.conf\<close> leaves, and the order in which the mounts that install them are made.
\<close>

section \<open>Lines of a rendered file\<close>

lemma rust_lines_rendered:
  "list_all (\<lambda>l. nl \<notin> set l) ls \<Longrightarrow>
     rust_lines (concat (map (\<lambda>l. l @ [nl]) ls) @ s) = map strip_cr ls @ rust_lines s"
  by (induction ls) (simp_all add: rust_lines_Cons)

lemma rust_lines_no_nl: "list_all (\<lambda>l. nl \<notin> set l) (rust_lines s)"
proof (induction s rule: rust_lines.induct)
  case (1 s)
  show ?case
  proof (cases "split_once nl s")
    case None
    then show ?thesis by (cases "s = []") (auto simp: rust_lines_last)
  next
    case (Some lr)
    obtain l r where lr: "lr = (l, r)" by (cases lr)
    with Some have "nl \<notin> set l" by (auto simp: split_once_Some_iff)
    then have "nl \<notin> set (strip_cr l)" by (auto simp: strip_cr_def dest: in_set_butlastD)
    with 1[OF Some lr[symmetric]] Some lr show ?thesis by (subst rust_lines.simps) simp
  qed
qed

lemma strip_cr_clean: "cr \<notin> set l \<Longrightarrow> strip_cr l = l"
  by (auto simp: strip_cr_def dest: last_in_set)

section \<open>The databases left\<close>

lemma split_once_absent: "c \<notin> set s \<Longrightarrow> split_once c s = None"
  by simp

lemma split_once_front:
  "c \<noteq> d \<Longrightarrow> split_once c (p @ [d]) = (case split_once c p of None \<Rightarrow> None | Some (a, b) \<Rightarrow> Some (a, b @ [d]))"
  by (cases "split_once c p") (auto simp: split_once_Some_iff split_once_absent)

lemma database_strip_cr: "database (strip_cr l) = database l"
proof (cases "l \<noteq> [] \<and> last l = cr")
  case True
  then have l: "l = strip_cr l @ [cr]" by (metis append_butlast_last_id strip_cr_def)
  have "database (p @ [cr]) = database p" for p
    by (cases "split_once CHR '':'' p") (auto simp: database_def split_once_front split_once_absent)
  with l show ?thesis by metis
qed (auto simp: strip_cr_def)

lemma bounded_strip_cr [simp]: "bounded_database (strip_cr l) = bounded_database l"
  by (simp add: bounded_database_def database_strip_cr)

lemma nsswitch_lines:
  "rust_lines (nsswitch_body host) =
     [''# sandbx: `hosts` and `networks` read files alone, so /etc/hosts is the whole of resolution.'',
      ''hosts: files'', ''networks: files'']
     @ map strip_cr (filter (\<lambda>l. \<not> bounded_database l) (rust_lines host))"
proof -
  let ?kept = "filter (\<lambda>l. \<not> bounded_database l) (rust_lines host)"
  let ?own = "[''# sandbx: `hosts` and `networks` read files alone, so /etc/hosts is the whole of resolution.'',
      ''hosts: files'', ''networks: files'']"
  have body: "nsswitch_body host = concat (map (\<lambda>l. l @ [nl]) (?own @ ?kept)) @ []"
    by (simp add: nsswitch_body_def BOUNDED_SOURCES_def)
  have "list_all (\<lambda>l. nl \<notin> set l) ?kept"
    using rust_lines_no_nl[of host] by (auto simp: list_all_iff)
  then have "list_all (\<lambda>l. nl \<notin> set l) (?own @ ?kept)" by simp
  from rust_lines_rendered[OF this, of "[]"] have "rust_lines (nsswitch_body host) = map strip_cr (?own @ ?kept)"
    unfolding body by simp
  moreover have "map strip_cr ?own = ?own" by (simp add: strip_cr_clean)
  ultimately show ?thesis by simp
qed

lemma own_databases:
  "\<not> bounded_database ''# sandbx: `hosts` and `networks` read files alone, so /etc/hosts is the whole of resolution.''"
  "bounded_database ''hosts: files''" "bounded_database ''networks: files''"
  by code_simp+

lemma nsswitch_bounded:
  "filter bounded_database (rust_lines (nsswitch_body host)) = [''hosts: files'', ''networks: files'']"
  by (simp add: nsswitch_lines own_databases filter_map comp_def)

section \<open>The names a hosts file holds\<close>

fun words_from :: "string \<Rightarrow> string \<Rightarrow> string list" where
  "words_from w [] = (if w = [] then [] else [w])"
| "words_from w (c # s) =
     (if c = CHR '' '' then (if w = [] then [] else [w]) @ words_from [] s else words_from (w @ [c]) s)"

text \<open>The pairs of an address and a name in a hosts file, as a libc reads it: no comment lines.\<close>

definition hosts_line :: "string \<Rightarrow> (string \<times> string) list" where
  "hosts_line line =
     (if head_opt line = Some CHR ''#'' then []
      else case split_once tab line of
          None \<Rightarrow> []
        | Some (address, names) \<Rightarrow> map (Pair address) (words_from [] names))"

definition hosts_pairs :: "string \<Rightarrow> (string \<times> string) set" where
  "hosts_pairs body = set (concat (map hosts_line (rust_lines body)))"

definition loopback_pairs :: "(string \<times> string) set" where
  "loopback_pairs = {(''127.0.0.1'', ''localhost''), (''::1'', ''localhost''),
     (''::1'', ''ip6-localhost''), (''::1'', ''ip6-loopback'')}"

definition address_text :: "(ip_addr \<Rightarrow> string) \<Rightarrow> bool" where
  "address_text ip_text \<longleftrightarrow>
     (\<forall>a. ip_text a \<noteq> [] \<and> set (ip_text a) \<inter> {nl, cr, tab, CHR ''#'', CHR '' ''} = {})"

lemma ws_width_ascii: "c \<in> {nl, cr, tab, CHR '' ''} \<Longrightarrow> ws_width (c # s) \<noteq> 0"
  by (auto simp: ws_width_def)

lemma no_whitespace: "\<not> has_whitespace n \<Longrightarrow> set n \<inter> {nl, cr, tab, CHR '' ''} = {}"
proof (induction n)
  case (Cons c s)
  then show ?case using ws_width_ascii[of c s] by auto
qed simp

lemma words_from_plain: "CHR '' '' \<notin> set n \<Longrightarrow> words_from w n = (if w @ n = [] then [] else [w @ n])"
  by (induction n arbitrary: w) auto

lemma resolvable_chars: "is_resolvable_name n \<Longrightarrow> n \<noteq> [] \<and> set n \<inter> {nl, cr, tab, CHR '' ''} = {}"
  using no_whitespace by (auto simp: is_resolvable_name_def)

lemma address_line:
  assumes "address_text ip_text" "is_resolvable_name n"
  shows "hosts_line (strip_cr (ip_text a @ tab # n)) = [(ip_text a, n)]"
proof -
  from assms resolvable_chars[OF assms(2)]
  have chars: "tab \<notin> set (ip_text a)" "CHR ''#'' \<notin> set (ip_text a)" "ip_text a \<noteq> []" "cr \<notin> set (ip_text a)"
    "n \<noteq> []" "CHR '' '' \<notin> set n" "cr \<notin> set n"
    by (auto simp: address_text_def)
  then have "strip_cr (ip_text a @ tab # n) = ip_text a @ tab # n" by (simp add: strip_cr_clean)
  moreover have "head_opt (ip_text a @ tab # n) \<noteq> Some CHR ''#''"
    using chars by (cases "ip_text a") auto
  ultimately show ?thesis using chars by (simp add: hosts_line_def words_from_plain)
qed

lemma rust_lines_address:
  assumes "address_text ip_text" "is_resolvable_name n"
  shows "rust_lines (ip_text a @ tab # n @ nl # s) = strip_cr (ip_text a @ tab # n) # rust_lines s"
proof -
  from assms resolvable_chars[OF assms(2)] have "nl \<notin> set (ip_text a @ tab # n)"
    by (auto simp: address_text_def)
  from rust_lines_Cons[OF this, of s] show ?thesis by simp
qed

lemma hosts_lines_pairs:
  assumes "address_text ip_text" "is_resolvable_name (lk_name l)"
  shows "concat (map hosts_line (rust_lines (hosts_lines ip_text l @ s)))
    = map (\<lambda>a. (ip_text a, lk_name l)) (lk_addresses l) @ concat (map hosts_line (rust_lines s))"
proof -
  have "concat (map hosts_line (rust_lines (concat (map (\<lambda>a. ip_text a @ [tab] @ lk_name l @ [nl]) as) @ s)))
    = map (\<lambda>a. (ip_text a, lk_name l)) as @ concat (map hosts_line (rust_lines s))" for as
    using assms by (induction as) (simp_all add: rust_lines_address address_line)
  then show ?thesis by (simp add: hosts_lines_def)
qed

lemma fixed_lines:
  "concat (map hosts_line (rust_lines (HOSTS_HEADER @ LOOPBACK @ s)))
    = [(''127.0.0.1'', ''localhost''), (''::1'', ''localhost''), (''::1'', ''ip6-localhost''), (''::1'', ''ip6-loopback'')]
      @ concat (map hosts_line (rust_lines s))"
proof -
  let ?ls = "[''# sandbx: the names --allow-dns granted, and nothing else resolves at all.'',
     ''127.0.0.1'' @ [tab] @ ''localhost'', ''::1'' @ [tab] @ ''localhost ip6-localhost ip6-loopback'']"
  have whole: "HOSTS_HEADER @ LOOPBACK @ s = concat (map (\<lambda>l. l @ [nl]) ?ls) @ s"
    by (simp add: HOSTS_HEADER_def LOOPBACK_def)
  have lines: "rust_lines (concat (map (\<lambda>l. l @ [nl]) ?ls) @ s) = map strip_cr ?ls @ rust_lines s"
    by (rule rust_lines_rendered) simp
  have pairs: "concat (map hosts_line (map strip_cr ?ls))
    = [(''127.0.0.1'', ''localhost''), (''::1'', ''localhost''), (''::1'', ''ip6-localhost''), (''::1'', ''ip6-loopback'')]"
    by code_simp
  show ?thesis
    unfolding whole lines map_append concat_append pairs ..
qed

lemma hosts_body_pairs:
  assumes "address_text ip_text" "list_all (\<lambda>l. is_resolvable_name (lk_name l)) found"
  shows "hosts_pairs (hosts_body ip_text found)
    = loopback_pairs \<union> {(ip_text a, lk_name l) | a l. l \<in> set found \<and> a \<in> set (lk_addresses l)}"
proof -
  have "concat (map hosts_line (rust_lines (concat (map (hosts_lines ip_text) found) @ [])))
    = concat (map (\<lambda>l. map (\<lambda>a. (ip_text a, lk_name l)) (lk_addresses l)) found)"
    using assms by (induction found) (simp_all add: hosts_lines_pairs[simplified])
  then show ?thesis
    by (auto simp: hosts_pairs_def hosts_body_def fixed_lines loopback_pairs_def)
qed

section \<open>What the lookups found\<close>

lemma kept_addresses_kept:
  "distinct found \<Longrightarrow> list_all (\<lambda>a. \<not> link_local a) found \<Longrightarrow>
     distinct (kept_addresses found as) \<and> list_all (\<lambda>a. \<not> link_local a) (kept_addresses found as)"
  by (induction found as rule: kept_addresses.induct) auto

definition routable :: "lookup \<Rightarrow> bool" where
  "routable l \<longleftrightarrow> distinct (lk_addresses l) \<and> list_all (\<lambda>a. \<not> link_local a) (lk_addresses l)"

lemma addresses_routable: "addresses os n w = (as, w') \<Longrightarrow> routable \<lparr>lk_name = n, lk_addresses = as\<rparr>"
  using kept_addresses_kept[of "[]"]
  by (auto simp: addresses_def st_bind_def routable_def split: prod.splits sum.splits)

lemma look_up_names:
  "look_up (addresses os) ns w = (found, w') \<Longrightarrow> map lk_name found = ns \<and> list_all routable found"
  by (induction ns arbitrary: w found w')
    (fastforce simp: st_bind_def dest: addresses_routable split: prod.splits)+

lemma look_again_names:
  "look_again (addresses os) ls w = (found, w') \<Longrightarrow> list_all routable ls \<Longrightarrow>
     map lk_name found = map lk_name ls \<and> list_all routable found"
proof (induction ls arbitrary: w found w')
  case (Cons l ls)
  then show ?case
    by (cases "addresses os (lk_name l) w"; cases "look_again (addresses os) ls w")
      (auto simp: st_bind_def routable_def dest: addresses_routable split: prod.splits if_splits)
qed simp

lemma retried_once_names:
  assumes "retried_once ns (addresses os) pause w = (found, w')"
  shows "map lk_name found = ns \<and> list_all routable found"
proof -
  obtain first w1 where first: "look_up (addresses os) ns w = (first, w1)" by force
  from look_up_names[OF first] assms first show ?thesis
    by (auto simp: retried_once_def st_bind_def st_do_def dest!: look_again_names split: if_splits)
qed


definition demo_resolve :: "(nat, unit) resolve_os" where
  "demo_resolve = \<lparr>
     rs_addrs = (\<lambda>n. io_ret [IpV6 0xFE80 [0, 0, 0, 0, 0, 0, 1], IpV4 10 0 0 1]),
     rs_ip_text = (\<lambda>a. case a of IpV4 _ _ _ _ \<Rightarrow> ''10.0.0.1'' | _ \<Rightarrow> ''fe80::1''),
     rs_pause = (\<lambda>d. id),
     rs_read = (\<lambda>p. io_ret (''passwd: files'' @ [nl] @ ''hosts: dns'' @ [nl])),
     rs_temp_dir = (\<lambda>w. (''/tmp'', w)),
     rs_pid = 4,
     rs_clock = (\<lambda>w. (Some w, w)),
     rs_create_dir = (\<lambda>_ _. io_ret ()),
     rs_remove_dir = (\<lambda>_. id),
     rs_lstat = (\<lambda>_. io_ret False),
     rs_exists = (\<lambda>_ w. (True, w)),
     rs_create_new = (\<lambda>_ _. io_ret ()),
     rs_write_all = (\<lambda>_ _. io_ret ()),
     rs_mount = (\<lambda>_ _ _ _ _. io_ret ()),
     rs_detach = (\<lambda>_. id)\<rparr>"

definition demo_names :: sandbox_policy where
  "demo_names = allow_dns ''example.org'' (allow_network_port 443 default_policy)"

lemma demo_names_ok: "policy_ok demo_names"
  unfolding demo_names_def by (intro step_inv)

lemma demo_address_text: "address_text (rs_ip_text demo_resolve)"
  by (auto simp: address_text_def demo_resolve_def split: ip_addr.splits)


section \<open>The mounts\<close>

datatype 'fd mev =
    MMount "string option" string "ms_flag list" "errno + unit"
  | MCreate string "io_error + 'fd"
  | MWrite 'fd string "io_error + unit"
  | MDetach string
  | MRemove string

text \<open>The log may hold other events as well: \<open>ev\<close> embeds these.\<close>

definition watched_mounts :: "('fd mev \<Rightarrow> 'e) \<Rightarrow> ('w, 'fd) resolve_os \<Rightarrow> ('w \<times> 'e list, 'fd) resolve_os" where
  "watched_mounts ev os = \<lparr>
     rs_addrs = (\<lambda>n. unnoted (rs_addrs os n)),
     rs_ip_text = rs_ip_text os,
     rs_pause = (\<lambda>d (w, l). (rs_pause os d w, l)),
     rs_read = (\<lambda>p. unnoted (rs_read os p)),
     rs_temp_dir = unnoted (rs_temp_dir os),
     rs_pid = rs_pid os,
     rs_clock = unnoted (rs_clock os),
     rs_create_dir = (\<lambda>p m. unnoted (rs_create_dir os p m)),
     rs_remove_dir = (\<lambda>p (w, l). (rs_remove_dir os p w, l @ [ev (MRemove p)])),
     rs_lstat = (\<lambda>p. unnoted (rs_lstat os p)),
     rs_exists = (\<lambda>p. unnoted (rs_exists os p)),
     rs_create_new = (\<lambda>p m. noting (\<lambda>r. ev (MCreate p r)) (rs_create_new os p m)),
     rs_write_all = (\<lambda>fd b. noting (\<lambda>r. ev (MWrite fd b r)) (rs_write_all os fd b)),
     rs_mount = (\<lambda>src target ty flags data. noting (\<lambda>r. ev (MMount src target flags r)) (rs_mount os src target ty flags data)),
     rs_detach = (\<lambda>p (w, l). (rs_detach os p w, l @ [ev (MDetach p)]))\<rparr>"

lemma watched_mounts_simps [simp]:
  "rs_temp_dir (watched_mounts ev os) (w, l) = (case rs_temp_dir os w of (r, w') \<Rightarrow> (r, (w', l)))"
  "rs_pid (watched_mounts ev os) = rs_pid os"
  "rs_clock (watched_mounts ev os) (w, l) = (case rs_clock os w of (r, w') \<Rightarrow> (r, (w', l)))"
  "rs_create_dir (watched_mounts ev os) p m (w, l) = (case rs_create_dir os p m w of (r, w') \<Rightarrow> (r, (w', l)))"
  "rs_remove_dir (watched_mounts ev os) p (w, l) = (rs_remove_dir os p w, l @ [ev (MRemove p)])"
  "rs_lstat (watched_mounts ev os) p (w, l) = (case rs_lstat os p w of (r, w') \<Rightarrow> (r, (w', l)))"
  "rs_exists (watched_mounts ev os) p (w, l) = (case rs_exists os p w of (r, w') \<Rightarrow> (r, (w', l)))"
  "rs_create_new (watched_mounts ev os) p m (w, l)
     = (case rs_create_new os p m w of (r, w') \<Rightarrow> (r, (w', l @ [ev (MCreate p r)])))"
  "rs_write_all (watched_mounts ev os) fd p (w, l)
     = (case rs_write_all os fd p w of (r, w') \<Rightarrow> (r, (w', l @ [ev (MWrite fd p r)])))"
  "rs_mount (watched_mounts ev os) src p ty flags data (w, l)
     = (case rs_mount os src p ty flags data w of (r, w') \<Rightarrow> (r, (w', l @ [ev (MMount src p flags r)])))"
  "rs_detach (watched_mounts ev os) p (w, l) = (rs_detach os p w, l @ [ev (MDetach p)])"
  by (simp_all add: watched_mounts_def noting_def unnoted_def)

definition logs :: "('fd mev \<Rightarrow> 'e) \<Rightarrow> ('r \<Rightarrow> 'fd mev list \<Rightarrow> bool) \<Rightarrow> 'r \<Rightarrow> 'e list \<Rightarrow> bool" where
  "logs ev P r es \<longleftrightarrow> (\<exists>ms. es = map ev ms \<and> P r ms)"

lemma logsI: "P r ms \<Longrightarrow> logs ev P r (map ev ms)"
  by (auto simp: logs_def)

lemma logs_bind:
  assumes "writes m (logs ev P)" "\<And>x. writes (f x) (logs ev (Q x))"
    and "\<And>e ms. P (Inl e) ms \<Longrightarrow> R (Inl e) ms"
    and "\<And>x ms r ms'. P (Inr x) ms \<Longrightarrow> Q x r ms' \<Longrightarrow> R r (ms @ ms')"
  shows "writes (io_bind m f) (logs ev R)"
proof (rule writes_bind[OF assms(1,2)], goal_cases)
  case (1 e es)
  then show ?case using assms(3) by (auto simp: logs_def)
next
  case (2 x es r es')
  then obtain ms ms' where "es = map ev ms" "es' = map ev ms'" "P (Inr x) ms" "Q x r ms'"
    by (auto simp: logs_def)
  with assms(4) show ?case by (metis logs_def map_append)
qed

lemma logs_st_bind:
  assumes "writes m (logs ev P)" "\<And>x. writes (f x) (logs ev (Q x))"
    and "\<And>x ms r ms'. P x ms \<Longrightarrow> Q x r ms' \<Longrightarrow> R r (ms @ ms')"
  shows "writes (st_bind m f) (logs ev R)"
proof (rule writes_st_bind[OF assms(1)])
  fix x es assume "logs ev P x es"
  then obtain ms where ms: "es = map ev ms" "P x ms" by (auto simp: logs_def)
  show "writes (f x) (\<lambda>r es'. logs ev R r (es @ es'))"
    by (rule writes_mono[OF assms(2)]) (use ms assms(3) in \<open>auto simp: logs_def simp flip: map_append\<close>)
qed

lemma logs_st_ret: "P x [] \<Longrightarrow> writes (st_ret x) (logs ev P)"
  using logsI[of P x "[]" ev] by (auto intro!: writes_st_ret)

text \<open>What installing one file leaves: nothing, or its steps up to the first that failed.\<close>

definition file_log :: "string \<Rightarrow> resolver_file \<Rightarrow> sandbox_error + unit \<Rightarrow> 'fd mev list \<Rightarrow> bool" where
  "file_log source f r es \<longleftrightarrow>
     (es = [] \<and> (r = Inr () \<longrightarrow> \<not> rf_required f))
     \<or> (\<exists>written fd wrote bound readonly.
          es = take (if isl wrote then 2 else if isl bound then 3 else 4)
             [MCreate written (Inr fd), MWrite fd (rf_body f) wrote,
              MMount (Some written) (rf_target f) [MS_BIND] bound,
              MMount None (rf_target f) [MS_BIND, MS_REMOUNT, MS_RDONLY] readonly]
          \<and> (r = Inr () \<longleftrightarrow> \<not> isl wrote \<and> \<not> isl bound \<and> \<not> isl readonly))
     \<or> (\<exists>written e. es = [MCreate written (Inl e)] \<and> isl r)"

lemma writes_replace_file: "writes (replace_file (watched_mounts ev os) written f) (logs ev (file_log source f))"
proof (rule writesI)
  fix w l r w' l'
  assume run: "replace_file (watched_mounts ev os) written f (w, l) = (r, (w', l'))"
  obtain c w1 where c: "rs_create_new os written SOURCE_FILE_MODE w = (c, w1)" by force
  note steps = replace_file_def write_body_def io_bind_def io_map_err_def Let_def
  show "\<exists>es. l' = l @ es \<and> logs ev (file_log source f) r es"
  proof (cases c)
    case (Inl e)
    with run c have "l' = l @ map ev [MCreate written (Inl e)]" "isl r" by (auto simp: steps)
    moreover from this(2) have "file_log source f r [MCreate written (Inl e)]" by (auto simp: file_log_def)
    ultimately show ?thesis by (metis logsI)
  next
    case (Inr fd)
    obtain wr w2 where wr: "rs_write_all os fd (rf_body f) w1 = (wr, w2)" by force
    obtain b w3 where b: "rs_mount os (Some written) (rf_target f) None [MS_BIND] None w2 = (b, w3)" by force
    obtain ro w4 where ro: "rs_mount os None (rf_target f) None [MS_BIND, MS_REMOUNT, MS_RDONLY] None w3 = (ro, w4)" by force
    let ?es = "take (if isl wr then 2 else if isl b then 3 else 4)
       [MCreate written (Inr fd), MWrite fd (rf_body f) wr, MMount (Some written) (rf_target f) [MS_BIND] b,
        MMount None (rf_target f) [MS_BIND, MS_REMOUNT, MS_RDONLY] ro]"
    from run c Inr wr b ro
    have "l' = l @ map ev ?es \<and> (r = Inr () \<longleftrightarrow> \<not> isl wr \<and> \<not> isl b \<and> \<not> isl ro)"
      by (cases wr; cases b; cases ro) (auto simp: steps)
    then have "file_log source f r ?es" "l' = l @ map ev ?es" unfolding file_log_def by blast+
    then show ?thesis by (metis logsI)
  qed
qed

lemma writes_install_file: "writes (install_file (watched_mounts ev os) source f) (logs ev (file_log source f))"
proof (rule writesI)
  fix w l r w' l'
  assume run: "install_file (watched_mounts ev os) source f (w, l) = (r, (w', l'))"
  obtain target w1 where target: "rs_lstat os (rf_target f) w = (target, w1)" by force
  obtain there w2 where there: "rs_exists os (rf_target f) w1 = (there, w2)" by force
  note replaced = writesD[OF writes_replace_file]
  note steps = install_file_def Let_def st_bind_def st_ret_def absent_target_def
  show "\<exists>es. l' = l @ es \<and> logs ev (file_log source f) r es"
  proof (cases "target = Inr False \<or> target = Inr True \<and> there \<and> \<not> rf_required f")
    case True
    with run target there obtain written w3 where
      "replace_file (watched_mounts ev os) written f (w3, l) = (r, (w', l'))"
      by (auto simp: steps)
    from replaced[OF this] show ?thesis .
  next
    case False
    then have "isl target \<or> target = Inr True" by (cases target) auto
    with False run target there have "l' = l \<and> (r = Inr () \<longrightarrow> \<not> rf_required f)"
      by (cases target) (auto simp: steps split: if_splits)
    then have "file_log source f r []" "l' = l @ map ev []" by (simp_all add: file_log_def)
    then show ?thesis by (metis logsI)
  qed
qed

fun files_log :: "string \<Rightarrow> resolver_file list \<Rightarrow> sandbox_error + unit \<Rightarrow> 'fd mev list \<Rightarrow> bool" where
  "files_log source [] r es \<longleftrightarrow> es = [] \<and> r = Inr ()"
| "files_log source (f # fs) r es \<longleftrightarrow>
     (\<exists>r1 e1 e2. es = e1 @ e2 \<and> file_log source f r1 e1
        \<and> (if isl r1 then e2 = [] \<and> isl r else files_log source fs r e2))"

lemma writes_install_files: "writes (install_files (watched_mounts ev os) source fs) (logs ev (files_log source fs))"
proof (induction fs)
  case Nil
  show ?case by (auto intro!: writes_ret simp: logs_def)
next
  case (Cons f fs)
  show ?case
    unfolding install_files.simps
  proof (rule logs_bind[OF writes_install_file Cons], goal_cases)
    case (1 e ms)
    then have "ms = ms @ [] \<and> file_log source f (Inl e) ms \<and> isl (Inl e :: sandbox_error + unit)" by simp
    then show ?case unfolding files_log.simps by (metis isl_def)
  next
    case (2 x ms r ms')
    then show ?case unfolding files_log.simps by (metis Inr_Inl_False isl_def)
  qed
qed

definition source_log :: "sandbox_error + string \<Rightarrow> 'fd mev list \<Rightarrow> bool" where
  "source_log r es \<longleftrightarrow>
     (case r of
       Inr s \<Rightarrow> es = [MMount (Some ''tmpfs'') s [MS_NOSUID, MS_NODEV] (Inr ())]
     | Inl _ \<Rightarrow> es = [] \<or> (\<exists>s e. es = [MMount (Some ''tmpfs'') s [MS_NOSUID, MS_NODEV] (Inl e), MRemove s]))"

lemma writes_source_dir: "writes (source_dir (watched_mounts ev os)) (logs ev source_log)"
proof (rule writesI)
  fix w l r w' l'
  assume run: "source_dir (watched_mounts ev os) (w, l) = (r, (w', l'))"
  obtain tmp w1 where tmp: "rs_temp_dir os w = (tmp, w1)" by force
  obtain now w2 where now: "rs_clock os w1 = (now, w2)" by force
  define path where "path = source_path os tmp now"
  have same: "source_path (watched_mounts ev os) = source_path os" by (simp add: source_path_def fun_eq_iff)
  obtain made w3 where made: "rs_create_dir os path SOURCE_DIR_MODE w2 = (made, w3)" by force
  obtain m w4 where m: "rs_mount os (Some ''tmpfs'') path (Some ''tmpfs'') [MS_NOSUID, MS_NODEV] (Some ''mode=700'') w3 = (m, w4)"
    by force
  note steps = source_dir_def st_bind_def st_do_def Let_def same path_def[symmetric] io_bind_def io_map_err_def
  have "\<exists>ms. l' = l @ map ev ms \<and> source_log r ms"
  proof (cases made)
    case (Inl e)
    with run tmp now made show ?thesis by (intro exI[of _ "[]"]) (auto simp: steps source_log_def)
  next
    case (Inr u)
    let ?first = "MMount (Some ''tmpfs'') path [MS_NOSUID, MS_NODEV] m"
    from run tmp now made m Inr show ?thesis
      by (intro exI[of _ "if isl m then [?first, MRemove path] else [?first]"], cases m)
        (auto simp: steps source_log_def)
  qed
  then show "\<exists>es. l' = l @ es \<and> logs ev source_log r es" by (auto simp: logs_def)
qed

section \<open>The order of the mounts\<close>

text \<open>Each bind that took is followed at once by the remount that makes it read-only.\<close>

fun binds_sealed :: "'fd mev list \<Rightarrow> bool" where
  "binds_sealed (MMount (Some written) target [MS_BIND] (Inr u) # es) \<longleftrightarrow>
     (case es of
        MMount None target' flags _ # _ \<Rightarrow> target' = target \<and> flags = [MS_BIND, MS_REMOUNT, MS_RDONLY]
      | _ \<Rightarrow> False) \<and> binds_sealed es"
| "binds_sealed (_ # es) \<longleftrightarrow> binds_sealed es"
| "binds_sealed [] \<longleftrightarrow> True"

definition replaced :: "resolver_file \<Rightarrow> 'fd mev list \<Rightarrow> bool" where
  "replaced f es \<longleftrightarrow>
     (\<exists>before written fd behind. es = before
        @ [MCreate written (Inr fd), MWrite fd (rf_body f) (Inr ()),
           MMount (Some written) (rf_target f) [MS_BIND] (Inr ()),
           MMount None (rf_target f) [MS_BIND, MS_REMOUNT, MS_RDONLY] (Inr ())] @ behind)"

definition cleaned :: "'fd mev list \<Rightarrow> bool" where
  "cleaned es \<longleftrightarrow>
     (\<forall>source. MMount (Some ''tmpfs'') source [MS_NOSUID, MS_NODEV] (Inr ()) \<in> set es \<longrightarrow>
        (\<exists>before. es = before @ [MDetach source, MRemove source]))"

lemma binds_sealed_append: "binds_sealed a \<Longrightarrow> binds_sealed b \<Longrightarrow> binds_sealed (a @ b)"
  by (induction a rule: binds_sealed.induct) (auto split: list.splits mev.splits option.splits)

lemma replaced_append: "replaced f es \<Longrightarrow> replaced f (a @ es @ b)"
  unfolding replaced_def by (metis append.assoc)

lemma sealed_steps:
  "binds_sealed (take (if isl wrote then 2 else if isl bound then 3 else 4)
     [MCreate written (Inr fd), MWrite fd body wrote, MMount (Some written) target [MS_BIND] bound,
      MMount None target [MS_BIND, MS_REMOUNT, MS_RDONLY] readonly])"
  by (cases wrote; cases bound) auto

lemma file_log_sealed: "file_log source f r es \<Longrightarrow> binds_sealed es"
  unfolding file_log_def using sealed_steps by fastforce

lemma file_log_replaced:
  assumes "file_log source f (Inr ()) es" "rf_required f"
  shows "replaced f es"
proof -
  from assms obtain written fd wrote bound readonly where
    "es = take (if isl wrote then 2 else if isl bound then 3 else 4)
       [MCreate written (Inr fd), MWrite fd (rf_body f) wrote, MMount (Some written) (rf_target f) [MS_BIND] bound,
        MMount None (rf_target f) [MS_BIND, MS_REMOUNT, MS_RDONLY] readonly]"
    and ok: "\<not> isl wrote" "\<not> isl bound" "\<not> isl readonly"
    by (auto simp: file_log_def)
  moreover from ok have "wrote = Inr ()" "bound = Inr ()" "readonly = Inr ()"
    by (cases wrote; simp; fail | cases bound; simp; fail | cases readonly; simp; fail)+
  ultimately show ?thesis
    unfolding replaced_def by (intro exI[of _ "[]"] exI[of _ written] exI[of _ fd]) simp
qed

lemma file_log_plain:
  assumes "file_log source f r es"
  shows "MMount (Some ''tmpfs'') s [MS_NOSUID, MS_NODEV] m \<notin> set es"
  using assms unfolding file_log_def by (auto dest!: in_set_takeD)

lemma files_log_sealed: "files_log source fs r es \<Longrightarrow> binds_sealed es"
  by (induction fs arbitrary: es) (auto intro: binds_sealed_append file_log_sealed split: if_splits)

lemma files_log_plain: "files_log source fs r es \<Longrightarrow> MMount (Some ''tmpfs'') s [MS_NOSUID, MS_NODEV] m \<notin> set es"
  by (induction fs arbitrary: es) (auto dest: file_log_plain split: if_splits)

lemma files_log_replaced:
  "files_log source fs (Inr ()) es \<Longrightarrow> f \<in> set fs \<Longrightarrow> rf_required f \<Longrightarrow> replaced f es"
proof (induction fs arbitrary: es)
  case (Cons g gs)
  from Cons.prems(1) obtain r1 e1 e2 where es: "es = e1 @ e2" "file_log source g r1 e1" "\<not> isl r1"
    "files_log source gs (Inr ()) e2"
    by (auto split: if_splits)
  from es(3) have r1: "r1 = Inr ()" by (cases r1) auto
  show ?case
  proof (cases "f = g")
    case True
    with es r1 Cons.prems(3) file_log_replaced[of source g e1] replaced_append[of g e1 "[]" e2] show ?thesis by simp
  next
    case False
    with Cons.IH[OF es(4)] Cons.prems(2,3) replaced_append[of f e2 e1 "[]"] es(1) show ?thesis by simp
  qed
qed simp

definition installs :: "resolver_file list \<Rightarrow> sandbox_error + unit \<Rightarrow> 'fd mev list \<Rightarrow> bool" where
  "installs files r es \<longleftrightarrow>
     (\<exists>made rest. es = MMount None ''/'' [MS_REC, MS_PRIVATE] made # rest \<and> (isl made \<longrightarrow> rest = []))
     \<and> (r = Inr () \<longrightarrow> (\<forall>f \<in> set files. rf_required f \<longrightarrow> replaced f es))
     \<and> binds_sealed es \<and> cleaned es"

lemma bound_resolution_steps:
  "bound_resolution os (Some files) = io_bind (detach_mount_propagation os) (\<lambda>_.
     io_bind (source_dir os) (\<lambda>source. st_bind (install_files os source files) (\<lambda>installed.
       st_bind (remove_source os source) (\<lambda>_. st_ret installed))))"
  by (simp add: bound_resolution_def)

lemma writes_remove_source:
  "writes (remove_source (watched_mounts ev os) source) (logs ev (\<lambda>_ es. es = [MDetach source, MRemove source]))"
  by (auto intro!: writesI simp: remove_source_def st_bind_def st_do_def logs_def)

lemma writes_bound_resolution:
  "writes (bound_resolution (watched_mounts ev os) (Some files)) (logs ev (installs files))"
proof -
  have detach: "writes (detach_mount_propagation (watched_mounts ev os))
      (logs ev (\<lambda>r es. \<exists>made. es = [MMount None ''/'' [MS_REC, MS_PRIVATE] made] \<and> (isl r \<longleftrightarrow> isl made)))"
  proof (rule writesI)
    fix w l r w' l'
    assume run: "detach_mount_propagation (watched_mounts ev os) (w, l) = (r, (w', l'))"
    obtain made w1 where "rs_mount os None ''/'' None [MS_REC, MS_PRIVATE] None w = (made, w1)" by force
    with run have "l' = l @ map ev [MMount None ''/'' [MS_REC, MS_PRIVATE] made]" "isl r \<longleftrightarrow> isl made"
      by (cases made; auto simp: detach_mount_propagation_def io_map_err_def)+
    then show "\<exists>es. l' = l @ es \<and>
        logs ev (\<lambda>r es. \<exists>made. es = [MMount None ''/'' [MS_REC, MS_PRIVATE] made] \<and> (isl r \<longleftrightarrow> isl made)) r es"
      unfolding logs_def by blast
  qed
  have rest: "writes (io_bind (source_dir (watched_mounts ev os)) (\<lambda>source.
      st_bind (install_files (watched_mounts ev os) source files) (\<lambda>installed.
      st_bind (remove_source (watched_mounts ev os) source) (\<lambda>_. st_ret installed))))
    (logs ev (\<lambda>r es. binds_sealed es \<and> cleaned es \<and> (r = Inr () \<longrightarrow> (\<forall>f \<in> set files. rf_required f \<longrightarrow> replaced f es))))"
  proof (rule logs_bind[OF writes_source_dir, where Q = "\<lambda>source r es. \<exists>inst.
        es = inst @ [MDetach source, MRemove source] \<and> files_log source files r inst"], goal_cases)
    case (1 source)
    show ?case
    proof (rule logs_st_bind[OF writes_install_files, where Q = "\<lambda>installed r es. es = [MDetach source, MRemove source] \<and> r = installed"])
      show "writes (st_bind (remove_source (watched_mounts ev os) source) (\<lambda>_. st_ret installed))
          (logs ev (\<lambda>r es. es = [MDetach source, MRemove source] \<and> r = installed))" for installed
        by (rule logs_st_bind[OF writes_remove_source logs_st_ret[where P = "\<lambda>r es. es = [] \<and> r = installed"]]) auto
    qed auto
  next
    case (2 e es)
    then show ?case by (auto simp: source_log_def cleaned_def)
  next
    case (3 source es r es')
    then obtain inst where es: "es = [MMount (Some ''tmpfs'') source [MS_NOSUID, MS_NODEV] (Inr ())]"
      "es' = inst @ [MDetach source, MRemove source]" and inst: "files_log source files r inst"
      by (auto simp: source_log_def)
    have "binds_sealed (es @ es')"
      unfolding es by (intro binds_sealed_append files_log_sealed[OF inst]) simp_all
    moreover have "cleaned (es @ es')"
      using files_log_plain[OF inst] by (auto simp: es cleaned_def)
    moreover have "replaced f (es @ es')" if "r = Inr ()" "f \<in> set files" "rf_required f" for f
    proof -
      from that inst have "files_log source files (Inr ()) inst" by simp
      from replaced_append[OF files_log_replaced[OF this that(2,3)]] show ?thesis unfolding es .
    qed
    ultimately show ?case by blast
  qed
  show ?thesis
    unfolding bound_resolution_steps
  proof (rule logs_bind[OF detach rest], goal_cases)
    case (1 e es)
    then show ?case by (auto simp: installs_def cleaned_def)
  next
    case (2 x es r es')
    then obtain made where es: "es = [MMount None ''/'' [MS_REC, MS_PRIVATE] made]" "\<not> isl made" by auto
    from 2 have seal: "binds_sealed (es @ es')" by (intro binds_sealed_append) (simp_all add: es)
    from 2 have "cleaned (es @ es')" by (auto simp: es cleaned_def)
    moreover have "replaced f (es @ es')" if "r = Inr ()" "f \<in> set files" "rf_required f" for f
      using 2 that replaced_append[of f es' es "[]"] by simp
    ultimately show ?case using seal es by (auto simp: installs_def)
  qed
qed

text \<open>
  Bounding resolution makes the mount tree private before anything else, and does nothing more
  when that is refused. A run that goes on has written both required bodies to fresh files, bound
  each over its \<open>/etc\<close> name and sealed it read-only; no bind that took is left writable by a
  later step, for a bind is followed at once by its remount. However it ends, the file system
  the bodies were written to is detached and its directory removed, last.
\<close>

lemma mounts_ordered:
  "writes (bound_resolution (watched_mounts id os) (Some files)) (installs files)"
  by (rule writes_mono[OF writes_bound_resolution]) (simp add: logs_def)

end
