(* ===== verification/Helper_Safety.thy ===== *)
theory Helper_Safety
  imports Helper_Exec Resolver_Bounds
begin

text \<open>
  What the helper stages do, read off the log of a watched system: that nothing is started before
  the process is confined in full, what it is started with, and that a refusal starts nothing and is
  reported once.
\<close>

section \<open>The watched system\<close>

datatype ('fd, 'r, 'n) hev =
    HPdeath "errno + unit"
  | HStat "io_error + string"
  | HNnp "errno + unit"
  | HFilter "insn list" "string + unit"
  | HOpen string "string + 'fd"
  | HBack 'fd "io_error + string"
  | HObject 'fd "io_error + object_id"
  | HHandleFs "'r set" bool
  | HHandleNet "'n set" bool
  | HCreate bool
  | HAddPath 'fd "'r set" bool
  | HAddPort u16 "'n set" bool
  | HRestrict "ruleset_error + ruleset_status"
  | HUnshare "clone_flag list" "errno + unit"
  | HMap string
  | HMounted "'fd mev"
  | HCaps cap_set bool
  | HRlimit "errno + unit"
  | HDumpable "errno + unit"
  | HDup "io_error + 'fd"
  | HNull "io_error + 'fd"
  | HDup2 'fd "errno + unit"
  | HRecord 'fd string
  | HStart stage_request "io_error + nat"

definition watched_landlock ::
  "('w, 'fd, 'rs, 'rc, 'r, 'n) landlock_os
     \<Rightarrow> ('w \<times> ('fd, 'r, 'n) hev list, 'fd, 'rs, 'rc, 'r, 'n) landlock_os" where
  "watched_landlock L = \<lparr>
     ll_sets = ll_sets L,
     ll_path = \<lparr>po_canonicalize = (\<lambda>p. unnoted (po_canonicalize (ll_path L) p)),
       po_metadata = (\<lambda>p. unnoted (po_metadata (ll_path L) p)),
       po_open_path = (\<lambda>p. unnoted (po_open_path (ll_path L) p)),
       po_fstat = (\<lambda>fd. noting (HObject fd) (po_fstat (ll_path L) fd))\<rparr>,
     ll_is_dir = (\<lambda>p. unnoted (ll_is_dir L p)),
     ll_lstat = (\<lambda>p. unnoted (ll_lstat L p)),
     ll_open_path = (\<lambda>p. noting (HOpen p) (ll_open_path L p)),
     ll_read_back = (\<lambda>fd. noting (HBack fd) (ll_read_back L fd)),
     ll_default = unnoted (ll_default L),
     ll_handle_fs = (\<lambda>rights b. noting (\<lambda>r. HHandleFs rights (\<not> isl r)) (ll_handle_fs L rights b)),
     ll_handle_net = (\<lambda>rights b. noting (\<lambda>r. HHandleNet rights (\<not> isl r)) (ll_handle_net L rights b)),
     ll_create = (\<lambda>b. noting (\<lambda>r. HCreate (\<not> isl r)) (ll_create L b)),
     ll_add_path = (\<lambda>fd rights rs. noting (\<lambda>r. HAddPath fd rights (\<not> isl r)) (ll_add_path L fd rights rs)),
     ll_add_port = (\<lambda>port rights rs. noting (\<lambda>r. HAddPort port rights (\<not> isl r)) (ll_add_port L port rights rs)),
     ll_restrict = (\<lambda>rs. noting HRestrict (ll_restrict L rs))\<rparr>"

definition watched_pin :: "('w, 'fd) pin_os \<Rightarrow> ('w \<times> 'l list, 'fd) pin_os" where
  "watched_pin os = \<lparr>pn_open = (\<lambda>p. unnoted (pn_open os p)), pn_read = (\<lambda>fd n. unnoted (pn_read os fd n)),
     pn_rewind = (\<lambda>fd. unnoted (pn_rewind os fd)), pn_interrupted = pn_interrupted os,
     pn_sha256 = pn_sha256 os\<rparr>"

definition watched_stage ::
  "('w, 'fd, 'rs, 'rc, 'r, 'n) stage_os
     \<Rightarrow> ('w \<times> ('fd, 'r, 'n) hev list, 'fd, 'rs, 'rc, 'r, 'n) stage_os" where
  "watched_stage os = \<lparr>
     so_resolve = watched_mounts HMounted (so_resolve os),
     so_landlock = watched_landlock (so_landlock os),
     so_pin = watched_pin (so_pin os),
     so_compile = so_compile os, so_rule_text = so_rule_text os, so_number = so_number os,
     so_filter = (\<lambda>f. noting (HFilter f) (so_filter os f)),
     so_environ = so_environ os, so_pid = so_pid os, so_uid = so_uid os, so_gid = so_gid os,
     so_errno_text = so_errno_text os, so_io_text = so_io_text os, so_raw_fd = so_raw_fd os,
     so_read_link = (\<lambda>p. unnoted (so_read_link os p)),
     so_pdeathsig = noting HPdeath (so_pdeathsig os),
     so_read_stat = noting HStat (so_read_stat os),
     so_no_new_privs = noting HNnp (so_no_new_privs os),
     so_unshare = (\<lambda>flags. noting (HUnshare flags) (so_unshare os flags)),
     so_write_file = (\<lambda>p c. noting (\<lambda>_. HMap p) (so_write_file os p c)),
     so_clear_caps = (\<lambda>s. noting (\<lambda>r. HCaps s (\<not> isl r)) (so_clear_caps os s)),
     so_rlimit_core = noting HRlimit (so_rlimit_core os),
     so_undumpable = noting HDumpable (so_undumpable os),
     so_dup_stdin = noting HDup (so_dup_stdin os),
     so_open_null = noting HNull (so_open_null os),
     so_dup2_stdin = (\<lambda>fd. noting (HDup2 fd) (so_dup2_stdin os fd)),
     so_write_fd = (\<lambda>fd s. noting (\<lambda>_. HRecord fd s) (so_write_fd os fd s)),
     so_start = (\<lambda>rq. noting (HStart rq) (so_start os rq)),
     so_wait_child = (\<lambda>c. unnoted (so_wait_child os c)),
     so_wait = unnoted (so_wait os),
     so_raise = (\<lambda>n (w, l). (so_raise os n w, l)),
     so_signal_known = so_signal_known os\<rparr>"

lemma watched_landlock_simps [simp]:
  "ll_sets (watched_landlock L) = ll_sets L"
  "po_fstat (ll_path (watched_landlock L)) fd = noting (HObject fd) (po_fstat (ll_path L) fd)"
  "ll_open_path (watched_landlock L) p = noting (HOpen p) (ll_open_path L p)"
  "ll_read_back (watched_landlock L) fd = noting (HBack fd) (ll_read_back L fd)"
  "ll_default (watched_landlock L) = unnoted (ll_default L)"
  "ll_is_dir (watched_landlock L) p = unnoted (ll_is_dir L p)"
  "ll_lstat (watched_landlock L) p = unnoted (ll_lstat L p)"
  "ll_handle_fs (watched_landlock L) rights b = noting (\<lambda>r. HHandleFs rights (\<not> isl r)) (ll_handle_fs L rights b)"
  "ll_handle_net (watched_landlock L) ports b = noting (\<lambda>r. HHandleNet ports (\<not> isl r)) (ll_handle_net L ports b)"
  "ll_create (watched_landlock L) b = noting (\<lambda>r. HCreate (\<not> isl r)) (ll_create L b)"
  "ll_add_path (watched_landlock L) fd rights rs
     = noting (\<lambda>r. HAddPath fd rights (\<not> isl r)) (ll_add_path L fd rights rs)"
  "ll_add_port (watched_landlock L) port ports rs
     = noting (\<lambda>r. HAddPort port ports (\<not> isl r)) (ll_add_port L port ports rs)"
  "ll_restrict (watched_landlock L) rs = noting HRestrict (ll_restrict L rs)"
  by (simp_all add: watched_landlock_def)

lemma watched_stage_simps [simp]:
  "so_resolve (watched_stage os) = watched_mounts HMounted (so_resolve os)"
  "so_landlock (watched_stage os) = watched_landlock (so_landlock os)"
  "so_pin (watched_stage os) = watched_pin (so_pin os)"
  "so_compile (watched_stage os) = so_compile os"
  "so_rule_text (watched_stage os) = so_rule_text os"
  "so_number (watched_stage os) = so_number os"
  "so_filter (watched_stage os) f = noting (HFilter f) (so_filter os f)"
  "so_environ (watched_stage os) = so_environ os"
  "so_pid (watched_stage os) = so_pid os"
  "so_uid (watched_stage os) = so_uid os"
  "so_gid (watched_stage os) = so_gid os"
  "so_raw_fd (watched_stage os) = so_raw_fd os"
  "so_read_link (watched_stage os) path = unnoted (so_read_link os path)"
  "so_pdeathsig (watched_stage os) = noting HPdeath (so_pdeathsig os)"
  "so_read_stat (watched_stage os) = noting HStat (so_read_stat os)"
  "so_no_new_privs (watched_stage os) = noting HNnp (so_no_new_privs os)"
  "so_unshare (watched_stage os) flags = noting (HUnshare flags) (so_unshare os flags)"
  "so_write_file (watched_stage os) path c = noting (\<lambda>_. HMap path) (so_write_file os path c)"
  "so_clear_caps (watched_stage os) s = noting (\<lambda>r. HCaps s (\<not> isl r)) (so_clear_caps os s)"
  "so_rlimit_core (watched_stage os) = noting HRlimit (so_rlimit_core os)"
  "so_undumpable (watched_stage os) = noting HDumpable (so_undumpable os)"
  "so_dup_stdin (watched_stage os) = noting HDup (so_dup_stdin os)"
  "so_open_null (watched_stage os) = noting HNull (so_open_null os)"
  "so_dup2_stdin (watched_stage os) fd = noting (HDup2 fd) (so_dup2_stdin os fd)"
  "so_write_fd (watched_stage os) fd path = noting (\<lambda>_. HRecord fd path) (so_write_fd os fd path)"
  "so_start (watched_stage os) rq = noting (HStart rq) (so_start os rq)"
  "so_wait_child (watched_stage os) child = unnoted (so_wait_child os child)"
  "so_wait (watched_stage os) = unnoted (so_wait os)"
  "so_raise (watched_stage os) n (w, l) = (so_raise os n w, l)"
  "so_signal_known (watched_stage os) = so_signal_known os"
  by (simp_all add: watched_stage_def)

text \<open>What a step notes when it goes on; it starts nothing and takes no channel.\<close>

fun starting :: "('fd, 'r, 'n) hev \<Rightarrow> bool" where
  "starting (HStart _ _) = True"
| "starting (HRecord _ _) = True"
| "starting (HDup _) = True"
| "starting _ = False"

definition going ::
  "('a \<Rightarrow> ('fd, 'r, 'n) hev list \<Rightarrow> bool) \<Rightarrow> sandbox_error + 'a \<Rightarrow> ('fd, 'r, 'n) hev list \<Rightarrow> bool" where
  "going P r es \<longleftrightarrow> list_all (\<lambda>e. \<not> starting e) es \<and> (\<forall>x. r = Inr x \<longrightarrow> P x es)"

lemma going_bind:
  assumes "writes m (going P)" "\<And>x es. P x es \<Longrightarrow> writes (f x) (going (Q x))"
    and "\<And>x es y es'. P x es \<Longrightarrow> Q x y es' \<Longrightarrow> R y (es @ es')"
  shows "writes (io_bind m f) (going R)"
  by (rule writes_bind_on[OF assms(1), where Q = "\<lambda>x. going (Q x)"])
    (use assms(2,3) in \<open>auto simp: going_def\<close>)

lemma going_ret: "P x [] \<Longrightarrow> writes (io_ret x) (going P)"
  by (auto intro!: writes_ret simp: going_def)

lemma going_fail: "writes (io_fail e) (going P)"
  by (auto intro!: writes_fail simp: going_def)

lemma going_of_sum: "(\<And>x. r = Inr x \<Longrightarrow> P x []) \<Longrightarrow> writes (io_of_sum r) (going P)"
  by (auto intro!: writesI simp: going_def)

lemma going_call:
  assumes "\<And>o'. \<not> starting (ev o')" "\<And>x. P x [ev (Inr x)]"
  shows "writes (io_map_err f (noting ev m)) (going P)"
proof (rule writesI)
  fix w l r w' l' assume run: "io_map_err f (noting ev m) (w, l) = (r, (w', l'))"
  obtain o' w1 where "m w = (o', w1)" by force
  with run assms show "\<exists>es. l' = l @ es \<and> going P r es"
    by (cases o') (auto simp: io_map_err_def noting_def going_def)
qed

lemma going_mono:
  assumes "writes m (going P)" "\<And>x es. P x es \<Longrightarrow> Q x es"
  shows "writes m (going Q)"
  using assms(2) by (intro writes_mono[OF assms(1)]) (simp add: going_def)

section \<open>The steps of confining\<close>

lemma going_no_new_privs: "writes (set_no_new_privs (watched_stage os)) (going (\<lambda>_ es. es = [HNnp (Inr ())]))"
  unfolding set_no_new_privs_def watched_stage_simps by (rule going_call) auto

lemma going_bind_lifetime:
  "writes (bind_lifetime_to_supervisor (watched_stage os)) (going (\<lambda>_ es. es = [HPdeath (Inr ())]))"
  unfolding bind_lifetime_to_supervisor_def watched_stage_simps by (rule going_call) auto

lemma going_confirm:
  "writes (confirm_supervisor (watched_stage os) expected)
     (going (\<lambda>_ es. \<exists>stat. es = [HStat (Inr stat)] \<and> ppid_from_stat stat = Some expected))"
  unfolding confirm_supervisor_def watched_stage_simps
proof (rule going_bind[where P = "\<lambda>stat es. es = [HStat (Inr stat)]" and Q = "\<lambda>stat _ es. es = [] \<and> ppid_from_stat stat = Some expected"])
  show "writes (if ppid_from_stat stat = Some expected then io_ret () else io_fail e)
      (going (\<lambda>_ es. es = [] \<and> ppid_from_stat stat = Some expected))" for stat e
    by (auto intro: going_ret going_fail)
qed (auto intro: going_call)

lemma going_install_each:
  "writes (install_each (\<lambda>f. noting (HFilter f) (apply_filter f)) fs)
     (going (\<lambda>_ es. es = map (\<lambda>f. HFilter f (Inr ())) fs))"
proof (induction fs)
  case Nil
  have none: "install_each (\<lambda>f. noting (HFilter f) (apply_filter f)) [] = io_ret ()"
    by (simp add: fun_eq_iff io_ret_def)
  show ?case unfolding none by (rule going_ret) simp
next
  case (Cons f fs)
  have steps: "install_each (\<lambda>f. noting (HFilter f) (apply_filter f)) (f # fs)
      = io_bind (io_map_err Seccomp (noting (HFilter f) (apply_filter f)))
          (\<lambda>_. install_each (\<lambda>f. noting (HFilter f) (apply_filter f)) fs)"
    by (auto simp: fun_eq_iff io_bind_def io_map_err_def split: prod.splits sum.splits)
  show ?case
    unfolding steps
    by (rule going_bind[where P = "\<lambda>_ es. es = [HFilter f (Inr ())]", OF going_call Cons]) auto
qed

lemma going_deny:
  "writes (deny_dangerous_syscalls compile etext sys (\<lambda>f. noting (HFilter f) (apply_filter f)) p)
     (going (\<lambda>_ es. \<exists>fs. installed_filters compile etext sys p = Inr fs \<and> es = map (\<lambda>f. HFilter f (Inr ())) fs))"
proof (cases "installed_filters compile etext sys p")
  case (Inl e)
  then have no: "deny_dangerous_syscalls compile etext sys (\<lambda>f. noting (HFilter f) (apply_filter f)) p = io_fail e"
    by (simp add: deny_dangerous_syscalls_def fun_eq_iff io_fail_def)
  show ?thesis unfolding no by (rule going_fail)
next
  case (Inr fs)
  then have each: "deny_dangerous_syscalls compile etext sys (\<lambda>f. noting (HFilter f) (apply_filter f)) p
      = install_each (\<lambda>f. noting (HFilter f) (apply_filter f)) fs"
    by (simp add: deny_dangerous_syscalls_def fun_eq_iff)
  show ?thesis unfolding each by (rule going_mono[OF going_install_each]) (simp add: Inr)
qed

text \<open>Negotiating only builds rulesets; it opens and adds nothing.\<close>

fun probing :: "('fd, 'r, 'n) hev \<Rightarrow> bool" where
  "probing (HHandleFs _ _) = True"
| "probing (HHandleNet _ _) = True"
| "probing (HCreate _) = True"
| "probing _ = False"

definition asked :: "('r, 'n) landlock_sets \<Rightarrow> sandbox_policy \<Rightarrow> ('r, 'n) requested \<Rightarrow> bool" where
  "asked L p rq \<longleftrightarrow>
     (\<exists>abi. rd_handled rq = handled_access L abi \<and> rd_net rq = net_rules L p abi \<and> rules_shape p (rd_rules rq)
        \<and> (landlock_like L \<longrightarrow> list_all (rule_lawful L abi p) (rd_rules rq)))"

definition probes :: "('w \<times> ('fd, 'r, 'n) hev list \<Rightarrow> 'a \<times> ('w \<times> ('fd, 'r, 'n) hev list)) \<Rightarrow> bool" where
  "probes m \<longleftrightarrow> writes m (\<lambda>_ es. list_all probing es)"

lemma probes_intros:
  "probes (io_ret x)" "probes (io_fail e)" "probes (st_ret x)" "probes (unnoted m)"
  "(\<And>r. probing (ev r)) \<Longrightarrow> probes (noting ev m)"
  by (auto simp: probes_def intro!: writes_ret writes_fail writes_st_ret writes_unnoted writes_noting)

lemma probes_bind: "probes m \<Longrightarrow> (\<And>x. probes (f x)) \<Longrightarrow> probes (io_bind m f)"
  unfolding probes_def by (rule writes_bind[where Q = "\<lambda>_ _ es. list_all probing es"]) auto

lemma probes_st_bind: "probes m \<Longrightarrow> (\<And>x. probes (f x)) \<Longrightarrow> probes (st_bind m f)"
  unfolding probes_def by (rule writes_st_bind) (auto elim: writes_mono)

lemma probes_abi_probe: "probes (abi_probe (watched_landlock L) abi)"
  unfolding abi_probe_def watched_landlock_simps
  by (intro probes_bind probes_st_bind probes_intros) simp_all

lemma probes_negotiate: "(\<And>abi. probes (probe abi)) \<Longrightarrow> probes (negotiate probe abis)"
  by (induction abis)
    (auto intro!: probes_st_bind probes_intros split: sum.splits ruleset_error.splits)

lemma probes_kept_paths: "probes (kept_paths (watched_landlock L) ps)"
  by (induction ps) (auto simp: opens_as_itself_def intro!: probes_st_bind probes_intros)

lemma probes_rules_of: "probes (rules_of (watched_landlock L) abi entries)"
  by (induction entries) (auto simp: inode_of_def intro!: probes_st_bind probes_intros)

lemma probes_fs_rules: "probes (fs_rules (watched_landlock L) p abi)"
  by (auto simp: fs_rules_def resolver_paths_def Let_def
      intro!: probes_st_bind probes_intros probes_kept_paths probes_rules_of)

lemma probing_quiet: "list_all probing es \<Longrightarrow> list_all (\<lambda>e. \<not> starting e) es"
  by (erule list.pred_mono_strong) (auto elim: probing.elims)

lemma going_requested:
  fixes L :: "('w, 'fd, 'rs, 'rc, 'r, 'n) landlock_os"
  shows "writes (requested_rules (watched_landlock L) p)
     (going (\<lambda>rq es. list_all probing es \<and> asked (ll_sets L) p rq))"
proof -
  have negotiated: "writes (negotiated_abi (watched_landlock L)) (going (\<lambda>_ es. list_all probing es))"
    using probes_negotiate[of "abi_probe (watched_landlock L)" NEGOTIABLE_ABI, OF probes_abi_probe]
    unfolding probes_def negotiated_abi_def negotiated_abi_from_def
    by (rule writes_mono) (simp add: going_def probing_quiet)
  have at_abi: "writes (st_bind (requested_at (watched_landlock L) p abi) io_ret)
      (going (\<lambda>rq es. list_all probing es \<and> asked (ll_sets L) p rq))" for abi
  proof (rule writesI)
    fix w l w' l' and r :: "sandbox_error + ('r, 'n) requested"
    assume run: "st_bind (requested_at (watched_landlock L) p abi) io_ret (w, l) = (r, (w', l'))"
    obtain rules w1 l1 where rules: "fs_rules (watched_landlock L) p abi (w, l) = (rules, (w1, l1))"
      by (metis prod.collapse)
    from writesD[OF probes_fs_rules[unfolded probes_def] rules] obtain es where
      es: "l1 = l @ es" "list_all probing es" by blast
    from fs_rules_shape[OF rules] have "asked (ll_sets L) p \<lparr>rd_handled = handled_access (ll_sets L) abi,
        rd_rules = rules, rd_net = net_rules (ll_sets L) p abi\<rparr>"
      by (auto simp: asked_def)
    with run rules es show "\<exists>es. l' = l @ es \<and> going (\<lambda>rq es. list_all probing es \<and> asked (ll_sets L) p rq) r es"
      by (auto simp: requested_at_def st_bind_def st_ret_def io_ret_def going_def probing_quiet)
  qed
  show ?thesis
    unfolding requested_rules_def by (rule going_bind[OF negotiated at_abi]) auto
qed

section \<open>The ruleset\<close>

text \<open>The descriptor a rule is put on names the path and holds the object the grant was vetted as.\<close>

fun opened_log :: "rule_target \<Rightarrow> 'fd \<Rightarrow> ('fd, 'r, 'n) hev list \<Rightarrow> bool" where
  "opened_log (Granted v) fd es \<longleftrightarrow>
     (\<exists>spelled. es = [HOpen (vp_path v) (Inr fd), HBack fd (Inr spelled), HObject fd (Inr (vp_object v))]
        \<and> path_eq spelled (vp_path v))"
| "opened_log (Installed path) fd es \<longleftrightarrow>
     (\<exists>spelled. es = [HOpen path (Inr fd), HBack fd (Inr spelled)] \<and> path_eq spelled path)"

fun rules_log :: "'r fs_rule list \<Rightarrow> ('fd, 'r, 'n) hev list \<Rightarrow> bool" where
  "rules_log [] es \<longleftrightarrow> es = []"
| "rules_log (r # rs) es \<longleftrightarrow>
     (\<exists>fd first later. es = first @ HAddPath fd (fr_rights r) True # later
        \<and> opened_log (fr_target r) fd first \<and> rules_log rs later)"

lemma going_open_grant:
  fixes L :: "('w, 'fd, 'rs, 'rc, 'r, 'n) landlock_os"
  shows "writes (open_grant (watched_landlock L) target) (going (opened_log target))"
  unfolding open_grant_def reads_back_def of_fd_def watched_landlock_simps
proof (rule going_bind[where P = "\<lambda>fd es. es = [HOpen (target_path target) (Inr fd)]"
      and Q = "\<lambda>fd fd' es. fd' = fd \<and> opened_log target fd (HOpen (target_path target) (Inr fd) # es)"])
  show "writes (io_map_err Landlock (noting (HOpen (target_path target)) (ll_open_path L (target_path target))))
      (going (\<lambda>fd es. es = [HOpen (target_path target) (Inr fd)]))"
    by (rule going_call) auto
next
  fix fd :: 'fd and es0 :: "('fd, 'r, 'n) hev list"
  let ?behind = "\<lambda>spelled fd' es. fd' = fd
      \<and> opened_log target fd (HOpen (target_path target) (Inr fd) # HBack fd (Inr spelled) # es)"
  have measured: "writes (io_bind (io_map_err f (noting (HObject fd) m))
      (\<lambda>object. if object \<noteq> vp_object v then io_fail (e object) else io_ret fd))
    (going (\<lambda>fd' es. fd' = fd \<and> es = [HObject fd (Inr (vp_object v))]))" for v f m e
    by (rule going_bind[where P = "\<lambda>object es. es = [HObject fd (Inr object)]"
          and Q = "\<lambda>object fd' es. fd' = fd \<and> es = [] \<and> object = vp_object v"])
      (auto intro: going_call going_fail going_ret)
  show "writes (io_bind (io_map_err f (noting (HBack fd) m)) (\<lambda>opened.
      if \<not> path_eq opened (target_path target) then io_fail (GrantRedirected (target_path target) opened)
      else case target of
        Granted v \<Rightarrow> io_bind (io_map_err g (noting (HObject fd) n)) (\<lambda>object.
          if object \<noteq> vp_object v then io_fail (GrantReplaced (vp_path v) (vp_object v) object) else io_ret fd)
      | Installed _ \<Rightarrow> io_ret fd))
    (going (\<lambda>fd' es. fd' = fd \<and> opened_log target fd (HOpen (target_path target) (Inr fd) # es)))" for f m g n
    by (rule going_bind[where P = "\<lambda>spelled es. es = [HBack fd (Inr spelled)]" and Q = ?behind, OF going_call])
      (auto intro: going_fail measured going_ret split: rule_target.splits)
qed auto

lemma going_add_rules:
  fixes L :: "('w, 'fd, 'rs, 'rc, 'r, 'n) landlock_os"
  shows "writes (add_rules (watched_landlock L) rules rs) (going (\<lambda>_. rules_log rules))"
proof (induction rules arbitrary: rs)
  case Nil
  then show ?case by (auto intro: going_ret)
next
  case (Cons r rules)
  show ?case
    unfolding add_rules.simps watched_landlock_simps
  proof (rule going_bind[OF going_open_grant])
    fix fd :: 'fd and es assume opened: "opened_log (fr_target r) fd es"
    show "writes (io_bind (io_map_err landlock_failed
          (noting (\<lambda>r'. HAddPath fd (fr_rights r) (\<not> isl r')) (ll_add_path L fd (fr_rights r) rs)))
        (\<lambda>rs. add_rules (watched_landlock L) rules rs))
      (going (\<lambda>_ es. \<exists>later. es = HAddPath fd (fr_rights r) True # later \<and> rules_log rules later))"
      by (rule going_bind[where P = "\<lambda>_ es. es = [HAddPath fd (fr_rights r) True]", OF going_call Cons]) auto
  qed auto
qed

lemma going_add_ports:
  "writes (add_ports (watched_landlock L) granted ports rs)
     (going (\<lambda>_ es. es = map (\<lambda>port. HAddPort port granted True) ports))"
proof (induction ports arbitrary: rs)
  case (Cons port ports)
  show ?case
    unfolding add_ports.simps watched_landlock_simps
    by (rule going_bind[where P = "\<lambda>_ es. es = [HAddPort port granted True]", OF going_call Cons]) auto
qed (auto intro: going_ret)

text \<open>
  A built ruleset handles what was asked for, has the rules that were asked for and no other, and
  the port axis exactly where the policy lists ports.
\<close>

definition built_log :: "('r, 'n) requested \<Rightarrow> ('fd, 'r, 'n) hev list \<Rightarrow> bool" where
  "built_log rq es \<longleftrightarrow>
     (\<exists>added. rules_log (rd_rules rq) added
        \<and> es = HHandleFs (rd_handled rq) True
            # (case rd_net rq of NetUnhandled \<Rightarrow> [] | NetPorts handled _ _ \<Rightarrow> [HHandleNet handled True])
            @ HCreate True # added
            @ (case rd_net rq of NetUnhandled \<Rightarrow> []
               | NetPorts _ granted ports \<Rightarrow> map (\<lambda>port. HAddPort port granted True) ports))"

lemma going_build: "writes (build_ruleset (watched_landlock L) rq) (going (\<lambda>_. built_log rq))"
proof -
  let ?net = "case rd_net rq of NetUnhandled \<Rightarrow> [] | NetPorts handled _ _ \<Rightarrow> [HHandleNet handled True]"
  let ?ports = "case rd_net rq of NetUnhandled \<Rightarrow> []
     | NetPorts _ granted ports \<Rightarrow> map (\<lambda>port. HAddPort port granted True) ports"
  have ports: "writes (case rd_net rq of NetUnhandled \<Rightarrow> io_ret rs
      | NetPorts _ granted ports \<Rightarrow> add_ports (watched_landlock L) granted ports rs) (going (\<lambda>_ es. es = ?ports))" for rs
    by (cases "rd_net rq") (auto intro: going_ret going_add_ports)
  have net: "writes (case rd_net rq of NetUnhandled \<Rightarrow> io_ret b
      | NetPorts handled _ _ \<Rightarrow> io_map_err landlock_failed
          (noting (\<lambda>r. HHandleNet handled (\<not> isl r)) (ll_handle_net L handled b))) (going (\<lambda>_ es. es = ?net))" for b
    by (cases "rd_net rq") (auto intro: going_ret going_call)
  have start: "writes (unnoted (ll_default L)) (\<lambda>_ es. es = [])" by (rule writes_unnoted) simp
  show ?thesis
    unfolding build_ruleset_def watched_landlock_simps
  proof (rule writes_st_bind[OF start], goal_cases)
    case (1 b es)
    have "writes (io_bind (io_map_err landlock_failed
              (noting (\<lambda>r. HHandleFs (rd_handled rq) (\<not> isl r)) (ll_handle_fs L (rd_handled rq) b))) (\<lambda>b.
        io_bind (case rd_net rq of NetUnhandled \<Rightarrow> io_ret b
            | NetPorts handled _ _ \<Rightarrow> io_map_err landlock_failed
                (noting (\<lambda>r. HHandleNet handled (\<not> isl r)) (ll_handle_net L handled b))) (\<lambda>b.
        io_bind (io_map_err landlock_failed (noting (\<lambda>r. HCreate (\<not> isl r)) (ll_create L b))) (\<lambda>rs.
        io_bind (add_rules (watched_landlock L) (rd_rules rq) rs) (\<lambda>rs.
          case rd_net rq of NetUnhandled \<Rightarrow> io_ret rs
          | NetPorts _ granted ports \<Rightarrow> add_ports (watched_landlock L) granted ports rs)))))
      (going (\<lambda>_. built_log rq))"
    proof (rule going_bind[where P = "\<lambda>_ es. es = [HHandleFs (rd_handled rq) True]"
          and Q = "\<lambda>_ _ es. \<exists>added. rules_log (rd_rules rq) added \<and> es = ?net @ HCreate True # added @ ?ports", OF going_call])
      fix b
      show "writes (io_bind (case rd_net rq of NetUnhandled \<Rightarrow> io_ret b
            | NetPorts handled _ _ \<Rightarrow> io_map_err landlock_failed
                (noting (\<lambda>r. HHandleNet handled (\<not> isl r)) (ll_handle_net L handled b))) (\<lambda>b.
        io_bind (io_map_err landlock_failed (noting (\<lambda>r. HCreate (\<not> isl r)) (ll_create L b))) (\<lambda>rs.
        io_bind (add_rules (watched_landlock L) (rd_rules rq) rs) (\<lambda>rs.
          case rd_net rq of NetUnhandled \<Rightarrow> io_ret rs
          | NetPorts _ granted ports \<Rightarrow> add_ports (watched_landlock L) granted ports rs))))
        (going (\<lambda>_ es. \<exists>added. rules_log (rd_rules rq) added \<and> es = ?net @ HCreate True # added @ ?ports))"
      proof (rule going_bind[OF net, where Q = "\<lambda>_ _ es. \<exists>added. rules_log (rd_rules rq) added \<and> es = HCreate True # added @ ?ports"])
        fix b
        show "writes (io_bind (io_map_err landlock_failed (noting (\<lambda>r. HCreate (\<not> isl r)) (ll_create L b))) (\<lambda>rs.
          io_bind (add_rules (watched_landlock L) (rd_rules rq) rs) (\<lambda>rs.
            case rd_net rq of NetUnhandled \<Rightarrow> io_ret rs
            | NetPorts _ granted ports \<Rightarrow> add_ports (watched_landlock L) granted ports rs)))
          (going (\<lambda>_ es. \<exists>added. rules_log (rd_rules rq) added \<and> es = HCreate True # added @ ?ports))"
        proof (rule going_bind[where P = "\<lambda>_ es. es = [HCreate True]"
              and Q = "\<lambda>_ _ es. \<exists>added. rules_log (rd_rules rq) added \<and> es = added @ ?ports", OF going_call])
          fix rs
          show "writes (io_bind (add_rules (watched_landlock L) (rd_rules rq) rs) (\<lambda>rs.
              case rd_net rq of NetUnhandled \<Rightarrow> io_ret rs
              | NetPorts _ granted ports \<Rightarrow> add_ports (watched_landlock L) granted ports rs))
            (going (\<lambda>_ es. \<exists>added. rules_log (rd_rules rq) added \<and> es = added @ ?ports))"
            by (rule going_bind[OF going_add_rules ports]) blast
        qed auto
      qed auto
    qed (auto simp: built_log_def)
    with 1 show ?case by simp
  qed
qed

section \<open>Confined in full\<close>

definition applied_log ::
  "('w, 'fd, 'rs, 'rc, 'r, 'n) stage_os \<Rightarrow> sandbox_policy \<Rightarrow> ('fd, 'r, 'n) hev list \<Rightarrow> bool" where
  "applied_log os p es \<longleftrightarrow>
     (\<exists>fs probed rq built.
        es = HNnp (Inr ()) # map (\<lambda>f. HFilter f (Inr ())) fs @ probed @ built @ [HRestrict (Inr FullyEnforced)]
        \<and> installed_filters (so_compile os) (so_rule_text os) (so_number os) p = Inr fs
        \<and> list_all probing probed \<and> asked (ll_sets (so_landlock os)) p rq \<and> built_log rq built)"

lemma going_verdict: "writes (io_of_sum (enforcement_verdict status)) (going (\<lambda>_ es. es = [] \<and> status = FullyEnforced))"
  by (rule going_of_sum) (cases status; simp)

lemma going_apply: "writes (apply_policy (watched_stage os) p) (going (\<lambda>_. applied_log os p))"
proof -
  let ?L = "watched_landlock (so_landlock os)"
  let ?fs = "installed_filters (so_compile os) (so_rule_text os) (so_number os) p"
  have restrict: "writes (io_bind (io_map_err landlock_failed (noting HRestrict (ll_restrict (so_landlock os) rs)))
      (\<lambda>status. io_of_sum (enforcement_verdict status))) (going (\<lambda>_ es. es = [HRestrict (Inr FullyEnforced)]))" for rs
    by (rule going_bind[where P = "\<lambda>status es. es = [HRestrict (Inr status)]", OF going_call going_verdict]) auto
  have build: "writes (io_bind (build_ruleset ?L rq) (\<lambda>rs.
      io_bind (io_map_err landlock_failed (noting HRestrict (ll_restrict (so_landlock os) rs)))
        (\<lambda>status. io_of_sum (enforcement_verdict status))))
      (going (\<lambda>_ es. \<exists>built. es = built @ [HRestrict (Inr FullyEnforced)] \<and> built_log rq built))" for rq
    by (rule going_bind[OF going_build restrict]) blast
  have ask: "writes (io_bind (requested_rules ?L p) (\<lambda>rq. io_bind (build_ruleset ?L rq) (\<lambda>rs.
      io_bind (io_map_err landlock_failed (noting HRestrict (ll_restrict (so_landlock os) rs)))
        (\<lambda>status. io_of_sum (enforcement_verdict status)))))
      (going (\<lambda>_ es. \<exists>probed rq built. es = probed @ built @ [HRestrict (Inr FullyEnforced)]
        \<and> list_all probing probed \<and> asked (ll_sets (so_landlock os)) p rq \<and> built_log rq built))"
    by (rule going_bind[OF going_requested build]) blast
  have deny: "writes (io_bind (deny_dangerous_syscalls (so_compile os) (so_rule_text os) (so_number os)
        (\<lambda>f. noting (HFilter f) (so_filter os f)) p) (\<lambda>_.
      io_bind (requested_rules ?L p) (\<lambda>rq. io_bind (build_ruleset ?L rq) (\<lambda>rs.
      io_bind (io_map_err landlock_failed (noting HRestrict (ll_restrict (so_landlock os) rs)))
        (\<lambda>status. io_of_sum (enforcement_verdict status))))))
      (going (\<lambda>_ es. \<exists>fs probed rq built. es = map (\<lambda>f. HFilter f (Inr ())) fs @ probed @ built @ [HRestrict (Inr FullyEnforced)]
        \<and> ?fs = Inr fs \<and> list_all probing probed \<and> asked (ll_sets (so_landlock os)) p rq \<and> built_log rq built))"
    by (rule going_bind[OF going_deny ask]) blast
  show ?thesis
    unfolding apply_policy_def watched_stage_simps watched_landlock_simps
    by (rule going_bind[OF going_no_new_privs deny]) (auto simp: applied_log_def)
qed

definition confined_log ::
  "('w, 'fd, 'rs, 'rc, 'r, 'n) stage_os \<Rightarrow> string \<Rightarrow> string list \<Rightarrow> helper_args \<Rightarrow> ('fd, 'r, 'n) hev list \<Rightarrow> bool" where
  "confined_log os supervisor argv request es \<longleftrightarrow>
     decode_args argv = Inr request
     \<and> list_all (\<lambda>(n, _). permits_env (ha_policy request) n) (so_environ os)
     \<and> (\<exists>stat applied. es = HPdeath (Inr ()) # HStat (Inr stat) # applied
          \<and> ppid_from_stat stat = Some supervisor \<and> applied_log os (ha_policy request) applied)"

lemma going_restrict_self:
  "writes (restrict_self (watched_stage os) supervisor argv) (going (confined_log os supervisor argv))"
proof -
  have applies: "writes (if list_ex (\<lambda>(n, _). \<not> permits_env (ha_policy request) n) (so_environ os)
        then io_fail (ProcessHardening UNNARROWED)
        else io_bind (apply_policy (watched_stage os) (ha_policy request)) (\<lambda>_. io_ret request))
      (going (\<lambda>request' es. request' = request
        \<and> list_all (\<lambda>(n, _). permits_env (ha_policy request) n) (so_environ os)
        \<and> applied_log os (ha_policy request) es))" for request
    by (auto simp: list_ex_iff list_all_iff case_prod_unfold
        intro!: going_fail going_bind[OF going_apply going_ret[where P = "\<lambda>r es. r = request \<and> es = []"]])
  have confirm: "writes (io_bind (confirm_supervisor (watched_stage os) supervisor) (\<lambda>_.
        if list_ex (\<lambda>(n, _). \<not> permits_env (ha_policy request) n) (so_environ os)
        then io_fail (ProcessHardening UNNARROWED)
        else io_bind (apply_policy (watched_stage os) (ha_policy request)) (\<lambda>_. io_ret request)))
      (going (\<lambda>request' es. \<exists>stat applied. request' = request \<and> es = HStat (Inr stat) # applied
        \<and> ppid_from_stat stat = Some supervisor
        \<and> list_all (\<lambda>(n, _). permits_env (ha_policy request) n) (so_environ os)
        \<and> applied_log os (ha_policy request) applied))" for request
    by (rule going_bind[OF going_confirm applies]) auto
  show ?thesis
    unfolding restrict_self_def watched_stage_simps
  proof (rule going_bind[where P = "\<lambda>request es. es = [] \<and> decode_args argv = Inr request"])
    show "writes (io_of_sum (decode_args argv)) (going (\<lambda>request es. es = [] \<and> decode_args argv = Inr request))"
      by (rule going_of_sum) simp
    show "writes (io_bind (bind_lifetime_to_supervisor (watched_stage os)) (\<lambda>_.
        io_bind (confirm_supervisor (watched_stage os) supervisor) (\<lambda>_.
          if list_ex (\<lambda>(n, _). \<not> permits_env (ha_policy request) n) (so_environ os)
          then io_fail (ProcessHardening UNNARROWED)
          else io_bind (apply_policy (watched_stage os) (ha_policy request)) (\<lambda>_. io_ret request))))
      (going (\<lambda>request' es. request' = request \<and> (decode_args argv = Inr request \<longrightarrow> confined_log os supervisor argv request es)))"
      for request
      by (rule going_bind[OF going_bind_lifetime confirm]) (auto simp: confined_log_def)
  qed auto
qed

section \<open>The pinned binary\<close>

lemma watched_pin_simps [simp]:
  "pn_open (watched_pin os) path (w, l) = (case pn_open os path w of (r, w') \<Rightarrow> (r, (w', l)))"
  "pn_read (watched_pin os) fd n (w, l) = (case pn_read os fd n w of (r, w') \<Rightarrow> (r, (w', l)))"
  "pn_rewind (watched_pin os) fd (w, l) = (case pn_rewind os fd w of (r, w') \<Rightarrow> (r, (w', l)))"
  "pn_interrupted (watched_pin os) = pn_interrupted os"
  "pn_sha256 (watched_pin os) = pn_sha256 os"
  by (simp_all add: watched_pin_def unnoted_def)

lemma hash_reads_watched:
  assumes "hash_reads (watched_pin os) fd fed (w, l) = Some (r, (w', l'))"
  shows "l' = l \<and> hash_reads os fd fed w = Some (r, w')"
proof -
  let ?P = "\<lambda>os' fd fed wl y. \<forall>os. os' = watched_pin os \<longrightarrow>
      snd (snd y) = snd wl \<and> hash_reads os fd fed (fst wl) = Some (fst y, fst (snd y))"
  have "?P os' fd fed wl y" if "hash_reads os' fd fed wl = Some y" for os' wl y
  proof (rule hash_reads.raw_induct[where P = ?P, OF _ that], goal_cases)
    case (1 rec os' fd fed wl y)
    show ?case
    proof (intro allI impI)
      fix os assume os': "os' = watched_pin os"
      obtain w l where wl: "wl = (w, l)" by force
      obtain read w1 where read: "pn_read os fd CHUNK w = (read, w1)" by force
      show "snd (snd y) = snd wl \<and> hash_reads os fd fed (fst wl) = Some (fst y, fst (snd y))"
      proof (cases read)
        case (Inl e)
        show ?thesis
        proof (cases "pn_interrupted os e")
          case True
          with 1(2) os' wl read Inl have "rec (watched_pin os) fd fed (w1, l) = Some y" by simp
          with 1(1) have "snd (snd y) = l \<and> hash_reads os fd fed w1 = Some (fst y, fst (snd y))" by fastforce
          with True Inl read wl show ?thesis by (simp add: hash_reads.simps[of os fd fed w])
        next
          case False
          with 1(2) os' wl read Inl show ?thesis by (auto simp: hash_reads.simps[of os fd fed w])
        qed
      next
        case (Inr bytes)
        show ?thesis
        proof (cases "bytes = []")
          case True
          with 1(2) os' wl read Inr show ?thesis by (auto simp: hash_reads.simps[of os fd fed w])
        next
          case False
          with 1(2) os' wl read Inr have "rec (watched_pin os) fd (fed @ bytes) (w1, l) = Some y" by simp
          with 1(1) have "snd (snd y) = l \<and> hash_reads os fd (fed @ bytes) w1 = Some (fst y, fst (snd y))" by fastforce
          with False Inr read wl show ?thesis by (simp add: hash_reads.simps[of os fd fed w])
        qed
      qed
    qed
  qed
  from this[OF assms] show ?thesis by simp
qed

lemma read_magic_watched:
  assumes "read_magic (watched_pin os) fd magic (w, l) = Some (r, (w', l'))"
  shows "l' = l \<and> read_magic os fd magic w = Some (r, w')"
proof -
  let ?P = "\<lambda>os' fd magic wl y. \<forall>os. os' = watched_pin os \<longrightarrow>
      snd (snd y) = snd wl \<and> read_magic os fd magic (fst wl) = Some (fst y, fst (snd y))"
  have "?P os' fd magic wl y" if "read_magic os' fd magic wl = Some y" for os' wl y
  proof (rule read_magic.raw_induct[where P = ?P, OF _ that], goal_cases)
    case (1 rec os' fd magic wl y)
    show ?case
    proof (intro allI impI)
      fix os assume os': "os' = watched_pin os"
      obtain w l where wl: "wl = (w, l)" by force
      obtain read w1 where read: "pn_read os fd (2 - length magic) w = (read, w1)" by force
      show "snd (snd y) = snd wl \<and> read_magic os fd magic (fst wl) = Some (fst y, fst (snd y))"
      proof (cases "2 \<le> length magic")
        case True
        with 1(2) wl show ?thesis by (auto simp: read_magic.simps[of os fd magic w])
      next
        case short: False
        show ?thesis
        proof (cases read)
          case (Inl e)
          show ?thesis
          proof (cases "pn_interrupted os e")
            case True
            with 1(2) os' wl read Inl short have "rec (watched_pin os) fd magic (w1, l) = Some y" by simp
            with 1(1) have "snd (snd y) = l \<and> read_magic os fd magic w1 = Some (fst y, fst (snd y))" by fastforce
            with True Inl read wl short show ?thesis by (simp add: read_magic.simps[of os fd magic w])
          next
            case False
            with 1(2) os' wl read Inl short show ?thesis by (auto simp: read_magic.simps[of os fd magic w])
          qed
        next
          case (Inr bytes)
          show ?thesis
          proof (cases "bytes = []")
            case True
            with 1(2) os' wl read Inr short show ?thesis by (auto simp: read_magic.simps[of os fd magic w])
          next
            case False
            with 1(2) os' wl read Inr short have "rec (watched_pin os) fd (magic @ bytes) (w1, l) = Some y" by simp
            with 1(1) have "snd (snd y) = l \<and> read_magic os fd (magic @ bytes) w1 = Some (fst y, fst (snd y))" by fastforce
            with False Inr read wl short show ?thesis by (simp add: read_magic.simps[of os fd magic w])
          qed
        qed
      qed
    qed
  qed
  from this[OF assms] show ?thesis by simp
qed

text \<open>Checking a pin notes nothing, and what it opens is what the unwatched system opens.\<close>

lemma starts_with_shebang_watched:
  assumes "starts_with_shebang (watched_pin os) fd (w, l) = Some (r, (w', l'))"
  shows "l' = l \<and> starts_with_shebang os fd w = Some (r, w')"
proof -
  obtain rewound w1 where "pn_rewind os fd w = (rewound, w1)" by force
  with assms show ?thesis
    by (cases rewound) (auto simp: starts_with_shebang_def dest: read_magic_watched)
qed

lemma open_verified_watched:
  assumes "open_verified (watched_pin os) program expected (w, l) = Some (r, (w', l'))"
  shows "l' = l \<and> open_verified os program expected w = Some (r, w')"
proof -
  obtain opened w1 where opened: "pn_open os program w = (opened, w1)" by force
  show ?thesis
  proof (cases opened)
    case (Inl e)
    with assms opened show ?thesis by (auto simp: open_verified_def)
  next
    case (Inr fd)
    with assms opened obtain d w2 l2 where hashed: "of_file (watched_pin os) fd (w1, l) = Some (d, (w2, l2))"
      by (auto simp: open_verified_def split: option.splits)
    then have known: "l2 = l" "of_file os fd w1 = Some (d, w2)"
      by (auto simp: of_file_def dest: hash_reads_watched)
    show ?thesis
    proof (cases "d = Inr expected")
      case True
      with assms opened Inr hashed obtain s w3 l3 where
        shebang: "starts_with_shebang (watched_pin os) fd (w2, l) = Some (s, (w3, l3))"
        by (auto simp: open_verified_def known split: option.splits)
      from starts_with_shebang_watched[OF shebang] assms opened Inr hashed True shebang known show ?thesis
        by (cases s) (auto simp: open_verified_def)
    next
      case False
      with assms opened Inr hashed known show ?thesis by (cases d) (auto simp: open_verified_def)
    qed
  qed
qed

section \<open>Stage 2 starts the command confined, or not at all\<close>

lemma reap_until_silent:
  assumes "reap_until (watched_stage os) command (w, l) = Some (code, (w', l'))"
  shows "l' = l"
proof -
  let ?P = "\<lambda>os' c wl y. \<forall>os. os' = watched_stage os \<longrightarrow> snd (snd y) = snd wl"
  have "?P os' command wl y" if "reap_until os' command wl = Some y" for os' wl y
  proof (rule reap_until.raw_induct[where P = ?P, OF _ that], goal_cases)
    case (1 rec os' command wl y)
    show ?case
    proof (intro allI impI)
      fix os assume os': "os' = watched_stage os"
      obtain w l where wl: "wl = (w, l)" by force
      obtain event w1 where event: "so_wait os w = (event, w1)" by force
      have "rec (watched_stage os) command (w1, l) = Some y \<or> snd (snd y) = l"
        using 1(2) os' wl event
        by (cases event) (auto simp: unnoted_def split: wait_event.splits if_splits)
      with 1(1) wl show "snd (snd y) = snd wl" by fastforce
    qed
  qed
  from this[OF assms, rule_format, OF refl] show ?thesis by simp
qed

text \<open>The program that is started: the one named, or the descriptor of the verified image.\<close>

definition started_as ::
  "('w, 'fd, 'rs, 'rc, 'r, 'n) stage_os \<Rightarrow> helper_args \<Rightarrow> string \<Rightarrow> bool" where
  "started_as os request program \<longleftrightarrow>
     (case ha_pin request of
        None \<Rightarrow> program = ha_program request
      | Some expected \<Rightarrow> \<exists>fd w w'. open_verified (so_pin os) (ha_program request) expected w = Some (Inr fd, w')
          \<and> program = fd_path os fd)"

definition command_request ::
  "('w, 'fd, 'rs, 'rc, 'r, 'n) stage_os \<Rightarrow> helper_args \<Rightarrow> string \<Rightarrow> stage_request" where
  "command_request os request program =
     \<lparr>sr_program = program, sr_arg0 = Some (ha_program request), sr_args = ha_args request,
      sr_env = spawn_env (map_of (so_environ os)) (ha_policy request)\<rparr>"

definition launched ::
  "('w, 'fd, 'rs, 'rc, 'r, 'n) stage_os \<Rightarrow> string \<Rightarrow> string list \<Rightarrow> nat \<Rightarrow> ('fd, 'r, 'n) hev list \<Rightarrow> bool" where
  "launched os supervisor argv command es \<longleftrightarrow>
     (\<exists>request program confined.
        es = confined @ [HDumpable (Inr ()), HStart (command_request os request program) (Inr command)]
        \<and> confined_log os supervisor argv request confined \<and> started_as os request program)"

definition idle :: "('fd, 'r, 'n) hev list \<Rightarrow> bool" where
  "idle es \<longleftrightarrow> (\<forall>rq pid. HStart rq (Inr pid) \<notin> set es) \<and> (\<forall>fd s. HRecord fd s \<notin> set es)"

definition no_start :: "('fd, 'r, 'n) hev list \<Rightarrow> bool" where
  "no_start es \<longleftrightarrow> idle es \<and> (\<forall>r. HDup r \<notin> set es)"

lemma no_start_quiet: "list_all (\<lambda>e. \<not> starting e) es \<Longrightarrow> no_start es"
  by (fastforce simp: no_start_def idle_def list_all_iff)

lemma idle_append [simp]: "idle (es @ es') \<longleftrightarrow> idle es \<and> idle es'"
  by (auto simp: idle_def)

lemma no_start_append [simp]: "no_start (es @ es') \<longleftrightarrow> no_start es \<and> no_start es'"
  by (auto simp: no_start_def)

lemma start_command_log:
  "writes (start_command (watched_stage os) request binary) (\<lambda>r es.
     case r of Inl e \<Rightarrow> no_start es
     | Inr pid \<Rightarrow> es = [HDumpable (Inr ()), HStart (command_request os request
         (case binary of None \<Rightarrow> ha_program request | Some fd \<Rightarrow> fd_path os fd)) (Inr pid)])"
proof (rule writesI)
  fix w l r w' l'
  assume run: "start_command (watched_stage os) request binary (w, l) = (r, (w', l'))"
  obtain undump w1 where undump: "so_undumpable os w = (undump, w1)" by force
  let ?rq = "command_request os request (case binary of None \<Rightarrow> ha_program request | Some fd \<Rightarrow> fd_path os fd)"
  obtain child w2 where child: "so_start os ?rq w1 = (child, w2)" by force
  have path: "fd_path (watched_stage os) fd = fd_path os fd" for fd by (simp add: fd_path_def)
  have rq: "(spawn_command (watched_stage os) program (ha_policy request))
      \<lparr>sr_arg0 := Some (ha_program request), sr_args := ha_args request\<rparr> = command_request os request program" for program
    by (simp add: spawn_command_def command_request_def)
  note run = run[unfolded start_command_def Let_def path rq]
  show "\<exists>es. l' = l @ es \<and> (case r of Inl e \<Rightarrow> no_start es
      | Inr pid \<Rightarrow> es = [HDumpable (Inr ()), HStart ?rq (Inr pid)])"
    using run undump child
    by (cases undump; cases child) (auto simp: io_bind_def io_map_err_def noting_def no_start_def idle_def)
qed

lemma pinned_image_log:
  assumes "pinned_image (watched_stage os) request (w, l) = Some (pinned, (w', l'))"
  shows "l' = l" "pinned = Inr binary \<Longrightarrow> started_as os request
     (case binary of None \<Rightarrow> ha_program request | Some fd \<Rightarrow> fd_path os fd)"
proof -
  have "l' = l \<and> (pinned = Inr binary \<longrightarrow> started_as os request
     (case binary of None \<Rightarrow> ha_program request | Some fd \<Rightarrow> fd_path os fd))"
  proof (cases "ha_pin request")
    case None
    with assms show ?thesis by (auto simp: pinned_image_def started_as_def)
  next
    case (Some expected)
    with assms obtain r where r: "open_verified (watched_pin (so_pin os)) (ha_program request) expected (w, l) = Some (r, (w', l'))"
      "pinned = map_sum id Some r"
      by (auto simp: pinned_image_def)
    note known = open_verified_watched[OF r(1)]
    show ?thesis
    proof (cases r)
      case (Inr fd)
      with known r(2) Some show ?thesis by (auto simp: started_as_def intro!: exI[of _ fd])
    qed (use known r(2) in simp)
  qed
  then show "l' = l" "pinned = Inr binary \<Longrightarrow> started_as os request
     (case binary of None \<Rightarrow> ha_program request | Some fd \<Rightarrow> fd_path os fd)" by blast+
qed

lemma restrict_and_spawn_log:
  assumes "restrict_and_spawn (watched_stage os) supervisor argv (w, l) = Some (r, (w', l'))"
  shows "\<exists>es. l' = l @ es \<and> (case r of Inl e \<Rightarrow> no_start es | Inr pid \<Rightarrow> launched os supervisor argv pid es)"
proof -
  obtain confined w1 l1 where self: "restrict_self (watched_stage os) supervisor argv (w, l) = (confined, (w1, l1))"
    by (metis prod.collapse)
  from writesD[OF going_restrict_self self] obtain cs where
    cs: "l1 = l @ cs" "going (confined_log os supervisor argv) confined cs" by blast
  show ?thesis
  proof (cases confined)
    case (Inl e)
    with assms self cs show ?thesis by (auto simp: restrict_and_spawn_def going_def no_start_quiet)
  next
    case (Inr request)
    with cs have quiet: "no_start cs" and log: "confined_log os supervisor argv request cs"
      by (simp_all add: going_def no_start_quiet)
    from assms self Inr obtain pinned w2 l2 where
      pinned: "pinned_image (watched_stage os) request (w1, l1) = Some (pinned, (w2, l2))"
      by (auto simp: restrict_and_spawn_def split: option.splits)
    note l2 = pinned_image_log(1)[OF pinned] and as = pinned_image_log(2)[OF pinned]
    show ?thesis
    proof (cases pinned)
      case (Inl e)
      with assms self Inr pinned l2 cs quiet show ?thesis by (auto simp: restrict_and_spawn_def \<open>confined = Inr request\<close>)
    next
      case (Inr binary)
      with assms self pinned have start: "start_command (watched_stage os) request binary (w2, l2) = (r, (w', l'))"
        by (simp add: restrict_and_spawn_def \<open>confined = Inr request\<close>)
      from writesD[OF start_command_log start] obtain es where es: "l' = l2 @ es"
        "case r of Inl e \<Rightarrow> no_start es
         | Inr pid \<Rightarrow> es = [HDumpable (Inr ()), HStart (command_request os request
             (case binary of None \<Rightarrow> ha_program request | Some fd \<Rightarrow> fd_path os fd)) (Inr pid)]" by blast
      show ?thesis
        using es as[OF Inr] log quiet l2 cs(1)
        by (intro exI[of _ "cs @ es"]) (cases r; simp add: launched_def; blast)
    qed
  qed
qed

text \<open>
  A channel that was claimed: off stdin, with \<open>/dev/null\<close> in its slot before anything else.
\<close>

fun claimed :: "('fd, 'r, 'n) hev list \<Rightarrow> 'fd option" where
  "claimed (HDup (Inr channel) # HNull (Inr null) # HDup2 slot (Inr ()) # es) = (if slot = null then Some channel else None)"
| "claimed _ = None"

lemma claimed_no_start: "no_start es \<Longrightarrow> claimed es = None"
  by (induction es rule: claimed.induct) (auto simp: no_start_def)

definition claim_log :: "sandbox_error + 'fd \<Rightarrow> ('fd, 'r, 'n) hev list \<Rightarrow> bool" where
  "claim_log r es \<longleftrightarrow>
     (case r of
        Inr channel \<Rightarrow> \<exists>null. es = [HDup (Inr channel), HNull (Inr null), HDup2 null (Inr ())]
      | Inl _ \<Rightarrow> claimed es = None) \<and> idle es"

lemma claim_audit_channel_log: "writes (claim_audit_channel (watched_stage os)) claim_log"
proof (rule writesI)
  fix w l r w' l' assume run: "claim_audit_channel (watched_stage os) (w, l) = (r, (w', l'))"
  obtain dup w1 where dup: "so_dup_stdin os w = (dup, w1)" by force
  obtain null w2 where null: "so_open_null os w1 = (null, w2)" by force
  obtain slot w3 where slot: "so_dup2_stdin os (projr null) w2 = (slot, w3)" by force
  show "\<exists>es. l' = l @ es \<and> claim_log r es"
    using run dup null slot
    by (cases dup; cases null; cases slot)
      (auto simp: claim_audit_channel_def Let_def io_bind_def io_map_err_def io_ret_def noting_def claim_log_def idle_def)
qed

definition inner_log ::
  "('w, 'fd, 'rs, 'rc, 'r, 'n) stage_os \<Rightarrow> string list \<Rightarrow> stage_end \<Rightarrow> ('fd, 'r, 'n) hev list \<Rightarrow> bool" where
  "inner_log os argv ending es \<longleftrightarrow>
     (case ending of
        StageEnded signal code \<Rightarrow> \<exists>supervisor later audit rest claim body command.
            signal = None \<and> argv = supervisor # later \<and> split_audit later = (audit, rest) \<and> es = claim @ body
            \<and> (if audit then \<exists>channel. claim_log (Inr channel) claim else claim = [])
            \<and> launched os supervisor rest command body
      | StageRefused e \<Rightarrow> \<exists>before. idle before
            \<and> es = before @ (case (claimed before, refusal_of e) of
                 (Some channel, Some refusal) \<Rightarrow> [HRecord channel (encode_refusal refusal)] | _ \<Rightarrow> []))"

lemma claiming:
  "writes (if audit then io_bind (claim_audit_channel (watched_stage os)) (\<lambda>fd. io_ret (Some fd)) else io_ret None)
     (\<lambda>r es. idle es \<and> (case r of Inl _ \<Rightarrow> claimed es = None
      | Inr None \<Rightarrow> \<not> audit \<and> es = [] | Inr (Some channel) \<Rightarrow> audit \<and> claim_log (Inr channel) es))"
proof (cases audit)
  case True
  then show ?thesis
    by (auto intro!: writes_bind_on[OF claim_audit_channel_log, where Q = "\<lambda>fd r es. r = Inr (Some fd) \<and> es = []"]
        writes_ret simp: claim_log_def idle_def split: sum.splits)
qed (auto intro!: writes_ret simp: idle_def)

text \<open>A refusal behind a claim: what was claimed is where it is told.\<close>

lemma refused_log:
  assumes "idle cs" "no_start es" "claimed (cs @ es) = channel"
  shows "inner_log os argv (StageRefused e) ((cs @ es) @
     (case (channel, refusal_of e) of (Some fd, Some refusal) \<Rightarrow> [HRecord fd (encode_refusal refusal)] | _ \<Rightarrow> []))"
  unfolding inner_log_def stage_end.case
  using assms by (intro exI[of _ "cs @ es"]) (simp add: no_start_def)

lemma ended_log:
  assumes "launched os supervisor rest command es" "split_audit later = (audit, rest)"
    and "if audit then \<exists>channel. claim_log (Inr channel) cs else cs = []"
  shows "inner_log os (supervisor # later) (StageEnded None code) (cs @ es)"
  unfolding inner_log_def stage_end.case using assms by blast

text \<open>
  C1. A run of the inner stage that ends as the command did started exactly that command, as the last
  thing it did. Before it, in this order: the audit channel was taken off stdin exactly where the
  flag asked for it, the death signal was bound, the parent was the named supervisor, the environment
  was within the policy, and no_new_privs, every seccomp filter and a ruleset of the negotiated ABI
  went in whose every rule is on a descriptor that reads back as the granted path and holds the
  vetted object, and which the kernel enforced in full; then this process was made non-dumpable. The
  program is the descriptor of the image the pin was checked on. A refusal started nothing, and is
  on the channel once where it was claimed.
\<close>

theorem inner_confines:
  assumes "exec_inner (watched_stage os) argv (w, l) = Some (ending, (w', l'))"
  shows "\<exists>es. l' = l @ es \<and> inner_log os argv ending es"
proof (cases argv)
  case Nil
  with assms show ?thesis by (auto simp: exec_inner_def inner_log_def idle_def)
next
  case (Cons supervisor later)
  obtain audit rest where split: "split_audit later = (audit, rest)" by force
  let ?claim = "if audit then io_bind (claim_audit_channel (watched_stage os)) (\<lambda>fd. io_ret (Some fd)) else io_ret None"
  obtain channel w1 l1 where claim: "?claim (w, l) = (channel, (w1, l1))" by (metis prod.collapse)
  from writesD[OF claiming claim] obtain cs where cs: "l1 = l @ cs" "idle cs"
    "case channel of Inl _ \<Rightarrow> claimed cs = None | Inr None \<Rightarrow> \<not> audit \<and> cs = []
     | Inr (Some channel) \<Rightarrow> audit \<and> claim_log (Inr channel) cs" by blast
  show ?thesis
  proof (cases channel)
    case (Inl e)
    with assms Cons split claim cs show ?thesis
      by (auto simp: exec_inner_def inner_log_def intro!: exI[of _ cs])
  next
    case (Inr channel')
    with assms Cons split claim obtain r w2 l2 where
      run: "restrict_and_spawn (watched_stage os) supervisor rest (w1, l1) = Some (r, (w2, l2))"
      by (auto simp: exec_inner_def split: option.splits)
    from restrict_and_spawn_log[OF run] obtain es where es: "l2 = l1 @ es"
      "case r of Inl e \<Rightarrow> no_start es | Inr pid \<Rightarrow> launched os supervisor rest pid es" by blast
    show ?thesis
    proof (cases r)
      case (Inr command)
      with assms Cons split claim \<open>channel = _\<close> run obtain code where
        reap: "reap_until (watched_stage os) command (w2, l2) = Some (code, (w', l'))" "ending = StageEnded None code"
        by (auto simp: exec_inner_def)
      have launch: "launched os supervisor rest command es" using es(2) Inr by simp
      have claim: "if audit then \<exists>channel. claim_log (Inr channel) cs else cs = []"
        using cs(3) \<open>channel = _\<close> by (auto split: option.splits)
      from ended_log[OF launch split claim] reap_until_silent[OF reap(1)] reap(2) Cons es(1) cs(1) show ?thesis
        by auto
    next
      case (Inl e)
      let ?told = "case (channel', refusal_of e) of
          (Some fd, Some refusal) \<Rightarrow> [HRecord fd (encode_refusal refusal)] | _ \<Rightarrow> []"
      from es(2) Inl have quiet: "no_start es" by simp
      have first: "claimed (cs @ es) = channel'"
        using cs(3) \<open>channel = _\<close> claimed_no_start[OF quiet] by (cases channel') (auto simp: claim_log_def)
      from assms Cons split claim \<open>channel = _\<close> run Inl have
        "ending = StageRefused e" "l' = l2 @ ?told"
        by (auto simp: exec_inner_def noting_def split: option.splits prod.splits)
      with refused_log[OF cs(2) quiet first, of os argv e] es(1) cs(1) show ?thesis by auto
    qed
  qed
qed

text \<open>A system on which everything succeeds, under an unpinned policy, its command exiting 3.\<close>

definition demo_stage :: "(nat, nat, unit, unit, nat, nat) stage_os" where
  "demo_stage = \<lparr>
     so_resolve = \<lparr>rs_addrs = (\<lambda>_. io_ret []), rs_ip_text = (\<lambda>_. []), rs_pause = (\<lambda>_ w. w),
       rs_read = (\<lambda>_. io_ret []), rs_temp_dir = (\<lambda>w. ([], w)), rs_pid = 7, rs_clock = (\<lambda>w. (None, w)),
       rs_create_dir = (\<lambda>_ _. io_ret ()), rs_remove_dir = (\<lambda>_ w. w), rs_lstat = (\<lambda>_. io_ret False),
       rs_exists = (\<lambda>_ w. (True, w)), rs_create_new = (\<lambda>_ _. io_ret 4), rs_write_all = (\<lambda>_ _. io_ret ()),
       rs_mount = (\<lambda>_ _ _ _ _. io_ret ()), rs_detach = (\<lambda>_ w. w)\<rparr>,
     so_landlock = demo_landlock,
     so_pin = \<lparr>pn_open = (\<lambda>_. io_ret 5), pn_read = (\<lambda>_ _. io_ret []), pn_rewind = (\<lambda>_. io_ret ()),
       pn_interrupted = (\<lambda>_. False), pn_sha256 = (\<lambda>_. [])\<rparr>,
     so_compile = (\<lambda>_ _ _. Inr []), so_rule_text = (\<lambda>_. []), so_number = (\<lambda>_. 0),
     so_filter = (\<lambda>_. io_ret ()), so_environ = [], so_pid = 1, so_uid = 1000, so_gid = 1000,
     so_errno_text = (\<lambda>_. []), so_io_text = (\<lambda>_. []), so_raw_fd = id,
     so_read_link = (\<lambda>_. io_ret []), so_pdeathsig = io_ret (), so_read_stat = io_ret ''1 (sh) S 7 1'',
     so_no_new_privs = io_ret (), so_unshare = (\<lambda>_. io_ret ()), so_write_file = (\<lambda>_ _. io_ret ()),
     so_clear_caps = (\<lambda>_. io_ret ()), so_rlimit_core = io_ret (), so_undumpable = io_ret (),
     so_dup_stdin = io_ret 9, so_open_null = io_ret 8, so_dup2_stdin = (\<lambda>_. io_ret ()),
     so_write_fd = (\<lambda>_ _. io_ret ()), so_start = (\<lambda>_. io_ret 2), so_wait_child = (\<lambda>_. io_ret (ExitCode 0)),
     so_wait = io_ret (WExited 2 3), so_raise = (\<lambda>_ w. w), so_signal_known = (\<lambda>_. True)\<rparr>"

definition demo_inner :: "string list" where
  "demo_inner = [''7'', AUDIT_STDIN_FLAG, ARGS_SEPARATOR, ''/bin/true'']"

lemma demo_inner_ends: "map_option fst (exec_inner (watched_stage demo_stage) demo_inner (0, [])) = Some (StageEnded None 3)"
  by code_simp

theorem inner_confines_witness:
  "\<exists>w log. exec_inner (watched_stage demo_stage) demo_inner (0, []) = Some (StageEnded None 3, (w, log))
     \<and> inner_log demo_stage demo_inner (StageEnded None 3) log"
proof -
  from demo_inner_ends obtain w log where
    run: "exec_inner (watched_stage demo_stage) demo_inner (0, []) = Some (StageEnded None 3, (w, log))" by auto
  from inner_confines[OF run] run show ?thesis by auto
qed

end
