(* ===== verification/Helper_Setup.thy ===== *)
theory Helper_Setup
  imports Helper_Safety
begin

text \<open>
  What stage 1 does, read off the log of a watched system: the order its namespaces, mounts, capability
  sets and limits come in, that the stage below is started behind all of them and with its argv
  verbatim, and what reaches the audit channel.
\<close>

section \<open>The namespaces\<close>

definition silent :: "('w \<times> 'l list \<Rightarrow> 'r \<times> ('w \<times> 'l list)) \<Rightarrow> bool" where
  "silent m \<longleftrightarrow> writes m (\<lambda>_ es. es = [])"

lemma silent_intros: "silent (st_ret x)" "silent (io_ret y)" "silent (unnoted m)"
  by (auto simp: silent_def intro!: writes_st_ret writes_ret writes_unnoted)

lemma silent_st_bind: "silent m \<Longrightarrow> (\<And>x. silent (f x)) \<Longrightarrow> silent (st_bind m f)"
  unfolding silent_def by (rule writes_st_bind[where P = "\<lambda>_ es. es = []"]) auto

lemma silent_addresses: "silent (addresses (watched_mounts ev os) n)"
  unfolding addresses_def watched_mounts_def resolve_os.simps
  by (intro silent_st_bind silent_intros)

lemma silent_look_up: "(\<And>n. silent (f n)) \<Longrightarrow> silent (look_up f ns)"
  by (induction ns) (auto intro!: silent_st_bind silent_intros)

lemma silent_look_again: "(\<And>n. silent (f n)) \<Longrightarrow> silent (look_again f ls)"
  by (induction ls) (auto intro!: silent_st_bind silent_intros)

lemma silent_pause: "silent (st_do (rs_pause (watched_mounts ev os) d))"
  by (auto simp: silent_def st_do_def watched_mounts_def intro!: writesI)

lemma silent_resolver_files: "silent (resolver_files (watched_mounts ev os) p)"
proof -
  have read: "silent (rs_read (watched_mounts ev os) path)" for path
    by (simp add: watched_mounts_def silent_intros)
  show ?thesis
    by (auto simp: resolver_files_def retried_once_def
        intro!: silent_st_bind silent_intros silent_look_up silent_look_again silent_addresses silent_pause read)
qed

text \<open>A bounding policy replaces these three, the first two or refuses.\<close>

definition bounding_files :: "sandbox_policy \<Rightarrow> resolved option \<Rightarrow> bool" where
  "bounding_files p resolved \<longleftrightarrow>
     (case resolved of
        None \<Rightarrow> \<not> bounds_resolution p
      | Some r \<Rightarrow> bounds_resolution p
          \<and> map (\<lambda>f. (rf_target f, rf_required f)) (rv_files r) = [(HOSTS, True), (NSSWITCH, True), (RESOLV_CONF, False)])"

lemma resolver_files_bounding:
  "resolver_files os p w = (resolved, w') \<Longrightarrow> bounding_files p resolved"
  by (auto simp: resolver_files_def st_ret_def st_bind_def bounding_files_def split: prod.splits if_splits)

definition id_maps :: "string list" where
  "id_maps = [''/proc/self/setgroups'', ''/proc/self/gid_map'', ''/proc/self/uid_map'']"

lemma writes_maps:
  fixes ev :: "string \<Rightarrow> 'l"
  shows "writes (write_maps (\<lambda>path c. noting (\<lambda>_. ev path) (write path c)) maps)
     (\<lambda>refused es. \<exists>n. es = map (ev \<circ> fst) (take n maps) \<and> (refused = None \<longrightarrow> length maps \<le> n))"
proof (induction maps)
  case (Cons m maps)
  obtain path c where m: "m = (path, c)" by force
  show ?case
    unfolding m write_maps.simps
  proof (rule writes_st_bind[where P = "\<lambda>_ es. es = [ev path]"])
    fix r :: "io_error + unit" and es :: "'l list" assume es: "es = [ev path]"
    show "writes (case r of Inl e \<Rightarrow> st_ret (Some e)
        | Inr _ \<Rightarrow> write_maps (\<lambda>path c. noting (\<lambda>_. ev path) (write path c)) maps)
      (\<lambda>refused es'. \<exists>n. es @ es' = map (ev \<circ> fst) (take n ((path, c) # maps))
         \<and> (refused = None \<longrightarrow> length ((path, c) # maps) \<le> n))"
    proof (cases r)
      case (Inl e)
      then show ?thesis by (auto simp: es intro!: writes_st_ret exI[of _ 1])
    next
      case (Inr u)
      have "\<exists>n. es @ es' = map (ev \<circ> fst) (take n ((path, c) # maps)) \<and> (refused = None \<longrightarrow> length ((path, c) # maps) \<le> n)"
        if "\<exists>n. es' = map (ev \<circ> fst) (take n maps) \<and> (refused = None \<longrightarrow> length maps \<le> n)" for es' and refused :: "io_error option"
      proof -
        from that obtain n where "es' = map (ev \<circ> fst) (take n maps)" "refused = None \<longrightarrow> length maps \<le> n" by blast
        then show ?thesis by (intro exI[of _ "Suc n"]) (simp add: es)
      qed
      then show ?thesis unfolding Inr sum.case by (rule writes_mono[OF Cons.IH]) blast
    qed
  qed (rule writes_noting, simp)
qed (auto intro!: writes_st_ret)

definition isolated_log :: "sandbox_policy \<Rightarrow> degraded option \<Rightarrow> ('fd, 'r, 'n) hev list \<Rightarrow> bool" where
  "isolated_log p unmapped es \<longleftrightarrow>
     (\<exists>n. es = HUnshare (isolate_flags p) (Inr ()) # map HMap (take n id_maps)
        \<and> (case unmapped of None \<Rightarrow> 3 \<le> n | Some d \<Rightarrow> dg_step d = UsernsIdentityMap))"

lemma going_quietly:
  assumes "writes m (\<lambda>x es. list_all (\<lambda>e. \<not> starting e) es \<and> P x es)"
  shows "writes (st_bind m io_ret) (going P)"
  by (rule writes_st_bind[OF assms]) (auto simp: going_def intro!: writes_ret)

lemma going_isolate: "writes (isolate (watched_stage os) p) (going (isolated_log p))"
  unfolding isolate_def watched_stage_simps
proof (rule going_bind[where P = "\<lambda>_ es. es = [HUnshare (isolate_flags p) (Inr ())]", OF going_call])
  let ?maps = "[(''/proc/self/setgroups'', ''deny''),
      (''/proc/self/gid_map'', dec_nat (so_gid os) @ '' '' @ dec_nat (so_gid os) @ '' 1''),
      (''/proc/self/uid_map'', dec_nat (so_uid os) @ '' '' @ dec_nat (so_uid os) @ '' 1'')]"
  have files: "so_write_file (watched_stage os) = (\<lambda>path c. noting (\<lambda>_. HMap path) (so_write_file os path c))"
    by (simp add: watched_stage_def)
  have names: "map (HMap \<circ> fst) (take n ?maps) = map HMap (take n id_maps)" for n
    by (simp add: id_maps_def take_Cons split: nat.splits)
  have mapped: "writes (map_identity_into_userns (watched_stage os) (so_uid os) (so_gid os)) (\<lambda>unmapped es.
      list_all (\<lambda>e. \<not> starting e) es \<and> (\<exists>n. es = map HMap (take n id_maps)
        \<and> (case unmapped of None \<Rightarrow> 3 \<le> n | Some d \<Rightarrow> dg_step d = UsernsIdentityMap)))"
    unfolding map_identity_into_userns_def files
  proof (rule writes_st_bind[OF writes_maps[of HMap _ ?maps]], goal_cases)
    case (1 refused es)
    then obtain n where es: "es = map HMap (take n id_maps)" "refused = None \<longrightarrow> 3 \<le> n"
      unfolding names by auto
    then show ?case
      by (intro writes_st_ret) (auto simp: list_all_iff split: option.splits)
  qed
  show "writes (st_bind (map_identity_into_userns (watched_stage os) (so_uid os) (so_gid os)) io_ret)
      (going (\<lambda>unmapped es. \<exists>n. es = map HMap (take n id_maps)
        \<and> (case unmapped of None \<Rightarrow> 3 \<le> n | Some d \<Rightarrow> dg_step d = UsernsIdentityMap)))"
    by (rule going_quietly[OF mapped])
qed (auto simp: isolated_log_def)

section \<open>The process state\<close>

lemma going_clear_each:
  "writes (clear_each (watched_stage os) sets) (going (\<lambda>_ es. es = map (\<lambda>s. HCaps s True) sets))"
proof (induction sets)
  case (Cons s sets)
  show ?case
    unfolding clear_each.simps watched_stage_simps
    by (rule going_bind[where P = "\<lambda>_ es. es = [HCaps s True]", OF going_call Cons]) auto
qed (auto intro: going_ret)

definition hardened_log :: "degraded option \<Rightarrow> ('fd, 'r, 'n) hev list \<Rightarrow> bool" where
  "hardened_log kept es \<longleftrightarrow>
     (\<exists>bounding. es = [HCaps CapBounding bounding, HCaps CapEffective True, HCaps CapPermitted True,
          HCaps CapInheritable True, HCaps CapAmbient True, HRlimit (Inr ())]
        \<and> (case kept of None \<Rightarrow> bounding | Some d \<Rightarrow> \<not> bounding \<and> dg_step d = CapabilityBoundingSet))"

lemma going_harden:
  fixes os :: "('w, 'fd, 'rs, 'rc, 'r, 'n) stage_os"
  shows "writes (harden_process_state (watched_stage os)) (going hardened_log)"
proof -
  let ?sets = "[CapEffective, CapPermitted, CapInheritable, CapAmbient]"
  have bounding: "writes (drop_bounding_set (so_clear_caps (watched_stage os) CapBounding)) (\<lambda>kept es.
      \<exists>bounding. es = [HCaps CapBounding bounding]
        \<and> (case kept of None \<Rightarrow> bounding | Some d \<Rightarrow> \<not> bounding \<and> dg_step d = CapabilityBoundingSet))"
    unfolding drop_bounding_set_def watched_stage_simps
    by (rule writes_st_bind[where P = "\<lambda>r es. es = [HCaps CapBounding (\<not> isl r)]"])
      (auto intro!: writes_noting writes_st_ret split: sum.splits)
  have limit: "writes (io_bind (io_map_err f (so_rlimit_core (watched_stage os))) (\<lambda>_. io_ret kept))
      (going (\<lambda>kept' es. kept' = kept \<and> es = [HRlimit (Inr ())]))" for f and kept :: "degraded option"
    unfolding watched_stage_simps
    by (rule going_bind[where P = "\<lambda>_ es. es = [HRlimit (Inr ())]" and Q = "\<lambda>_ kept' es. kept' = kept \<and> es = []"])
      (auto intro: going_call going_ret)
  have clear: "writes (io_bind (clear_each (watched_stage os) ?sets)
        (\<lambda>_. io_bind (io_map_err f (so_rlimit_core (watched_stage os))) (\<lambda>_. io_ret kept)))
      (going (\<lambda>kept' es. kept' = kept \<and> es = map (\<lambda>s. HCaps s True) ?sets @ [HRlimit (Inr ())]))" for f and kept :: "degraded option"
    by (rule going_bind[OF going_clear_each limit]) auto
  show ?thesis
    unfolding harden_process_state_def
  proof (rule writes_st_bind[OF bounding])
    fix kept :: "degraded option" and es :: "('fd, 'r, 'n) hev list"
    assume es: "\<exists>bounding. es = [HCaps CapBounding bounding]
        \<and> (case kept of None \<Rightarrow> bounding | Some d \<Rightarrow> \<not> bounding \<and> dg_step d = CapabilityBoundingSet)"
    show "writes (io_bind (clear_each (watched_stage os) ?sets)
        (\<lambda>_. io_bind (io_map_err (\<lambda>e. ProcessHardening (''could not set RLIMIT_CORE: '' @ so_errno_text (watched_stage os) e))
            (so_rlimit_core (watched_stage os))) (\<lambda>_. io_ret kept)))
      (\<lambda>r es'. going hardened_log r (es @ es'))"
      by (rule writes_mono[OF clear]) (use es in \<open>auto simp: going_def hardened_log_def\<close>)
  qed
qed

section \<open>The supervisor prepared\<close>

definition bounded_log :: "sandbox_policy \<Rightarrow> ('fd, 'r, 'n) hev list \<Rightarrow> bool" where
  "bounded_log p es \<longleftrightarrow>
     (if bounds_resolution p
      then \<exists>r mounts. bounding_files p (Some r) \<and> es = map HMounted mounts \<and> installs (rv_files r) (Inr ()) mounts
      else es = [])"

lemma going_bound:
  fixes os :: "('w, 'fd, 'rs, 'rc, 'r, 'n) stage_os"
  assumes "bounding_files p files"
  shows "writes (bound_resolution (so_resolve (watched_stage os)) (map_option rv_files files)) (going (\<lambda>_. bounded_log p))"
proof (cases files)
  case None
  with assms show ?thesis by (auto simp: bound_resolution_def bounded_log_def bounding_files_def intro: going_ret)
next
  case (Some r)
  with assms have "bounds_resolution p" by (simp add: bounding_files_def)
  then have "bounded_log p (map HMounted ms)" if "installs (rv_files r) (Inr ()) ms" for ms :: "'fd mev list"
    using that assms Some unfolding bounded_log_def by (simp, blast)
  with Some show ?thesis
    by (auto simp: going_def logs_def list_all_iff intro!: writes_mono[OF writes_bound_resolution])
qed

definition prepared_log :: "sandbox_policy \<Rightarrow> degraded list \<Rightarrow> ('fd, 'r, 'n) hev list \<Rightarrow> bool" where
  "prepared_log p degraded es \<longleftrightarrow>
     (\<exists>unmapped kept isolated bounded hardened unresolved.
        es = isolated @ bounded @ hardened @ [HNnp (Inr ())]
        \<and> isolated_log p unmapped isolated \<and> bounded_log p bounded \<and> hardened_log kept hardened
        \<and> degraded = unresolved @ list_of unmapped @ list_of kept
        \<and> list_all (\<lambda>d. dg_step d = UnresolvedDnsName) unresolved)"

lemma unresolved_names_step: "list_all (\<lambda>d. dg_step d = UnresolvedDnsName) (unresolved_names r)"
  by (simp add: unresolved_names_def split: option.splits)

lemma going_prepare:
  fixes os :: "('w, 'fd, 'rs, 'rc, 'r, 'n) stage_os"
  shows "writes (prepare_supervisor (watched_stage os) p) (going (prepared_log p))"
proof -
  let ?os = "watched_stage os"
  let ?degraded = "\<lambda>files unmapped kept. unresolved_names files @ list_of unmapped @ list_of kept"
  have sealed: "writes (io_bind (set_no_new_privs ?os) (\<lambda>_. io_ret d)) (going (\<lambda>d' es. d' = d \<and> es = [HNnp (Inr ())]))"
    for d :: "degraded list"
    by (rule going_bind[OF going_no_new_privs going_ret[where P = "\<lambda>d' es. d' = d \<and> es = []"]]) auto
  have harden: "writes (io_bind (harden_process_state ?os) (\<lambda>kept. io_bind (set_no_new_privs ?os)
        (\<lambda>_. io_ret (?degraded files unmapped kept))))
      (going (\<lambda>d es. \<exists>kept hardened. d = ?degraded files unmapped kept \<and> es = hardened @ [HNnp (Inr ())]
        \<and> hardened_log kept hardened))" for files unmapped
    by (rule going_bind[OF going_harden sealed]) auto
  have bound: "writes (io_bind (bound_resolution (so_resolve ?os) (map_option rv_files files)) (\<lambda>_.
        io_bind (harden_process_state ?os) (\<lambda>kept. io_bind (set_no_new_privs ?os)
          (\<lambda>_. io_ret (?degraded files unmapped kept)))))
      (going (\<lambda>d es. \<exists>kept bounded hardened. d = ?degraded files unmapped kept
        \<and> es = bounded @ hardened @ [HNnp (Inr ())] \<and> bounded_log p bounded \<and> hardened_log kept hardened))"
    if "bounding_files p files" for files unmapped
    by (rule going_bind[OF going_bound[OF that] harden]) blast
  have isolate: "writes (io_bind (isolate ?os p) (\<lambda>unmapped.
        io_bind (bound_resolution (so_resolve ?os) (map_option rv_files files)) (\<lambda>_.
        io_bind (harden_process_state ?os) (\<lambda>kept. io_bind (set_no_new_privs ?os)
          (\<lambda>_. io_ret (?degraded files unmapped kept))))))
      (going (prepared_log p))"
    if "bounding_files p files" for files
    by (rule going_bind[OF going_isolate bound[OF that]])
      (unfold prepared_log_def, use unresolved_names_step in fastforce)
  have resolve: "writes (resolver_files (so_resolve ?os) p) (\<lambda>files es. es = [] \<and> bounding_files p files)"
  proof (rule writesI)
    fix w l w' l' and files
    assume run: "resolver_files (so_resolve ?os) p (w, l) = (files, (w', l'))"
    with silent_resolver_files[of HMounted "so_resolve os" p] have "l' = l"
      unfolding silent_def by (auto dest: writesD)
    with resolver_files_bounding[OF run] show "\<exists>es. l' = l @ es \<and> es = [] \<and> bounding_files p files" by simp
  qed
  show ?thesis
    unfolding prepare_supervisor_def
    by (rule writes_st_bind[OF resolve]) (use isolate in simp)
qed

section \<open>The stage below\<close>

definition reported :: "string \<Rightarrow> ('fd, 'r, 'n) hev list \<Rightarrow> bool" where
  "reported records es \<longleftrightarrow>
     (if records = [] then es = []
      else (\<exists>e. es = [HDup (Inl e)]) \<or> (\<exists>channel. es = [HDup (Inr channel), HRecord channel records]))"

lemma writes_report: "writes (report_records (watched_stage os) records) (\<lambda>_. reported records)"
proof (rule writesI)
  fix w l w' l' and r :: unit
  assume run: "report_records (watched_stage os) records (w, l) = (r, (w', l'))"
  obtain dup w1 where "so_dup_stdin os w = (dup, w1)" by force
  with run show "\<exists>es. l' = l @ es \<and> reported records es"
    by (cases dup) (auto simp: report_records_def reported_def st_ret_def st_bind_def noting_def split: if_splits prod.splits)
qed

definition inner_request ::
  "('w, 'fd, 'rs, 'rc, 'r, 'n) stage_os \<Rightarrow> sandbox_policy \<Rightarrow> bool \<Rightarrow> string list \<Rightarrow> stage_request" where
  "inner_request os p audit argv =
     \<lparr>sr_program = SELF_EXE, sr_arg0 = None,
      sr_args = HELPER_INNER_FLAG # dec_nat (so_pid os) # (if audit then [AUDIT_STDIN_FLAG] else []) @ argv,
      sr_env = spawn_env (map_of (so_environ os)) p\<rparr>"

definition starts_none :: "('fd, 'r, 'n) hev list \<Rightarrow> bool" where
  "starts_none es \<longleftrightarrow> (\<forall>rq pid. HStart rq (Inr pid) \<notin> set es)"

definition descended ::
  "('w, 'fd, 'rs, 'rc, 'r, 'n) stage_os \<Rightarrow> bool \<Rightarrow> string list \<Rightarrow> nat \<Rightarrow> ('fd, 'r, 'n) hev list \<Rightarrow> bool" where
  "descended os audit argv pid es \<longleftrightarrow>
     (\<exists>request degraded prepared records.
        decode_args argv = Inr request
        \<and> es = prepared @ records @ [HStart (inner_request os (ha_policy request) audit argv) (Inr pid)]
        \<and> prepared_log (ha_policy request) degraded prepared
        \<and> (if audit then reported (encode degraded) records else records = []))"

definition started_log ::
  "('w, 'fd, 'rs, 'rc, 'r, 'n) stage_os \<Rightarrow> bool \<Rightarrow> string list \<Rightarrow> sandbox_error + nat \<Rightarrow> ('fd, 'r, 'n) hev list \<Rightarrow> bool" where
  "started_log os audit argv r es \<longleftrightarrow>
     (case r of Inl _ \<Rightarrow> starts_none es | Inr pid \<Rightarrow> descended os audit argv pid es)"

lemma no_start_starts_none: "list_all (\<lambda>e. \<not> starting e) es \<Longrightarrow> starts_none es"
  by (fastforce simp: starts_none_def list_all_iff)

lemma starts_none_append [simp]: "starts_none (es @ es') \<longleftrightarrow> starts_none es \<and> starts_none es'"
  by (auto simp: starts_none_def)

lemma reported_starts_none: "reported records es \<Longrightarrow> starts_none es"
  by (auto simp: reported_def starts_none_def split: if_splits)

lemma bind_of_sum: "io_bind (io_of_sum (Inr x)) f = f x"
  by (simp add: fun_eq_iff io_bind_def io_of_sum_def)

lemma writes_start_inner:
  fixes os :: "('w, 'fd, 'rs, 'rc, 'r, 'n) stage_os"
  shows "writes (start_inner_stage (watched_stage os) SELF_EXE argv audit) (started_log os audit argv)"
proof (cases "decode_args argv")
  case (Inl e)
  then have no: "start_inner_stage (watched_stage os) SELF_EXE argv audit = io_fail e"
    by (simp add: start_inner_stage_def fun_eq_iff io_bind_def io_of_sum_def io_fail_def)
  show ?thesis unfolding no by (rule writes_fail) (simp add: started_log_def starts_none_def)
next
  case (Inr request)
  let ?os = "watched_stage os" and ?p = "ha_policy request"
  let ?rq = "inner_request os ?p audit argv"
  have rq: "(spawn_command ?os SELF_EXE ?p)\<lparr>sr_args :=
      [HELPER_INNER_FLAG, dec_nat (so_pid ?os)] @ (if audit then [AUDIT_STDIN_FLAG] else []) @ argv\<rparr> = ?rq"
    by (simp add: spawn_command_def inner_request_def)
  have start: "writes (io_map_err f (so_start ?os ?rq)) (\<lambda>r es.
      case r of Inl _ \<Rightarrow> starts_none es | Inr pid \<Rightarrow> es = [HStart ?rq (Inr pid)])" for f
  proof (rule writesI)
    fix w l r w' l' assume run: "io_map_err f (so_start ?os ?rq) (w, l) = (r, (w', l'))"
    obtain child w1 where "so_start os ?rq w = (child, w1)" by force
    with run show "\<exists>es. l' = l @ es \<and> (case r of Inl _ \<Rightarrow> starts_none es | Inr pid \<Rightarrow> es = [HStart ?rq (Inr pid)])"
      by (cases child) (auto simp: io_map_err_def noting_def starts_none_def)
  qed
  have told: "writes (if audit then report_records ?os (encode degraded) else st_ret ())
      (\<lambda>_ es. if audit then reported (encode degraded) es else es = [])" for degraded
    by (auto intro: writes_st_ret writes_report)
  have behind: "writes (st_bind (if audit then report_records ?os (encode degraded) else st_ret ())
        (\<lambda>_. io_map_err f (so_start ?os ?rq)))
      (\<lambda>r es. case r of Inl _ \<Rightarrow> starts_none es
        | Inr pid \<Rightarrow> \<exists>records. es = records @ [HStart ?rq (Inr pid)]
            \<and> (if audit then reported (encode degraded) records else records = []))" for degraded f
  proof (rule writes_st_bind[OF told], rule writes_mono[OF start], goal_cases)
    case (1 u records r es)
    then show ?case
      by (cases r) (auto dest: reported_starts_none split: if_splits simp: starts_none_def)
  qed
  have "writes (io_bind (prepare_supervisor ?os ?p) (\<lambda>degraded.
        st_bind (if audit then report_records ?os (encode degraded) else st_ret ())
          (\<lambda>_. io_map_err (InnerStageFailed ''could not start the inner sandbox stage'') (so_start ?os ?rq))))
      (started_log os audit argv)"
  proof (rule writes_bind_on[OF going_prepare behind], goal_cases)
    case (1 e es)
    then show ?case by (simp add: going_def started_log_def no_start_starts_none)
  next
    case (2 degraded prepared r es)
    then have prepared: "prepared_log ?p degraded prepared" "starts_none prepared"
      by (simp_all add: going_def no_start_starts_none)
    show ?case
    proof (cases r)
      case (Inl e)
      with 2(2) prepared(2) show ?thesis by (simp add: started_log_def)
    next
      case (Inr pid)
      with 2(2) obtain records where "es = records @ [HStart ?rq (Inr pid)]"
        "if audit then reported (encode degraded) records else records = []" by auto
      with prepared(1) Inr \<open>decode_args argv = Inr request\<close> show ?thesis
        unfolding started_log_def descended_def \<open>r = Inr pid\<close> sum.case by blast
    qed
  qed
  moreover have "start_inner_stage ?os SELF_EXE argv audit = io_bind (prepare_supervisor ?os ?p) (\<lambda>degraded.
        st_bind (if audit then report_records ?os (encode degraded) else st_ret ())
          (\<lambda>_. io_map_err (InnerStageFailed ''could not start the inner sandbox stage'') (so_start ?os ?rq)))"
    unfolding start_inner_stage_def Inr bind_of_sum rq ..
  ultimately show ?thesis by simp
qed

text \<open>
  How stage 1 ends: behind a stage below that was started, or refused with nothing started and, on
  a channel, its refusal written there once.
\<close>

definition supervisor_log ::
  "('w, 'fd, 'rs, 'rc, 'r, 'n) stage_os \<Rightarrow> string list \<Rightarrow> stage_end \<Rightarrow> ('fd, 'r, 'n) hev list \<Rightarrow> bool" where
  "supervisor_log os argv ending es \<longleftrightarrow>
     (\<exists>audit rest. split_audit argv = (audit, rest)
       \<and> ((\<exists>pid. descended os audit rest pid es)
          \<or> (\<exists>e before records. ending = StageRefused e \<and> es = before @ records \<and> starts_none before
              \<and> (case (audit, refusal_of e) of
                   (True, Some refusal) \<Rightarrow> reported (encode_refusal refusal) records
                 | _ \<Rightarrow> records = []))))"

lemma self_exe_log:
  "writes (self_exe (so_read_link (watched_stage os))) (\<lambda>r es. es = []
     \<and> (case r of Inr exe \<Rightarrow> exe = SELF_EXE | Inl e \<Rightarrow> refusal_of e = None))"
proof (rule writesI)
  fix w l r w' l' assume run: "self_exe (so_read_link (watched_stage os)) (w, l) = (r, (w', l'))"
  obtain link w1 where "so_read_link os SELF_EXE w = (link, w1)" by force
  with run show "\<exists>es. l' = l @ es \<and> es = []
      \<and> (case r of Inr exe \<Rightarrow> exe = SELF_EXE | Inl e \<Rightarrow> refusal_of e = None)"
    by (cases link) (auto simp: self_exe_def refusal_of_def io_bind_def io_map_err_def io_ret_def unnoted_def)
qed

lemma writes_refusal:
  "writes (report_refusal (watched_stage os) audit r) (\<lambda>_ es.
     case r of Inr _ \<Rightarrow> es = []
     | Inl e \<Rightarrow> (case (audit, refusal_of e) of
         (True, Some refusal) \<Rightarrow> reported (encode_refusal refusal) es | _ \<Rightarrow> es = []))"
  by (auto simp: report_refusal_def split: sum.splits option.splits bool.splits intro: writes_st_ret writes_report)

lemma writes_relay: "writes (relay (watched_stage os) status) (\<lambda>ending es. es = [] \<and> (\<exists>n code. ending = StageEnded n code))"
  by (auto simp: relay_def st_bind_def st_do_def st_ret_def intro!: writesI split: exit_status.splits if_splits)

lemma writes_wait: "writes (st_bind (so_wait_child (watched_stage os) child) (\<lambda>waited. case waited of
      Inl e \<Rightarrow> st_ret (StageRefused (SpawnFailed ''could not wait for the sandboxed command'' e))
    | Inr status \<Rightarrow> relay (watched_stage os) status)) (\<lambda>_ es. es = [])"
proof (rule writes_st_bind[where P = "\<lambda>_ es. es = []"])
  show "writes (so_wait_child (watched_stage os) child) (\<lambda>_ es. es = [])" by (simp add: writes_unnoted)
  show "writes (case waited of
      Inl e \<Rightarrow> st_ret (StageRefused (SpawnFailed ''could not wait for the sandboxed command'' e))
    | Inr status \<Rightarrow> relay (watched_stage os) status) (\<lambda>_ es'. es @ es' = [])" if "es = []" for es waited
    using that by (cases waited) (auto intro!: writes_st_ret intro: writes_mono[OF writes_relay])
qed

lemma writes_ended: "writes (case started of Inl e \<Rightarrow> st_ret (StageRefused e)
    | Inr child \<Rightarrow> st_bind (so_wait_child (watched_stage os) child) (\<lambda>waited. case waited of
        Inl e \<Rightarrow> st_ret (StageRefused (SpawnFailed ''could not wait for the sandboxed command'' e))
      | Inr status \<Rightarrow> relay (watched_stage os) status))
  (\<lambda>ending es. es = [] \<and> (\<forall>e. started = Inl e \<longrightarrow> ending = StageRefused e))"
proof (cases started)
  case (Inr child)
  show ?thesis unfolding Inr sum.case by (rule writes_mono[OF writes_wait]) simp
qed (auto intro!: writes_st_ret)

lemma writes_below:
  assumes split: "split_audit argv = (audit, rest)"
  shows "writes (st_bind (start_inner_stage (watched_stage os) SELF_EXE rest audit) (\<lambda>started.
    st_bind (report_refusal (watched_stage os) audit started) (\<lambda>_. case started of Inl e \<Rightarrow> st_ret (StageRefused e)
      | Inr child \<Rightarrow> st_bind (so_wait_child (watched_stage os) child) (\<lambda>waited. case waited of
          Inl e \<Rightarrow> st_ret (StageRefused (SpawnFailed ''could not wait for the sandboxed command'' e))
        | Inr status \<Rightarrow> relay (watched_stage os) status))))
  (supervisor_log os argv)"
proof (rule writes_st_bind[OF writes_start_inner], rule writes_st_bind[OF writes_refusal],
    rule writes_mono[OF writes_ended], goal_cases)
  case (1 started before u records ending es)
  show ?case
  proof (cases started)
    case (Inl e)
    with 1 split show ?thesis
      unfolding supervisor_log_def started_log_def by (simp, blast)
  next
    case (Inr pid)
    with 1 split show ?thesis by (auto simp: supervisor_log_def started_log_def)
  qed
qed


end
