(* ===== verification/Guard.thy ===== *)
theory Guard
  imports Paths Audit_Trail
begin

text \<open>
  The in-process filesystem gate (\<open>fs_guard.rs\<close>): which descriptor a granted root gets, the check
  of a path against the roots, the accesses behind it and the record each leaves. The support and
  the trail are the fields of \<open>guard_os\<close>; every field takes and returns the world, so another
  process may change what a name reaches between any two calls.
\<close>

section \<open>The kernel\<close>

datatype oflag = O_RDONLY | O_WRONLY | O_CREAT | O_TRUNC | O_DIRECTORY | O_PATH | O_NOFOLLOW | O_CLOEXEC

datatype resolve_flag = RESOLVE_BENEATH | RESOLVE_NO_SYMLINKS

record open_how =
  oh_flags :: "oflag list"
  oh_mode :: nat
  oh_resolve :: "resolve_flag list"

datatype file_kind = KDirectory | KFile | KSymlink | KOther

text \<open>
  \<open>go_list\<close> is \<open>fs::read_dir\<close> with its entries and their \<open>file_type\<close>, \<open>go_dirents\<close> is \<open>readdir\<close> on a
  descriptor (an entry may be unreadable, or have no type), \<open>go_stat_at\<close> is \<open>fstatat\<close> that follows
  no link.
\<close>

record ('w, 'fd) guard_os =
  go_path :: "('w, 'fd) path_os"
  go_errno :: "io_error \<Rightarrow> nat option"
  go_display :: "string \<Rightarrow> string"
  go_cwd :: "('w, io_error, string) io"
  go_is_symlink :: "string \<Rightarrow> 'w \<Rightarrow> bool \<times> 'w"
  go_is_file :: "string \<Rightarrow> 'w \<Rightarrow> bool \<times> 'w"
  go_fd_is_dir :: "'fd \<Rightarrow> ('w, io_error, bool) io"
  go_open :: "oflag list \<Rightarrow> string \<Rightarrow> ('w, io_error, 'fd) io"
  go_openat2 :: "'fd \<Rightarrow> string \<Rightarrow> open_how \<Rightarrow> ('w, io_error, 'fd) io"
  go_dup :: "'fd \<Rightarrow> ('w, io_error, 'fd) io"
  go_list :: "string \<Rightarrow> ('w, io_error, (io_error + string \<times> (io_error + file_kind)) list) io"
  go_dirents :: "'fd \<Rightarrow> ('w, io_error, (io_error + string \<times> file_kind option) list) io"
  go_stat_at :: "'fd \<Rightarrow> string \<Rightarrow> ('w, io_error, file_kind) io"
  go_emit :: "audit_event \<Rightarrow> 'w \<Rightarrow> 'w"

abbreviation ENOENT :: nat where "ENOENT \<equiv> 2"
abbreviation E2BIG :: nat where "E2BIG \<equiv> 7"
abbreviation EXDEV :: nat where "EXDEV \<equiv> 18"
abbreviation ENOTDIR :: nat where "ENOTDIR \<equiv> 20"
abbreviation EINVAL :: nat where "EINVAL \<equiv> 22"
abbreviation ENAMETOOLONG :: nat where "ENAMETOOLONG \<equiv> 36"
abbreviation ENOSYS :: nat where "ENOSYS \<equiv> 38"
abbreviation ELOOP :: nat where "ELOOP \<equiv> 40"
abbreviation EOPNOTSUPP :: nat where "EOPNOTSUPP \<equiv> 95"

definition BENEATH :: "resolve_flag list" where
  "BENEATH = [RESOLVE_BENEATH, RESOLVE_NO_SYMLINKS]"

section \<open>Roots and the guard\<close>

record 'fd root =
  rt_vetted :: vetted_path
  rt_dir :: "'fd option"

record 'fd fs_guard =
  fg_readable :: "'fd root list"
  fg_writable :: "'fd root list"
  fg_session :: "string option"

datatype 'fd rooting = Beneath 'fd | ByPath | Unpinned

definition open_root :: "('w, 'fd) guard_os \<Rightarrow> vetted_path \<Rightarrow> 'w \<Rightarrow> 'fd rooting \<times> 'w" where
  "open_root os v =
     st_bind (po_open_path (go_path os) (vp_path v)) (\<lambda>opened.
       case opened of
         Inl _ \<Rightarrow> st_ret ByPath
       | Inr named \<Rightarrow>
           st_bind (of_fd (go_path os) named) (\<lambda>object.
             case object of
               Inl _ \<Rightarrow> st_ret ByPath
             | Inr object \<Rightarrow>
                 if object \<noteq> vp_object v then st_ret Unpinned
                 else st_bind (go_fd_is_dir os named) (\<lambda>is_dir.
                   case is_dir of
                     Inl _ \<Rightarrow> st_ret ByPath
                   | Inr False \<Rightarrow> st_ret ByPath
                   | Inr True \<Rightarrow>
                       st_bind (go_open os [O_RDONLY, O_PATH, O_DIRECTORY, O_NOFOLLOW, O_CLOEXEC] (vp_path v)) (\<lambda>strict.
                         case strict of Inr dir \<Rightarrow> st_ret (Beneath dir) | Inl _ \<Rightarrow> st_ret Unpinned))))"

datatype openat2 = Present | Absent

definition openat2_support_from ::
  "(io_error \<Rightarrow> nat option) \<Rightarrow> ('w \<Rightarrow> (io_error + 'fd) \<times> 'w) \<Rightarrow> 'w \<Rightarrow> openat2 \<times> 'w" where
  "openat2_support_from errno probe =
     st_bind probe (\<lambda>answer.
       case answer of
         Inr _ \<Rightarrow> st_ret Present
       | Inl e \<Rightarrow> st_ret (if errno e \<in> {Some ENOSYS, Some EINVAL, Some E2BIG, Some EOPNOTSUPP}
                          then Absent else Present))"

definition probe_subject :: "('w, 'fd) guard_os \<Rightarrow> ('w, io_error, 'fd) io" where
  "probe_subject os = go_open os [O_RDONLY, O_PATH, O_DIRECTORY, O_CLOEXEC] ''/''"

definition kernel_probe :: "('w, 'fd) guard_os \<Rightarrow> 'fd \<Rightarrow> ('w, io_error, 'fd) io" where
  "kernel_probe os dir =
     go_openat2 os dir ''.'' \<lparr>oh_flags = [O_PATH, O_DIRECTORY, O_CLOEXEC], oh_mode = 0, oh_resolve = BENEATH\<rparr>"

text \<open>A \<open>/\<close> that does not open answers ENOTDIR, which is no verdict on the call.\<close>

definition openat2_support :: "('w, 'fd) guard_os \<Rightarrow> 'w \<Rightarrow> openat2 \<times> 'w" where
  "openat2_support os =
     st_bind (probe_subject os) (\<lambda>slash.
       case slash of
         Inl _ \<Rightarrow> st_ret Present
       | Inr slash \<Rightarrow> openat2_support_from (go_errno os) (kernel_probe os slash))"

definition unpinned_detail :: "('w, 'fd) guard_os \<Rightarrow> vetted_path \<Rightarrow> string" where
  "unpinned_detail os v = go_display os (vp_path v)
     @ '' no longer reaches the directory it was vetted on; its accesses resolve by path, bounded by the per-access confirmation alone''"

text \<open>One granted entry of \<open>with_rooting\<close>: its descriptor, and whether its loss was told before.\<close>

definition root_dir ::
  "('w, 'fd) guard_os \<Rightarrow> string option \<Rightarrow> openat2 \<Rightarrow> vetted_path \<Rightarrow> string list \<Rightarrow> 'w
     \<Rightarrow> ('fd option \<times> string list) \<times> 'w" where
  "root_dir os session support v told =
     (if support \<noteq> Present then st_ret (None, told)
      else st_bind (open_root os v) (\<lambda>rooting.
        case rooting of
          Beneath dir \<Rightarrow> st_ret (Some dir, told)
        | ByPath \<Rightarrow> st_ret (None, told)
        | Unpinned \<Rightarrow>
            if \<not> list_ex (\<lambda>path. path_eq path (vp_path v)) told
            then st_bind (st_do (go_emit os (ev_degraded ''rooted_access'' None session (unpinned_detail os v))))
                   (\<lambda>_. st_ret (None, told @ [vp_path v]))
            else st_ret (None, told)))"

fun with_rooting_loop ::
  "('w, 'fd) guard_os \<Rightarrow> string option \<Rightarrow> openat2 \<Rightarrow> (axis \<times> vetted_path) list \<Rightarrow> string list
     \<Rightarrow> 'fd fs_guard \<Rightarrow> 'w \<Rightarrow> 'fd fs_guard \<times> 'w" where
  "with_rooting_loop os session support [] told g = st_ret g"
| "with_rooting_loop os session support ((axis, v) # entries) told g =
     st_bind (root_dir os session support v told) (\<lambda>(dir, told').
       let r = \<lparr>rt_vetted = v, rt_dir = dir\<rparr>; gr = axis_grants axis;
           g1 = (if gr_read gr then g\<lparr>fg_readable := fg_readable g @ [r]\<rparr> else g);
           g2 = (if gr_write gr then g1\<lparr>fg_writable := fg_writable g1 @ [r]\<rparr> else g1)
       in with_rooting_loop os session support entries told' g2)"

definition with_rooting ::
  "('w, 'fd) guard_os \<Rightarrow> sandbox_policy \<Rightarrow> string option \<Rightarrow> openat2 \<Rightarrow> 'w \<Rightarrow> 'fd fs_guard \<times> 'w" where
  "with_rooting os p session support =
     with_rooting_loop os session support (granted_paths p) []
       \<lparr>fg_readable = [], fg_writable = [], fg_session = session\<rparr>"

definition new_guard :: "('w, 'fd) guard_os \<Rightarrow> sandbox_policy \<Rightarrow> 'w \<Rightarrow> 'fd fs_guard \<times> 'w" where
  "new_guard os p = st_bind (openat2_support os) (with_rooting os p None)"

definition for_session :: "('w, 'fd) guard_os \<Rightarrow> sandbox_policy \<Rightarrow> string \<Rightarrow> 'w \<Rightarrow> 'fd fs_guard \<times> 'w" where
  "for_session os p session = st_bind (openat2_support os) (with_rooting os p (Some session))"

section \<open>Where a path sits\<close>

record 'fd rooted =
  ro_dir :: 'fd
  ro_granted :: string

record replacement =
  rp_granted :: string
  rp_vetted :: object_id
  rp_opened :: object_id

datatype 'fd containment = Inside "'fd rooted option" | Outside "replacement option"

text \<open>The scan of \<open>contains\<close>: the first moved root, and whether a root without a descriptor confirmed.\<close>

fun contains_loop ::
  "('w, 'fd) guard_os \<Rightarrow> string \<Rightarrow> 'fd root list \<Rightarrow> replacement option \<Rightarrow> bool \<Rightarrow> 'w
     \<Rightarrow> 'fd containment \<times> 'w" where
  "contains_loop os resolved [] moved confirmed =
     st_ret (if confirmed then Inside None else Outside moved)"
| "contains_loop os resolved (r # roots) moved confirmed =
     (if \<not> starts_with resolved (vp_path (rt_vetted r)) then contains_loop os resolved roots moved confirmed
      else st_bind (confirm (go_path os) (rt_vetted r)) (\<lambda>c.
        case c of
          Vetted \<Rightarrow>
            (case rt_dir r of
               Some dir \<Rightarrow> st_ret (Inside (Some \<lparr>ro_dir = dir, ro_granted = vp_path (rt_vetted r)\<rparr>))
             | None \<Rightarrow> contains_loop os resolved roots moved True)
        | Replaced opened \<Rightarrow>
            contains_loop os resolved roots
              (case moved of
                 Some m \<Rightarrow> Some m
               | None \<Rightarrow> Some \<lparr>rp_granted = vp_path (rt_vetted r), rp_vetted = vp_object (rt_vetted r),
                             rp_opened = opened\<rparr>) confirmed
        | Unmeasurable \<Rightarrow> contains_loop os resolved roots moved confirmed))"

definition contains_root ::
  "('w, 'fd) guard_os \<Rightarrow> string \<Rightarrow> 'fd root list \<Rightarrow> 'w \<Rightarrow> 'fd containment \<times> 'w" where
  "contains_root os resolved roots = contains_loop os resolved roots None False"

definition collapsed :: "('w, 'fd) guard_os \<Rightarrow> string \<Rightarrow> 'w \<Rightarrow> string option \<times> 'w" where
  "collapsed os requested =
     (if is_absolute requested then st_ret (Some (collapse requested))
      else st_bind (go_cwd os) (\<lambda>cwd.
        case cwd of
          Inl _ \<Rightarrow> st_ret None
        | Inr dir \<Rightarrow> st_ret (Some (collapse (path_join dir requested)))))"

text \<open>The first form of the spelling that lands in a root which moved.\<close>

fun first_moved :: "('w, 'fd) guard_os \<Rightarrow> string list \<Rightarrow> 'fd root list \<Rightarrow> 'w \<Rightarrow> replacement option \<times> 'w" where
  "first_moved os [] roots = st_ret None"
| "first_moved os (form # forms) roots =
     st_bind (contains_root os form roots) (\<lambda>c.
       case c of
         Outside (Some m) \<Rightarrow> st_ret (Some m)
       | _ \<Rightarrow> first_moved os forms roots)"

definition moved_root ::
  "('w, 'fd) guard_os \<Rightarrow> string \<Rightarrow> 'fd root list \<Rightarrow> 'w \<Rightarrow> replacement option \<times> 'w" where
  "moved_root os requested roots =
     st_bind (collapsed os requested) (\<lambda>form.
       first_moved os
         (requested # (case form of
            Some f \<Rightarrow> if path_eq f requested then [] else [f]
          | None \<Rightarrow> [])) roots)"

record 'fd area =
  ar_ancestor :: "string option"
  ar_granted :: "'fd containment"

fun nearest_loop ::
  "('w, 'fd) guard_os \<Rightarrow> string list \<Rightarrow> 'fd root list \<Rightarrow> 'w \<Rightarrow> 'fd area \<times> 'w" where
  "nearest_loop os [] roots = st_ret \<lparr>ar_ancestor = None, ar_granted = Outside None\<rparr>"
| "nearest_loop os (ancestor # later) roots =
     st_bind (po_canonicalize (go_path os) ancestor) (\<lambda>existing.
       case existing of
         Inl _ \<Rightarrow> nearest_loop os later roots
       | Inr existing \<Rightarrow>
           st_bind (contains_root os existing roots) (\<lambda>c.
             st_ret \<lparr>ar_ancestor = Some ancestor, ar_granted = c\<rparr>))"

definition nearest_area :: "('w, 'fd) guard_os \<Rightarrow> string \<Rightarrow> 'fd root list \<Rightarrow> 'w \<Rightarrow> 'fd area \<times> 'w" where
  "nearest_area os requested roots = nearest_loop os (drop 1 (ancestors requested)) roots"

text \<open>\<open>all\<close> over the steps, stopping at the first link.\<close>

fun none_symlink :: "('w, 'fd) guard_os \<Rightarrow> string list \<Rightarrow> 'w \<Rightarrow> bool \<times> 'w" where
  "none_symlink os [] = st_ret True"
| "none_symlink os (step # steps) =
     st_bind (go_is_symlink os step) (\<lambda>link. if link then st_ret False else none_symlink os steps)"

definition reaches_plainly :: "('w, 'fd) guard_os \<Rightarrow> string \<Rightarrow> string \<Rightarrow> 'w \<Rightarrow> bool \<times> 'w" where
  "reaches_plainly os requested ancestor =
     (if ParentDir \<in> set (components requested) then st_ret False
      else none_symlink os (takeWhile (\<lambda>step. \<not> path_eq step ancestor) (ancestors requested)))"

section \<open>Sorting what went wrong\<close>

definition UNRESOLVABLE :: string where "UNRESOLVABLE = ''path does not resolve''"
definition ROOT_REPLACED :: string where
  "ROOT_REPLACED = ''granted root is not the object it was vetted on''"
definition INCOMPLETE :: string where "INCOMPLETE = ''access did not complete''"
definition ESCAPED :: string where "ESCAPED = ''resolution left the granted root since the check''"

definition names_nothing :: "('w, 'fd) guard_os \<Rightarrow> io_error \<Rightarrow> bool" where
  "names_nothing os source \<longleftrightarrow>
     go_errno os source \<in> {Some ENOENT, Some ENOTDIR, Some ENAMETOOLONG}"

definition listed_nothing :: "('w, 'fd) guard_os \<Rightarrow> io_error \<Rightarrow> bool" where
  "listed_nothing os source \<longleftrightarrow> names_nothing os source \<and> go_errno os source \<noteq> Some ENOTDIR"

definition denial_reason :: "('w, 'fd) guard_os \<Rightarrow> io_error \<Rightarrow> string" where
  "denial_reason os source =
     (if go_errno os source = Some EXDEV then ESCAPED
      else if go_errno os source = Some ELOOP then UNRESOLVABLE else INCOMPLETE)"

definition classify :: "('w, 'fd) guard_os \<Rightarrow> io_error \<Rightarrow> string \<Rightarrow> sandbox_error" where
  "classify os source requested =
     (if names_nothing os source then PathNotFound requested source else Unresolvable requested source)"

section \<open>Records and refusals\<close>

definition emit_allowed :: "('w, 'fd) guard_os \<Rightarrow> 'fd fs_guard \<Rightarrow> access \<Rightarrow> string \<Rightarrow> 'w \<Rightarrow> unit \<times> 'w" where
  "emit_allowed os g a subject = st_do (go_emit os (ev_allowed (operation a) (fg_session g) subject))"

definition emit_absent :: "('w, 'fd) guard_os \<Rightarrow> 'fd fs_guard \<Rightarrow> access \<Rightarrow> string \<Rightarrow> 'w \<Rightarrow> unit \<times> 'w" where
  "emit_absent os g a subject = st_do (go_emit os (ev_absent (operation a) (fg_session g) subject))"

definition emit_denied ::
  "('w, 'fd) guard_os \<Rightarrow> 'fd fs_guard \<Rightarrow> access \<Rightarrow> string \<Rightarrow> string \<Rightarrow> 'w \<Rightarrow> unit \<times> 'w" where
  "emit_denied os g a subject why =
     st_do (go_emit os (ev_denied (operation a) (fg_session g) subject why))"

definition refuse ::
  "('w, 'fd) guard_os \<Rightarrow> 'fd fs_guard \<Rightarrow> replacement option \<Rightarrow> string \<Rightarrow> access \<Rightarrow> 'w \<Rightarrow> sandbox_error \<times> 'w" where
  "refuse os g moved requested a =
     (let subject = go_display os requested
      in case moved of
           None \<Rightarrow> st_bind (emit_denied os g a subject (outside a)) (\<lambda>_. st_ret (PathNotAllowed requested a))
         | Some m \<Rightarrow> st_bind (emit_denied os g a subject ROOT_REPLACED) (\<lambda>_.
             st_ret (RootReplaced (rp_granted m) (rp_vetted m) (rp_opened m))))"

record 'fd permitted =
  pm_resolved :: string
  pm_root :: "'fd rooted option"

definition permit ::
  "('w, 'fd) guard_os \<Rightarrow> 'fd fs_guard \<Rightarrow> string \<Rightarrow> 'fd root list \<Rightarrow> string \<Rightarrow> access
     \<Rightarrow> ('w, sandbox_error, 'fd permitted) io" where
  "permit os g resolved roots requested a =
     st_bind (moved_root os requested roots) (\<lambda>moved.
       case moved of
         Some m \<Rightarrow> st_bind (refuse os g (Some m) requested a) (\<lambda>e. st_ret (Inl e))
       | None \<Rightarrow>
           st_bind (contains_root os resolved roots) (\<lambda>c.
             case c of
               Inside rooted \<Rightarrow> st_ret (Inr \<lparr>pm_resolved = resolved, pm_root = rooted\<rparr>)
             | Outside _ \<Rightarrow> st_bind (refuse os g None requested a) (\<lambda>e. st_ret (Inl e))))"

definition conceal_unless_granted ::
  "('w, 'fd) guard_os \<Rightarrow> 'fd fs_guard \<Rightarrow> string \<Rightarrow> string \<Rightarrow> io_error \<Rightarrow> 'fd root list \<Rightarrow> access
     \<Rightarrow> 'w \<Rightarrow> sandbox_error \<times> 'w" where
  "conceal_unless_granted os g requested tripped source roots a =
     st_bind (moved_root os requested roots) (\<lambda>moved.
       case moved of
         Some m \<Rightarrow> refuse os g (Some m) requested a
       | None \<Rightarrow>
           st_bind (nearest_area os requested roots) (\<lambda>area.
             case ar_granted area of
               Outside _ \<Rightarrow> refuse os g None requested a
             | Inside _ \<Rightarrow>
                 st_bind (case ar_ancestor area of
                            None \<Rightarrow> st_ret False
                          | Some ancestor \<Rightarrow> reaches_plainly os requested ancestor) (\<lambda>plain.
                   if \<not> plain then refuse os g None requested a
                   else let subject = go_display os requested in
                     if names_nothing os source
                     then st_bind (emit_absent os g a subject) (\<lambda>_. st_ret (PathNotFound tripped source))
                     else st_bind (emit_denied os g a subject UNRESOLVABLE) (\<lambda>_.
                            st_ret (Unresolvable tripped source)))))"

definition permit_read ::
  "('w, 'fd) guard_os \<Rightarrow> 'fd fs_guard \<Rightarrow> string \<Rightarrow> ('w, sandbox_error, 'fd permitted) io" where
  "permit_read os g path =
     st_bind (po_canonicalize (go_path os) path) (\<lambda>canon.
       case canon of
         Inr resolved \<Rightarrow> permit os g resolved (fg_readable g) path AccessRead
       | Inl source \<Rightarrow>
           st_bind (conceal_unless_granted os g path path source (fg_readable g) AccessRead) (\<lambda>e. st_ret (Inl e)))"

definition check_read ::
  "('w, 'fd) guard_os \<Rightarrow> 'fd fs_guard \<Rightarrow> string \<Rightarrow> ('w, sandbox_error, string) io" where
  "check_read os g path = io_bind (permit_read os g path) (\<lambda>p. io_ret (pm_resolved p))"

definition resolve_target ::
  "('w, 'fd) guard_os \<Rightarrow> 'fd fs_guard \<Rightarrow> string \<Rightarrow> ('w, sandbox_error, string) io" where
  "resolve_target os g path =
     st_bind (po_canonicalize (go_path os) path) (\<lambda>canon.
       case canon of
         Inr existing \<Rightarrow> st_ret (Inr existing)
       | Inl _ \<Rightarrow>
           st_bind (moved_root os path (fg_writable g)) (\<lambda>moved.
             case moved of
               Some m \<Rightarrow> st_bind (refuse os g (Some m) path AccessWrite) (\<lambda>e. st_ret (Inl e))
             | None \<Rightarrow>
                 st_bind (go_is_symlink os path) (\<lambda>link.
                   let no = (\<lambda>why. st_bind (emit_denied os g AccessWrite (go_display os path) why) (\<lambda>_.
                               st_ret (Inl (PathNotAllowed path AccessWrite)))) in
                   if link then no ''symlink leaf may resolve outside the writable root''
                   else case (parent path, path_file_name path) of
                     (Some up, Some leaf) \<Rightarrow>
                       st_bind (po_canonicalize (go_path os) up) (\<lambda>dir.
                         case dir of
                           Inr d \<Rightarrow> st_ret (Inr (path_join d leaf))
                         | Inl source \<Rightarrow>
                             st_bind (conceal_unless_granted os g path up source (fg_writable g) AccessWrite)
                               (\<lambda>e. st_ret (Inl e)))
                   | _ \<Rightarrow> no ''path names no file to write'')))"

definition permit_write ::
  "('w, 'fd) guard_os \<Rightarrow> 'fd fs_guard \<Rightarrow> string \<Rightarrow> ('w, sandbox_error, 'fd permitted) io" where
  "permit_write os g path =
     io_bind (resolve_target os g path) (\<lambda>resolved.
       permit os g resolved (fg_writable g) path AccessWrite)"

definition check_write ::
  "('w, 'fd) guard_os \<Rightarrow> 'fd fs_guard \<Rightarrow> string \<Rightarrow> ('w, sandbox_error, string) io" where
  "check_write os g path = io_bind (permit_write os g path) (\<lambda>p. io_ret (pm_resolved p))"

section \<open>The accesses\<close>

definition beneath ::
  "('w, 'fd) guard_os \<Rightarrow> 'fd rooted \<Rightarrow> string \<Rightarrow> oflag list \<Rightarrow> nat \<Rightarrow> ('w, io_error, 'fd) io" where
  "beneath os root resolved flags mode =
     (let rest = (case strip_path (ro_granted root) resolved of Some r \<Rightarrow> r | None \<Rightarrow> resolved);
          rest = (if rest = [] then ''.'' else rest)
      in go_openat2 os (ro_dir root) rest
           \<lparr>oh_flags = flags @ [O_CLOEXEC], oh_mode = mode, oh_resolve = BENEATH\<rparr>)"

definition record_outcome ::
  "('w, 'fd) guard_os \<Rightarrow> 'fd fs_guard \<Rightarrow> io_error + 'a \<Rightarrow> access \<Rightarrow> string \<Rightarrow> (io_error \<Rightarrow> bool)
     \<Rightarrow> 'w \<Rightarrow> (io_error + 'a) \<times> 'w" where
  "record_outcome os g outcome a requested absent =
     (let subject = go_display os requested
      in st_bind (case outcome of
           Inr _ \<Rightarrow> emit_allowed os g a subject
         | Inl source \<Rightarrow>
             if absent source then emit_absent os g a subject
             else emit_denied os g a subject (denial_reason os source)) (\<lambda>_. st_ret outcome))"

text \<open>The end of both open paths: the record, then absence or refusal for the caller.\<close>

definition settle_open ::
  "('w, 'fd) guard_os \<Rightarrow> 'fd fs_guard \<Rightarrow> io_error + 'fd \<Rightarrow> access \<Rightarrow> string \<Rightarrow> ('w, sandbox_error, 'fd) io" where
  "settle_open os g opened a requested =
     io_map_err (\<lambda>source. classify os source requested)
       (record_outcome os g opened a requested (names_nothing os))"

definition open_by_path ::
  "('w, 'fd) guard_os \<Rightarrow> 'fd fs_guard \<Rightarrow> oflag list \<Rightarrow> string \<Rightarrow> string \<Rightarrow> access
     \<Rightarrow> ('w, sandbox_error, 'fd) io" where
  "open_by_path os g options resolved requested a =
     st_bind (go_open os (options @ [O_NOFOLLOW, O_CLOEXEC]) resolved) (\<lambda>opened.
       settle_open os g opened a requested)"

definition open_read :: "('w, 'fd) guard_os \<Rightarrow> 'fd fs_guard \<Rightarrow> string \<Rightarrow> ('w, sandbox_error, 'fd) io" where
  "open_read os g path =
     io_bind (permit_read os g path) (\<lambda>p.
       case pm_root p of
         None \<Rightarrow> open_by_path os g [O_RDONLY] (pm_resolved p) path AccessRead
       | Some root \<Rightarrow>
           st_bind (beneath os root (pm_resolved p) [O_RDONLY] 0) (\<lambda>opened.
             settle_open os g opened AccessRead path))"

definition open_write :: "('w, 'fd) guard_os \<Rightarrow> 'fd fs_guard \<Rightarrow> string \<Rightarrow> ('w, sandbox_error, 'fd) io" where
  "open_write os g path =
     io_bind (permit_write os g path) (\<lambda>p.
       case pm_root p of
         None \<Rightarrow> open_by_path os g [O_WRONLY, O_CREAT, O_TRUNC] (pm_resolved p) path AccessWrite
       | Some root \<Rightarrow>
           st_bind (beneath os root (pm_resolved p) [O_WRONLY, O_CREAT, O_TRUNC] 438) (\<lambda>opened.
             settle_open os g opened AccessWrite path))"

section \<open>Listing a directory\<close>

fun listing_by_path :: "(io_error + string \<times> (io_error + file_kind)) list \<Rightarrow> io_error + dir_entry list" where
  "listing_by_path [] = Inr []"
| "listing_by_path (Inl e # entries) = Inl e"
| "listing_by_path (Inr (leaf, kind) # entries) =
     (case listing_by_path entries of
        Inl e \<Rightarrow> Inl e
      | Inr later \<Rightarrow> Inr (\<lparr>de_name = leaf, de_directory = (kind = Inr KDirectory)\<rparr> # later))"

definition stat_kind :: "('w, 'fd) guard_os \<Rightarrow> 'fd \<Rightarrow> string \<Rightarrow> 'w \<Rightarrow> file_kind option \<times> 'w" where
  "stat_kind os dir leaf =
     (if CHR 0x00 \<in> set leaf then st_ret None
      else st_bind (go_stat_at os dir leaf) (\<lambda>at.
        st_ret (case at of Inl _ \<Rightarrow> None | Inr KOther \<Rightarrow> None | Inr k \<Rightarrow> Some k)))"

fun stat_unknown ::
  "('w, 'fd) guard_os \<Rightarrow> 'fd \<Rightarrow> (string \<times> file_kind option) list \<Rightarrow> 'w
     \<Rightarrow> (string \<times> file_kind option) list \<times> 'w" where
  "stat_unknown os dir [] = st_ret []"
| "stat_unknown os dir ((leaf, kind) # entries) =
     st_bind (case kind of Some k \<Rightarrow> st_ret (Some k) | None \<Rightarrow> stat_kind os dir leaf) (\<lambda>k.
     st_bind (stat_unknown os dir entries) (\<lambda>later. st_ret ((leaf, k) # later)))"

definition entries_at ::
  "('w, 'fd) guard_os \<Rightarrow> 'fd \<Rightarrow> ('w, io_error, (string \<times> file_kind option) list) io" where
  "entries_at os dir =
     io_bind (go_dirents os dir) (\<lambda>raw.
       st_bind (stat_unknown os dir
                 (filter (\<lambda>(leaf, _). leaf \<noteq> ''.'' \<and> leaf \<noteq> ''..'')
                   (List.map_filter (\<lambda>e. case e of Inl _ \<Rightarrow> None | Inr entry \<Rightarrow> Some entry) raw)))
         io_ret)"

definition listing_of :: "(string \<times> file_kind option) list \<Rightarrow> dir_entry list" where
  "listing_of = map (\<lambda>(leaf, kind). \<lparr>de_name = leaf, de_directory = (kind = Some KDirectory)\<rparr>)"

definition listing_fd :: "('w, 'fd) guard_os \<Rightarrow> 'fd \<Rightarrow> ('w, io_error, dir_entry list) io" where
  "listing_fd os dir = io_bind (entries_at os dir) (\<lambda>entries. io_ret (listing_of entries))"

definition read_dir ::
  "('w, 'fd) guard_os \<Rightarrow> 'fd fs_guard \<Rightarrow> string \<Rightarrow> ('w, sandbox_error, io_error + dir_entry list) io" where
  "read_dir os g path =
     io_bind (permit_read os g path) (\<lambda>p.
       st_bind (case pm_root p of
                  None \<Rightarrow> io_bind (go_list os (pm_resolved p)) (\<lambda>entries. io_of_sum (listing_by_path entries))
                | Some root \<Rightarrow>
                    io_bind (beneath os root (pm_resolved p) [O_RDONLY, O_DIRECTORY] 0) (listing_fd os))
         (\<lambda>outcome. st_bind (record_outcome os g outcome AccessRead path (listed_nothing os)) io_ret))"

section \<open>Walking a tree\<close>

definition walked_link :: "('w, 'fd) guard_os \<Rightarrow> 'fd fs_guard \<Rightarrow> string \<Rightarrow> 'w \<Rightarrow> string option \<times> 'w" where
  "walked_link os g link =
     st_bind (po_canonicalize (go_path os) link) (\<lambda>canon.
       case canon of
         Inl _ \<Rightarrow> st_ret None
       | Inr resolved \<Rightarrow>
           st_bind (moved_root os link (fg_readable g)) (\<lambda>moved.
           st_bind (case moved of
                      Some m \<Rightarrow> st_ret (Outside (Some m))
                    | None \<Rightarrow> contains_root os resolved (fg_readable g)) (\<lambda>placement.
             case placement of
               Outside moved \<Rightarrow>
                 st_bind (emit_denied os g AccessRead (go_display os link)
                           (if moved = None then outside AccessRead else ROOT_REPLACED))
                   (\<lambda>_. st_ret None)
             | Inside _ \<Rightarrow>
                 st_bind (go_is_file os resolved) (\<lambda>regular.
                   st_ret (if regular then Some resolved else None)))))"

record 'fd pending =
  pd_parent :: 'fd
  pd_name :: "string option"
  pd_at :: string

definition open_dir_at :: "('w, 'fd) guard_os \<Rightarrow> 'fd \<Rightarrow> string \<Rightarrow> ('w, io_error, 'fd) io" where
  "open_dir_at os dir leaf =
     (if CHR 0x00 \<in> set leaf then io_fail (IoOther ''nul byte found in provided data'')
      else go_openat2 os dir leaf
        \<lparr>oh_flags = [O_RDONLY, O_DIRECTORY, O_CLOEXEC], oh_mode = 0, oh_resolve = BENEATH\<rparr>)"

definition open_pending ::
  "('w, 'fd) guard_os \<Rightarrow> 'fd pending \<Rightarrow> ('w, io_error, 'fd \<times> (string \<times> file_kind option) list) io" where
  "open_pending os p =
     io_bind (case pd_name p of None \<Rightarrow> io_ret (pd_parent p) | Some leaf \<Rightarrow> open_dir_at os (pd_parent p) leaf) (\<lambda>dir.
     io_bind (go_dup os dir) (\<lambda>for_listing.
     io_bind (entries_at os for_listing) (\<lambda>entries. io_ret (dir, entries))))"

text \<open>The entries of one directory: Inl is the break at the cap, Inr the stack and files to go on with.\<close>

fun beneath_entries ::
  "('w, 'fd) guard_os \<Rightarrow> 'fd fs_guard \<Rightarrow> nat \<Rightarrow> 'fd \<Rightarrow> string \<Rightarrow> (string \<times> file_kind option) list
     \<Rightarrow> 'fd pending list \<Rightarrow> string list \<Rightarrow> 'w \<Rightarrow> (string list + 'fd pending list \<times> string list) \<times> 'w" where
  "beneath_entries os g cap dir at [] stack files = st_ret (Inr (stack, files))"
| "beneath_entries os g cap dir at ((leaf, kind) # entries) stack files =
     (let child = path_join at leaf in
      case kind of
        Some KSymlink \<Rightarrow>
          st_bind (walked_link os g child) (\<lambda>found.
            case found of
              None \<Rightarrow> beneath_entries os g cap dir at entries stack files
            | Some resolved \<Rightarrow>
                if length files = cap then st_ret (Inl files)
                else beneath_entries os g cap dir at entries stack (files @ [resolved]))
      | Some KDirectory \<Rightarrow>
          beneath_entries os g cap dir at entries
            (\<lparr>pd_parent = dir, pd_name = Some leaf, pd_at = child\<rparr> # stack) files
      | Some KFile \<Rightarrow>
          if length files = cap then st_ret (Inl files)
          else beneath_entries os g cap dir at entries stack (files @ [child])
      | _ \<Rightarrow> beneath_entries os g cap dir at entries stack files)"

partial_function (option) beneath_loop ::
  "('w, 'fd) guard_os \<Rightarrow> 'fd fs_guard \<Rightarrow> nat \<Rightarrow> 'fd pending list \<Rightarrow> string list \<Rightarrow> 'w
     \<Rightarrow> ((string list \<times> bool) \<times> 'w) option" where
  "beneath_loop os g cap stack files w =
     (case stack of
        [] \<Rightarrow> Some ((files, False), w)
      | p # rest \<Rightarrow>
          (case open_pending os p w of
             (Inl _, w1) \<Rightarrow> beneath_loop os g cap rest files w1
           | (Inr (dir, entries), w1) \<Rightarrow>
               (case beneath_entries os g cap dir (pd_at p) entries rest files w1 of
                  (Inl files', w2) \<Rightarrow> Some ((files', True), w2)
                | (Inr (stack', files'), w2) \<Rightarrow> beneath_loop os g cap stack' files' w2)))"

definition walk_result :: "(string list \<times> bool) \<times> 'w \<Rightarrow> readable_walk \<times> 'w" where
  "walk_result r = (case r of ((files, truncated), w) \<Rightarrow>
     (\<lparr>rw_files = sort_key components files, rw_truncated = truncated\<rparr>, w))"

definition walk_beneath ::
  "('w, 'fd) guard_os \<Rightarrow> 'fd fs_guard \<Rightarrow> 'fd \<Rightarrow> string \<Rightarrow> nat \<Rightarrow> 'w \<Rightarrow> (readable_walk \<times> 'w) option" where
  "walk_beneath os g top_fd at cap w =
     map_option walk_result
       (beneath_loop os g cap [\<lparr>pd_parent = top_fd, pd_name = None, pd_at = at\<rparr>] [] w)"

text \<open>The same descent by path, for a root without a descriptor.\<close>

fun path_entries ::
  "('w, 'fd) guard_os \<Rightarrow> 'fd fs_guard \<Rightarrow> nat \<Rightarrow> string \<Rightarrow> (io_error + string \<times> (io_error + file_kind)) list
     \<Rightarrow> string list \<Rightarrow> string list \<Rightarrow> 'w \<Rightarrow> (string list + string list \<times> string list) \<times> 'w" where
  "path_entries os g cap dir [] stack files = st_ret (Inr (stack, files))"
| "path_entries os g cap dir (Inr (leaf, Inr kind) # entries) stack files =
     (let path = path_join dir leaf in
      case kind of
        KSymlink \<Rightarrow>
          st_bind (walked_link os g path) (\<lambda>found.
            case found of
              None \<Rightarrow> path_entries os g cap dir entries stack files
            | Some resolved \<Rightarrow>
                if length files = cap then st_ret (Inl files)
                else path_entries os g cap dir entries stack (files @ [resolved]))
      | KDirectory \<Rightarrow> path_entries os g cap dir entries (path # stack) files
      | KFile \<Rightarrow>
          if length files = cap then st_ret (Inl files)
          else path_entries os g cap dir entries stack (files @ [path])
      | KOther \<Rightarrow> path_entries os g cap dir entries stack files)"
| "path_entries os g cap dir (_ # entries) stack files = path_entries os g cap dir entries stack files"

partial_function (option) path_loop ::
  "('w, 'fd) guard_os \<Rightarrow> 'fd fs_guard \<Rightarrow> nat \<Rightarrow> string list \<Rightarrow> string list \<Rightarrow> 'w
     \<Rightarrow> ((string list \<times> bool) \<times> 'w) option" where
  "path_loop os g cap stack files w =
     (case stack of
        [] \<Rightarrow> Some ((files, False), w)
      | dir # rest \<Rightarrow>
          (case go_list os dir w of
             (Inl _, w1) \<Rightarrow> path_loop os g cap rest files w1
           | (Inr entries, w1) \<Rightarrow>
               (case path_entries os g cap dir entries rest files w1 of
                  (Inl files', w2) \<Rightarrow> Some ((files', True), w2)
                | (Inr (stack', files'), w2) \<Rightarrow> path_loop os g cap stack' files' w2)))"

definition walk_readable ::
  "('w, 'fd) guard_os \<Rightarrow> 'fd fs_guard \<Rightarrow> string \<Rightarrow> nat \<Rightarrow> 'w
     \<Rightarrow> ((sandbox_error + readable_walk) \<times> 'w) option" where
  "walk_readable os g requested cap w =
     (let allowed = (\<lambda>walked w'. case emit_allowed os g AccessRead (go_display os requested) w' of
                        (_, w'') \<Rightarrow> Some (Inr walked, w''))
      in case permit_read os g requested w of
           (Inl e, w1) \<Rightarrow> Some (Inl e, w1)
         | (Inr p, w1) \<Rightarrow>
             (case pm_root p of
                Some rooted \<Rightarrow>
                  (case beneath os rooted (pm_resolved p) [O_RDONLY, O_DIRECTORY] 0 w1 of
                     (Inr top_fd, w2) \<Rightarrow>
                       (case walk_beneath os g top_fd (pm_resolved p) cap w2 of
                          None \<Rightarrow> None | Some (walked, w3) \<Rightarrow> allowed walked w3)
                   | (Inl source, w2) \<Rightarrow>
                       if go_errno os source = Some EXDEV
                       then (case emit_denied os g AccessRead (go_display os requested) ESCAPED w2 of
                               (_, w3) \<Rightarrow> Some (Inl (classify os source requested), w3))
                       else allowed \<lparr>rw_files = [], rw_truncated = False\<rparr> w2)
              | None \<Rightarrow>
                  (case path_loop os g cap [pm_resolved p] [] w1 of
                     None \<Rightarrow> None
                   | Some r \<Rightarrow> (case walk_result r of (walked, w2) \<Rightarrow> allowed walked w2))))"

end
