(* ===== verification/Guard_Safety.thy ===== *)
theory Guard_Safety
  imports Guard
begin

text \<open>
  What the guard's runs do, read off the log of a watched kernel: which names were measured,
  what was opened and how, and which records were left. The statements are about runs of the
  guard's own definitions over \<open>watched os\<close>, which calls \<open>os\<close> and notes each call with its answer.
\<close>

section \<open>The watched kernel\<close>

datatype 'fd gev =
    GCanon string "io_error + string"
  | GNamed string "io_error + 'fd"
  | GStat 'fd "sandbox_error + object_id"
  | GLink string bool
  | GOpen "oflag list" string "io_error + 'fd"
  | GOpenAt 'fd string open_how "io_error + 'fd"
  | GList string
  | GDirents 'fd
  | GAudit audit_event

definition of_object :: "io_error + object_id \<Rightarrow> sandbox_error + object_id" where
  "of_object r = (case r of Inl e \<Rightarrow> Inl (Unsupported []) | Inr x \<Rightarrow> Inr x)"

definition watched :: "('w, 'fd) guard_os \<Rightarrow> ('w \<times> 'fd gev list, 'fd) guard_os" where
  "watched os = \<lparr>
     go_path = \<lparr>
       po_canonicalize = (\<lambda>p. noting (GCanon p) (po_canonicalize (go_path os) p)),
       po_metadata = (\<lambda>p. unnoted (po_metadata (go_path os) p)),
       po_open_path = (\<lambda>p. noting (GNamed p) (po_open_path (go_path os) p)),
       po_fstat = (\<lambda>fd. noting (\<lambda>r. GStat fd (of_object r)) (po_fstat (go_path os) fd))\<rparr>,
     go_errno = go_errno os,
     go_display = go_display os,
     go_cwd = unnoted (go_cwd os),
     go_is_symlink = (\<lambda>p. noting (GLink p) (go_is_symlink os p)),
     go_is_file = (\<lambda>p. unnoted (go_is_file os p)),
     go_fd_is_dir = (\<lambda>fd. unnoted (go_fd_is_dir os fd)),
     go_open = (\<lambda>flags p. noting (GOpen flags p) (go_open os flags p)),
     go_openat2 = (\<lambda>fd p how. noting (GOpenAt fd p how) (go_openat2 os fd p how)),
     go_dup = (\<lambda>fd. unnoted (go_dup os fd)),
     go_list = (\<lambda>p. noting (\<lambda>_. GList p) (go_list os p)),
     go_dirents = (\<lambda>fd. noting (\<lambda>_. GDirents fd) (go_dirents os fd)),
     go_stat_at = (\<lambda>fd p. unnoted (go_stat_at os fd p)),
     go_emit = (\<lambda>e (w, l). (go_emit os e w, l @ [GAudit e]))\<rparr>"

lemma watched_simps [simp]:
  "po_canonicalize (go_path (watched os)) p = noting (GCanon p) (po_canonicalize (go_path os) p)"
  "po_open_path (go_path (watched os)) p = noting (GNamed p) (po_open_path (go_path os) p)"
  "po_fstat (go_path (watched os)) fd = noting (\<lambda>r. GStat fd (of_object r)) (po_fstat (go_path os) fd)"
  "go_errno (watched os) = go_errno os"
  "go_display (watched os) = go_display os"
  "go_cwd (watched os) = unnoted (go_cwd os)"
  "go_is_symlink (watched os) p = noting (GLink p) (go_is_symlink os p)"
  "go_is_file (watched os) p = unnoted (go_is_file os p)"
  "go_fd_is_dir (watched os) fd = unnoted (go_fd_is_dir os fd)"
  "go_open (watched os) flags p = noting (GOpen flags p) (go_open os flags p)"
  "go_openat2 (watched os) fd p how = noting (GOpenAt fd p how) (go_openat2 os fd p how)"
  "go_dup (watched os) fd = unnoted (go_dup os fd)"
  "go_list (watched os) p = noting (\<lambda>_. GList p) (go_list os p)"
  "go_dirents (watched os) fd = noting (\<lambda>_. GDirents fd) (go_dirents os fd)"
  "go_stat_at (watched os) fd p = unnoted (go_stat_at os fd p)"
  by (simp_all add: watched_def)

lemma writes_emit: "writes (st_do (go_emit (watched os) e)) (\<lambda>_ es. es = [GAudit e])"
  by (auto intro!: writesI simp: st_do_def watched_def)

fun measuring :: "'fd gev \<Rightarrow> bool" where
  "measuring (GCanon _ _) = True"
| "measuring (GNamed _ _) = True"
| "measuring (GStat _ _) = True"
| "measuring (GLink _ _) = True"
| "measuring _ = False"

text \<open>A root was measured in a log: its name was opened, and the descriptor held the vetted object.\<close>

definition confirmed_in :: "'fd gev list \<Rightarrow> vetted_path \<Rightarrow> bool" where
  "confirmed_in es v \<longleftrightarrow>
     (\<exists>fd. GNamed (vp_path v) (Inr fd) \<in> set es \<and> GStat fd (Inr (vp_object v)) \<in> set es)"

definition covers :: "'fd gev list \<Rightarrow> 'fd root list \<Rightarrow> string \<Rightarrow> 'fd rooted option \<Rightarrow> bool" where
  "covers es roots resolved rooted \<longleftrightarrow>
     (\<exists>r \<in> set roots. starts_with resolved (vp_path (rt_vetted r)) \<and> confirmed_in es (rt_vetted r)
        \<and> (case rooted of None \<Rightarrow> True
           | Some ro \<Rightarrow> rt_dir r = Some (ro_dir ro) \<and> ro_granted ro = vp_path (rt_vetted r)))"

lemma confirmed_in_mono: "confirmed_in es v \<Longrightarrow> set es \<subseteq> set es' \<Longrightarrow> confirmed_in es' v"
  unfolding confirmed_in_def by blast

lemma covers_mono: "covers es roots p rooted \<Longrightarrow> set es \<subseteq> set es' \<Longrightarrow> covers es' roots p rooted"
  unfolding covers_def using confirmed_in_mono by blast

lemma covers_append: "covers es' roots p rooted \<Longrightarrow> covers (es @ es') roots p rooted"
  by (rule covers_mono[of es']) auto

lemma covers_later: "covers es' roots p rooted \<Longrightarrow> covers (es @ es') (r # roots) p rooted"
  by (rule covers_mono[of es']) (auto simp: covers_def)

section \<open>Measurements\<close>

lemma writes_of_fd:
  "writes (of_fd (go_path (watched os)) fd)
     (\<lambda>r es. list_all measuring es \<and> (\<forall>x. r = Inr x \<longrightarrow> GStat fd (Inr x) \<in> set es))"
  by (rule writesI)
    (auto simp: of_fd_def io_map_err_def noting_def of_object_def split: prod.splits sum.splits)

lemma writes_confirm:
  "writes (confirm (go_path (watched os)) v)
     (\<lambda>c es. list_all measuring es \<and> (c = Vetted \<longrightarrow> confirmed_in es v))"
proof (rule writesI)
  fix w l c w' l'
  assume run: "confirm (go_path (watched os)) v (w, l) = (c, (w', l'))"
  obtain r1 w1 where named: "po_open_path (go_path os) (vp_path v) w = (r1, w1)" by force
  show "\<exists>es. l' = l @ es \<and> list_all measuring es \<and> (c = Vetted \<longrightarrow> confirmed_in es v)"
  proof (cases r1)
    case (Inl e)
    with run named show ?thesis by (auto simp: confirm_def noting_def)
  next
    case (Inr fd)
    obtain r2 w2 l2 where stat: "of_fd (go_path (watched os)) fd (w1, l @ [GNamed (vp_path v) (Inr fd)]) = (r2, (w2, l2))"
      by (metis prod.collapse)
    from writesD[OF writes_of_fd stat] obtain es where
      es: "l2 = l @ [GNamed (vp_path v) (Inr fd)] @ es" "list_all measuring es"
        "\<forall>x. r2 = Inr x \<longrightarrow> GStat fd (Inr x) \<in> set es"
      by auto
    with run named Inr stat show ?thesis
      by (auto simp: confirm_def noting_def confirmed_in_def split: sum.splits if_splits)
  qed
qed

lemma writes_contains_loop:
  "writes (contains_loop (watched os) resolved roots moved confirmed)
     (\<lambda>c es. list_all measuring es
        \<and> (\<forall>rooted. c = Inside rooted \<longrightarrow> rooted = None \<and> confirmed \<or> covers es roots resolved rooted))"
proof (induction roots arbitrary: moved confirmed)
  case Nil
  then show ?case by (auto intro!: writes_st_ret)
next
  case (Cons r roots)
  have more: "covers es (r # roots) resolved rooted" if "covers es roots resolved rooted" for es rooted
    using that by (auto simp: covers_def)
  show ?case
  proof (cases "starts_with resolved (vp_path (rt_vetted r))")
    case False
    then show ?thesis
      using Cons.IH by (auto intro: writes_mono more)
  next
    case True
    have here: "covers es (r # roots) resolved rooted"
      if "confirmed_in es (rt_vetted r)" "rooted = None \<or> (\<exists>dir. rt_dir r = Some dir \<and> rooted = Some \<lparr>ro_dir = dir, ro_granted = vp_path (rt_vetted r)\<rparr>)"
      for es rooted
      using that True by (auto simp: covers_def)
    have step: "contains_loop (watched os) resolved (r # roots) moved confirmed =
      st_bind (confirm (go_path (watched os)) (rt_vetted r)) (\<lambda>c.
        case c of
          Vetted \<Rightarrow>
            (case rt_dir r of
               Some dir \<Rightarrow> st_ret (Inside (Some \<lparr>ro_dir = dir, ro_granted = vp_path (rt_vetted r)\<rparr>))
             | None \<Rightarrow> contains_loop (watched os) resolved roots moved True)
        | Replaced opened \<Rightarrow>
            contains_loop (watched os) resolved roots
              (case moved of
                 Some m \<Rightarrow> Some m
               | None \<Rightarrow> Some \<lparr>rp_granted = vp_path (rt_vetted r), rp_vetted = vp_object (rt_vetted r),
                             rp_opened = opened\<rparr>) confirmed
        | Unmeasurable \<Rightarrow> contains_loop (watched os) resolved roots moved confirmed)"
      using True by simp
    show ?thesis
      unfolding step
    proof (rule writes_st_bind[OF writes_confirm], goal_cases)
      case (1 c es)
      then have es: "list_all measuring es" "c = Vetted \<longrightarrow> confirmed_in es (rt_vetted r)" by auto
      show ?case
      proof (cases c)
        case Vetted
        with es have v: "confirmed_in es (rt_vetted r)" by simp
        show ?thesis
        proof (cases "rt_dir r")
          case None
          from here[OF confirmed_in_mono[OF v], of "es @ es'" None for es'] es(1) show ?thesis
            unfolding Vetted confirmation.case None option.case
            by (intro writes_mono[OF Cons.IH]) (auto dest: covers_later[of _ roots _ _ es r])
        next
          case (Some dir)
          with here[OF v] es(1) Vetted show ?thesis by (auto intro!: writes_st_ret)
        qed
      next
        case (Replaced opened)
        with es(1) show ?thesis
          by (auto intro!: writes_mono[OF Cons.IH] dest: covers_later[of _ roots _ _ es r])
      next
        case Unmeasurable
        with es(1) show ?thesis
          by (auto intro!: writes_mono[OF Cons.IH] dest: covers_later[of _ roots _ _ es r])
      qed
    qed
  qed
qed

lemma writes_contains_root:
  "writes (contains_root (watched os) resolved roots)
     (\<lambda>c es. list_all measuring es \<and> (\<forall>rooted. c = Inside rooted \<longrightarrow> covers es roots resolved rooted))"
  unfolding contains_root_def by (rule writes_mono[OF writes_contains_loop]) simp

section \<open>The verdicts\<close>

abbreviation measures :: "('w \<times> 'fd gev list \<Rightarrow> 'r \<times> ('w \<times> 'fd gev list)) \<Rightarrow> bool" where
  "measures m \<equiv> writes m (\<lambda>_ es. list_all measuring es)"

lemma measures_st_bind: "measures m \<Longrightarrow> (\<And>x. measures (f x)) \<Longrightarrow> measures (st_bind m f)"
  by (rule writes_st_bind) (auto intro: writes_mono)

lemma measures_noting [intro]:
  "measures (noting (GCanon p) m)" "measures (noting (GLink p) m')" "measures (noting (GNamed p) m'')"
  by (auto intro!: writesI simp: noting_def split: prod.splits)

lemma measures_unnoted [intro]: "measures (unnoted m)"
  by (rule writes_unnoted) simp

lemma measures_st_ret [intro]: "measures (st_ret x)"
  by (rule writes_st_ret) simp

lemma measures_contains_root [intro]: "measures (contains_root (watched os) p roots)"
  by (rule writes_mono[OF writes_contains_root]) simp

lemma measures_first_moved: "measures (first_moved (watched os) forms roots)"
  by (induction forms) (auto intro!: measures_st_bind split: containment.split option.split)

lemma measures_moved_root [intro]: "measures (moved_root (watched os) p roots)"
  unfolding moved_root_def collapsed_def
  by (intro measures_st_bind measures_first_moved) (auto intro!: measures_st_bind split: sum.split)

text \<open>What a refusal leaves: its record, and nothing behind it.\<close>

fun tells :: "('w, 'fd) guard_os \<Rightarrow> 'fd fs_guard \<Rightarrow> access \<Rightarrow> string \<Rightarrow> sandbox_error \<Rightarrow> audit_event \<Rightarrow> bool" where
  "tells os g a path (PathNotFound _ _) r \<longleftrightarrow> r = ev_absent (operation a) (fg_session g) (go_display os path)"
| "tells os g a path _ r \<longleftrightarrow> (\<exists>why. r = ev_denied (operation a) (fg_session g) (go_display os path) why)"

fun discloses :: "sandbox_error \<Rightarrow> bool" where
  "discloses (PathNotAllowed _ _) = False"
| "discloses (RootReplaced _ _ _) = False"
| "discloses _ = True"

definition refused_as ::
  "('w, 'fd) guard_os \<Rightarrow> 'fd fs_guard \<Rightarrow> access \<Rightarrow> string \<Rightarrow> sandbox_error \<Rightarrow> 'fd gev list \<Rightarrow> bool" where
  "refused_as os g a path e es \<longleftrightarrow>
     (\<exists>ms r. es = ms @ [GAudit r] \<and> list_all measuring ms \<and> tells os g a path e r)"

lemma refused_as_behind: "list_all measuring ms \<Longrightarrow> refused_as os g a path e es \<Longrightarrow> refused_as os g a path e (ms @ es)"
  unfolding refused_as_def by (metis append.assoc list_all_append)

lemma writes_refuse:
  "writes (refuse (watched os) g moved path a) (\<lambda>e es. refused_as os g a path e es \<and> \<not> discloses e)"
  by (auto simp: refuse_def emit_denied_def Let_def refused_as_def intro!: writes_st_bind[OF writes_emit] writes_st_ret
      split: option.split)

text \<open>Why a host's reason may be named: the path's nearest resolving ancestor lies in a confirmed root,
  and nothing between is a link or a double dot.\<close>

definition plain_inside :: "'fd gev list \<Rightarrow> 'fd root list \<Rightarrow> string \<Rightarrow> bool" where
  "plain_inside es roots path \<longleftrightarrow>
     ParentDir \<notin> set (components path)
     \<and> (\<exists>ancestor existing rooted. ancestor \<in> set (drop 1 (ancestors path))
          \<and> GCanon ancestor (Inr existing) \<in> set es \<and> covers es roots existing rooted
          \<and> (\<forall>step \<in> set (takeWhile (\<lambda>step. \<not> path_eq step ancestor) (ancestors path)).
               GLink step False \<in> set es))"

lemma writes_none_symlink:
  "writes (none_symlink (watched os) steps)
     (\<lambda>ok es. list_all measuring es \<and> (ok \<longrightarrow> (\<forall>step \<in> set steps. GLink step False \<in> set es)))"
proof (induction steps)
  case (Cons step steps)
  have note_link: "writes (noting (GLink step) m) (\<lambda>b es. es = [GLink step b])" for m :: "'a \<Rightarrow> bool \<times> 'a"
    by (auto intro!: writesI simp: noting_def split: prod.splits)
  show ?case
    by (auto intro!: writes_st_bind[OF note_link] writes_st_ret writes_mono[OF Cons.IH])
qed (auto intro!: writes_st_ret)

lemma note_canon: "writes (noting (GCanon p) m) (\<lambda>r es. es = [GCanon p r])"
  by (auto intro!: writesI simp: noting_def split: prod.splits)

lemma writes_nearest_loop:
  "writes (nearest_loop (watched os) as roots)
     (\<lambda>area es. list_all measuring es
        \<and> (\<forall>rooted. ar_granted area = Inside rooted \<longrightarrow>
             (\<exists>ancestor existing. ar_ancestor area = Some ancestor \<and> ancestor \<in> set as
                \<and> GCanon ancestor (Inr existing) \<in> set es \<and> covers es roots existing rooted)))"
proof (induction as)
  case (Cons p as)
  show ?case
    unfolding nearest_loop.simps watched_simps
  proof (rule writes_st_bind[OF note_canon], goal_cases)
    case (1 x es)
    show ?case
    proof (cases x)
      case (Inl e)
      with 1 show ?thesis
        by (auto intro!: writes_mono[OF Cons.IH]) (meson covers_mono set_subset_Cons)
    next
      case (Inr existing)
      have "writes (st_bind (contains_root (watched os) existing roots)
              (\<lambda>c. st_ret \<lparr>ar_ancestor = Some p, ar_granted = c\<rparr>))
          (\<lambda>area es'. list_all measuring es' \<and> ar_ancestor area = Some p
             \<and> (\<forall>rooted. ar_granted area = Inside rooted \<longrightarrow> covers es' roots existing rooted))"
        by (rule writes_st_bind[OF writes_contains_root]) (auto intro!: writes_st_ret)
      with 1 Inr show ?thesis
        by (auto elim!: writes_mono intro: covers_mono[OF _ set_subset_Cons])
    qed
  qed
qed (auto intro!: writes_st_ret)

lemma writes_reaches_plainly:
  "writes (reaches_plainly (watched os) path ancestor)
     (\<lambda>ok es. list_all measuring es
        \<and> (ok \<longrightarrow> ParentDir \<notin> set (components path)
             \<and> (\<forall>step \<in> set (takeWhile (\<lambda>step. \<not> path_eq step ancestor) (ancestors path)).
                  GLink step False \<in> set es)))"
  by (auto simp: reaches_plainly_def intro!: writes_st_ret writes_mono[OF writes_none_symlink])

lemma refused_behind:
  assumes "list_all measuring ms"
  shows "writes (refuse (watched os) g moved path a)
    (\<lambda>e es'. refused_as os g a path e (ms @ es') \<and> (discloses e \<longrightarrow> X e es'))"
  by (rule writes_mono[OF writes_refuse]) (auto intro: refused_as_behind[OF assms])

lemma writes_conceal:
  "writes (conceal_unless_granted (watched os) g path tripped source roots a)
     (\<lambda>e es. refused_as os g a path e es \<and> (discloses e \<longrightarrow> plain_inside es roots path))"
  unfolding conceal_unless_granted_def
proof (rule writes_st_bind[OF measures_moved_root], goal_cases)
  case (1 moved ms)
  show ?case
  proof (cases moved)
    case (Some m)
    with refused_behind[OF 1] show ?thesis by simp
  next
    case None
    show ?thesis
      unfolding None option.case nearest_area_def
    proof (rule writes_st_bind[OF writes_nearest_loop], goal_cases)
      case (1 area es)
      then have ms: "list_all measuring (ms @ es)" using \<open>list_all measuring ms\<close> by simp
      show ?case
      proof (cases "ar_granted area")
        case (Outside moved')
        with refused_behind[OF ms] show ?thesis by simp
      next
        case (Inside rooted)
        with 1 obtain ancestor existing where
          anc: "ar_ancestor area = Some ancestor" "ancestor \<in> set (drop 1 (ancestors path))"
            "GCanon ancestor (Inr existing) \<in> set es" "covers es roots existing rooted"
          by auto
        show ?thesis
          unfolding Inside containment.case anc(1) option.case
        proof (rule writes_st_bind[OF writes_reaches_plainly], goal_cases)
          case (1 plain es2)
          then have ms2: "list_all measuring (ms @ es @ es2)" using ms by simp
          show ?case
          proof (cases plain)
            case False
            with refused_behind[OF ms2] show ?thesis by simp
          next
            case True
            have inside: "plain_inside (ms @ es @ es2 @ es3) roots path" for es3
              unfolding plain_inside_def
              using 1 True anc(2,3) covers_mono[OF anc(4), of "ms @ es @ es2 @ es3"] by auto
            show ?thesis
              using True ms2 inside
              by (auto simp: Let_def emit_absent_def emit_denied_def refused_as_def
                  intro!: writes_st_bind[OF writes_emit] writes_st_ret)
          qed
        qed
      qed
    qed
  qed
qed

text \<open>The outcome of a check: refused with its record, or covered by a root measured on the way.\<close>

definition checked ::
  "('w, 'fd) guard_os \<Rightarrow> 'fd fs_guard \<Rightarrow> 'fd root list \<Rightarrow> access \<Rightarrow> string \<Rightarrow> sandbox_error + 'fd permitted
     \<Rightarrow> 'fd gev list \<Rightarrow> bool" where
  "checked os g roots a path r es \<longleftrightarrow>
     (case r of
        Inl e \<Rightarrow> refused_as os g a path e es \<and> (discloses e \<longrightarrow> plain_inside es roots path)
      | Inr p \<Rightarrow> list_all measuring es \<and> covers es roots (pm_resolved p) (pm_root p))"

lemma plain_inside_mono: "plain_inside es roots path \<Longrightarrow> set es \<subseteq> set es' \<Longrightarrow> plain_inside es' roots path"
  unfolding plain_inside_def using covers_mono by (meson subsetD)

lemma checked_behind:
  "list_all measuring ms \<Longrightarrow> checked os g roots a path r es \<Longrightarrow> checked os g roots a path r (ms @ es)"
  by (auto simp: checked_def refused_as_behind intro: plain_inside_mono covers_mono split: sum.splits)

lemma writes_refused:
  assumes "list_all measuring ms"
  shows "writes (st_bind (refuse (watched os) g moved path a) (\<lambda>e. st_ret (Inl e)))
    (\<lambda>r es'. checked os g roots a path r (ms @ es'))"
  by (rule writes_st_bind[OF writes_refuse])
    (auto intro!: writes_st_ret refused_as_behind[OF assms] simp: checked_def)

lemma writes_permit:
  "writes (permit (watched os) g resolved roots path a)
     (\<lambda>r es. checked os g roots a path r es \<and> (\<forall>p. r = Inr p \<longrightarrow> pm_resolved p = resolved))"
  unfolding permit_def
proof (rule writes_st_bind[OF measures_moved_root], goal_cases)
  case (1 moved ms)
  have no: "writes (st_bind (refuse (watched os) g moved' path a) (\<lambda>e. st_ret (Inl e)))
      (\<lambda>r es'. checked os g roots a path r (es @ es') \<and> (\<forall>p. r = Inr p \<longrightarrow> pm_resolved p = resolved))"
    if "list_all measuring es" for moved' es
    by (rule writes_st_bind[OF writes_refuse])
      (auto intro!: writes_st_ret refused_as_behind[OF that] simp: checked_def)
  show ?case
  proof (cases moved)
    case (Some m)
    with no[OF 1] show ?thesis by simp
  next
    case None
    show ?thesis
      unfolding None option.case
    proof (rule writes_st_bind[OF writes_contains_root], goal_cases)
      case (1 c es)
      then have ms: "list_all measuring (ms @ es)" using \<open>list_all measuring ms\<close> by simp
      show ?case
      proof (cases c)
        case (Inside rooted)
        with 1 ms show ?thesis
          by (auto simp: checked_def intro!: writes_st_ret covers_append)
      next
        case (Outside moved')
        with no[OF ms] show ?thesis by simp
      qed
    qed
  qed
qed

text \<open>A resolved path is what the kernel said the request, or its parent, resolves to.\<close>

definition resolved_from :: "'fd gev list \<Rightarrow> string \<Rightarrow> string \<Rightarrow> bool" where
  "resolved_from es path resolved \<longleftrightarrow>
     GCanon path (Inr resolved) \<in> set es
     \<or> (\<exists>up leaf dir. parent path = Some up \<and> path_file_name path = Some leaf
          \<and> GCanon up (Inr dir) \<in> set es \<and> resolved = path_join dir leaf \<and> GLink path False \<in> set es)"

lemma resolved_from_mono: "resolved_from es path p \<Longrightarrow> set es \<subseteq> set es' \<Longrightarrow> resolved_from es' path p"
  unfolding resolved_from_def by blast

lemma writes_permit_read:
  "writes (permit_read (watched os) g path)
     (\<lambda>r es. checked os g (fg_readable g) AccessRead path r es
        \<and> (\<forall>p. r = Inr p \<longrightarrow> resolved_from es path (pm_resolved p)))"
  unfolding permit_read_def watched_simps
proof (rule writes_st_bind[OF note_canon], goal_cases)
  case (1 canon es)
  show ?case
  proof (cases canon)
    case (Inl source)
    have "writes (st_bind (conceal_unless_granted (watched os) g path path source (fg_readable g) AccessRead)
              (\<lambda>e. st_ret (Inl e)))
        (\<lambda>r es. checked os g (fg_readable g) AccessRead path r es \<and> (\<exists>e. r = Inl e))"
      by (rule writes_st_bind[OF writes_conceal]) (auto intro!: writes_st_ret simp: checked_def)
    with 1 Inl show ?thesis
      by (auto elim!: writes_mono intro!: checked_behind[of "[_]", simplified])
  next
    case (Inr resolved)
    with 1 show ?thesis
      by (auto intro!: writes_mono[OF writes_permit] checked_behind[of "[_]", simplified] simp: resolved_from_def)
  qed
qed

lemma writes_resolve_target:
  "writes (resolve_target (watched os) g path)
     (\<lambda>r es. case r of
        Inl e \<Rightarrow> refused_as os g AccessWrite path e es \<and> (discloses e \<longrightarrow> plain_inside es (fg_writable g) path)
      | Inr resolved \<Rightarrow> list_all measuring es \<and> resolved_from es path resolved)"
  (is "writes _ ?P")
  unfolding resolve_target_def watched_simps
proof (rule writes_st_bind[OF note_canon], goal_cases)
  case (1 canon es)
  show ?case
  proof (cases canon)
    case (Inr existing)
    with 1 show ?thesis by (auto intro!: writes_st_ret simp: resolved_from_def)
  next
    case (Inl source)
    have es: "list_all measuring es" using 1 by simp
    show ?thesis
      unfolding Inl sum.case
    proof (rule writes_st_bind[OF measures_moved_root], goal_cases)
      case (1 moved ms)
      have ms: "list_all measuring (es @ ms)" using 1 es by simp
      show ?case
      proof (cases moved)
        case (Some m)
        show ?thesis
          unfolding Some option.case
          by (rule writes_st_bind[OF writes_refuse])
            (use refused_as_behind[OF ms] in \<open>auto intro!: writes_st_ret\<close>)
      next
        case None
        have note_link: "writes (noting (GLink path) m) (\<lambda>b es. es = [GLink path b])" for m :: "'a \<Rightarrow> bool \<times> 'a"
          by (auto intro!: writesI simp: noting_def split: prod.splits)
        show ?thesis
          unfolding None option.case
        proof (rule writes_st_bind[OF note_link], goal_cases)
          case (1 link ls)
          then have ls: "list_all measuring (es @ ms @ ls)" "ls = [GLink path link]" using ms by simp_all
          have no: "writes (st_bind (emit_denied (watched os) g AccessWrite (go_display os path) why)
                (\<lambda>_. st_ret (Inl (PathNotAllowed path AccessWrite))))
              (\<lambda>r es'. ?P r (es @ ms @ ls @ es'))" for why
          proof -
            have "refused_as os g AccessWrite path (PathNotAllowed path AccessWrite)
                ((es @ ms @ ls) @ [GAudit (ev_denied (operation AccessWrite) (fg_session g) (go_display os path) why)])"
              unfolding refused_as_def using ls by auto
            then show ?thesis
              unfolding emit_denied_def
              by (intro writes_st_bind[OF writes_emit] writes_st_ret) simp
          qed
          show ?case
          proof (cases "link \<or> parent path = None \<or> path_file_name path = None")
            case True
            with no show ?thesis
              by (auto simp: Let_def split: option.splits)
          next
            case False
            then obtain up leaf where up: "\<not> link" "parent path = Some up" "path_file_name path = Some leaf"
              by auto
            show ?thesis
              unfolding Let_def if_not_P[OF up(1)] up(2,3) option.case prod.case
            proof (rule writes_st_bind[OF note_canon], goal_cases)
              case (1 dir ds)
              then have ds: "list_all measuring (es @ ms @ ls @ ds)" using ls by simp
              show ?case
              proof (cases dir)
                case (Inr d)
                with ds 1 ls up show ?thesis
                  by (auto intro!: writes_st_ret simp: resolved_from_def)
              next
                case (Inl source')
                show ?thesis
                  unfolding Inl sum.case
                  by (rule writes_st_bind[OF writes_conceal])
                    (use refused_as_behind[OF ds] in \<open>auto intro!: writes_st_ret elim!: plain_inside_mono\<close>)
              qed
            qed
          qed
        qed
      qed
    qed
  qed
qed

lemma writes_permit_write:
  "writes (permit_write (watched os) g path)
     (\<lambda>r es. checked os g (fg_writable g) AccessWrite path r es
        \<and> (\<forall>p. r = Inr p \<longrightarrow> resolved_from es path (pm_resolved p)))"
  unfolding permit_write_def
  by (rule writes_bind[OF writes_resolve_target writes_permit])
    (auto simp: checked_def[of _ _ _ _ _ "Inl _"] intro!: checked_behind elim!: resolved_from_mono)

section \<open>The accesses\<close>

fun is_audit :: "'fd gev \<Rightarrow> bool" where
  "is_audit (GAudit _) = True"
| "is_audit _ = False"

lemma measuring_not_audit: "measuring e \<Longrightarrow> \<not> is_audit e"
  by (cases e) simp_all


text \<open>
  An access that was made: the path was resolved and covered by a root measured on the way, and
  the one call that reached it went beneath that root's descriptor, links and escapes refused, or,
  without a descriptor, by the resolved path with a link at the leaf refused.
\<close>

definition lawful :: "'fd gev list \<Rightarrow> 'fd root list \<Rightarrow> string \<Rightarrow> 'fd gev \<Rightarrow> bool" where
  "lawful es roots resolved acc \<longleftrightarrow>
     (\<exists>ro rest how r. acc = GOpenAt (ro_dir ro) (if rest = [] then ''.'' else rest) how r
        \<and> covers es roots resolved (Some ro) \<and> strip_path (ro_granted ro) resolved = Some rest
        \<and> oh_resolve how = BENEATH \<and> O_CLOEXEC \<in> set (oh_flags how))
     \<or> (\<exists>flags r. acc = GOpen flags resolved r \<and> covers es roots resolved None \<and> O_NOFOLLOW \<in> set flags)"

definition reached :: "'fd gev list \<Rightarrow> 'fd root list \<Rightarrow> string \<Rightarrow> 'fd gev \<Rightarrow> bool" where
  "reached es roots path acc \<longleftrightarrow>
     (\<exists>resolved. resolved_from es path resolved \<and> lawful es roots resolved acc)"

lemma lawful_mono: "lawful ms roots p acc \<Longrightarrow> set ms \<subseteq> set es \<Longrightarrow> lawful es roots p acc"
  unfolding lawful_def by (elim disjE exE conjE) (metis covers_mono)+

lemma reached_mono: "reached ms roots path acc \<Longrightarrow> set ms \<subseteq> set es \<Longrightarrow> reached es roots path acc"
  unfolding reached_def by (blast intro: resolved_from_mono lawful_mono)

lemma lawful_kind: "lawful es roots p acc \<Longrightarrow> \<not> measuring acc \<and> \<not> is_audit acc \<and> (\<exists>rooted. covers es roots p rooted)"
  unfolding lawful_def by auto

fun answer :: "'fd gev \<Rightarrow> (io_error + 'fd) option" where
  "answer (GOpen _ _ r) = Some r"
| "answer (GOpenAt _ _ _ r) = Some r"
| "answer _ = None"

text \<open>The record of an access: what became of it, as the caller sees it.\<close>

definition record_of ::
  "('w, 'fd) guard_os \<Rightarrow> 'fd fs_guard \<Rightarrow> access \<Rightarrow> string \<Rightarrow> sandbox_error + 'a \<Rightarrow> audit_event \<Rightarrow> bool" where
  "record_of os g a path r ev \<longleftrightarrow>
     (case r of
        Inr _ \<Rightarrow> ev = ev_allowed (operation a) (fg_session g) (go_display os path)
      | Inl e \<Rightarrow> tells os g a path e ev)"

lemma writes_settle_open:
  "writes (settle_open (watched os) g opened a path)
     (\<lambda>r es. (\<exists>ev. es = [GAudit ev] \<and> record_of os g a path r ev) \<and> (\<forall>fd. r = Inr fd \<longrightarrow> opened = Inr fd))"
proof (rule writesI)
  fix w l r w' l'
  assume "settle_open (watched os) g opened a path (w, l) = (r, (w', l'))"
  then show "\<exists>es. l' = l @ es \<and> (\<exists>ev. es = [GAudit ev] \<and> record_of os g a path r ev)
      \<and> (\<forall>fd. r = Inr fd \<longrightarrow> opened = Inr fd)"
    by (auto simp: settle_open_def io_map_err_def record_outcome_def Let_def st_bind_def st_do_def st_ret_def
        emit_allowed_def emit_absent_def emit_denied_def watched_def record_of_def classify_def names_nothing_def
        split: sum.splits if_splits)
qed

text \<open>What an open leaves behind: a refusal with its record, or the access and its record.\<close>

definition opened_as ::
  "('w, 'fd) guard_os \<Rightarrow> 'fd fs_guard \<Rightarrow> 'fd root list \<Rightarrow> access \<Rightarrow> string \<Rightarrow> sandbox_error + 'fd
     \<Rightarrow> 'fd gev list \<Rightarrow> bool" where
  "opened_as os g roots a path r es \<longleftrightarrow>
     (\<exists>e. r = Inl e \<and> refused_as os g a path e es \<and> (discloses e \<longrightarrow> plain_inside es roots path))
     \<or> (\<exists>ms acc ev. es = ms @ [acc, GAudit ev] \<and> list_all measuring ms \<and> reached ms roots path acc
          \<and> record_of os g a path r ev \<and> (\<forall>fd. r = Inr fd \<longrightarrow> answer acc = Some (Inr fd)))"

lemma note_open:
  "writes (noting (GOpen flags p) m) (\<lambda>r es. es = [GOpen flags p r])"
  "writes (noting (GOpenAt fd p how) m) (\<lambda>r es. es = [GOpenAt fd p how r])"
  by (auto intro!: writesI simp: noting_def split: prod.splits)

lemma writes_access:
  assumes "checked os g roots a path (Inr p) ms" "resolved_from ms path (pm_resolved p)"
  shows "writes (case pm_root p of
      None \<Rightarrow> open_by_path (watched os) g options (pm_resolved p) path a
    | Some root \<Rightarrow>
        st_bind (beneath (watched os) root (pm_resolved p) flags mode) (\<lambda>opened.
          settle_open (watched os) g opened a path))
    (\<lambda>r es. opened_as os g roots a path r (ms @ es))"
proof -
  from assms(1) have ms: "list_all measuring ms" "covers ms roots (pm_resolved p) (pm_root p)"
    by (simp_all add: checked_def)
  show ?thesis
  proof (cases "pm_root p")
    case None
    have "reached ms roots path (GOpen (options @ [O_NOFOLLOW, O_CLOEXEC]) (pm_resolved p) r)" for r
      unfolding reached_def lawful_def using assms(2) ms(2) None by auto
    then show ?thesis
      unfolding None option.case open_by_path_def watched_simps
      by (intro writes_st_bind[OF note_open(1)])
        (use ms in \<open>auto intro!: writes_mono[OF writes_settle_open] simp: opened_as_def\<close>)
  next
    case (Some root)
    from ms(2) Some have "starts_with (pm_resolved p) (ro_granted root)"
      by (auto simp: covers_def)
    then have "strip_path (ro_granted root) (pm_resolved p) \<noteq> None"
      by (simp add: strip_path_def)
    then obtain rest where rest: "strip_path (ro_granted root) (pm_resolved p) = Some rest"
      by blast
    let ?leaf = "if rest = [] then ''.'' else rest"
    let ?how = "\<lparr>oh_flags = flags @ [O_CLOEXEC], oh_mode = mode, oh_resolve = BENEATH\<rparr>"
    have acc: "reached ms roots path (GOpenAt (ro_dir root) ?leaf ?how r)" for r
      unfolding reached_def lawful_def using assms(2) ms(2) Some rest
      by (intro exI[of _ "pm_resolved p"] conjI disjI1 exI[of _ root] exI[of _ rest] exI[of _ ?how] exI[of _ r])
        auto
    have open_at: "beneath (watched os) root (pm_resolved p) flags mode
        = noting (GOpenAt (ro_dir root) ?leaf ?how) (go_openat2 os (ro_dir root) ?leaf ?how)"
      by (simp add: beneath_def Let_def rest)
    show ?thesis
      unfolding Some option.case open_at
    proof (rule writes_st_bind[OF note_open(2)], goal_cases)
      case (1 opened es)
      with acc[of opened] ms(1) show ?case
        by (intro writes_mono[OF writes_settle_open]) (auto simp: opened_as_def)
    qed
  qed
qed


lemma writes_open:
  assumes "writes m (\<lambda>r es. checked os g roots a path r es \<and> (\<forall>p. r = Inr p \<longrightarrow> resolved_from es path (pm_resolved p)))"
  shows "writes (io_bind m (\<lambda>p. case pm_root p of
      None \<Rightarrow> open_by_path (watched os) g options (pm_resolved p) path a
    | Some root \<Rightarrow>
        st_bind (beneath (watched os) root (pm_resolved p) flags mode) (\<lambda>opened.
          settle_open (watched os) g opened a path)))
    (opened_as os g roots a path)"
proof (rule writesI)
  fix w l r w' l'
  let ?k = "\<lambda>p. case pm_root p of
      None \<Rightarrow> open_by_path (watched os) g options (pm_resolved p) path a
    | Some root \<Rightarrow>
        st_bind (beneath (watched os) root (pm_resolved p) flags mode) (\<lambda>opened.
          settle_open (watched os) g opened a path)"
  assume run: "io_bind m ?k (w, l) = (r, (w', l'))"
  obtain r1 w1 l1 where m: "m (w, l) = (r1, (w1, l1))" by (metis prod.collapse)
  from writesD[OF assms m] obtain ms where ms: "l1 = l @ ms" "checked os g roots a path r1 ms"
    "\<forall>p. r1 = Inr p \<longrightarrow> resolved_from ms path (pm_resolved p)"
    by auto
  show "\<exists>es. l' = l @ es \<and> opened_as os g roots a path r es"
  proof (cases r1)
    case (Inl e)
    with run m ms show ?thesis by (auto simp: io_bind_def opened_as_def checked_def)
  next
    case (Inr p)
    with run m have "?k p (w1, l1) = (r, (w', l'))" by (simp add: io_bind_def)
    from writesD[OF writes_access this] Inr ms show ?thesis by auto
  qed
qed

lemma writes_open_read: "writes (open_read (watched os) g path) (opened_as os g (fg_readable g) AccessRead path)"
  unfolding open_read_def by (rule writes_open[OF writes_permit_read])

lemma writes_open_write: "writes (open_write (watched os) g path) (opened_as os g (fg_writable g) AccessWrite path)"
  unfolding open_write_def by (rule writes_open[OF writes_permit_write])

lemma refused_as_record:
  "refused_as os g a path e es \<Longrightarrow>
     \<exists>ms ev. es = ms @ [GAudit ev] \<and> list_all (\<lambda>x. \<not> is_audit x) ms \<and> record_of os g a path (Inl e) ev"
  by (auto simp: refused_as_def record_of_def list_all_iff dest: measuring_not_audit)

lemma opened_as_record:
  "opened_as os g roots a path r es \<Longrightarrow>
     \<exists>ms ev. es = ms @ [GAudit ev] \<and> list_all (\<lambda>x. \<not> is_audit x) ms \<and> record_of os g a path r ev"
proof -
  assume "opened_as os g roots a path r es"
  then consider e where "r = Inl e" "refused_as os g a path e es"
    | ms acc ev where "es = (ms @ [acc]) @ [GAudit ev]" "list_all measuring ms" "reached ms roots path acc"
        "record_of os g a path r ev"
    by (auto simp: opened_as_def)
  then show ?thesis
  proof cases
    case 1
    then show ?thesis using refused_as_record by blast
  next
    case 2
    then have "list_all (\<lambda>x. \<not> is_audit x) (ms @ [acc])"
      by (auto simp: list_all_iff reached_def dest: measuring_not_audit lawful_kind)
    with 2 show ?thesis by blast
  qed
qed

text \<open>
  Every open through the guard leaves exactly one record, the last thing it does: \<open>allowed\<close>
  when the caller gets the handle, \<open>absent\<close> when it is told the name denotes nothing, \<open>denied\<close>
  otherwise, with the guard's session, the kind of access and the path as requested.
\<close>

lemma guard_records_each_open:
  "writes (open_read (watched os) g path) (\<lambda>r es. \<exists>ms ev. es = ms @ [GAudit ev]
     \<and> list_all (\<lambda>x. \<not> is_audit x) ms \<and> record_of os g AccessRead path r ev)
   \<and> writes (open_write (watched os) g path) (\<lambda>r es. \<exists>ms ev. es = ms @ [GAudit ev]
     \<and> list_all (\<lambda>x. \<not> is_audit x) ms \<and> record_of os g AccessWrite path r ev)"
  by (intro conjI writes_mono[OF writes_open_read] writes_mono[OF writes_open_write] opened_as_record)

definition only_reaches :: "'fd root list \<Rightarrow> string \<Rightarrow> sandbox_error + 'fd \<Rightarrow> 'fd gev list \<Rightarrow> bool" where
  "only_reaches roots path r es \<longleftrightarrow>
     length (filter (\<lambda>x. \<not> measuring x \<and> \<not> is_audit x) es) \<le> 1
     \<and> list_all (\<lambda>x. measuring x \<or> is_audit x \<or> reached es roots path x) es
     \<and> (\<forall>fd. r = Inr fd \<longrightarrow> list_ex (\<lambda>x. answer x = Some (Inr fd) \<and> reached es roots path x) es)"

lemma no_access: "list_all measuring ms \<Longrightarrow> filter (\<lambda>x. \<not> measuring x \<and> \<not> is_audit x) ms = []"
  by (induction ms) auto

lemma opened_as_only_reaches: "opened_as os g roots a path r es \<Longrightarrow> only_reaches roots path r es"
proof -
  assume "opened_as os g roots a path r es"
  then consider e ms ev where "r = Inl e" "es = ms @ [GAudit ev]" "list_all measuring ms"
    | ms acc ev where "es = ms @ [acc, GAudit ev]" "list_all measuring ms" "reached ms roots path acc"
        "\<forall>fd. r = Inr fd \<longrightarrow> answer acc = Some (Inr fd)"
    by (auto simp: opened_as_def refused_as_def)
  then show ?thesis
  proof cases
    case 1
    have "list_all (\<lambda>x. measuring x \<or> is_audit x \<or> reached es roots path x) ms"
      using 1(3) by (rule list.pred_mono_strong) simp
    with 1(1) no_access[OF 1(3)] show ?thesis
      unfolding only_reaches_def 1(2) by simp
  next
    case 2
    have acc: "reached es roots path acc" by (rule reached_mono[OF 2(3)]) (auto simp: 2(1))
    have kind: "\<not> measuring acc \<and> \<not> is_audit acc"
      using 2(3) unfolding reached_def using lawful_kind by blast
    have "list_all (\<lambda>x. measuring x \<or> is_audit x \<or> reached es roots path x) ms"
      using 2(2) by (rule list.pred_mono_strong) simp
    with 2(4) no_access[OF 2(2)] acc kind show ?thesis
      unfolding only_reaches_def 2(1) by simp
  qed
qed

text \<open>
  C2. An open through the guard makes at most one call that reaches a file, and only after a root
  that covers the resolved path was measured to hold the object the policy vetted: beneath that
  root's own descriptor, by the path's remainder and with links and escapes refused, or, for a
  root without one, by the resolved path with a link at the leaf refused. The handle it returns is
  the one that call answered.
\<close>

theorem guard_confines_access:
  "writes (open_read (watched os) g path) (only_reaches (fg_readable g) path)
   \<and> writes (open_write (watched os) g path) (only_reaches (fg_writable g) path)"
  by (intro conjI writes_mono[OF writes_open_read] writes_mono[OF writes_open_write] opened_as_only_reaches)

definition conceals :: "'fd root list \<Rightarrow> string \<Rightarrow> sandbox_error + 'a \<Rightarrow> 'fd gev list \<Rightarrow> bool" where
  "conceals roots path r es \<longleftrightarrow>
     (case r of
        Inr _ \<Rightarrow> True
      | Inl e \<Rightarrow> \<not> discloses e \<or> plain_inside es roots path
          \<or> (\<exists>resolved rooted. resolved_from es path resolved \<and> covers es roots resolved rooted))"

lemma opened_as_conceals: "opened_as os g roots a path r es \<Longrightarrow> conceals roots path r es"
proof -
  assume "opened_as os g roots a path r es"
  then consider e where "r = Inl e" "discloses e \<longrightarrow> plain_inside es roots path"
    | ms acc ev where "es = ms @ [acc, GAudit ev]" "reached ms roots path acc"
    by (auto simp: opened_as_def)
  then show ?thesis
  proof cases
    case 1
    then show ?thesis by (simp add: conceals_def)
  next
    case 2
    then have "\<exists>resolved rooted. resolved_from es path resolved \<and> covers es roots resolved rooted"
      unfolding reached_def using resolved_from_mono[of ms _ _ es] lawful_kind covers_mono[of ms _ _ _ es]
      by (metis set_append Un_upper1)
    then show ?thesis by (auto simp: conceals_def split: sum.split)
  qed
qed

lemma checked_conceals:
  "checked os g roots a path r es \<Longrightarrow> conceals roots path r es"
  by (auto simp: checked_def conceals_def split: sum.splits)


section \<open>The descriptors the guard holds\<close>

definition pinned :: "'fd gev list \<Rightarrow> 'fd root \<Rightarrow> bool" where
  "pinned es r \<longleftrightarrow>
     (case rt_dir r of
        None \<Rightarrow> True
      | Some dir \<Rightarrow> confirmed_in es (rt_vetted r)
          \<and> GOpen [O_RDONLY, O_PATH, O_DIRECTORY, O_NOFOLLOW, O_CLOEXEC] (vp_path (rt_vetted r)) (Inr dir) \<in> set es)"

lemma pinned_append: "pinned es r \<Longrightarrow> pinned (es @ es') r" "pinned es' r \<Longrightarrow> pinned (es @ es') r"
  by (auto simp: pinned_def confirmed_in_def split: option.splits)

definition told :: "'fd gev list \<Rightarrow> audit_event list" where
  "told = List.map_filter (\<lambda>e. case e of GAudit ev \<Rightarrow> Some ev | _ \<Rightarrow> None)"

lemma told_simps [simp]: "told [] = []" "told (es @ es') = told es @ told es'" "told [GAudit ev] = [ev]"
  "told (GNamed p r # es) = told es" "told (GStat fd r' # es) = told es" "told (GOpen fl p r'' # es) = told es"
  by (simp_all add: told_def List.map_filter_def)

lemma writes_open_root:
  "writes (open_root (watched os) v)
     (\<lambda>rooting es. told es = [] \<and> (case rooting of Beneath dir \<Rightarrow> pinned es \<lparr>rt_vetted = v, rt_dir = Some dir\<rparr> | _ \<Rightarrow> True))"
proof (rule writesI)
  fix w l r w' l'
  assume "open_root (watched os) v (w, l) = (r, (w', l'))"
  then show "\<exists>es. l' = l @ es \<and> told es = []
      \<and> (case r of Beneath dir \<Rightarrow> pinned es \<lparr>rt_vetted = v, rt_dir = Some dir\<rparr> | _ \<Rightarrow> True)"
    by (auto simp: open_root_def st_bind_def noting_def unnoted_def of_fd_def io_map_err_def of_object_def
        pinned_def confirmed_in_def st_ret_def split: prod.splits sum.splits bool.splits if_splits)
qed

definition degradations :: "('w, 'fd) guard_os \<Rightarrow> string option \<Rightarrow> vetted_path list \<Rightarrow> audit_event list" where
  "degradations os session vs = map (\<lambda>v. ev_degraded ''rooted_access'' None session (unpinned_detail os v)) vs"

lemma writes_root_dir:
  "writes (root_dir (watched os) session support v toldp)
     (\<lambda>r es. pinned es \<lparr>rt_vetted = v, rt_dir = fst r\<rparr> \<and> (support \<noteq> Present \<longrightarrow> fst r = None)
        \<and> (told es = [] \<and> snd r = toldp
           \<or> told es = degradations os session [v] \<and> snd r = toldp @ [vp_path v]
             \<and> list_all (\<lambda>p. \<not> path_eq p (vp_path v)) toldp))"
proof (cases "support = Present")
  case False
  then show ?thesis by (auto simp: root_dir_def pinned_def intro!: writes_st_ret)
next
  case True
  show ?thesis
    unfolding root_dir_def True simp_thms if_False
  proof (rule writes_st_bind[OF writes_open_root], goal_cases)
    case (1 rooting es)
    have quiet: "pinned es \<lparr>rt_vetted = v, rt_dir = None\<rparr>" for es :: "'b gev list"
      by (simp add: pinned_def)
    show ?case
    proof (cases rooting)
      case Unpinned
      with 1 quiet show ?thesis
        by (auto simp: unpinned_detail_def degradations_def list_all_iff list_ex_iff
            intro!: writes_st_ret writes_st_bind[OF writes_emit])
    qed (use 1 quiet in \<open>auto intro!: writes_st_ret\<close>)
  qed
qed

definition granting :: "(grants \<Rightarrow> bool) \<Rightarrow> (axis \<times> vetted_path) list \<Rightarrow> vetted_path list" where
  "granting right entries = map snd (filter (\<lambda>(axis, _). right (axis_grants axis)) entries)"

lemma granting_simps [simp]:
  "granting right [] = []"
  "granting right ((axis, v) # entries) = (if right (axis_grants axis) then [v] else []) @ granting right entries"
  by (simp_all add: granting_def)

definition untold :: "string list \<Rightarrow> vetted_path list \<Rightarrow> bool" where
  "untold known vs \<longleftrightarrow>
     sorted_wrt (\<lambda>u v. \<not> path_eq (vp_path u) (vp_path v)) vs
     \<and> list_all (\<lambda>v. list_all (\<lambda>p. \<not> path_eq p (vp_path v)) known) vs"

definition rooted_as ::
  "('w, 'fd) guard_os \<Rightarrow> string option \<Rightarrow> openat2 \<Rightarrow> (axis \<times> vetted_path) list \<Rightarrow> string list
     \<Rightarrow> 'fd fs_guard \<Rightarrow> 'fd fs_guard \<Rightarrow> 'fd gev list \<Rightarrow> bool" where
  "rooted_as os session support entries toldp g g' es \<longleftrightarrow>
     fg_session g' = fg_session g
     \<and> (\<exists>rs ws vs. fg_readable g' = fg_readable g @ rs \<and> fg_writable g' = fg_writable g @ ws
          \<and> map rt_vetted rs = granting gr_read entries \<and> map rt_vetted ws = granting gr_write entries
          \<and> list_all (\<lambda>r. pinned es r \<and> (support = Present \<or> rt_dir r = None)) (rs @ ws)
          \<and> told es = degradations os session vs \<and> set vs \<subseteq> snd ` set entries \<and> untold toldp vs)"

lemma degradations_Cons: "degradations os session (v # vs) = degradations os session [v] @ degradations os session vs"
  by (simp add: degradations_def)

lemma writes_with_rooting_loop:
  "writes (with_rooting_loop (watched os) session support entries toldp g)
     (rooted_as os session support entries toldp g)"
proof (induction entries arbitrary: toldp g)
  case Nil
  show ?case
    unfolding with_rooting_loop.simps
    by (rule writes_st_ret) (simp add: rooted_as_def degradations_def untold_def)
next
  case (Cons entry entries)
  obtain axis v where e: "entry = (axis, v)" by (cases entry)
  show ?case
    unfolding e with_rooting_loop.simps
  proof (rule writes_st_bind[OF writes_root_dir], goal_cases)
    case (1 x es)
    obtain dir told' where x: "x = (dir, told')" by (cases x)
    let ?r = "\<lparr>rt_vetted = v, rt_dir = dir\<rparr>"
    let ?g1 = "if gr_read (axis_grants axis) then g\<lparr>fg_readable := fg_readable g @ [?r]\<rparr> else g"
    let ?g2 = "if gr_write (axis_grants axis) then ?g1\<lparr>fg_writable := fg_writable ?g1 @ [?r]\<rparr> else ?g1"
    have this_root: "pinned es ?r" "support = Present \<or> rt_dir ?r = None"
      and news: "told es = [] \<and> told' = toldp
        \<or> told es = degradations os session [v] \<and> told' = toldp @ [vp_path v]
          \<and> list_all (\<lambda>p. \<not> path_eq p (vp_path v)) toldp"
      using 1 x by auto
    have "rooted_as os session support ((axis, v) # entries) toldp g g' (es @ es')"
      if later: "rooted_as os session support entries told' ?g2 g' es'" for g' es'
    proof -
      from later obtain rs ws vs where
        l: "fg_session g' = fg_session g" "fg_readable g' = fg_readable ?g2 @ rs" "fg_writable g' = fg_writable ?g2 @ ws"
          "map rt_vetted rs = granting gr_read entries" "map rt_vetted ws = granting gr_write entries"
          "list_all (\<lambda>r. pinned es' r \<and> (support = Present \<or> rt_dir r = None)) (rs @ ws)"
          "told es' = degradations os session vs" "set vs \<subseteq> snd ` set entries" "untold told' vs"
        by (auto simp: rooted_as_def)
      define rs' where "rs' = (if gr_read (axis_grants axis) then ?r # rs else rs)"
      define ws' where "ws' = (if gr_write (axis_grants axis) then ?r # ws else ws)"
      define vs' where "vs' = (if told es = [] then vs else v # vs)"
      have "fg_readable g' = fg_readable g @ rs'" "fg_writable g' = fg_writable g @ ws'"
        "map rt_vetted rs' = granting gr_read ((axis, v) # entries)"
        "map rt_vetted ws' = granting gr_write ((axis, v) # entries)"
        using l by (simp_all add: rs'_def ws'_def)
      moreover have "list_all (\<lambda>r. pinned (es @ es') r \<and> (support = Present \<or> rt_dir r = None)) (rs' @ ws')"
      proof -
        let ?Q = "\<lambda>r. pinned (es @ es') r \<and> (support = Present \<or> rt_dir r = None)"
        have "list_all ?Q (rs @ ws)"
          using l(6) by (rule list.pred_mono_strong) (simp add: pinned_append(2))
        moreover have "?Q ?r" using this_root pinned_append(1) by blast
        ultimately show ?thesis by (simp add: rs'_def ws'_def)
      qed
      moreover have "told (es @ es') = degradations os session vs'"
        using news l(7) by (auto simp: vs'_def degradations_Cons[of _ _ v vs] degradations_def)
      moreover have "set vs' \<subseteq> snd ` set ((axis, v) # entries)" "untold toldp vs'"
        using news l(8,9) by (auto simp: vs'_def untold_def list_all_iff path_eq_def degradations_def)
      ultimately show ?thesis
        using l(1) unfolding rooted_as_def by blast
    qed
    then show ?case
      unfolding x prod.case Let_def by (rule writes_mono[OF Cons.IH])
  qed
qed

lemma granting_granted_paths:
  "granting gr_read (granted_paths p) = sp_readable p @ sp_executable p"
  "granting gr_write (granted_paths p) = sp_writable p"
proof -
  have one: "granting right (map (Pair a) vs) = (if right (axis_grants a) then vs else [])" for right a vs
    by (induction vs) auto
  have "granting right (xs @ ys) = granting right xs @ granting right ys" for right xs ys
    by (simp add: granting_def)
  then show "granting gr_read (granted_paths p) = sp_readable p @ sp_executable p"
    "granting gr_write (granted_paths p) = sp_writable p"
    by (simp_all add: granted_paths_def all_axes_def one)
qed

text \<open>What a built guard is: its roots are the policy's grants, sorted by what they allow.\<close>

definition built_guard ::
  "('w, 'fd) guard_os \<Rightarrow> string option \<Rightarrow> sandbox_policy \<Rightarrow> 'fd fs_guard \<Rightarrow> 'fd gev list \<Rightarrow> bool" where
  "built_guard os session p g es \<longleftrightarrow>
     fg_session g = session
     \<and> map rt_vetted (fg_readable g) = sp_readable p @ sp_executable p
     \<and> map rt_vetted (fg_writable g) = sp_writable p
     \<and> list_all (pinned es) (fg_readable g @ fg_writable g)
     \<and> (\<exists>vs. told es = degradations os session vs
          \<and> sorted_wrt (\<lambda>u v. \<not> path_eq (vp_path u) (vp_path v)) vs
          \<and> set vs \<subseteq> set (sp_readable p @ sp_writable p @ sp_executable p))"

lemma writes_with_rooting: "writes (with_rooting (watched os) p session support) (built_guard os session p)"
  unfolding with_rooting_def
proof (rule writes_mono[OF writes_with_rooting_loop])
  fix g es
  have "set vs \<subseteq> snd ` set (granted_paths p) \<Longrightarrow> set vs \<subseteq> set (sp_readable p @ sp_writable p @ sp_executable p)" for vs
    by (auto simp: granted_paths_def all_axes_def)
  then show "rooted_as os session support (granted_paths p) []
      \<lparr>fg_readable = [], fg_writable = [], fg_session = session\<rparr> g es \<Longrightarrow> built_guard os session p g es"
    by (auto simp: rooted_as_def built_guard_def granting_granted_paths untold_def list_all_iff)
qed

lemma writes_openat2_support: "writes (openat2_support (watched os)) (\<lambda>_ es. told es = [])"
proof (rule writesI)
  fix w l r w' l'
  assume "openat2_support (watched os) (w, l) = (r, (w', l'))"
  then show "\<exists>es. l' = l @ es \<and> told es = []"
    by (auto simp: openat2_support_def openat2_support_from_def probe_subject_def kernel_probe_def st_bind_def
        noting_def st_ret_def told_def List.map_filter_def split: prod.splits sum.splits)
qed

lemma built_guard_behind: "told ms = [] \<Longrightarrow> built_guard os session p g es \<Longrightarrow> built_guard os session p g (ms @ es)"
  unfolding built_guard_def by (auto simp: list_all_iff intro: pinned_append(2))

text \<open>
  A guard's roots are exactly the policy's grants, readable ones with the executable ones
  behind them, and a descriptor is kept for one only when the name was opened, the object behind
  it was the vetted one, and the directory was then opened refusing a link. All that
  building one tells is granted paths that lost their directory, each at most once whatever number
  of axes it is granted on, under the guard's session.
\<close>

lemma guard_roots_pinned:
  "writes (new_guard (watched os) p) (built_guard os None p)
   \<and> writes (for_session (watched os) p session) (built_guard os (Some session) p)"
  unfolding new_guard_def for_session_def
  by (intro conjI writes_st_bind[OF writes_openat2_support] writes_mono[OF writes_with_rooting] built_guard_behind)

section \<open>Walks\<close>

definition capped :: "nat \<Rightarrow> string list \<times> bool \<Rightarrow> bool" where
  "capped cap r \<longleftrightarrow> length (fst r) \<le> cap \<and> (snd r \<longrightarrow> length (fst r) = cap)"

lemma beneath_entries_capped:
  "beneath_entries os g cap dir at entries stack files w = (r, w') \<Longrightarrow> length files \<le> cap \<Longrightarrow>
     (case r of Inl fs \<Rightarrow> length fs = cap | Inr (_, fs) \<Rightarrow> length fs \<le> cap)"
proof (induction os g cap dir at entries stack files arbitrary: w rule: beneath_entries.induct)
  case (2 os g cap dir at leaf kind entries stack files)
  obtain found w1 where found: "walked_link os g (path_join at leaf) w = (found, w1)" by force
  show ?case
    using 2 found
    by (cases kind; cases "the kind"; cases found) (auto simp: st_bind_def Let_def st_ret_def split: if_splits)
qed auto

lemma path_entries_capped:
  "path_entries os g cap dir entries stack files w = (r, w') \<Longrightarrow> length files \<le> cap \<Longrightarrow>
     (case r of Inl fs \<Rightarrow> length fs = cap | Inr (_, fs) \<Rightarrow> length fs \<le> cap)"
proof (induction os g cap dir entries stack files arbitrary: w rule: path_entries.induct)
  case (2 os g cap dir leaf kind entries stack files)
  obtain found w1 where found: "walked_link os g (path_join dir leaf) w = (found, w1)" by force
  show ?case
    using 2 found
    by (cases kind; cases found) (auto simp: st_bind_def Let_def st_ret_def split: if_splits)
qed auto

lemma beneath_loop_capped:
  "beneath_loop os g cap stack files w = Some y \<Longrightarrow> length files \<le> cap \<Longrightarrow> capped cap (fst y)"
proof -
  have "length files \<le> cap \<longrightarrow> capped cap (fst y)" if "beneath_loop os g cap stack files w = Some y"
  proof (rule beneath_loop.raw_induct[where P = "\<lambda>os g cap stack files w y.
        length files \<le> cap \<longrightarrow> capped cap (fst y)", OF _ that], goal_cases)
    case (1 rec os g cap stack files w y)
    show ?case
    proof
      assume small: "length files \<le> cap"
      show "capped cap (fst y)"
      proof (cases stack)
        case Nil
        with 1(2) small show ?thesis by (auto simp: capped_def)
      next
        case (Cons p rest)
        obtain r1 w1 where o: "open_pending os p w = (r1, w1)" by force
        show ?thesis
        proof (cases r1)
          case (Inl e)
          with 1(2) Cons o have "rec os g cap rest files w1 = Some y" by simp
          with 1(1) small show ?thesis by blast
        next
          case (Inr de)
          obtain dir entries where de: "de = (dir, entries)" by (cases de)
          obtain r2 w2 where b: "beneath_entries os g cap dir (pd_at p) entries rest files w1 = (r2, w2)" by force
          note small2 = beneath_entries_capped[OF b small]
          show ?thesis
          proof (cases r2)
            case (Inl fs)
            with 1(2) Cons o Inr de b small2 show ?thesis by (auto simp: capped_def)
          next
            case (Inr sf)
            obtain stack' files' where sf: "sf = (stack', files')" by (cases sf)
            from 1(2) Cons o \<open>r1 = Inr de\<close> de b Inr sf have "rec os g cap stack' files' w2 = Some y" by simp
            with 1(1) small2 Inr sf show ?thesis by auto
          qed
        qed
      qed
    qed
  qed
  then show "beneath_loop os g cap stack files w = Some y \<Longrightarrow> length files \<le> cap \<Longrightarrow> capped cap (fst y)" by blast
qed

lemma path_loop_capped:
  "path_loop os g cap stack files w = Some y \<Longrightarrow> length files \<le> cap \<Longrightarrow> capped cap (fst y)"
proof -
  have "length files \<le> cap \<longrightarrow> capped cap (fst y)" if "path_loop os g cap stack files w = Some y"
  proof (rule path_loop.raw_induct[where P = "\<lambda>os g cap stack files w y.
        length files \<le> cap \<longrightarrow> capped cap (fst y)", OF _ that], goal_cases)
    case (1 rec os g cap stack files w y)
    show ?case
    proof
      assume small: "length files \<le> cap"
      show "capped cap (fst y)"
      proof (cases stack)
        case Nil
        with 1(2) small show ?thesis by (auto simp: capped_def)
      next
        case (Cons dir rest)
        obtain r1 w1 where o: "go_list os dir w = (r1, w1)" by force
        show ?thesis
        proof (cases r1)
          case (Inl e)
          with 1(2) Cons o have "rec os g cap rest files w1 = Some y" by simp
          with 1(1) small show ?thesis by blast
        next
          case (Inr entries)
          obtain r2 w2 where b: "path_entries os g cap dir entries rest files w1 = (r2, w2)" by force
          note small2 = path_entries_capped[OF b small]
          show ?thesis
          proof (cases r2)
            case (Inl fs)
            with 1(2) Cons o Inr b small2 show ?thesis by (auto simp: capped_def)
          next
            case (Inr sf)
            obtain stack' files' where sf: "sf = (stack', files')" by (cases sf)
            from 1(2) Cons o \<open>r1 = Inr entries\<close> b Inr sf have "rec os g cap stack' files' w2 = Some y" by simp
            with 1(1) small2 Inr sf show ?thesis by auto
          qed
        qed
      qed
    qed
  qed
  then show "path_loop os g cap stack files w = Some y \<Longrightarrow> length files \<le> cap \<Longrightarrow> capped cap (fst y)" by blast
qed

text \<open>
  A walk that returns never lists more files than its cap, lists them in path order, and says
  it was cut short only when the cap is full.
\<close>

lemma walk_bounded:
  assumes "walk_readable os g requested cap w = Some (Inr walk, w')"
  shows "length (rw_files walk) \<le> cap \<and> sorted (map components (rw_files walk))
    \<and> (rw_truncated walk \<longrightarrow> length (rw_files walk) = cap)"
proof -
  let ?ok = "\<lambda>walk. length (rw_files walk) \<le> cap \<and> sorted (map components (rw_files walk))
    \<and> (rw_truncated walk \<longrightarrow> length (rw_files walk) = cap)"
  have ok: "?ok (fst (walk_result y))" if "capped cap (fst y)" for y :: "(string list \<times> bool) \<times> 'a"
    using that by (auto simp: walk_result_def capped_def split: prod.splits)
  have b: "?ok wk" if "walk_beneath os g top_fd at cap w1 = Some (wk, w2)" for wk top_fd at w1 w2
    using that ok[OF beneath_loop_capped] by (fastforce simp: walk_beneath_def)
  have p: "?ok (fst (walk_result y))" if "path_loop os g cap [d] [] w1 = Some y" for y d w1
    using ok[OF path_loop_capped[OF that]] by simp
  from assms show ?thesis
    by (auto simp: walk_readable_def Let_def split: prod.splits sum.splits option.splits if_splits
        dest!: b p)
qed

text \<open>A still kernel: one directory of two files, every object the vetted one.\<close>

definition demo_object :: object_id where "demo_object = \<lparr>oi_dev = 1, oi_ino = 2\<rparr>"

definition demo_guard_os :: "(unit, nat) guard_os" where
  "demo_guard_os = \<lparr>
     go_path = \<lparr>po_canonicalize = (\<lambda>p. io_ret p), po_metadata = (\<lambda>_. io_ret demo_object),
       po_open_path = (\<lambda>_. io_ret 0), po_fstat = (\<lambda>_. io_ret demo_object)\<rparr>,
     go_errno = (\<lambda>_. None), go_display = (\<lambda>p. p), go_cwd = io_ret ''/'',
     go_is_symlink = (\<lambda>_. st_ret False), go_is_file = (\<lambda>_. st_ret True), go_fd_is_dir = (\<lambda>_. io_ret True),
     go_open = (\<lambda>_ _. io_ret 0), go_openat2 = (\<lambda>_ _ _. io_ret 0), go_dup = io_ret,
     go_list = (\<lambda>_. io_ret [Inr (''b'', Inr KFile), Inr (''a'', Inr KFile), Inr (''c'', Inr KFile)]),
     go_dirents = (\<lambda>_. io_ret []), go_stat_at = (\<lambda>_ _. io_ret KFile), go_emit = (\<lambda>_ w. w)\<rparr>"

definition demo_guard :: "nat fs_guard" where
  "demo_guard = \<lparr>
     fg_readable = [\<lparr>rt_vetted = \<lparr>vp_path = ''/g'', vp_object = demo_object\<rparr>, rt_dir = None\<rparr>],
     fg_writable = [], fg_session = None\<rparr>"

lemma demo_permit:
  "permit_read demo_guard_os demo_guard ''/g'' () = (Inr \<lparr>pm_resolved = ''/g'', pm_root = None\<rparr>, ())"
  by code_simp

lemma demo_loop:
  "path_loop demo_guard_os demo_guard 2 [''/g''] [] () = Some (([''/g/b'', ''/g/a''], True), ())"
  by (subst path_loop.simps) code_simp

lemma demo_sorted: "sort_key components [''/g/b'', ''/g/a''] = [''/g/a'', ''/g/b'']"
  by code_simp

lemma demo_walk:
  "walk_readable demo_guard_os demo_guard ''/g'' 2 ()
     = Some (Inr \<lparr>rw_files = [''/g/a'', ''/g/b''], rw_truncated = True\<rparr>, ())"
  by (simp add: walk_readable_def Let_def demo_permit demo_loop walk_result_def demo_sorted emit_allowed_def
      st_do_def del: sort_key_simps)

lemma walk_bounded_witness:
  "sorted (map components [''/g/a'', ''/g/b'']) \<and> length [''/g/a'', ''/g/b''] = (2 :: nat)"
  using walk_bounded[OF demo_walk] by simp

end
