(* ===== verification/Supervision_Safety.thy ===== *)
theory Supervision_Safety
  imports Supervision
begin

text \<open>
  What running a command does, read off the log of a watched system: which process was started
  and how it was ended, and which records the run left. The first property is of every run that
  returns, the second that every run returns once its clock goes forward.
\<close>

section \<open>The watched system\<close>

datatype 'c rev =
    ROutput spawn_request "io_error + run_output"
  | RSpawn spawn_request "io_error + 'c"
  | RKill nat
  | RReap 'c
  | RRead "io_error + string"
  | RAudit audit_event

definition rmark :: "'c rev \<Rightarrow> ('w \<Rightarrow> 'w) \<Rightarrow> 'w \<times> 'c rev list \<Rightarrow> 'w \<times> 'c rev list" where
  "rmark e f = (\<lambda>(w, l). (f w, l @ [e]))"

definition watched_run :: "('w, 'p, 'c) run_os \<Rightarrow> ('w \<times> 'c rev list, 'p, 'c) run_os" where
  "watched_run os = \<lparr>
     ro_read_link = (\<lambda>p. unnoted (ro_read_link os p)),
     ro_canonicalize = ro_canonicalize os,
     ro_is_dir = ro_is_dir os,
     ro_lookup = ro_lookup os,
     ro_lossy = ro_lossy os,
     ro_trimmed = ro_trimmed os,
     ro_debug = ro_debug os,
     ro_pipe = unnoted (ro_pipe os),
     ro_read_channel = (\<lambda>p. noting RRead (ro_read_channel os p)),
     ro_spawn_id = unnoted (ro_spawn_id os),
     ro_output = (\<lambda>rq. noting (ROutput rq) (ro_output os rq)),
     ro_spawn = (\<lambda>rq. noting (RSpawn rq) (ro_spawn os rq)),
     ro_child_id = ro_child_id os,
     ro_try_wait = (\<lambda>c. unnoted (ro_try_wait os c)),
     ro_reap = (\<lambda>c. rmark (RReap c) (ro_reap os c)),
     ro_kill_group = (\<lambda>pgid. rmark (RKill pgid) (ro_kill_group os pgid)),
     ro_now = unnoted (ro_now os),
     ro_sleep = (\<lambda>d (w, l). (ro_sleep os d w, l)),
     ro_drained = (\<lambda>c. unnoted (ro_drained os c)),
     ro_taken = (\<lambda>c. unnoted (ro_taken os c)),
     ro_emit = (\<lambda>e. rmark (RAudit e) (ro_emit os e))\<rparr>"

lemma watched_run_simps [simp]:
  "ro_read_link (watched_run os) path (w, l) = (case ro_read_link os path w of (r, w') \<Rightarrow> (r, (w', l)))"
  "ro_canonicalize (watched_run os) = ro_canonicalize os"
  "ro_is_dir (watched_run os) = ro_is_dir os"
  "ro_lookup (watched_run os) = ro_lookup os"
  "ro_lossy (watched_run os) = ro_lossy os"
  "ro_trimmed (watched_run os) = ro_trimmed os"
  "ro_debug (watched_run os) = ro_debug os"
  "ro_pipe (watched_run os) (w, l) = (case ro_pipe os w of (r, w') \<Rightarrow> (r, (w', l)))"
  "ro_read_channel (watched_run os) p (w, l)
     = (case ro_read_channel os p w of (r, w') \<Rightarrow> (r, (w', l @ [RRead r])))"
  "ro_spawn_id (watched_run os) (w, l) = (case ro_spawn_id os w of (r, w') \<Rightarrow> (r, (w', l)))"
  "ro_output (watched_run os) rq (w, l) = (case ro_output os rq w of (r, w') \<Rightarrow> (r, (w', l @ [ROutput rq r])))"
  "ro_spawn (watched_run os) rq (w, l) = (case ro_spawn os rq w of (r, w') \<Rightarrow> (r, (w', l @ [RSpawn rq r])))"
  "ro_child_id (watched_run os) = ro_child_id os"
  "ro_try_wait (watched_run os) c (w, l) = (case ro_try_wait os c w of (r, w') \<Rightarrow> (r, (w', l)))"
  "ro_reap (watched_run os) c (w, l) = (ro_reap os c w, l @ [RReap c])"
  "ro_kill_group (watched_run os) pgid (w, l) = (ro_kill_group os pgid w, l @ [RKill pgid])"
  "ro_now (watched_run os) (w, l) = (case ro_now os w of (r, w') \<Rightarrow> (r, (w', l)))"
  "ro_sleep (watched_run os) d (w, l) = (ro_sleep os d w, l)"
  "ro_drained (watched_run os) c (w, l) = (case ro_drained os c w of (r, w') \<Rightarrow> (r, (w', l)))"
  "ro_taken (watched_run os) c (w, l) = (case ro_taken os c w of (r, w') \<Rightarrow> (r, (w', l)))"
  "ro_emit (watched_run os) e (w, l) = (ro_emit os e w, l @ [RAudit e])"
  by (simp_all add: watched_run_def unnoted_def noting_def rmark_def)

section \<open>The waits note nothing\<close>

lemma poll_exit_silent:
  assumes "poll_exit (watched_run os) child deadline (w, l) = Some (r, (w', l'))"
  shows "l' = l"
proof -
  have "\<forall>os. os' = watched_run os \<longrightarrow> snd (snd y) = snd wl"
    if "poll_exit os' child deadline wl = Some y" for os' wl y
  proof (rule poll_exit.raw_induct[where P = "\<lambda>os' c d wl y. \<forall>os. os' = watched_run os \<longrightarrow> snd (snd y) = snd wl",
        OF _ that], goal_cases)
    case (1 rec os' child deadline wl y)
    show ?case
    proof (intro allI impI)
      fix os assume os': "os' = watched_run os"
      obtain w l where wl: "wl = (w, l)" by force
      obtain waited w1 where wait: "ro_try_wait os child w = (waited, w1)" by force
      obtain now w2 where now: "ro_now os w1 = (now, w2)" by force
      show "snd (snd y) = snd wl"
      proof (cases "waited = Inr None \<and> now < deadline")
        case True
        with 1(2) os' wl wait now
        have "rec (watched_run os) child deadline (ro_sleep os POLL_INTERVAL w2, l) = Some y" by simp
        with 1(1) wl show ?thesis by fastforce
      next
        case False
        with 1(2) os' wl wait now show ?thesis by (auto split: sum.splits option.splits)
      qed
    qed
  qed
  from this[OF assms, rule_format, OF refl] show ?thesis by simp
qed

lemma settle_loop_silent:
  assumes "settle_loop (watched_run os) child until (w, l) = Some (u, (w', l'))"
  shows "l' = l"
proof -
  have "\<forall>os. os' = watched_run os \<longrightarrow> snd (snd y) = snd wl"
    if "settle_loop os' child until wl = Some y" for os' wl y
  proof (rule settle_loop.raw_induct[where P = "\<lambda>os' c d wl y. \<forall>os. os' = watched_run os \<longrightarrow> snd (snd y) = snd wl",
        OF _ that], goal_cases)
    case (1 rec os' child until wl y)
    show ?case
    proof (intro allI impI)
      fix os assume os': "os' = watched_run os"
      obtain w l where wl: "wl = (w, l)" by force
      obtain now w1 where now: "ro_now os w = (now, w1)" by force
      obtain drained w2 where drained: "ro_drained os child w1 = (drained, w2)" by force
      show "snd (snd y) = snd wl"
      proof (cases "now < until \<and> \<not> drained")
        case True
        with 1(2) os' wl now drained
        have "rec (watched_run os) child until (ro_sleep os POLL_INTERVAL w2, l) = Some y" by simp
        with 1(1) wl show ?thesis by fastforce
      next
        case False
        with 1(2) os' wl now drained show ?thesis by (auto split: if_splits)
      qed
    qed
  qed
  from this[OF assms, rule_format, OF refl] show ?thesis by simp
qed

lemma settle_readers_silent:
  "settle_readers (watched_run os) child (w, l) = Some (u, (w', l')) \<Longrightarrow> l' = l"
  by (cases "ro_now os w") (auto simp: settle_readers_def dest: settle_loop_silent)

lemma kill_group_marks:
  "kill_group (watched_run os) pgid (w, l)
     = (kill_group os pgid w, l @ (if pgid < 2 ^ 31 then [RKill pgid] else []))"
  by (simp add: kill_group_def)

section \<open>The log of a run\<close>

text \<open>
  What running the helper leaves: one process started with the request the policy calls for, and,
  under a deadline, its group killed once it was started, and the child reaped unless its status
  was already read.
\<close>

fun started ::
  "('w, 'p, 'c) run_os \<Rightarrow> spawn_request \<Rightarrow> bool \<Rightarrow> 'c rev list \<Rightarrow> sandbox_error + run_output \<Rightarrow> bool" where
  "started os rq False es result \<longleftrightarrow>
     (\<exists>r. es = [ROutput rq r] \<and> result = (case r of Inl e \<Rightarrow> Inl (SpawnFailed START_FAILED e) | Inr out \<Rightarrow> Inr out))"
| "started os rq True es result \<longleftrightarrow>
     (\<exists>e. es = [RSpawn (rq\<lparr>rq_own_group := True\<rparr>) (Inl e)] \<and> result = Inl (SpawnFailed START_FAILED e))
     \<or> (\<exists>child. es = RSpawn (rq\<lparr>rq_own_group := True\<rparr>) (Inr child)
              # (if ro_child_id os child < 2 ^ 31 then [RKill (ro_child_id os child)] else [])
              @ (case result of Inr _ \<Rightarrow> [] | Inl _ \<Rightarrow> [RReap child]))"

lemma run_to_completion_started:
  assumes "run_to_completion (watched_run os) helper argv p (w, l) = (r, (w', l'))"
  shows "\<exists>es. l' = l @ es \<and> started os (helper_command os helper argv p) False es r"
proof -
  have "helper_command (watched_run os) helper argv p = helper_command os helper argv p"
    by (simp add: helper_command_def)
  with assms show ?thesis
    by (cases "ro_output os (helper_command os helper argv p) w")
      (auto simp: run_to_completion_def io_map_err_def split: sum.splits)
qed

lemma run_with_deadline_started:
  fixes os :: "('w, 'p, 'c) run_os"
  assumes run: "run_with_deadline (watched_run os) helper argv p limit (w, l) = Some (r, (w', l'))"
  shows "\<exists>es. l' = l @ es \<and> started os (helper_command os helper argv p) True es r"
proof -
  define rq where "rq = (helper_command os helper argv p)\<lparr>rq_own_group := True\<rparr>"
  have rq: "(helper_command (watched_run os) helper argv p)\<lparr>rq_own_group := True\<rparr> = rq"
    by (simp add: rq_def helper_command_def)
  obtain s w1 where spawn: "ro_spawn os rq w = (s, w1)" by force
  show ?thesis
  proof (cases s)
    case (Inl e)
    with run spawn rq show ?thesis by (auto simp: run_with_deadline_def rq_def)
  next
    case (Inr child)
    define k :: "'c rev list" where "k = (if ro_child_id os child < 2 ^ 31 then [RKill (ro_child_id os child)] else [])"
    obtain start w2 where now: "ro_now os w1 = (start, w2)" by force
    from run spawn Inr rq now obtain finished w3 l3 where
      poll: "poll_exit (watched_run os) child (start + limit) (w2, l @ [RSpawn rq (Inr child)]) = Some (finished, (w3, l3))"
      by (auto simp: run_with_deadline_def split: option.splits)
    note l3 = poll_exit_silent[OF poll]
    have kill: "kill_group (watched_run os) (ro_child_id os child) (w, l)
        = (kill_group os (ro_child_id os child) w, l @ k)" for w l
      by (simp add: kill_group_marks k_def)
    note known = run_with_deadline_def spawn Inr rq now poll l3 kill Let_def
    have "\<exists>es. l' = l @ es \<and> es = RSpawn rq (Inr child) # k @ (case r of Inr _ \<Rightarrow> [] | Inl _ \<Rightarrow> [RReap child])"
    proof (cases "\<exists>status. finished = Inr (Some status)")
      case True
      then obtain status where status: "finished = Inr (Some status)" by blast
      with run obtain w5 l5 where
        settle: "settle_readers (watched_run os) child (kill_group os (ro_child_id os child) w3, l @ RSpawn rq (Inr child) # k) = Some ((), (w5, l5))"
        by (auto simp: known split: option.splits)
      with run status settle_readers_silent[OF settle] show ?thesis
        by (cases "ro_taken os child w5") (auto simp: known)
    next
      case False
      with run obtain w5 l5 where
        settle: "settle_readers (watched_run os) child
          (ro_reap os child (kill_group os (ro_child_id os child) w3), l @ RSpawn rq (Inr child) # k @ [RReap child]) = Some ((), (w5, l5))"
        by (auto simp: known split: option.splits sum.splits)
      with run False settle_readers_silent[OF settle] show ?thesis
        by (auto simp: known split: sum.splits option.splits)
    qed
    then show ?thesis by (auto simp: rq_def k_def)
  qed
qed

fun degradations :: "report list \<Rightarrow> degraded list" where
  "degradations [] = []"
| "degradations (Degraded d # reports) = d # degradations reports"
| "degradations (Failed f # reports) = degradations reports"

fun refusals :: "report list \<Rightarrow> helper_refusal list" where
  "refusals [] = []"
| "refusals (Degraded d # reports) = refusals reports"
| "refusals (Failed f # reports) = f # refusals reports"

lemma run_helper_started:
  assumes "run_helper (watched_run os) c line (w, l) = Some (r, (w', l'))"
  shows "\<exists>es. l' = l @ es
    \<and> started os (helper_command os (cl_helper line) (cl_argv line) (cm_policy c)) (cm_timeout c \<noteq> None) es r"
proof (cases "cm_timeout c")
  case None
  with assms show ?thesis
    using run_to_completion_started[of os "cl_helper line" "cl_argv line" "cm_policy c" w l r w' l']
    by (simp add: run_helper_def)
next
  case (Some limit)
  with assms show ?thesis
    using run_with_deadline_started[of os "cl_helper line" "cl_argv line" "cm_policy c" limit w l r w' l']
    by (simp add: run_helper_def)
qed

definition reported :: "io_error + string \<Rightarrow> report list" where
  "reported heard = (case heard of Inl _ \<Rightarrow> [] | Inr records \<Rightarrow> decode records)"

definition degraded_record :: "string \<Rightarrow> string option \<Rightarrow> degraded \<Rightarrow> audit_event" where
  "degraded_record spawn session d =
     ev_degraded (degradation_label (dg_step d)) (Some spawn) session (dg_detail d)"

lemma emit_reports_log:
  "emit_reports (watched_run os) spawn session reports refused (w, l) = (r, (w', l')) \<Longrightarrow>
     l' = l @ map (RAudit \<circ> degraded_record spawn session) (degradations reports)
     \<and> r = (if refusals reports = [] then refused else last_opt (refusals reports))"
proof (induction reports arbitrary: refused w l)
  case (Cons report reports)
  show ?case
  proof (cases report)
    case (Degraded d)
    with Cons.prems Cons.IH[of refused "ro_emit os (degraded_record spawn session d) w" "l @ [RAudit (degraded_record spawn session d)]"]
    show ?thesis by (auto simp: st_bind_def st_do_def degraded_record_def)
  next
    case (Failed f)
    with Cons.prems Cons.IH[of "Some f" w l] show ?thesis
      by (auto simp: last_opt_def)
  qed
qed simp

lemma record_reports_log:
  assumes "record_reports (watched_run os) audit spawn session (w, l) = (r, (w', l'))"
  shows "\<exists>heard. l' = l @ RRead heard # map (RAudit \<circ> degraded_record spawn session) (degradations (reported heard))
     \<and> r = last_opt (refusals (reported heard))"
proof -
  obtain heard w1 where t: "ro_read_channel os audit w = (heard, w1)" by force
  show ?thesis
  proof (cases heard)
    case (Inl e)
    with assms t show ?thesis
      by (auto simp: record_reports_def st_bind_def reported_def intro!: exI[of _ heard])
  next
    case (Inr records)
    with assms t emit_reports_log[of os spawn session "decode records" None w1 "l @ [RRead heard]" r w' l']
    show ?thesis
      by (auto simp: record_reports_def st_bind_def reported_def last_opt_def intro!: exI[of _ heard])
  qed
qed

text \<open>
  The log of one run of \<open>output\<close>: nothing for a command refused before it started; else the
  spawned record, the process, what the channel said, a record for each degradation and one record
  of the end, all under one spawn id.
\<close>

definition run_log ::
  "('w, 'p, 'c) run_os \<Rightarrow> sandboxed_command \<Rightarrow> sandbox_error + run_output \<Rightarrow> 'c rev list \<Rightarrow> bool" where
  "run_log os c result es \<longleftrightarrow>
     (es = [] \<and> isl result)
     \<or> (\<exists>spawn helper proc said heard ended.
          es = RAudit (ev_spawned (cm_program c) (args_field (ro_debug os) (cm_args c)) spawn (cm_session c)
                  (cm_policy c) (pinning_of (cm_pin c)))
               # proc @ RRead heard
               # map (RAudit \<circ> degraded_record spawn (cm_session c)) (degradations (reported heard))
               @ [RAudit ended]
          \<and> started os (helper_command os helper ([HELPER_FLAG, AUDIT_STDIN_FLAG]
                @ encode_args (ro_lossy os) (cm_policy c) (cm_program c) (cm_args c) (cm_pin c)) (cm_policy c))
              (cm_timeout c \<noteq> None) proc said
          \<and> (case last_opt (refusals (reported heard)) of
               None \<Rightarrow> result = said
                 \<and> ended = (case said of
                     Inr out \<Rightarrow> ev_exited (cm_program c) spawn (cm_session c) (exit_code (out_status out))
                   | Inl e \<Rightarrow> ev_failed (cm_program c) spawn (cm_session c) (error_label e))
             | Some f \<Rightarrow> isl result
                 \<and> ended = ev_failed (cm_program c) spawn (cm_session c) (refusal_label f)
                 \<and> (case said of Inl e \<Rightarrow> result = Inl e
                    | Inr out \<Rightarrow> \<exists>prose. result = Inl (HelperRefused f prose))))"

lemma command_line_silent:
  assumes "make_command_line (watched_run os) c (w, l) = (r, (w', l'))"
  shows "l' = l \<and> (\<forall>line. r = Inr line \<longrightarrow> cl_argv line = [HELPER_FLAG, AUDIT_STDIN_FLAG]
    @ encode_args (ro_lossy os) (cm_policy c) (cm_program c) (cm_args c) (cm_pin c))"
  using assms
  by (cases "ro_read_link os SELF_EXE w")
    (auto simp: make_command_line_def self_exe_def io_bind_def io_map_err_def io_ret_def io_fail_def
      split: option.splits sum.splits)

lemma audit_channel_silent:
  "audit_channel (watched_run os) (w, l) = (r, (w', l')) \<Longrightarrow> l' = l"
  by (cases "ro_pipe os w") (auto simp: audit_channel_def io_map_err_def split: sum.splits)

lemma run_command_steps:
  assumes "make_command_line os c w = (Inr line, w1)" "audit_channel os w1 = (Inr audit, w2)"
    "ro_spawn_id os w2 = (spawn, w3)"
    "w4 = ro_emit os (ev_spawned (cm_program c) (args_field (ro_debug os) (cm_args c)) spawn (cm_session c)
            (cm_policy c) (pinning_of (cm_pin c))) w3"
    and helper: "run_helper os c line w4 = Some (result, w5)"
    and rec: "record_reports os audit spawn (cm_session c) w5 = (refused, w6)"
  shows "run_command os c w = Some ((case (result, refused) of
              (Inr out, Some refusal) \<Rightarrow> Inl (relayed (ro_trimmed os) HELPER_FAILURE_PREFIX refusal (out_stderr out))
            | (r, _) \<Rightarrow> r), ro_emit os (outcome_event c spawn result refused) w6)"
  unfolding run_command_def assms(1-3) prod.case sum.case Let_def assms(4)[symmetric] helper option.case rec ..

text \<open>
  C17. Running a command leaves nothing on the trail when it is refused before it starts; otherwise
  exactly one spawned record, then a record for every degradation the helper reported, then exactly
  one record of the end, all under one spawn id and session. One process is started, the helper
  with the policy's environment and argv; under a deadline in a group of its own that is killed on
  every path, the child being reaped when its status was not read. The last refusal the channel
  carried decides the end: the run is then never a success, and an error of this process stays
  the error it was. Without one the record is the status, or the error, that is answered.
\<close>

theorem run_records:
  fixes os :: "('w, 'p, 'c) run_os"
  assumes run: "run_command (watched_run os) c (w, l) = Some (result, (w', l'))"
  shows "\<exists>es. l' = l @ es \<and> run_log os c result es"
proof -
  obtain r1 w1 l1 where line: "make_command_line (watched_run os) c (w, l) = (r1, (w1, l1))"
    by (metis prod.collapse)
  note l1 = command_line_silent[OF line]
  obtain r2 w2 l2 where chan: "audit_channel (watched_run os) (w1, l1) = (r2, (w2, l2))"
    by (metis prod.collapse)
  note l2 = audit_channel_silent[OF chan]
  show ?thesis
  proof (cases "\<exists>cl audit. r1 = Inr cl \<and> r2 = Inr audit")
    case False
    with run line chan l1 l2 have "l' = l \<and> isl result"
      by (auto simp: run_command_def split: sum.splits)
    then show ?thesis by (simp add: run_log_def)
  next
    case True
    then obtain cl audit where ok: "r1 = Inr cl" "r2 = Inr audit" by blast
    obtain spawn w3 where spawn: "ro_spawn_id os w2 = (spawn, w3)" by force
    define first :: "'c rev" where
      "first = RAudit (ev_spawned (cm_program c) (args_field (ro_debug os) (cm_args c)) spawn (cm_session c)
                  (cm_policy c) (pinning_of (cm_pin c)))"
    define w4 where "w4 = ro_emit os (ev_spawned (cm_program c) (args_field (ro_debug os) (cm_args c)) spawn
                  (cm_session c) (cm_policy c) (pinning_of (cm_pin c))) w3"
    define rq where "rq = helper_command os (cl_helper cl) (cl_argv cl) (cm_policy c)"
    from run line chan ok spawn l1 l2 obtain said w5 l5 where
      body: "run_helper (watched_run os) c cl (w4, l @ [first]) = Some (said, (w5, l5))"
      by (cases "run_helper (watched_run os) c cl (w4, l @ [first])")
        (auto simp: run_command_def Let_def first_def w4_def)
    have "\<exists>proc. l5 = l @ first # proc \<and> started os rq (cm_timeout c \<noteq> None) proc said"
      using run_helper_started[OF body] by (auto simp: rq_def)
    then obtain proc where proc: "l5 = l @ first # proc" "started os rq (cm_timeout c \<noteq> None) proc said" by blast
    obtain refused w6 l6 where rec: "record_reports (watched_run os) audit spawn (cm_session c) (w5, l5) = (refused, (w6, l6))"
      by (metis prod.collapse)
    from record_reports_log[OF rec] obtain heard where heard:
      "l6 = l5 @ RRead heard # map (RAudit \<circ> degraded_record spawn (cm_session c)) (degradations (reported heard))"
      "refused = last_opt (refusals (reported heard))" by blast
    have "run_command (watched_run os) c (w, l) = Some ((case (said, refused) of
          (Inr out, Some refusal) \<Rightarrow> Inl (relayed (ro_trimmed os) HELPER_FAILURE_PREFIX refusal (out_stderr out))
        | (r, _) \<Rightarrow> r), ro_emit (watched_run os) (outcome_event c spawn said refused) (w6, l6))"
      using run_command_steps[of "watched_run os" c "(w, l)" cl "(w1, l1)" audit "(w2, l2)" spawn "(w3, l2)"
          "(w4, l @ [first])" said "(w5, l5)" refused "(w6, l6)"]
        line chan ok spawn l1 l2 body rec
      by (cases said; cases refused) (simp_all add: first_def w4_def)
    with run have out: "l' = l6 @ [RAudit (outcome_event c spawn said refused)]"
      "result = (case (said, refused) of
          (Inr out, Some refusal) \<Rightarrow> Inl (relayed (ro_trimmed os) HELPER_FAILURE_PREFIX refusal (out_stderr out))
        | (r, _) \<Rightarrow> r)"
      by simp_all
    have "run_log os c result (first # proc @ RRead heard
        # map (RAudit \<circ> degraded_record spawn (cm_session c)) (degradations (reported heard))
        @ [RAudit (outcome_event c spawn said refused)])"
      unfolding run_log_def first_def
      apply (rule disjI2)
      apply (rule exI[of _ spawn], rule exI[of _ "cl_helper cl"], rule exI[of _ proc], rule exI[of _ said],
          rule exI[of _ heard], rule exI[of _ "outcome_event c spawn said refused"])
      using proc(2) l1 ok out(2) heard(2)
      by (auto simp: rq_def outcome_event_def relayed_def Let_def split: option.splits sum.splits)
    with out(1) heard(1) proc(1) show ?thesis by auto
  qed
qed

text \<open>A system whose world is the time: the child has exited, the channel carries one degradation.\<close>

definition demo_run :: "(nat, unit, nat) run_os" where
  "demo_run = \<lparr>
     ro_read_link = (\<lambda>_. io_ret ''/bin/sandbx''),
     ro_canonicalize = (\<lambda>_. None),
     ro_is_dir = (\<lambda>_. False),
     ro_lookup = (\<lambda>_. None),
     ro_lossy = id,
     ro_trimmed = id,
     ro_debug = concat,
     ro_pipe = io_ret (),
     ro_read_channel = (\<lambda>_. io_ret (encode [\<lparr>dg_step = UsernsIdentityMap, dg_detail = ''EPERM''\<rparr>])),
     ro_spawn_id = (\<lambda>w. (''ab.0'', w)),
     ro_output = (\<lambda>_. io_ret \<lparr>out_status = ExitCode 0, out_stdout = [], out_stderr = []\<rparr>),
     ro_spawn = (\<lambda>_. io_ret 7),
     ro_child_id = id,
     ro_try_wait = (\<lambda>_. io_ret (Some (ExitSignal 9))),
     ro_reap = (\<lambda>_. id),
     ro_kill_group = (\<lambda>_. id),
     ro_now = (\<lambda>w. (w, w)),
     ro_sleep = (+),
     ro_drained = (\<lambda>_ w. (True, w)),
     ro_taken = (\<lambda>_ w. ((''out'', []), w)),
     ro_emit = (\<lambda>_. id)\<rparr>"

definition demo_command :: sandboxed_command where
  "demo_command = with_timeout 5 (cm_arg ''-l'' (new_command ''/bin/ls'' default_policy))"

lemma demo_poll: "poll_exit (watched_run demo_run) child deadline (w, l) = Some (Inr (Some (ExitSignal 9)), (w, l))"
  by (subst poll_exit.simps) (simp add: demo_run_def io_ret_def)

lemma demo_settle: "settle_readers (watched_run demo_run) child (w, l) = Some ((), (w, l))"
  by (simp add: settle_readers_def, subst settle_loop.simps) (simp add: demo_run_def DRAIN_GRACE_def)

lemma demo_line:
  "make_command_line (watched_run demo_run) demo_command (0, []) = (Inr \<lparr>cl_helper = SELF_EXE,
     cl_argv = [HELPER_FLAG, AUDIT_STDIN_FLAG, ARGS_SEPARATOR, ''/bin/ls'', ''-l'']\<rparr>, (0, []))"
proof -
  obtain r w l where line: "make_command_line (watched_run demo_run) demo_command (0, []) = (r, (w, l))"
    by (metis prod.collapse)
  have "fst (make_command_line (watched_run demo_run) demo_command (0, [])) = Inr \<lparr>cl_helper = SELF_EXE,
     cl_argv = [HELPER_FLAG, AUDIT_STDIN_FLAG, ARGS_SEPARATOR, ''/bin/ls'', ''-l'']\<rparr>"
    "fst (snd (make_command_line (watched_run demo_run) demo_command (0, []))) = 0"
    by code_simp+
  with line command_line_silent[OF line] show ?thesis by simp
qed

lemma demo_reports: "decode (encode [\<lparr>dg_step = UsernsIdentityMap, dg_detail = ''EPERM''\<rparr>])
    = [Degraded \<lparr>dg_step = UsernsIdentityMap, dg_detail = ''EPERM''\<rparr>]"
  by code_simp

lemma demo_outcome:
  "\<exists>es. run_command (watched_run demo_run) demo_command (0, []) = Some (Inr
     \<lparr>out_status = ExitSignal 9, out_stdout = ''out'', out_stderr = []\<rparr>, (0, es))"
proof -
  have demo: "ro_spawn demo_run rq w = (Inr 7, w)" "ro_now demo_run w = (w, w)" "ro_child_id demo_run = id"
    "ro_kill_group demo_run pgid w = w" "ro_taken demo_run c w = ((''out'', []), w)"
    "ro_pipe demo_run w = (Inr (), w)" "ro_spawn_id demo_run w = (''ab.0'', w)" "ro_emit demo_run e w = w"
    "ro_read_channel demo_run p w = (Inr (encode [\<lparr>dg_step = UsernsIdentityMap, dg_detail = ''EPERM''\<rparr>]), w)"
    for rq w pgid c e p
    by (simp_all add: demo_run_def io_ret_def)
  have helper: "\<exists>es. run_helper (watched_run demo_run) demo_command cl (0, l)
     = Some (Inr \<lparr>out_status = ExitSignal 9, out_stdout = ''out'', out_stderr = []\<rparr>, (0, es))" for cl l
    by (simp add: run_helper_def demo_command_def with_timeout_def cm_arg_def new_command_def
        run_with_deadline_def demo demo_poll demo_settle kill_group_marks kill_group_def Let_def)
  then obtain es where
    helper: "run_helper (watched_run demo_run) demo_command cl (0, l)
     = Some (Inr \<lparr>out_status = ExitSignal 9, out_stdout = ''out'', out_stderr = []\<rparr>, (0, es cl l))" for cl l
    by metis
  show ?thesis
    by (simp add: helper run_command_def demo_line audit_channel_def io_map_err_def demo Let_def
      record_reports_def demo_reports st_bind_def st_do_def st_ret_def)
qed

theorem run_records_witness:
  "\<exists>out es. run_command (watched_run demo_run) demo_command (0, []) = Some (Inr out, (0, es))
    \<and> run_log demo_run demo_command (Inr out) es"
proof -
  from demo_outcome obtain out es where "run_command (watched_run demo_run) demo_command (0, []) = Some (Inr out, (0, es))"
    by blast
  with run_records[OF this] show ?thesis by auto
qed

section \<open>A run returns\<close>

text \<open>
  The clock of \<open>Instant\<close>: reading it does not turn it back, a sleep is at least as long as asked
  for, and no other call of the waits turns it back.
\<close>

definition clock_advances :: "('w, 'p, 'c) run_os \<Rightarrow> ('w \<Rightarrow> nat) \<Rightarrow> bool" where
  "clock_advances os clock \<longleftrightarrow>
     (\<forall>w. fst (ro_now os w) = clock w \<and> clock w \<le> clock (snd (ro_now os w)))
     \<and> (\<forall>d w. clock w + d \<le> clock (ro_sleep os d w))
     \<and> (\<forall>c w. clock w \<le> clock (snd (ro_try_wait os c w)))
     \<and> (\<forall>c w. clock w \<le> clock (snd (ro_drained os c w)))"

lemma clock_advancesD:
  assumes "clock_advances os clock"
  shows "ro_now os w = (now, w') \<Longrightarrow> now = clock w \<and> clock w \<le> clock w'"
    "clock w + d \<le> clock (ro_sleep os d w)"
    "ro_try_wait os c w = (s, w') \<Longrightarrow> clock w \<le> clock w'"
    "ro_drained os c w = (b, w') \<Longrightarrow> clock w \<le> clock w'"
  using assms unfolding clock_advances_def by (metis fst_conv snd_conv)+

lemma poll_exit_returns:
  assumes "clock_advances os clock"
  shows "\<exists>y. poll_exit os child deadline w = Some y"
proof (induction "deadline - clock w" arbitrary: w rule: less_induct)
  case less
  obtain s w1 where wait: "ro_try_wait os child w = (s, w1)" by force
  obtain now w2 where now: "ro_now os w1 = (now, w2)" by force
  have "\<exists>y. poll_exit os child deadline (ro_sleep os POLL_INTERVAL w2) = Some y" if "now < deadline"
  proof (rule less)
    from clock_advancesD(1)[OF assms now] clock_advancesD(3)[OF assms wait] that
      clock_advancesD(2)[OF assms, of w2 POLL_INTERVAL]
    show "deadline - clock (ro_sleep os POLL_INTERVAL w2) < deadline - clock w"
      by (intro diff_less_mono2) (auto simp: POLL_INTERVAL_def)
  qed
  with wait now show ?case
    by (subst poll_exit.simps) (auto split: sum.splits option.splits)
qed

lemma settle_loop_returns:
  assumes "clock_advances os clock"
  shows "\<exists>y. settle_loop os child until w = Some y"
proof (induction "until - clock w" arbitrary: w rule: less_induct)
  case less
  obtain now w1 where now: "ro_now os w = (now, w1)" by force
  obtain b w2 where drained: "ro_drained os child w1 = (b, w2)" by force
  have "\<exists>y. settle_loop os child until (ro_sleep os POLL_INTERVAL w2) = Some y" if "now < until"
  proof (rule less)
    from clock_advancesD(1)[OF assms now] clock_advancesD(4)[OF assms drained] that
      clock_advancesD(2)[OF assms, of w2 POLL_INTERVAL]
    show "until - clock (ro_sleep os POLL_INTERVAL w2) < until - clock w"
      by (intro diff_less_mono2) (auto simp: POLL_INTERVAL_def)
  qed
  with now drained show ?case
    by (subst settle_loop.simps) auto
qed

lemma settle_readers_returns:
  assumes "clock_advances os clock"
  shows "\<exists>y. settle_readers os child w = Some y"
  using settle_loop_returns[OF assms] by (auto simp: settle_readers_def split: prod.splits)

lemma run_with_deadline_returns:
  assumes "clock_advances os clock"
  shows "\<exists>y. run_with_deadline os helper argv p limit w = Some y"
proof (rule ccontr)
  assume none: "\<not> ?thesis"
  obtain s w1 where spawn: "ro_spawn os ((helper_command os helper argv p)\<lparr>rq_own_group := True\<rparr>) w = (s, w1)"
    by force
  with none obtain child where s: "s = Inr child"
    by (cases s) (auto simp: run_with_deadline_def)
  obtain start w2 where now: "ro_now os w1 = (start, w2)" by force
  obtain finished w3 where poll: "poll_exit os child (start + limit) w2 = Some (finished, w3)"
    using poll_exit_returns[OF assms] by (metis prod.collapse)
  obtain u w5 where on: "settle_readers os child (kill_group os (ro_child_id os child) w3) = Some (u, w5)"
    using settle_readers_returns[OF assms] by (metis prod.collapse)
  obtain u' w5' where off:
    "settle_readers os child (ro_reap os child (kill_group os (ro_child_id os child) w3)) = Some (u', w5')"
    using settle_readers_returns[OF assms] by (metis prod.collapse)
  obtain so se w6 where taken: "ro_taken os child w5 = ((so, se), w6)" by (metis prod.collapse)
  from none spawn s now poll on off taken show False
    by (cases finished) (auto simp: run_with_deadline_def Let_def split: option.splits)
qed


lemma demo_clock: "clock_advances demo_run id"
  by (simp add: clock_advances_def demo_run_def io_ret_def)


end
