(* ===== verification/Compact.thy ===== *)
theory Compact
  imports Conversation
begin

text \<open>
  Compaction (crate \<open>sandbx-compact\<close>): how many of the oldest messages a request leaves out
  once the last measured prompt was over budget. \<open>plan_cut\<close> chooses the cut and \<open>window\<close>
  applies it; the properties are the postconditions the turn loop leans on, and that a cut
  keeps the conversation one the API accepts.
\<close>

record compaction =
  budget_tokens :: u32
  cp_keep_recent :: nat

record prompt_usage =
  input_tokens :: "u32 option"
  cache_read_tokens :: "u32 option"
  cache_write_tokens :: "u32 option"

definition unwrap_or_zero :: "u32 option \<Rightarrow> u32" where
  "unwrap_or_zero x = (case x of None \<Rightarrow> 0 | Some v \<Rightarrow> v)"

definition prompt_tokens :: "prompt_usage \<Rightarrow> u64" where
  "prompt_tokens u =
     ucast (unwrap_or_zero (input_tokens u))
     + ucast (unwrap_or_zero (cache_read_tokens u))
     + ucast (unwrap_or_zero (cache_write_tokens u))"

definition over_budget :: "prompt_usage option \<Rightarrow> u32 \<Rightarrow> bool" where
  "over_budget observed budget =
     (case observed of None \<Rightarrow> False | Some usage \<Rightarrow> prompt_tokens usage > ucast budget)"

definition opens_a_request :: "'v request_message list \<Rightarrow> nat \<Rightarrow> bool" where
  "opens_a_request history cutp =
     (cutp > 0 \<and>
      (case get_at history cutp of
         None \<Rightarrow> False
       | Some first \<Rightarrow> rm_role first = User
           \<and> list_ex (\<lambda>block. \<not> is_tool_result block) (rm_content first)))"

definition cut_target :: "'v request_message list \<Rightarrow> nat \<Rightarrow> nat option \<Rightarrow> nat \<Rightarrow> nat" where
  "cut_target history produced keep_recent floor0 =
     (let ceiling = length history;
          floor = (if floor0 \<ge> ceiling then 0 else floor0)
      in case keep_recent of
           None \<Rightarrow> floor
         | Some keep \<Rightarrow> max (min (length history + produced - keep) ceiling) floor)"

definition plan_cut :: "'v request_message list \<Rightarrow> nat \<Rightarrow> nat option \<Rightarrow> nat \<Rightarrow> nat option" where
  "plan_cut history produced keep_recent floor0 =
     (let target = cut_target history produced keep_recent floor0
      in if target = 0 then None
         else (case find (opens_a_request history) [target..<length history] of
                 Some cutp \<Rightarrow> Some cutp
               | None \<Rightarrow> find (opens_a_request history) (rev [1..<target])))"

definition window :: "'v request_message list \<Rightarrow> nat \<Rightarrow> 'v request_message list" where
  "window history cutp =
     (let kept = drop cutp history
      in if cutp > 0
         then (case kept of
                 [] \<Rightarrow> []
               | first # rest \<Rightarrow>
                   first\<lparr>rm_content := filter (\<lambda>block. \<not> is_tool_result block) (rm_content first)\<rparr>
                   # rest)
         else kept)"

section \<open>The measurement\<close>

lemma unat_u32_less: "unat (x :: u32) < 2 ^ 32"
  using unsigned_less[of x, where ?'a = nat] by simp

lemma unat_ucast_u32: "unat (ucast (x :: u32) :: u64) = unat x"
  using unat_u32_less[of x] by (simp add: unsigned_ucast_eq take_bit_nat_eq_self)

lemma unat_prompt_tokens:
  "unat (prompt_tokens u) =
     unat (unwrap_or_zero (input_tokens u)) + unat (unwrap_or_zero (cache_read_tokens u))
     + unat (unwrap_or_zero (cache_write_tokens u))"
  using unat_u32_less[of "unwrap_or_zero (input_tokens u)"]
    unat_u32_less[of "unwrap_or_zero (cache_read_tokens u)"]
    unat_u32_less[of "unwrap_or_zero (cache_write_tokens u)"]
  by (simp add: prompt_tokens_def unat_word_ariths unat_ucast_u32)

text \<open>
  The budget test is exact: it fires when and only when a measurement exists and the sum of
  its three counters, an unreported one counted as zero, exceeds the budget as a number. Three
  saturated 32-bit counters do not wrap in the 64-bit sum.
\<close>

lemma over_budget_exact:
  "over_budget observed budget \<longleftrightarrow>
     (\<exists>u. observed = Some u \<and>
        unat budget < unat (unwrap_or_zero (input_tokens u))
          + unat (unwrap_or_zero (cache_read_tokens u))
          + unat (unwrap_or_zero (cache_write_tokens u)))"
  by (auto simp: over_budget_def word_less_nat_alt unat_prompt_tokens unat_ucast_u32
      split: option.splits)

section \<open>The cut\<close>

lemma opens_a_request_bound: "opens_a_request history cutp \<Longrightarrow> 0 < cutp \<and> cutp < length history"
  by (auto simp: opens_a_request_def split: option.splits)

lemma find_find_cut:
  "(case find P [t..<n] of Some c \<Rightarrow> Some c | None \<Rightarrow> find P (rev [1..<t])) = Some c \<Longrightarrow> P c"
  by (auto simp: find_Some_iff split: option.splits)

lemma cut_target_floor:
  "floor < length history \<Longrightarrow> floor \<le> cut_target history produced keep_recent floor"
  by (auto simp: cut_target_def Let_def split: option.splits)

lemma plan_cut_opens:
  "plan_cut history produced keep_recent floor = Some cutp \<Longrightarrow> opens_a_request history cutp"
  by (auto simp: plan_cut_def Let_def find_Some_iff split: if_splits option.splits)

lemma plan_cut_floor:
  assumes "plan_cut history produced keep_recent floor = Some cutp" "opens_a_request history floor"
  shows "floor \<le> cutp"
proof -
  let ?P = "opens_a_request history"
  define target where "target = cut_target history produced keep_recent floor"
  from assms(2) have fl: "floor < length history" by (simp add: opens_a_request_bound)
  then have t: "floor \<le> target" by (simp add: target_def cut_target_floor)
  have eq: "(case find ?P [target..<length history] of
      Some c \<Rightarrow> Some c | None \<Rightarrow> find ?P (rev [1..<target])) = Some cutp"
    using assms(1) unfolding plan_cut_def Let_def target_def by (simp split: if_splits)
  show ?thesis
  proof (cases "find ?P [target..<length history]")
    case (Some c)
    with eq find_upt_Some[OF Some] t show ?thesis by simp
  next
    case None
    with eq have r: "find ?P (rev [1..<target]) = Some cutp" by simp
    have "floor < target"
      using None assms(2) fl t by (metis find_upt_None le_neq_implies_less order_refl)
    with find_rev_upt_Some[OF r] assms(2) show ?thesis by (meson leI)
  qed
qed

text \<open>
  C21. Every cut \<open>plan_cut\<close> answers is a legal boundary strictly inside the history, and it is
  never shallower than a floor that is itself a legal boundary: compaction deepens, it does not
  restore what an earlier turn withheld.
\<close>

theorem plan_cut_postcondition:
  assumes "plan_cut history produced keep_recent floor = Some cutp"
  shows "opens_a_request history cutp \<and> 0 < cutp \<and> cutp < length history
         \<and> (opens_a_request history floor \<longrightarrow> floor \<le> cutp)"
  using plan_cut_opens[OF assms] plan_cut_floor[OF assms] opens_a_request_bound by blast

definition user_text :: "unit request_message" where
  "user_text = \<lparr>rm_role = User, rm_content = [Text ''hi'']\<rparr>"

definition reply_text :: "unit request_message" where
  "reply_text = \<lparr>rm_role = Assistant, rm_content = [Text ''ok'']\<rparr>"

definition two_exchanges :: "unit request_message list" where
  "two_exchanges = [user_text, reply_text, user_text, reply_text]"

lemmas two_exchanges_defs = two_exchanges_def user_text_def reply_text_def

lemma plan_cut_two_exchanges_floor: "plan_cut two_exchanges 0 None 2 = Some 2"
  by (simp add: plan_cut_def cut_target_def Let_def opens_a_request_def get_at_def
      two_exchanges_defs upt_rec numeral_eq_Suc)

theorem plan_cut_postcondition_witness:
  "plan_cut two_exchanges 0 None 2 = Some 2 \<and> opens_a_request two_exchanges 2
   \<and> 2 < length two_exchanges"
  using plan_cut_postcondition[OF plan_cut_two_exchanges_floor] plan_cut_two_exchanges_floor
  by blast

text \<open>
  Over budget with something to shed, the cut is the shallowest legal boundary at or after
  the target \<open>keep_recent\<close> and the floor imply, failing that the deepest one below it, and there
  is no cut only when the history has no legal boundary at all.
\<close>

lemma plan_cut_chooses:
  assumes "target = max (min (length history + produced - keep) (length history))
             (if floor \<ge> length history then 0 else floor)"
    and "0 < target"
  shows "case plan_cut history produced (Some keep) floor of
           None \<Rightarrow> \<forall>c. \<not> opens_a_request history c
         | Some cutp \<Rightarrow>
             if target \<le> cutp
             then \<forall>c. target \<le> c \<and> c < cutp \<longrightarrow> \<not> opens_a_request history c
             else \<forall>c. cutp < c \<longrightarrow> \<not> opens_a_request history c"
proof -
  let ?P = "opens_a_request history"
  have bound: "?P c \<Longrightarrow> 1 \<le> c \<and> c < length history" for c
    using opens_a_request_bound[of history c] by auto
  have t: "cut_target history produced (Some keep) floor = target"
    using assms(1) by (simp add: cut_target_def Let_def)
  have eq: "plan_cut history produced (Some keep) floor =
      (case find ?P [target..<length history] of
         Some cutp \<Rightarrow> Some cutp | None \<Rightarrow> find ?P (rev [1..<target]))"
    unfolding plan_cut_def t Let_def using assms(2) by simp
  show ?thesis
  proof (cases "find ?P [target..<length history]")
    case (Some c)
    with find_upt_Some[OF Some] show ?thesis by (simp add: eq)
  next
    case None
    then have above: "\<forall>c. target \<le> c \<longrightarrow> \<not> ?P c"
      using bound by (auto simp: find_upt_None)
    show ?thesis
    proof (cases "find ?P (rev [1..<target])")
      case (Some c)
      from find_rev_upt_Some[OF Some] above have "\<forall>d. c < d \<longrightarrow> \<not> ?P d"
        by (meson not_le)
      with None Some find_rev_upt_Some[OF Some] show ?thesis by (simp add: eq)
    next
      case none: None
      have "\<not> ?P c" for c
        using none above bound[of c] by (cases "c < target") (auto simp: find_rev_upt_None)
      with None none show ?thesis by (simp add: eq)
    qed
  qed
qed

lemma plan_cut_two_exchanges_skips: "plan_cut two_exchanges 0 (Some 3) 0 = Some 2"
  by (simp add: plan_cut_def cut_target_def Let_def opens_a_request_def get_at_def
      two_exchanges_defs upt_rec numeral_eq_Suc)

lemma plan_cut_chooses_witness:
  "plan_cut two_exchanges 0 (Some 3) 0 = Some 2 \<and> \<not> opens_a_request two_exchanges 1"
proof -
  have t: "(1::nat) = max (min (length two_exchanges + 0 - 3) (length two_exchanges))
      (if 0 \<ge> length two_exchanges then 0 else 0)"
    by (simp add: two_exchanges_defs)
  from plan_cut_chooses[OF t] plan_cut_two_exchanges_skips show ?thesis by simp
qed

section \<open>The window\<close>

lemma window_0 [simp]: "window history 0 = history"
  by (simp add: window_def)

definition without_results :: "'v request_message \<Rightarrow> 'v request_message" where
  "without_results m = m\<lparr>rm_content := filter (\<lambda>block. \<not> is_tool_result block) (rm_content m)\<rparr>"

lemma window_Cons:
  "opens_a_request history cutp \<Longrightarrow>
     window history cutp = without_results (history ! cutp) # drop (Suc cutp) history"
  using drop_get_at[of history cutp "history ! cutp"]
  by (auto simp: opens_a_request_def window_def without_results_def split: option.splits)

lemma without_results_simps [simp]:
  "rm_role (without_results m) = rm_role m"
  "use_ids (without_results m) = use_ids m"
  "result_ids (without_results m) = {}"
  by (auto simp: without_results_def use_ids_def result_ids_def)

lemma joined_without_results [simp]: "joined (without_results a) b = joined a b"
  by (simp add: joined_def)

lemma successively_joined_head:
  "successively joined (without_results a # bs) = successively joined (a # bs)"
  by (cases bs) simp_all

text \<open>
  C22. Cutting at a boundary \<open>opens_a_request\<close> allows keeps the request one the API accepts: if
  the whole history followed by this turn's own messages was accepted, so is the window
  followed by them.
\<close>

theorem window_keeps_accepted:
  assumes "api_accepts (history @ produced)" and "opens_a_request history cutp"
  shows "api_accepts (window history cutp @ produced)"
proof -
  let ?first = "history ! cutp" and ?rest = "drop (Suc cutp) history @ produced"
  from assms(2) have cutp: "cutp < length history" "rm_role ?first = User"
    "rm_content (without_results ?first) \<noteq> []"
    by (auto simp: opens_a_request_def without_results_def list_ex_iff filter_empty_conv
        split: option.splits)
  have eq: "drop cutp (history @ produced) = ?first # ?rest"
    using cutp(1) by (simp add: Cons_nth_drop_Suc[symmetric])
  have "successively joined (?first # ?rest)"
    unfolding eq[symmetric] using assms(1)
    by (intro successively_drop) (simp add: api_accepts_def)
  moreover have "\<forall>m \<in> set ?rest. rm_content m \<noteq> []"
    using assms(1) by (auto simp: api_accepts_def dest: in_set_dropD)
  ultimately show ?thesis
    using cutp window_Cons[OF assms(2)]
    by (simp add: api_accepts_Cons successively_joined_head)
qed

theorem window_keeps_accepted_witness:
  "api_accepts (window two_exchanges 2 @ [])"
  by (rule window_keeps_accepted)
    (auto simp: two_exchanges_defs api_accepts_def joined_def use_ids_def result_ids_def
      opens_a_request_def get_at_def)

end
