(* ===== verification/Turn.thy ===== *)
theory Turn
  imports Compact Tools
begin

text \<open>
  The turn loop (\<open>sandbx-turn\<close>) and the gate it asks (\<open>sandbx-approval\<close>). What the loop reaches
  is a record of world-passing calls: opening a request, observing an event, the gate's two
  methods, running a tool on the blocking pool, and whether the caller's \<open>stop\<close> or the round's
  timer has fired. A future that is dropped at an await leaves the world as its effects left it.
  The log of the last section records what a turn asked, ran and reported.
\<close>

section \<open>The gate (sandbx-approval)\<close>

datatype approval_decision = Allow | Deny string | Abort string

datatype call_outcome =
    OcUnknown
  | OcNotOffered
  | OcDenied string
  | OcRan
  | OcErrored tool_error

record 'v settled_call =
  sc_name :: string
  sc_id :: string
  sc_tool :: "builtin_tool option"
  sc_input :: 'v
  sc_outcome :: call_outcome

section \<open>Errors (turn_error.rs)\<close>

datatype turn_error =
    Provider provider_error
  | StreamEndedWithoutStop
  | EndedMidToolUse
  | TurnTimedOut nat
  | ToolPanicked string

fun turn_error_text :: "(provider_error \<Rightarrow> string) \<Rightarrow> (nat \<Rightarrow> string) \<Rightarrow> turn_error \<Rightarrow> string" where
  "turn_error_text pe dur (Provider e) = ''provider failed: '' @ pe e"
| "turn_error_text pe dur StreamEndedWithoutStop =
     ''the turn's event stream ended without a stop event''"
| "turn_error_text pe dur EndedMidToolUse =
     ''the turn ended with a tool result the model never answered''"
| "turn_error_text pe dur (TurnTimedOut after) =
     ''a round did not finish streaming within '' @ dur after"
| "turn_error_text pe dur (ToolPanicked tool) = ''the '' @ tool @ '' tool panicked''"

section \<open>What a turn is given and what it comes to (turn.rs)\<close>

record turn_limits =
  lm_max_rounds :: nat
  lm_stream_timeout :: nat
  lm_compaction :: "compaction option"

definition default_turn_limits :: turn_limits where
  "default_turn_limits = \<lparr>lm_max_rounds = 8, lm_stream_timeout = 300000, lm_compaction = None\<rparr>"

record 'v turn =
  tn_model :: string
  tn_max_output_tokens :: u32
  tn_system :: "string option"
  tn_tools :: "builtin_tool list"
  tn_tool_choice :: "tool_choice option"
  tn_thinking :: "thinking option"
  tn_history :: "'v request_message list"
  tn_limits :: turn_limits
  tn_observed :: "prompt_usage option"
  tn_withheld :: nat

datatype turn_stop = TsAnswered | TsRoundLimit nat | TsGateAborted | TsInterrupted

record 'v turn_outcome =
  ou_messages :: "'v request_message list"
  ou_usage :: "prompt_usage option"
  ou_withheld :: nat
  ou_stop :: turn_stop
  ou_round_stop :: "stop_reason option"

text \<open>A work that ran to an await can be dropped there by \<open>stop\<close>, or fail.\<close>

datatype halt = Stopped | Fails turn_error

record ('w, 'v) turn_env =
  te_open :: "'v prompt \<Rightarrow> 'w \<Rightarrow> (provider_error + (provider_error + 'v agent_event) list) \<times> 'w"
  te_observe :: "'v agent_event \<Rightarrow> 'w \<Rightarrow> 'w"
  te_approve :: "builtin_tool \<Rightarrow> string \<Rightarrow> 'v \<Rightarrow> 'w \<Rightarrow> approval_decision \<times> 'w"
  te_settled :: "'v settled_call \<Rightarrow> 'w \<Rightarrow> 'w"
  te_execute :: "builtin_tool \<Rightarrow> 'v \<Rightarrow> 'w \<Rightarrow> (tool_error + tool_output) option \<times> 'w"
  te_stop :: "'w \<Rightarrow> bool \<times> 'w"
  te_timed_out :: "'w \<Rightarrow> bool \<times> 'w"
  te_schema :: "builtin_tool \<Rightarrow> 'v"
  te_duration :: "nat \<Rightarrow> string"

text \<open>
  \<open>unless\<close> polls \<open>stop\<close> before the work, at the start and again whenever the work is woken at an
  await; where a run does not poll, \<open>te_stop\<close> answers False.
\<close>

definition poll_stop :: "('w, 'v) turn_env \<Rightarrow> ('w, halt, unit) io" where
  "poll_stop env w = (case te_stop env w of (b, w') \<Rightarrow> (if b then Inl Stopped else Inr (), w'))"

text \<open>Awaiting an item of the stream, under the caller's \<open>stop\<close> and then the round's timer.\<close>

definition await_item :: "('w, 'v) turn_env \<Rightarrow> nat \<Rightarrow> ('w, halt, unit) io" where
  "await_item env limit =
     io_bind (poll_stop env) (\<lambda>_ w.
       case te_timed_out env w of
         (b, w') \<Rightarrow> (if b then Inl (Fails (TurnTimedOut limit)) else Inr (), w'))"

section \<open>One round's message from its deltas (accumulate.rs)\<close>

record 'v round =
  rd_blocks :: "'v content_block list"
  rd_usage :: "prompt_usage option"
  rd_reason :: stop_reason

definition flush :: "string \<Rightarrow> 'v content_block list \<Rightarrow> 'v content_block list" where
  "flush pending blocks = (if pending = [] then blocks else blocks @ [Text pending])"

fun accumulate ::
  "('w, 'v) turn_env \<Rightarrow> nat \<Rightarrow> (provider_error + 'v agent_event) list \<Rightarrow> 'v content_block list
     \<Rightarrow> string \<Rightarrow> prompt_usage option \<Rightarrow> ('w, halt, 'v round) io" where
  "accumulate env limit [] blocks pending usage =
     io_bind (await_item env limit) (\<lambda>_. io_fail (Fails StreamEndedWithoutStop))"
| "accumulate env limit (Inl e # items) blocks pending usage =
     io_bind (await_item env limit) (\<lambda>_. io_fail (Fails (Provider e)))"
| "accumulate env limit (Inr event # items) blocks pending usage =
     io_bind (await_item env limit) (\<lambda>_ w.
       (case event of
          EvText delta \<Rightarrow> accumulate env limit items blocks (pending @ delta) usage
        | EvToolCallRequested i n v \<Rightarrow>
            accumulate env limit items (flush pending blocks @ [ToolUse i n v]) [] usage
        | EvThinkingBlock text sig \<Rightarrow>
            accumulate env limit items (flush pending blocks @ [Thinking text sig]) [] usage
        | EvRedactedThinking data \<Rightarrow>
            accumulate env limit items (flush pending blocks @ [RedactedThinking data]) [] usage
        | EvUsage inp out cache_write cache_read \<Rightarrow>
            accumulate env limit items blocks pending
              (Some \<lparr>input_tokens = inp, cache_read_tokens = cache_read,
                     cache_write_tokens = cache_write\<rparr>)
        | EvStop reason \<Rightarrow>
            io_ret \<lparr>rd_blocks = flush pending blocks, rd_usage = usage, rd_reason = reason\<rparr>
        | EvThinking _ \<Rightarrow> accumulate env limit items blocks pending usage)
       (te_observe env event w))"

section \<open>Answering the calls of a round (tools.rs)\<close>

definition tool_definition_of :: "('w, 'v) turn_env \<Rightarrow> builtin_tool \<Rightarrow> 'v tool_definition" where
  "tool_definition_of env t =
     \<lparr>td_name = tool_name t, td_description = tool_description t, td_schema = te_schema env t\<rparr>"

definition refused :: "string \<Rightarrow> string \<Rightarrow> 'v content_block" where
  "refused i content = ToolResult i content (Some True)"

definition settle ::
  "('w, 'v) turn_env \<Rightarrow> string \<Rightarrow> string \<Rightarrow> 'v \<Rightarrow> builtin_tool option \<Rightarrow> call_outcome \<Rightarrow> 'w \<Rightarrow> 'w" where
  "settle env i n v t oc =
     te_settled env \<lparr>sc_name = n, sc_id = i, sc_tool = t, sc_input = v, sc_outcome = oc\<rparr>"

text \<open>The verdict: the gate is not asked again once it aborted.\<close>

definition verdict ::
  "('w, 'v) turn_env \<Rightarrow> string option \<Rightarrow> builtin_tool \<Rightarrow> string \<Rightarrow> 'v \<Rightarrow> 'w \<Rightarrow> approval_decision \<times> 'w" where
  "verdict env aborted t i v w =
     (case aborted of Some reason \<Rightarrow> (Deny reason, w) | None \<Rightarrow> te_approve env t i v w)"

text \<open>An allowed call, on the blocking pool: awaited, so \<open>stop\<close> can be found resolved behind it.\<close>

definition run_call ::
  "('w, 'v) turn_env \<Rightarrow> builtin_tool \<Rightarrow> string \<Rightarrow> string \<Rightarrow> 'v \<Rightarrow> ('w, halt, 'v content_block) io" where
  "run_call env t i n v w =
     (case te_execute env t v w of
        (r, w1) \<Rightarrow>
          io_bind (poll_stop env) (\<lambda>_ w2.
            case r of
              None \<Rightarrow> (Inl (Fails (ToolPanicked n)), w2)
            | Some (Inr output) \<Rightarrow>
                (Inr (ToolResult i (output_content output) None),
                 settle env i n v (Some t) OcRan w2)
            | Some (Inl e) \<Rightarrow>
                (Inr (refused i (tool_error_text (te_duration env) e)),
                 settle env i n v (Some t) (OcErrored e) w2)) w1)"

text \<open>One \<open>tool_use\<close> block: its result, and the reason of an abort if there has been one.\<close>

definition answer_call ::
  "('w, 'v) turn_env \<Rightarrow> builtin_tool list \<Rightarrow> string option \<Rightarrow> string \<Rightarrow> string \<Rightarrow> 'v
     \<Rightarrow> ('w, halt, 'v content_block \<times> string option) io" where
  "answer_call env offered aborted i n v w =
     (case from_name n of
        None \<Rightarrow>
          (Inr (refused i (''unknown tool: '' @ n), aborted), settle env i n v None OcUnknown w)
      | Some t \<Rightarrow>
          if t \<notin> set offered then
            (Inr (refused i (''tool not offered this turn: '' @ n), aborted),
             settle env i n v (Some t) OcNotOffered w)
          else (case verdict env aborted t i v w of
              (Allow, w1) \<Rightarrow> io_bind (run_call env t i n v) (\<lambda>result. io_ret (result, aborted)) w1
            | (Deny reason, w1) \<Rightarrow>
                (Inr (refused i reason, aborted), settle env i n v (Some t) (OcDenied reason) w1)
            | (Abort reason, w1) \<Rightarrow>
                (Inr (refused i reason, Some reason),
                 settle env i n v (Some t) (OcDenied reason) w1)))"

record 'v answers =
  an_results :: "'v content_block list"
  an_aborted :: bool

fun answer_calls ::
  "('w, 'v) turn_env \<Rightarrow> builtin_tool list \<Rightarrow> 'v content_block list \<Rightarrow> 'v content_block list
     \<Rightarrow> string option \<Rightarrow> ('w, halt, 'v answers) io" where
  "answer_calls env offered [] results aborted =
     io_ret \<lparr>an_results = results, an_aborted = (aborted \<noteq> None)\<rparr>"
| "answer_calls env offered (ToolUse i n v # blocks) results aborted =
     io_bind (answer_call env offered aborted i n v) (\<lambda>(result, aborted').
       answer_calls env offered blocks (results @ [result]) aborted')"
| "answer_calls env offered (_ # blocks) results aborted =
     answer_calls env offered blocks results aborted"

section \<open>The loop (turn.rs)\<close>

definition drop_thinking :: "'v request_message list \<Rightarrow> 'v request_message list" where
  "drop_thinking ms =
     filter (\<lambda>m. rm_content m \<noteq> [])
       (map (\<lambda>m. m\<lparr>rm_content := filter (\<lambda>b. \<not> is_thinking b) (rm_content m)\<rparr>) ms)"

definition outcome ::
  "'v request_message list \<Rightarrow> prompt_usage option \<Rightarrow> nat \<Rightarrow> turn_stop \<Rightarrow> stop_reason option
     \<Rightarrow> 'v turn_outcome" where
  "outcome produced usage withheld stop round_stop =
     \<lparr>ou_messages = drop_thinking produced, ou_usage = usage, ou_withheld = withheld,
      ou_stop = stop, ou_round_stop = round_stop\<rparr>"

record 'v loop_state =
  ls_produced :: "'v request_message list"
  ls_observed :: "prompt_usage option"
  ls_usage :: "prompt_usage option"
  ls_last_stop :: "stop_reason option"
  ls_cut :: nat
  ls_floor :: nat
  ls_measured :: bool
  ls_sent_cut :: "nat option"
  ls_streamed_cut :: nat

definition loop_start :: "'v turn \<Rightarrow> 'v loop_state" where
  "loop_start turn =
     \<lparr>ls_produced = [], ls_observed = tn_observed turn, ls_usage = None, ls_last_stop = None,
      ls_cut = 0, ls_floor = tn_withheld turn, ls_measured = True, ls_sent_cut = None,
      ls_streamed_cut = tn_withheld turn\<rparr>"

text \<open>What a round does before it asks: plan the cut, and drop reasoning a moved cut invalidated.\<close>

definition plan_round :: "'v turn \<Rightarrow> 'v loop_state \<Rightarrow> 'v loop_state" where
  "plan_round turn s =
     (case lm_compaction (tn_limits turn) of
        None \<Rightarrow> s
      | Some policy \<Rightarrow>
          if \<not> ls_measured s then s
          else (let keep_recent = (if over_budget (ls_observed s) (budget_tokens policy)
                                   then Some (cp_keep_recent policy) else None);
                    cutp = (case plan_cut (tn_history turn) (length (ls_produced s)) keep_recent
                                   (ls_floor s) of
                              Some c \<Rightarrow> c | None \<Rightarrow> ls_cut s)
                in s\<lparr>ls_cut := cutp, ls_floor := cutp, ls_measured := False\<rparr>))"

definition mark_sent :: "'v loop_state \<Rightarrow> 'v loop_state" where
  "mark_sent s =
     s\<lparr>ls_produced := (if (case ls_sent_cut s of None \<Rightarrow> False | Some previous \<Rightarrow> previous \<noteq> ls_cut s)
                       then drop_thinking (ls_produced s) else ls_produced s),
       ls_sent_cut := Some (ls_cut s)\<rparr>"

definition round_prompt :: "'v turn \<Rightarrow> 'v tool_definition list \<Rightarrow> 'v loop_state \<Rightarrow> 'v prompt" where
  "round_prompt turn definitions s =
     \<lparr>p_model = tn_model turn, p_max_output_tokens = tn_max_output_tokens turn,
      p_system = tn_system turn,
      p_messages = window (tn_history turn) (ls_cut s) @ ls_produced s,
      p_tools = definitions, p_tool_choice = tn_tool_choice turn, p_thinking = tn_thinking turn\<rparr>"

definition stream_round ::
  "('w, 'v) turn_env \<Rightarrow> 'v turn \<Rightarrow> 'v prompt \<Rightarrow> ('w, halt, 'v round) io" where
  "stream_round env turn prompt =
     io_bind (poll_stop env) (\<lambda>_ w.
       case te_open env prompt w of
         (opened, w1) \<Rightarrow>
           io_bind (poll_stop env) (\<lambda>_.
             case opened of
               Inl e \<Rightarrow> io_fail (Fails (Provider e))
             | Inr stream \<Rightarrow> accumulate env (lm_stream_timeout (tn_limits turn)) stream [] [] None) w1)"

text \<open>A finished round's counts, taken before any exit.\<close>

definition absorb_round :: "'v loop_state \<Rightarrow> 'v round \<Rightarrow> 'v loop_state" where
  "absorb_round s r =
     (let s = s\<lparr>ls_streamed_cut := ls_cut s\<rparr>;
          s = (case rd_usage r of
                 None \<Rightarrow> s
               | Some reported \<Rightarrow>
                   s\<lparr>ls_usage := Some reported, ls_observed := Some reported, ls_measured := True\<rparr>)
      in s\<lparr>ls_last_stop := Some (rd_reason r)\<rparr>)"

definition interrupted :: "'v loop_state \<Rightarrow> 'v turn_outcome" where
  "interrupted s =
     outcome (ls_produced s) (ls_usage s) (ls_streamed_cut s) TsInterrupted (ls_last_stop s)"

definition ends :: "'v loop_state \<Rightarrow> turn_stop \<Rightarrow> 'v turn_outcome" where
  "ends s stop = outcome (ls_produced s) (ls_usage s) (ls_cut s) stop (ls_last_stop s)"

text \<open>What follows a streamed round: the turn ends, fails, or goes on to the next.\<close>

definition finish_round ::
  "('w, 'v) turn_env \<Rightarrow> 'v turn \<Rightarrow> 'v loop_state \<Rightarrow> 'v round
     \<Rightarrow> ('w, turn_error, 'v turn_outcome + 'v loop_state) io" where
  "finish_round env turn s r w =
     (if \<not> list_ex (\<lambda>b. \<not> is_thinking b) (rd_blocks r) then
        (if map_option rm_role (last_opt (ls_produced s)) = Some User
         then (Inl EndedMidToolUse, w)
         else (Inr (Inl (ends s TsAnswered)), w))
      else
        (case io_bind (poll_stop env)
                (\<lambda>_. answer_calls env (tn_tools turn) (rd_blocks r) [] None) w of
           (Inl Stopped, w1) \<Rightarrow> (Inr (Inl (interrupted s)), w1)
         | (Inl (Fails e), w1) \<Rightarrow> (Inl e, w1)
         | (Inr answers, w1) \<Rightarrow>
             (let s1 = s\<lparr>ls_produced := ls_produced s
                          @ [\<lparr>rm_role = Assistant, rm_content = rd_blocks r\<rparr>]\<rparr>
              in if an_results answers = [] then
                   (Inr (Inl (ends s1 (if an_aborted answers then TsGateAborted else TsAnswered))), w1)
                 else
                   (let s2 = s1\<lparr>ls_produced := ls_produced s1
                                 @ [\<lparr>rm_role = User, rm_content = an_results answers\<rparr>]\<rparr>
                    in if an_aborted answers then (Inr (Inl (ends s2 TsGateAborted)), w1)
                       else (Inr (Inr s2), w1)))))"

definition round_step ::
  "('w, 'v) turn_env \<Rightarrow> 'v turn \<Rightarrow> 'v tool_definition list \<Rightarrow> 'v loop_state
     \<Rightarrow> ('w, turn_error, 'v turn_outcome + 'v loop_state) io" where
  "round_step env turn definitions s w =
     (let s1 = mark_sent (plan_round turn s)
      in case stream_round env turn (round_prompt turn definitions s1) w of
           (Inl Stopped, w1) \<Rightarrow> (Inr (Inl (interrupted s1)), w1)
         | (Inl (Fails e), w1) \<Rightarrow> (Inl e, w1)
         | (Inr r, w1) \<Rightarrow> finish_round env turn (absorb_round s1 r) r w1)"

fun rounds ::
  "('w, 'v) turn_env \<Rightarrow> 'v turn \<Rightarrow> 'v tool_definition list \<Rightarrow> nat \<Rightarrow> 'v loop_state
     \<Rightarrow> ('w, turn_error, 'v turn_outcome) io" where
  "rounds env turn definitions 0 s =
     io_ret (ends s (TsRoundLimit (lm_max_rounds (tn_limits turn))))"
| "rounds env turn definitions (Suc n) s =
     io_bind (round_step env turn definitions s) (\<lambda>next_step.
       case next_step of
         Inl out \<Rightarrow> io_ret out
       | Inr s' \<Rightarrow> rounds env turn definitions n s')"

definition run_turn_until :: "('w, 'v) turn_env \<Rightarrow> 'v turn \<Rightarrow> ('w, turn_error, 'v turn_outcome) io" where
  "run_turn_until env turn =
     rounds env turn (map (tool_definition_of env) (tn_tools turn)) (lm_max_rounds (tn_limits turn))
       (loop_start turn)"

text \<open>\<open>run_turn\<close> never stops: its \<open>stop\<close> is \<open>future::pending()\<close>.\<close>

definition run_turn :: "('w, 'v) turn_env \<Rightarrow> 'v turn \<Rightarrow> ('w, turn_error, 'v turn_outcome) io" where
  "run_turn env = run_turn_until (env\<lparr>te_stop := (\<lambda>w. (False, w))\<rparr>)"

section \<open>A round rebuilt from its events\<close>

text \<open>
  The reference: the contents of a list of blocks character by character, with each block that is
  not text as one item between; and the same reading of the events. Adjacent text deltas are one
  block, reasoning increments are no content.
\<close>

fun block_items :: "'v content_block \<Rightarrow> (char + 'v content_block) list" where
  "block_items (Text s) = map Inl s"
| "block_items b = [Inr b]"

fun event_items :: "'v agent_event \<Rightarrow> (char + 'v content_block) list" where
  "event_items (EvText s) = map Inl s"
| "event_items (EvThinkingBlock s g) = [Inr (Thinking s g)]"
| "event_items (EvRedactedThinking d) = [Inr (RedactedThinking d)]"
| "event_items (EvToolCallRequested i n v) = [Inr (ToolUse i n v)]"
| "event_items _ = []"

fun event_usage :: "'v agent_event \<Rightarrow> prompt_usage option" where
  "event_usage (EvUsage inp out cache_write cache_read) =
     Some \<lparr>input_tokens = inp, cache_read_tokens = cache_read, cache_write_tokens = cache_write\<rparr>"
| "event_usage _ = None"

definition last_usage :: "prompt_usage option \<Rightarrow> 'v agent_event list \<Rightarrow> prompt_usage option" where
  "last_usage u evs = foldl (\<lambda>u ev. case event_usage ev of None \<Rightarrow> u | Some v \<Rightarrow> Some v) u evs"

fun is_stop :: "'v agent_event \<Rightarrow> bool" where
  "is_stop (EvStop _) = True"
| "is_stop _ = False"

fun is_text :: "'v content_block \<Rightarrow> bool" where
  "is_text (Text _) = True"
| "is_text _ = False"

text \<open>No two text blocks stand together, and none is empty.\<close>

definition coalesced :: "'v content_block list \<Rightarrow> bool" where
  "coalesced bs \<longleftrightarrow> successively (\<lambda>a b. \<not> (is_text a \<and> is_text b)) bs \<and> Text [] \<notin> set bs"

definition open_text :: "'v content_block list \<Rightarrow> bool" where
  "open_text bs \<longleftrightarrow> bs = [] \<or> \<not> is_text (last bs)"

lemma await_item_calm:
  "(\<And>v. te_stop env v = (False, v)) \<Longrightarrow> (\<And>v. te_timed_out env v = (False, v))
     \<Longrightarrow> await_item env limit w = (Inr (), w)"
  by (simp add: await_item_def poll_stop_def io_bind_def)

lemma coalesced_flush:
  "coalesced bs \<Longrightarrow> open_text bs \<Longrightarrow> coalesced (flush pending bs)"
  by (auto simp: coalesced_def open_text_def flush_def successively_append_iff)

lemma coalesced_flush_block:
  assumes "coalesced bs" "open_text bs" "\<not> is_text b"
  shows "coalesced (flush pending bs @ [b]) \<and> open_text (flush pending bs @ [b])"
proof -
  have "b \<noteq> Text []" using assms(3) by auto
  with coalesced_flush[OF assms(1,2), of pending] assms(3) show ?thesis
    by (auto simp: coalesced_def open_text_def successively_append_iff)
qed

lemma flush_items: "concat (map block_items (flush pending bs)) = concat (map block_items bs) @ map Inl pending"
  by (simp add: flush_def)

lemma accumulate_calm:
  assumes "\<And>v. te_stop env v = (False, v)" "\<And>v. te_timed_out env v = (False, v)"
    and "list_all (\<lambda>ev. \<not> is_stop ev) evs" "coalesced bs" "open_text bs"
  shows "\<exists>blocks. accumulate env limit (map Inr evs @ Inr (EvStop reason) # rest) bs pending u w
      = (Inr \<lparr>rd_blocks = blocks, rd_usage = last_usage u evs, rd_reason = reason\<rparr>,
         fold (te_observe env) (evs @ [EvStop reason]) w)
    \<and> concat (map block_items blocks)
        = concat (map block_items bs) @ map Inl pending @ concat (map event_items evs)
    \<and> coalesced blocks"
  using assms(3-)
proof (induction evs arbitrary: bs pending u w)
  case Nil
  then show ?case
    by (simp add: io_bind_def await_item_calm[OF assms(1,2)] last_usage_def flush_items coalesced_flush io_ret_def)
next
  case (Cons ev evs)
  have step: "last_usage u (ev # evs) = last_usage (case event_usage ev of None \<Rightarrow> u | Some v \<Rightarrow> Some v) evs"
    by (simp add: last_usage_def)
  show ?case
  proof (cases ev)
    case (EvText s)
    from Cons.IH[of bs "pending @ s" u "te_observe env ev w"] Cons.prems EvText step show ?thesis
      by (simp add: io_bind_def await_item_calm[OF assms(1,2)])
  next
    case (EvUsage a b c d)
    from Cons.IH[of bs pending "event_usage ev" "te_observe env ev w"] Cons.prems EvUsage step show ?thesis
      by (simp add: io_bind_def await_item_calm[OF assms(1,2)])
  next
    case (EvThinking s)
    from Cons.IH[of bs pending u "te_observe env ev w"] Cons.prems EvThinking step show ?thesis
      by (simp add: io_bind_def await_item_calm[OF assms(1,2)])
  next
    case (EvStop r)
    with Cons.prems show ?thesis by simp
  next
    case (EvThinkingBlock s g)
    from Cons.IH[of "flush pending bs @ [Thinking s g]" "[]" u "te_observe env ev w"]
      coalesced_flush_block[of bs "Thinking s g" pending] Cons.prems EvThinkingBlock step show ?thesis
      by (simp add: io_bind_def await_item_calm[OF assms(1,2)] flush_items)
  next
    case (EvRedactedThinking s)
    from Cons.IH[of "flush pending bs @ [RedactedThinking s]" "[]" u "te_observe env ev w"]
      coalesced_flush_block[of bs "RedactedThinking s" pending] Cons.prems EvRedactedThinking step show ?thesis
      by (simp add: io_bind_def await_item_calm[OF assms(1,2)] flush_items)
  next
    case (EvToolCallRequested i n v)
    from Cons.IH[of "flush pending bs @ [ToolUse i n v]" "[]" u "te_observe env ev w"]
      coalesced_flush_block[of bs "ToolUse i n v" pending] Cons.prems EvToolCallRequested step show ?thesis
      by (simp add: io_bind_def await_item_calm[OF assms(1,2)] flush_items)
  qed
qed

text \<open>
  A round's message is its stream: with nothing interrupting it, every event up to the stop is
  observed once and in order and nothing behind it is, the blocks spell exactly the deltas in the
  order they arrived with text runs coalesced, and the usage is the last one reported.
\<close>

lemma round_rebuilds_stream:
  assumes "\<And>v. te_stop env v = (False, v)" "\<And>v. te_timed_out env v = (False, v)"
    and "list_all (\<lambda>ev. \<not> is_stop ev) evs"
  shows "\<exists>blocks. accumulate env limit (map Inr evs @ Inr (EvStop reason) # rest) [] [] None w
      = (Inr \<lparr>rd_blocks = blocks, rd_usage = last_usage None evs, rd_reason = reason\<rparr>,
         fold (te_observe env) (evs @ [EvStop reason]) w)
    \<and> concat (map block_items blocks) = concat (map event_items evs)
    \<and> coalesced blocks"
  using accumulate_calm[of env evs "[]" limit reason rest "[]" None w] assms
  by (simp add: coalesced_def open_text_def)

section \<open>The log of a turn, and the gate as an automaton\<close>

datatype 'v call_event =
    Opened "'v prompt"
  | Asked builtin_tool 'v approval_decision
  | Executed builtin_tool 'v
  | SettledCall "'v settled_call"

text \<open>The same environment, writing what matters of each call behind the world.\<close>

definition logged :: "('w, 'v) turn_env \<Rightarrow> ('w \<times> 'v call_event list, 'v) turn_env" where
  "logged env = \<lparr>
     te_open = (\<lambda>p (w, l). case te_open env p w of (r, w') \<Rightarrow> (r, (w', l @ [Opened p]))),
     te_observe = (\<lambda>ev (w, l). (te_observe env ev w, l)),
     te_approve = (\<lambda>t i v (w, l).
       case te_approve env t i v w of (d, w') \<Rightarrow> (d, (w', l @ [Asked t v d]))),
     te_settled = (\<lambda>c (w, l). (te_settled env c w, l @ [SettledCall c])),
     te_execute = (\<lambda>t v (w, l). case te_execute env t v w of (r, w') \<Rightarrow> (r, (w', l @ [Executed t v]))),
     te_stop = (\<lambda>(w, l). case te_stop env w of (b, w') \<Rightarrow> (b, (w', l))),
     te_timed_out = (\<lambda>(w, l). case te_timed_out env w of (b, w') \<Rightarrow> (b, (w', l))),
     te_schema = te_schema env,
     te_duration = te_duration env\<rparr>"

lemma logged_simps [simp]:
  "te_open (logged env) p (w, l) = (case te_open env p w of (r, w') \<Rightarrow> (r, (w', l @ [Opened p])))"
  "te_observe (logged env) ev (w, l) = (te_observe env ev w, l)"
  "te_approve (logged env) t i v (w, l) =
     (case te_approve env t i v w of (d, w') \<Rightarrow> (d, (w', l @ [Asked t v d])))"
  "te_settled (logged env) c (w, l) = (te_settled env c w, l @ [SettledCall c])"
  "te_execute (logged env) t v (w, l) =
     (case te_execute env t v w of (r, w') \<Rightarrow> (r, (w', l @ [Executed t v])))"
  "te_stop (logged env) (w, l) = (case te_stop env w of (b, w') \<Rightarrow> (b, (w', l)))"
  "te_timed_out (logged env) (w, l) = (case te_timed_out env w of (b, w') \<Rightarrow> (b, (w', l)))"
  "te_schema (logged env) = te_schema env"
  "te_duration (logged env) = te_duration env"
  by (simp_all add: logged_def)

fun opened :: "'v call_event list \<Rightarrow> 'v prompt list" where
  "opened [] = []"
| "opened (Opened p # es) = p # opened es"
| "opened (_ # es) = opened es"

fun settled_calls :: "'v call_event list \<Rightarrow> 'v settled_call list" where
  "settled_calls [] = []"
| "settled_calls (SettledCall c # es) = c # settled_calls es"
| "settled_calls (_ # es) = settled_calls es"

lemma opened_append [simp]: "opened (xs @ ys) = opened xs @ opened ys"
  by (induction xs rule: opened.induct) auto

lemma settled_calls_append [simp]: "settled_calls (xs @ ys) = settled_calls xs @ settled_calls ys"
  by (induction xs rule: settled_calls.induct) auto

text \<open>
  The gate's protocol: an execution only right behind the approval of that very call, an approval
  only of a tool that was offered, and behind an abort nothing but reports.
\<close>

datatype 'v gate_state = Asking | Granted builtin_tool 'v | Closed

fun gate_step :: "builtin_tool set \<Rightarrow> 'v gate_state \<Rightarrow> 'v call_event \<Rightarrow> 'v gate_state option" where
  "gate_step offered Asking (Asked t v d) =
     (if t \<notin> offered then None
      else case d of Allow \<Rightarrow> Some (Granted t v) | Deny _ \<Rightarrow> Some Asking | Abort _ \<Rightarrow> Some Closed)"
| "gate_step offered (Granted t v) (Executed t' v') = (if t' = t \<and> v' = v then Some Asking else None)"
| "gate_step offered Asking (SettledCall _) = Some Asking"
| "gate_step offered Closed (SettledCall _) = Some Closed"
| "gate_step offered Asking (Opened _) = Some Asking"
| "gate_step offered _ _ = None"

fun gate_run :: "builtin_tool set \<Rightarrow> 'v gate_state \<Rightarrow> 'v call_event list \<Rightarrow> 'v gate_state option" where
  "gate_run offered st [] = Some st"
| "gate_run offered st (e # es) =
     (case gate_step offered st e of None \<Rightarrow> None | Some st' \<Rightarrow> gate_run offered st' es)"

lemma gate_run_append [simp]:
  "gate_run offered st (xs @ ys) =
     (case gate_run offered st xs of None \<Rightarrow> None | Some st' \<Rightarrow> gate_run offered st' ys)"
  by (induction xs arbitrary: st) (auto split: option.splits)

lemma gate_run_executed:
  assumes "gate_run offered Asking (xs @ Executed t v # ys) \<noteq> None"
  shows "t \<in> offered \<and> (\<exists>zs. xs = zs @ [Asked t v Allow])"
proof -
  from assms obtain st where st: "gate_run offered Asking xs = Some st"
    "gate_step offered st (Executed t v) \<noteq> None"
    by (auto split: option.splits)
  then have st': "st = Granted t v" by (cases st) (auto split: if_splits)
  show ?thesis
  proof (cases xs rule: rev_cases)
    case Nil
    with st st' show ?thesis by simp
  next
    case (snoc zs e)
    with st(1) st' obtain st0 where "gate_step offered st0 e = Some (Granted t v)"
      by (auto split: option.splits)
    then have "e = Asked t v Allow \<and> t \<in> offered"
      by (cases st0; cases e) (auto split: if_splits approval_decision.splits)
    with snoc show ?thesis by simp
  qed
qed

lemma gate_run_Closed:
  "gate_run offered Closed es \<noteq> None \<Longrightarrow> e \<in> set es \<Longrightarrow> \<exists>c. e = SettledCall c"
proof (induction es)
  case (Cons e' es)
  then show ?case by (cases e') auto
qed simp

lemma gate_run_aborted:
  assumes "gate_run offered Asking (xs @ Asked t v (Abort reason) # ys) \<noteq> None" "e \<in> set ys"
  shows "\<exists>c. e = SettledCall c"
proof -
  from assms(1) obtain st where st: "gate_run offered Asking xs = Some st"
    "gate_step offered st (Asked t v (Abort reason)) \<noteq> None"
    "gate_run offered (the (gate_step offered st (Asked t v (Abort reason)))) ys \<noteq> None"
    by (auto split: option.splits)
  then have "gate_step offered st (Asked t v (Abort reason)) = Some Closed"
    by (cases st) (auto split: if_splits)
  with st(3) assms(2) show ?thesis by (auto intro: gate_run_Closed)
qed

section \<open>What each part of a round writes\<close>

lemma writes_poll_stop: "writes (poll_stop (logged env)) (\<lambda>r es. es = [])"
  by (auto intro!: writesI simp: poll_stop_def split: prod.splits)

lemma writes_await_item: "writes (await_item (logged env) limit) (\<lambda>r es. es = [])"
  by (rule writesI) (auto simp: await_item_def io_bind_def poll_stop_def split: prod.splits sum.splits if_splits)

definition no_results :: "'v content_block list \<Rightarrow> bool" where
  "no_results bs \<longleftrightarrow> list_all (\<lambda>b. \<not> is_tool_result b) bs"

lemma no_results_simps [simp]:
  "no_results []"
  "no_results (xs @ ys) \<longleftrightarrow> no_results xs \<and> no_results ys"
  "no_results (b # bs) \<longleftrightarrow> \<not> is_tool_result b \<and> no_results bs"
  by (auto simp: no_results_def)

lemma no_results_flush [simp]: "no_results (flush pending bs) = no_results bs"
  by (simp add: flush_def)

lemma writes_observed:
  "writes m P \<Longrightarrow> writes (\<lambda>w. m (te_observe (logged env) ev w)) P"
  by (simp add: writes_def)

lemma writes_accumulate:
  "no_results bs \<Longrightarrow>
     writes (accumulate (logged env) limit items bs pending u)
       (\<lambda>r es. es = [] \<and> (\<forall>rd. r = Inr rd \<longrightarrow> no_results (rd_blocks rd)))"
proof (induction "logged env" limit items bs pending u rule: accumulate.induct)
  case (1 limit bs pending u)
  show ?case unfolding accumulate.simps
    by (rule writes_bind[OF writes_await_item writes_fail]) auto
next
  case (2 limit e items bs pending u)
  show ?case unfolding accumulate.simps
    by (rule writes_bind[OF writes_await_item writes_fail]) auto
next
  case (3 limit event items bs pending u)
  show ?case unfolding accumulate.simps
    by (rule writes_bind[OF writes_await_item
          writes_observed[where P = "\<lambda>r es. es = [] \<and> (\<forall>rd. r = Inr rd \<longrightarrow> no_results (rd_blocks rd))"]])
      (use 3 in \<open>auto split: agent_event.splits intro: writes_ret\<close>)
qed

text \<open>The answer that belongs to what became of a call.\<close>

definition result_for :: "(nat \<Rightarrow> string) \<Rightarrow> 'v settled_call \<Rightarrow> 'v content_block \<Rightarrow> bool" where
  "result_for dur c r \<longleftrightarrow>
     sc_tool c = from_name (sc_name c)
     \<and> (case sc_outcome c of
          OcRan \<Rightarrow> (\<exists>x. r = ToolResult (sc_id c) x None)
        | OcErrored e \<Rightarrow> r = refused (sc_id c) (tool_error_text dur e)
        | OcDenied reason \<Rightarrow> r = refused (sc_id c) reason
        | OcUnknown \<Rightarrow> r = refused (sc_id c) (''unknown tool: '' @ sc_name c)
        | OcNotOffered \<Rightarrow> r = refused (sc_id c) (''tool not offered this turn: '' @ sc_name c))"

abbreviation gate_of :: "string option \<Rightarrow> 'v gate_state" where
  "gate_of aborted \<equiv> (if aborted = None then Asking else Closed)"

definition call_wrote ::
  "('w, 'v) turn_env \<Rightarrow> builtin_tool list \<Rightarrow> string option \<Rightarrow> string \<Rightarrow> string \<Rightarrow> 'v
     \<Rightarrow> (halt + 'v content_block \<times> string option) \<Rightarrow> 'v call_event list \<Rightarrow> bool" where
  "call_wrote env offered aborted i n v r es \<longleftrightarrow>
     opened es = []
     \<and> (case r of
          Inl _ \<Rightarrow> gate_run (set offered) (gate_of aborted) es \<noteq> None
        | Inr (res, aborted') \<Rightarrow>
            gate_run (set offered) (gate_of aborted) es = Some (gate_of aborted')
            \<and> (\<exists>c. settled_calls es = [c] \<and> sc_id c = i \<and> sc_name c = n \<and> sc_input c = v
                 \<and> result_for (te_duration env) c res))"

lemma writes_run_call:
  assumes "from_name n = Some t"
  shows "writes (run_call (logged env) t i n v)
     (\<lambda>r es. case r of
        Inl _ \<Rightarrow> es = [Executed t v]
      | Inr res \<Rightarrow> (\<exists>c. es = [Executed t v, SettledCall c] \<and> sc_id c = i \<and> sc_name c = n \<and> sc_input c = v
          \<and> result_for (te_duration env) c res))"
  using assms
  by (intro writesI)
    (auto simp: run_call_def io_bind_def poll_stop_def settle_def result_for_def
      split: prod.splits sum.splits option.splits if_splits)

lemma writes_answer_call:
  "writes (answer_call (logged env) offered aborted i n v) (call_wrote env offered aborted i n v)"
proof (rule writesI)
  fix w l r w' l'
  assume run: "answer_call (logged env) offered aborted i n v (w, l) = (r, (w', l'))"
  show "\<exists>es. l' = l @ es \<and> call_wrote env offered aborted i n v r es"
  proof (cases "from_name n")
    case None
    with run show ?thesis
      by (auto simp: answer_call_def settle_def call_wrote_def result_for_def)
  next
    case tool: (Some t)
    show ?thesis
    proof (cases "t \<in> set offered")
      case False
      with run tool show ?thesis
        by (auto simp: answer_call_def settle_def call_wrote_def result_for_def)
    next
      case offered: True
      obtain d w1 l1 where d: "verdict (logged env) aborted t i v (w, l) = (d, (w1, l1))"
        by (cases "verdict (logged env) aborted t i v (w, l)") auto
      then have asked: "if aborted = None then l1 = l @ [Asked t v d] else l1 = l \<and> (\<exists>reason. d = Deny reason)"
        by (auto simp: verdict_def split: option.splits prod.splits if_splits)
      show ?thesis
      proof (cases d)
        case Allow
        with asked have l1: "aborted = None" "l1 = l @ [Asked t v Allow]" by (auto split: if_splits)
        obtain r2 w2 l2 where call: "run_call (logged env) t i n v (w1, l1) = (r2, (w2, l2))"
          by (cases "run_call (logged env) t i n v (w1, l1)") auto
        from writesD[OF writes_run_call[OF tool] this] l1 run tool offered d Allow call show ?thesis
          by (auto simp: answer_call_def call_wrote_def io_bind_def io_ret_def split: sum.splits)
      next
        case (Deny reason)
        with asked run tool offered d show ?thesis
          by (auto simp: answer_call_def settle_def call_wrote_def result_for_def split: if_splits)
      next
        case (Abort reason)
        with asked run tool offered d show ?thesis
          by (auto simp: answer_call_def settle_def call_wrote_def result_for_def split: if_splits)
      qed
    qed
  qed
qed

text \<open>The calls of a list of blocks, and what answering them all has to come to.\<close>

fun tool_uses :: "'v content_block list \<Rightarrow> (string \<times> string \<times> 'v) list" where
  "tool_uses [] = []"
| "tool_uses (ToolUse i n v # bs) = (i, n, v) # tool_uses bs"
| "tool_uses (_ # bs) = tool_uses bs"

definition calls_wrote ::
  "('w, 'v) turn_env \<Rightarrow> builtin_tool list \<Rightarrow> string option \<Rightarrow> 'v content_block list
     \<Rightarrow> 'v content_block list \<Rightarrow> (halt + 'v answers) \<Rightarrow> 'v call_event list \<Rightarrow> bool" where
  "calls_wrote env offered aborted blocks results r es \<longleftrightarrow>
     opened es = []
     \<and> (case r of
          Inl _ \<Rightarrow> gate_run (set offered) (gate_of aborted) es \<noteq> None
        | Inr an \<Rightarrow>
            gate_run (set offered) (gate_of aborted) es = Some (if an_aborted an then Closed else Asking)
            \<and> (\<exists>rs. an_results an = results @ rs
                 \<and> map (\<lambda>c. (sc_id c, sc_name c, sc_input c)) (settled_calls es) = tool_uses blocks
                 \<and> list_all2 (result_for (te_duration env)) (settled_calls es) rs))"

lemma calls_wrote_skip:
  "tool_uses bs' = tool_uses bs \<Longrightarrow>
     calls_wrote env offered aborted bs' results = calls_wrote env offered aborted bs results"
  by (intro ext) (simp only: calls_wrote_def)

lemma writes_answer_calls:
  "writes (answer_calls (logged env) offered blocks results aborted)
     (calls_wrote env offered aborted blocks results)"
proof (induction blocks arbitrary: results aborted)
  case Nil
  show ?case by (auto intro!: writes_ret simp: calls_wrote_def)
next
  case (Cons b blocks)
  show ?case
  proof (cases b)
    case (ToolUse i n v)
    show ?thesis unfolding ToolUse answer_calls.simps
      by (rule writes_bind[OF writes_answer_call,
            where Q = "\<lambda>x. calls_wrote env offered (snd x) blocks (results @ [fst x])"])
        (auto simp: Cons.IH calls_wrote_def call_wrote_def case_prod_beta split: sum.splits)
  qed (use Cons.IH in \<open>simp_all add: calls_wrote_skip[where bs' = "_ # blocks" and bs = blocks]\<close>)
qed

lemma result_for_id: "result_for dur c r \<Longrightarrow> is_tool_result r \<and> tool_use_id r = sc_id c"
  by (auto simp: result_for_def refused_def split: call_outcome.splits)

text \<open>
  A round's calls are answered one for one: when answering returns, there is exactly one
  result per \<open>tool_use\<close>, in the order asked and carrying its id; the gate was told of each exactly
  once, in that order, with the name and arguments the model sent; and the result the model reads
  is the one that outcome calls for, marked an error unless the tool ran and succeeded.
\<close>

lemma calls_answered_in_order:
  assumes "answer_calls (logged env) offered blocks [] None (w, []) = (Inr an, (w', l))"
  shows "map tool_use_id (an_results an) = map fst (tool_uses blocks)
    \<and> list_all is_tool_result (an_results an)
    \<and> map (\<lambda>c. (sc_id c, sc_name c, sc_input c)) (settled_calls l) = tool_uses blocks
    \<and> list_all2 (result_for (te_duration env)) (settled_calls l) (an_results an)"
proof -
  from writesD[OF writes_answer_calls assms]
  have m: "map (\<lambda>c. (sc_id c, sc_name c, sc_input c)) (settled_calls l) = tool_uses blocks"
    and rs: "list_all2 (result_for (te_duration env)) (settled_calls l) (an_results an)"
    by (auto simp: calls_wrote_def)
  from rs have "map tool_use_id (an_results an) = map sc_id (settled_calls l)
      \<and> list_all is_tool_result (an_results an)"
    by (induction rule: list_all2_induct) (auto dest: result_for_id)
  moreover have "map sc_id (settled_calls l) = map fst (tool_uses blocks)"
    by (simp add: m[symmetric] comp_def)
  ultimately show ?thesis using m rs by simp
qed

section \<open>The shape of what a turn produces\<close>

text \<open>
  Each round that goes on produces an assistant turn and the results of its calls; \<open>exchanges\<close> is
  what the loop has produced between two rounds.
\<close>

definition exchange :: "'v request_message \<Rightarrow> 'v request_message \<Rightarrow> bool" where
  "exchange a u \<longleftrightarrow>
     rm_role a = Assistant \<and> rm_role u = User
     \<and> list_ex (\<lambda>b. \<not> is_thinking b) (rm_content a) \<and> no_results (rm_content a)
     \<and> rm_content u \<noteq> [] \<and> list_all is_tool_result (rm_content u) \<and> use_ids a = result_ids u"

fun exchanges :: "'v request_message list \<Rightarrow> bool" where
  "exchanges [] = True"
| "exchanges [_] = False"
| "exchanges (a # u # ms) \<longleftrightarrow> exchange a u \<and> exchanges ms"

definition unreasoned :: "'v request_message list \<Rightarrow> bool" where
  "unreasoned ms \<longleftrightarrow> (\<forall>m \<in> set ms. list_all (\<lambda>b. \<not> is_thinking b) (rm_content m))"

definition reply :: "'v request_message \<Rightarrow> bool" where
  "reply a \<longleftrightarrow>
     rm_role a = Assistant \<and> rm_content a \<noteq> [] \<and> no_results (rm_content a) \<and> use_ids a = {}"

lemma exchanges_append: "exchanges xs \<Longrightarrow> exchanges ys \<Longrightarrow> exchanges (xs @ ys)"
  by (induction xs rule: exchanges.induct) auto

lemma exchanges_ends:
  "exchanges ms \<Longrightarrow> ms \<noteq> [] \<Longrightarrow>
     rm_role (hd ms) = Assistant \<and> result_ids (hd ms) = {} \<and> rm_role (last ms) = User
     \<and> use_ids (last ms) = {}"
proof (induction ms rule: exchanges.induct)
  case (3 a u ms)
  then have "exchange a u" by simp
  then have "result_ids a = {}" "use_ids u = {}" "rm_role a = Assistant" "rm_role u = User"
    by (auto simp: exchange_def no_results_def result_ids_def use_ids_def list_all_iff)
  with 3 show ?case by (cases ms) auto
qed auto

lemma exchanges_joined: "exchanges ms \<Longrightarrow> successively joined ms \<and> (\<forall>m \<in> set ms. rm_content m \<noteq> [])"
proof (induction ms rule: exchanges.induct)
  case (3 a u ms)
  then have e: "exchange a u" "exchanges ms" by auto
  with 3 have "successively joined ms \<and> (\<forall>m \<in> set ms. rm_content m \<noteq> [])" by simp
  moreover have "joined a u" "rm_content a \<noteq> []" "rm_content u \<noteq> []" "rm_role u = User" "use_ids u = {}"
    using e(1) by (auto simp: exchange_def joined_def use_ids_def list_all_iff)
  moreover have "joined u (hd ms)" if "ms \<noteq> []"
    using exchanges_ends[OF e(2) that] calculation by (simp add: joined_def)
  ultimately show ?case by (cases ms) auto
qed auto

abbreviation drop_blocks :: "'v request_message \<Rightarrow> 'v request_message" where
  "drop_blocks m \<equiv> m\<lparr>rm_content := filter (\<lambda>b. \<not> is_thinking b) (rm_content m)\<rparr>"

lemma drop_blocks_ids [simp]: "use_ids (drop_blocks m) = use_ids m" "result_ids (drop_blocks m) = result_ids m"
  by (auto simp: use_ids_def result_ids_def)

lemma results_not_thinking: "list_all is_tool_result bs \<Longrightarrow> filter (\<lambda>b. \<not> is_thinking b) bs = bs"
  by (auto simp: list_all_iff intro!: filter_True)

lemma exchange_drop: "exchange a u \<Longrightarrow> exchange (drop_blocks a) (drop_blocks u)"
  by (auto simp: exchange_def no_results_def list_all_iff list_ex_iff results_not_thinking)

lemma drop_thinking_exchanges:
  "exchanges ms \<Longrightarrow> exchanges (drop_thinking ms) \<and> (ms \<noteq> [] \<longrightarrow> drop_thinking ms \<noteq> [])"
proof (induction ms rule: exchanges.induct)
  case (3 a u ms)
  then have e: "exchange (drop_blocks a) (drop_blocks u)" by (simp add: exchange_drop)
  then have "rm_content (drop_blocks a) \<noteq> []" "rm_content (drop_blocks u) \<noteq> []"
    by (auto simp: exchange_def)
  then have "drop_thinking (a # u # ms) = drop_blocks a # drop_blocks u # drop_thinking ms"
    by (simp add: drop_thinking_def)
  with 3 e show ?case by simp
qed (auto simp: drop_thinking_def)

lemma unreasoned_drop_thinking: "unreasoned (drop_thinking ms)"
  by (auto simp: unreasoned_def drop_thinking_def list_all_iff)

lemma drop_thinking_append: "drop_thinking (xs @ ys) = drop_thinking xs @ drop_thinking ys"
  by (simp add: drop_thinking_def)

lemma drop_thinking_reply:
  assumes "rm_role a = Assistant" "list_ex (\<lambda>b. \<not> is_thinking b) (rm_content a)"
    "no_results (rm_content a)" "use_ids a = {}"
  shows "drop_thinking [a] = [drop_blocks a] \<and> reply (drop_blocks a)"
proof -
  have "filter (\<lambda>b. \<not> is_thinking b) (rm_content a) \<noteq> []"
    using assms(2) by (auto simp: list_ex_iff filter_empty_conv)
  moreover have "use_ids (drop_blocks a) = {}" by (simp only: drop_blocks_ids assms(4))
  ultimately show ?thesis
    using assms(1,3) by (simp add: drop_thinking_def reply_def no_results_def list_all_iff)
qed

text \<open>How a turn may end: the messages that go with each stop.\<close>

definition turn_ended :: "'v turn_outcome \<Rightarrow> bool" where
  "turn_ended out \<longleftrightarrow>
     unreasoned (ou_messages out)
     \<and> (case ou_stop out of
          TsAnswered \<Rightarrow> ou_messages out = []
            \<or> (\<exists>ps a. exchanges ps \<and> reply a \<and> ou_messages out = ps @ [a])
        | TsGateAborted \<Rightarrow> exchanges (ou_messages out) \<and> ou_messages out \<noteq> []
        | _ \<Rightarrow> exchanges (ou_messages out))"

lemma turn_ended_outcome:
  assumes "exchanges ps" "stop \<noteq> TsAnswered" "stop = TsGateAborted \<Longrightarrow> ps \<noteq> []"
  shows "turn_ended (outcome ps u c stop rs)"
  using assms drop_thinking_exchanges[OF assms(1)] unreasoned_drop_thinking[of ps]
  by (auto simp: turn_ended_def outcome_def split: turn_stop.splits)

lemma turn_ended_answered:
  assumes "exchanges ps" "rm_role a = Assistant" "list_ex (\<lambda>b. \<not> is_thinking b) (rm_content a)"
    "no_results (rm_content a)" "use_ids a = {}"
  shows "turn_ended (outcome (ps @ [a]) u c TsAnswered rs)"
  using drop_thinking_exchanges[OF assms(1)] unreasoned_drop_thinking[of "ps @ [a]"]
    drop_thinking_reply[OF assms(2-5)]
  unfolding turn_ended_def outcome_def turn_outcome.simps turn_stop.simps drop_thinking_append by blast

section \<open>What a round and a turn write\<close>

definition ready :: "'v turn \<Rightarrow> 'v loop_state \<Rightarrow> bool" where
  "ready turn s \<longleftrightarrow>
     exchanges (ls_produced s)
     \<and> (ls_cut s = 0 \<or> opens_a_request (tn_history turn) (ls_cut s))"

lemma ready_start [step_inv]: "ready turn (loop_start turn)"
  by (simp add: ready_def loop_start_def)

lemma ready_plan [step_inv]: "ready turn s \<Longrightarrow> ready turn (plan_round turn s)"
  by (auto simp: ready_def plan_round_def Let_def split: option.splits dest: plan_cut_opens)

lemma ready_mark [step_inv]: "ready turn s \<Longrightarrow> ready turn (mark_sent s)"
  by (simp add: ready_def mark_sent_def drop_thinking_exchanges)

lemma ready_absorb [step_inv]: "ready turn s \<Longrightarrow> ready turn (absorb_round s r)"
  by (simp add: ready_def absorb_round_def Let_def split: option.splits)

lemma absorb_produced [simp]:
  "ls_produced (absorb_round s r) = ls_produced s" "ls_cut (absorb_round s r) = ls_cut s"
  by (simp_all add: absorb_round_def Let_def split: option.splits)

definition round_wrote ::
  "'v turn \<Rightarrow> 'v tool_definition list \<Rightarrow> nat \<Rightarrow> (turn_error + 'v turn_outcome + 'v loop_state)
     \<Rightarrow> 'v call_event list \<Rightarrow> bool" where
  "round_wrote turn defs asked r es \<longleftrightarrow>
     (\<forall>p \<in> set (opened es). \<exists>s. ready turn s \<and> p = round_prompt turn defs s)
     \<and> length (opened es) \<le> asked
     \<and> (case r of
          Inl _ \<Rightarrow> gate_run (set (tn_tools turn)) Asking es \<noteq> None
        | Inr (Inl out) \<Rightarrow>
            gate_run (set (tn_tools turn)) Asking es \<noteq> None \<and> turn_ended out
            \<and> (\<forall>k. ou_stop out \<noteq> TsRoundLimit k)
        | Inr (Inr s) \<Rightarrow>
            gate_run (set (tn_tools turn)) Asking es = Some Asking \<and> ready turn s
            \<and> ls_produced s \<noteq> [] \<and> length (opened es) = asked)"

lemma writes_stream_round:
  "writes (stream_round (logged env) turn prompt)
     (\<lambda>r es. (es = [] \<or> es = [Opened prompt])
        \<and> (\<forall>rd. r = Inr rd \<longrightarrow> es = [Opened prompt] \<and> no_results (rd_blocks rd)))"
  unfolding stream_round_def
proof (rule writes_bind[OF writes_poll_stop])
  fix x :: unit
  let ?work = "\<lambda>opened. io_bind (poll_stop (logged env)) (\<lambda>_. case opened of
      Inl e \<Rightarrow> io_fail (Fails (Provider e))
    | Inr stream \<Rightarrow> accumulate (logged env) (lm_stream_timeout (tn_limits turn)) stream [] [] None)"
  have work: "writes (?work op) (\<lambda>r es. es = [] \<and> (\<forall>rd. r = Inr rd \<longrightarrow> no_results (rd_blocks rd)))" for op
    by (rule writes_bind[OF writes_poll_stop,
          where Q = "\<lambda>_ r es. es = [] \<and> (\<forall>rd. r = Inr rd \<longrightarrow> no_results (rd_blocks rd))"])
      (auto split: sum.splits intro: writes_fail writes_accumulate)
  show "writes (\<lambda>w. case te_open (logged env) prompt w of (op, w1) \<Rightarrow> ?work op w1)
      (\<lambda>r es. es = [Opened prompt] \<and> (\<forall>rd. r = Inr rd \<longrightarrow> no_results (rd_blocks rd)))"
  proof (rule writesI)
    fix w l r w' l'
    assume run: "(case te_open (logged env) prompt (w, l) of (op, w1) \<Rightarrow> ?work op w1) = (r, w', l')"
    obtain op w1 where op: "te_open env prompt w = (op, w1)" by (cases "te_open env prompt w")
    from run have "?work op (w1, l @ [Opened prompt]) = (r, w', l')" by (simp add: op)
    from writesD[OF work this] show "\<exists>es. l' = l @ es \<and> es = [Opened prompt] \<and> (\<forall>rd. r = Inr rd \<longrightarrow> no_results (rd_blocks rd))"
      by simp
  qed
qed auto

lemma no_uses_answers:
  "tool_uses blocks = [] \<Longrightarrow>
     answer_calls env offered blocks results aborted
       = io_ret \<lparr>an_results = results, an_aborted = (aborted \<noteq> None)\<rparr>"
  by (induction blocks arbitrary: results rule: tool_uses.induct) simp_all

lemma use_ids_tool_uses: "use_ids \<lparr>rm_role = r, rm_content = bs\<rparr> = fst ` set (tool_uses bs)"
proof -
  have "map use_id (filter is_tool_use bs) = map fst (tool_uses bs)"
    by (induction bs rule: tool_uses.induct) simp_all
  then show ?thesis by (metis use_ids_def request_message.select_convs(2) set_filter set_map)
qed

lemma result_ids_all: "list_all is_tool_result bs \<Longrightarrow> result_ids \<lparr>rm_role = r, rm_content = bs\<rparr> = set (map tool_use_id bs)"
  by (auto simp: result_ids_def list_all_iff)

lemma calls_wrote_answers:
  assumes "calls_wrote env offered None blocks [] (Inr an) es"
  shows "list_all is_tool_result (an_results an)
    \<and> set (map tool_use_id (an_results an)) = fst ` set (tool_uses blocks)
    \<and> length (an_results an) = length (tool_uses blocks)"
proof -
  from assms have m: "map (\<lambda>c. (sc_id c, sc_name c, sc_input c)) (settled_calls es) = tool_uses blocks"
    and rs: "list_all2 (result_for (te_duration env)) (settled_calls es) (an_results an)"
    by (auto simp: calls_wrote_def)
  from rs have "map tool_use_id (an_results an) = map sc_id (settled_calls es)
      \<and> list_all is_tool_result (an_results an)"
    by (induction rule: list_all2_induct) (auto dest: result_for_id)
  moreover have "map sc_id (settled_calls es) = map fst (tool_uses blocks)"
    by (simp add: m[symmetric] comp_def)
  ultimately show ?thesis using list_all2_lengthD[OF rs] m by (metis length_map set_map)
qed

lemma writes_finish_round:
  assumes s: "ready turn s" and rd: "no_results (rd_blocks rd)"
  shows "writes (finish_round (logged env) turn s rd) (round_wrote turn defs 0)"
proof (rule writesI)
  fix w l r w' l'
  assume run: "finish_round (logged env) turn s rd (w, l) = (r, (w', l'))"
  let ?bs = "rd_blocks rd"
  from s have ex: "exchanges (ls_produced s)" by (simp add: ready_def)
  show "\<exists>es. l' = l @ es \<and> round_wrote turn defs 0 r es"
  proof (cases "list_ex (\<lambda>b. \<not> is_thinking b) ?bs")
    case False
    have "ls_produced s = []" if "map_option rm_role (last_opt (ls_produced s)) \<noteq> Some User"
      using exchanges_ends[OF ex] that by (cases "ls_produced s = []") auto
    then have "turn_ended (ends s TsAnswered)" if "map_option rm_role (last_opt (ls_produced s)) \<noteq> Some User"
      using that by (simp add: turn_ended_def ends_def outcome_def unreasoned_def drop_thinking_def)
    with False run show ?thesis
      by (auto simp: finish_round_def round_wrote_def ends_def outcome_def split: if_splits)
  next
    case said: True
    obtain ra w1 l1 where ans: "io_bind (poll_stop (logged env))
        (\<lambda>_. answer_calls (logged env) (tn_tools turn) ?bs [] None) (w, l) = (ra, (w1, l1))"
      by (cases "io_bind (poll_stop (logged env))
        (\<lambda>_. answer_calls (logged env) (tn_tools turn) ?bs [] None) (w, l)") auto
    have "writes (io_bind (poll_stop (logged env)) (\<lambda>_. answer_calls (logged env) (tn_tools turn) ?bs [] None))
        (calls_wrote env (tn_tools turn) None ?bs [])"
      by (rule writes_bind[OF writes_poll_stop writes_answer_calls]) (auto simp: calls_wrote_def)
    from writesD[OF this ans] obtain es where es: "l1 = l @ es"
      "calls_wrote env (tn_tools turn) None ?bs [] ra es" by blast
    then have quiet: "opened es = []" by (simp add: calls_wrote_def)
    show ?thesis
    proof (cases ra)
      case (Inl h)
      have "turn_ended (interrupted s) \<and> (\<forall>k. ou_stop (interrupted s) \<noteq> TsRoundLimit k)"
        unfolding interrupted_def by (rule conjI[OF turn_ended_outcome[OF ex]]) (simp_all add: outcome_def)
      with Inl es quiet run said ans show ?thesis
        by (cases h) (auto simp: finish_round_def round_wrote_def calls_wrote_def)
    next
      case (Inr an)
      let ?a = "\<lparr>rm_role = Assistant, rm_content = ?bs\<rparr>"
      let ?u = "\<lparr>rm_role = User, rm_content = an_results an\<rparr>"
      note results = calls_wrote_answers[OF es(2)[unfolded Inr]]
      have gate: "gate_run (set (tn_tools turn)) Asking es = Some (if an_aborted an then Closed else Asking)"
        using es(2) Inr by (simp add: calls_wrote_def)
      show ?thesis
      proof (cases "an_results an = []")
        case True
        with results have none: "tool_uses ?bs = []" by simp
        with ans Inr have "\<not> an_aborted an"
          by (auto simp: no_uses_answers io_bind_def split: prod.splits sum.splits)
        moreover have "turn_ended (outcome (ls_produced s @ [?a]) (ls_usage s) (ls_cut s) TsAnswered (ls_last_stop s))"
          by (rule turn_ended_answered[OF ex]) (use said rd none in \<open>simp_all add: use_ids_tool_uses\<close>)
        ultimately show ?thesis using True Inr es quiet run said ans gate
          by (auto simp: finish_round_def round_wrote_def ends_def outcome_def)
      next
        case False
        have "exchange ?a ?u"
          using results False said rd by (simp add: exchange_def use_ids_tool_uses result_ids_all)
        then have ex2: "exchanges (ls_produced s @ [?a, ?u])"
          using exchanges_append[OF ex, of "[?a, ?u]"] by simp
        then have "turn_ended (outcome (ls_produced s @ [?a, ?u]) (ls_usage s) (ls_cut s) TsGateAborted (ls_last_stop s))"
          by (rule turn_ended_outcome) auto
        with ex2 s False Inr es quiet run said ans gate show ?thesis
          by (auto simp: finish_round_def round_wrote_def ends_def outcome_def ready_def Let_def split: if_splits)
      qed
    qed
  qed
qed

lemma writes_round_step:
  assumes "ready turn s"
  shows "writes (round_step (logged env) turn defs s) (round_wrote turn defs 1)"
proof (rule writesI)
  fix w l r w' l'
  assume run: "round_step (logged env) turn defs s (w, l) = (r, (w', l'))"
  let ?s1 = "mark_sent (plan_round turn s)"
  let ?p = "round_prompt turn defs ?s1"
  have s1: "ready turn ?s1" using assms by (intro ready_mark ready_plan)
  obtain r1 w1 l1 where str: "stream_round (logged env) turn ?p (w, l) = (r1, (w1, l1))"
    by (cases "stream_round (logged env) turn ?p (w, l)") auto
  from writesD[OF writes_stream_round str] obtain es where es: "l1 = l @ es"
    "es = [] \<or> es = [Opened ?p]" "\<forall>rd. r1 = Inr rd \<longrightarrow> es = [Opened ?p] \<and> no_results (rd_blocks rd)"
    by blast
  have opened: "\<forall>p \<in> set (opened es). \<exists>s. ready turn s \<and> p = round_prompt turn defs s" "length (opened es) \<le> 1"
    "gate_run (set (tn_tools turn)) Asking es = Some Asking"
    using es(2) s1 by auto
  show "\<exists>es. l' = l @ es \<and> round_wrote turn defs 1 r es"
  proof (cases r1)
    case (Inl h)
    have "turn_ended (interrupted ?s1)"
      unfolding interrupted_def using s1 by (intro turn_ended_outcome) (simp_all add: ready_def)
    with run str Inl es(1) opened show ?thesis
      by (cases h) (auto simp: round_step_def Let_def round_wrote_def interrupted_def outcome_def)
  next
    case (Inr rd)
    from run str Inr have fin: "finish_round (logged env) turn (absorb_round ?s1 rd) rd (w1, l1) = (r, (w', l'))"
      by (simp add: round_step_def Let_def)
    from writesD[OF writes_finish_round[OF ready_absorb[OF s1]] fin] es(3) Inr
    obtain es' where "l' = l1 @ es'" "round_wrote turn defs 0 r es'" by blast
    with es(1,3) Inr opened show ?thesis
      by (auto simp: round_wrote_def split: sum.splits)
  qed
qed

definition turn_wrote ::
  "'v turn \<Rightarrow> 'v tool_definition list \<Rightarrow> nat \<Rightarrow> bool \<Rightarrow> (turn_error + 'v turn_outcome)
     \<Rightarrow> 'v call_event list \<Rightarrow> bool" where
  "turn_wrote turn defs n started r es \<longleftrightarrow>
     (\<forall>p \<in> set (opened es). \<exists>s. ready turn s \<and> p = round_prompt turn defs s)
     \<and> length (opened es) \<le> n
     \<and> gate_run (set (tn_tools turn)) Asking es \<noteq> None
     \<and> (\<forall>out. r = Inr out \<longrightarrow> turn_ended out
          \<and> (\<forall>k. ou_stop out = TsRoundLimit k \<longrightarrow>
               k = lm_max_rounds (tn_limits turn) \<and> length (opened es) = n
               \<and> (n > 0 \<or> started \<longrightarrow> ou_messages out \<noteq> [])))"

lemma writes_rounds:
  "ready turn s \<Longrightarrow>
     writes (rounds (logged env) turn defs n s) (turn_wrote turn defs n (ls_produced s \<noteq> []))"
proof (induction n arbitrary: s)
  case 0
  then have ex: "exchanges (ls_produced s)" by (simp add: ready_def)
  have "turn_ended (ends s (TsRoundLimit k))" for k
    unfolding ends_def by (rule turn_ended_outcome[OF ex]) simp_all
  with drop_thinking_exchanges[OF ex] show ?case
    unfolding rounds.simps
    by (intro writes_ret) (simp add: turn_wrote_def ends_def outcome_def)
next
  case (Suc n)
  let ?next = "\<lambda>x. case x of Inl out \<Rightarrow> io_ret out | Inr s' \<Rightarrow> rounds (logged env) turn defs n s'"
  have "writes (?next x) (\<lambda>r es. case x of Inl out \<Rightarrow> r = Inr out \<and> es = []
        | Inr s' \<Rightarrow> turn_wrote turn defs n (ls_produced s' \<noteq> []) r es)"
    if "round_wrote turn defs 1 (Inr x) es" for x es
  proof (cases x)
    case (Inr s')
    with that have "ready turn s'" by (simp add: round_wrote_def)
    from Suc.IH[OF this] show ?thesis unfolding Inr by simp
  qed (auto intro!: writes_ret)
  then show ?case unfolding rounds.simps
    by (rule writes_bind_on[OF writes_round_step[OF Suc.prems]])
      (auto simp: round_wrote_def turn_wrote_def split: sum.splits)
qed

lemma run_turn_until_wrote:
  assumes "run_turn_until (logged env) turn (w, []) = (r, (w', l))"
  shows "turn_wrote turn (map (tool_definition_of (logged env)) (tn_tools turn))
    (lm_max_rounds (tn_limits turn)) False r l"
proof -
  have "writes (run_turn_until (logged env) turn) (turn_wrote turn (map (tool_definition_of (logged env)) (tn_tools turn))
      (lm_max_rounds (tn_limits turn)) False)"
    using writes_rounds[OF ready_start[of turn], of env] by (simp add: run_turn_until_def loop_start_def)
  from writesD[OF this assms] show ?thesis by simp
qed

text \<open>
  C4. The gate stands between the model and every tool, over a whole turn however it ends: a tool
  runs only right behind the gate's approval of that tool with those arguments, only if the turn
  offered it, and once the gate has aborted nothing is asked, run or requested any more.
\<close>

theorem turn_gated:
  assumes "run_turn_until (logged env) turn (w, []) = (r, (w', l))"
  shows "(\<forall>xs t v ys. l = xs @ Executed t v # ys \<longrightarrow>
            t \<in> set (tn_tools turn) \<and> (\<exists>zs. xs = zs @ [Asked t v Allow]))
    \<and> (\<forall>xs t v reason ys. l = xs @ Asked t v (Abort reason) # ys \<longrightarrow>
            (\<forall>e \<in> set ys. \<exists>c. e = SettledCall c))"
proof -
  have "gate_run (set (tn_tools turn)) Asking l \<noteq> None"
    using run_turn_until_wrote[OF assms] by (simp add: turn_wrote_def)
  then show ?thesis
    by (intro conjI allI impI ballI; hypsubst)
      (elim gate_run_executed[THEN conjunct1] gate_run_executed[THEN conjunct2] gate_run_aborted; assumption)+
qed

lemma exchanges_accepted:
  assumes "api_accepts history" "history \<noteq> []" "rm_role (last history) = User" "use_ids (last history) = {}"
    and "exchanges ps"
  shows "api_accepts (history @ ps)"
proof (cases "ps = []")
  case False
  from exchanges_ends[OF assms(5) False] assms(3,4) have "joined (last history) (hd ps)"
    by (simp add: joined_def)
  with exchanges_joined[OF assms(5)] assms(1,2) False show ?thesis
    by (simp add: api_accepts_append)
qed (use assms(1) in simp)

lemma reply_accepted:
  assumes "api_accepts ms" "ms \<noteq> []" "rm_role (last ms) = User" "use_ids (last ms) = {}" "reply a"
  shows "api_accepts (ms @ [a])"
proof -
  have "result_ids a = {}" "rm_role a = Assistant" "rm_content a \<noteq> []"
    using assms(5) by (auto simp: reply_def no_results_def result_ids_def list_all_iff)
  with assms(1-4) show ?thesis by (simp add: api_accepts_append joined_def)
qed

text \<open>
  C16. Every request a turn opens is one the API accepts, whatever compaction cut and whatever was
  produced before it, when the history is one and ends on the user's prompt; each offers exactly
  the turn's tools; and a turn opens at most its cap of them.
\<close>

theorem turn_requests_accepted:
  assumes "run_turn_until (logged env) turn (w, []) = (r, (w', l))"
    and "api_accepts (tn_history turn)" "tn_history turn \<noteq> []"
    and "rm_role (last (tn_history turn)) = User" "use_ids (last (tn_history turn)) = {}"
  shows "list_all (\<lambda>p. api_accepts (p_messages p) \<and> map td_name (p_tools p) = map tool_name (tn_tools turn))
           (opened l)
    \<and> length (opened l) \<le> lm_max_rounds (tn_limits turn)"
proof -
  let ?defs = "map (tool_definition_of (logged env)) (tn_tools turn)"
  have "api_accepts (window (tn_history turn) (ls_cut s) @ ls_produced s)" if "ready turn s" for s
  proof -
    have "api_accepts (tn_history turn @ ls_produced s)"
      using that assms(2-) by (intro exchanges_accepted) (simp_all add: ready_def)
    with window_keeps_accepted[OF this] that show ?thesis by (auto simp: ready_def)
  qed
  moreover have "map td_name ?defs = map tool_name (tn_tools turn)" by (simp add: tool_definition_of_def)
  ultimately show ?thesis
    using run_turn_until_wrote[OF assms(1)]
    by (auto simp: turn_wrote_def list_all_iff round_prompt_def)
qed

text \<open>Logging changes nothing else: a run with the log erased is the run.\<close>

lemma erases_case:
  assumes "erases m m'" "\<And>r. erases (f r) (f' r)"
  shows "erases (\<lambda>w. case m w of (r, w1) \<Rightarrow> f r w1) (\<lambda>w. case m' w of (r, w1) \<Rightarrow> f' r w1)"
proof -
  have "apsnd fst (case m (w, l) of (r, w1) \<Rightarrow> f r w1) = (case m' w of (r, w1) \<Rightarrow> f' r w1)" for w l
  proof -
    obtain r w1 l1 where m: "m (w, l) = (r, (w1, l1))" by (cases "m (w, l)") auto
    with erases_run[OF assms(1) m] assms(2)[of r] show ?thesis by (simp add: erases_def)
  qed
  then show ?thesis by (simp add: erases_def)
qed

lemma erases_pure [simp]: "erases (Pair r) (Pair r)"
  by (simp add: erases_def)

lemma erases_poll_stop [simp]: "erases (poll_stop (logged env)) (poll_stop env)"
  by (auto simp: erases_def poll_stop_def split: prod.splits)

lemma erases_await_item [simp]: "erases (await_item (logged env) limit) (await_item env limit)"
  unfolding await_item_def
  by (rule erases_bind[OF erases_poll_stop]) (simp add: erases_def split: prod.splits)

lemma erases_observed:
  "erases m m' \<Longrightarrow> erases (\<lambda>w. m (te_observe (logged env) ev w)) (\<lambda>w. m' (te_observe env ev w))"
  by (simp add: erases_def)

lemma erases_accumulate [simp]:
  "erases (accumulate (logged env) limit items bs pending u) (accumulate env limit items bs pending u)"
proof (induction env limit items bs pending u rule: accumulate.induct)
  case (3 env limit event items bs pending u)
  show ?case unfolding accumulate.simps
    by (rule erases_bind[OF erases_await_item erases_observed]) (use 3 in \<open>auto split: agent_event.splits\<close>)
qed (auto intro: erases_bind)

lemma erases_answer_call [simp]:
  "erases (answer_call (logged env) offered aborted i n v) (answer_call env offered aborted i n v)"
  by (auto simp: erases_def answer_call_def run_call_def verdict_def settle_def io_bind_def poll_stop_def io_ret_def
      split: option.splits prod.splits sum.splits approval_decision.splits)

lemma erases_answer_calls [simp]:
  "erases (answer_calls (logged env) offered blocks results aborted) (answer_calls env offered blocks results aborted)"
  by (induction env offered blocks results aborted rule: answer_calls.induct)
    (auto intro!: erases_bind split: prod.splits)

lemma erases_stream_round [simp]:
  "erases (stream_round (logged env) turn prompt) (stream_round env turn prompt)"
  unfolding stream_round_def
proof (rule erases_bind[OF erases_poll_stop])
  fix x :: unit
  let ?work = "\<lambda>env opened. io_bind (poll_stop env) (\<lambda>_. case opened of
      Inl e \<Rightarrow> io_fail (Fails (Provider e))
    | Inr stream \<Rightarrow> accumulate env (lm_stream_timeout (tn_limits turn)) stream [] [] None)"
  have "erases (?work (logged env) op) (?work env op)" for op
    by (rule erases_bind) (auto split: sum.splits)
  then show "erases (\<lambda>w. case te_open (logged env) prompt w of (op, w1) \<Rightarrow> ?work (logged env) op w1)
      (\<lambda>w. case te_open env prompt w of (op, w1) \<Rightarrow> ?work env op w1)"
    by (auto simp: erases_def split: prod.splits)
qed

lemma erases_halt:
  assumes "\<And>x. erases (f x) (f' x)"
  shows "erases (\<lambda>w. case a of Inl Stopped \<Rightarrow> (r, w) | Inl (Fails e) \<Rightarrow> (g e, w) | Inr x \<Rightarrow> f x w)
    (\<lambda>w. case a of Inl Stopped \<Rightarrow> (r, w) | Inl (Fails e) \<Rightarrow> (g e, w) | Inr x \<Rightarrow> f' x w)"
  using assms by (auto simp: erases_def split: sum.splits halt.splits)

lemma erases_finish_round [simp]:
  "erases (finish_round (logged env) turn s rd) (finish_round env turn s rd)"
proof -
  let ?ans = "\<lambda>env. io_bind (poll_stop env) (\<lambda>_. answer_calls env (tn_tools turn) (rd_blocks rd) [] None)"
  have ans: "erases (?ans (logged env)) (?ans env)" by (intro erases_bind) simp_all
  show ?thesis
  proof (cases "list_ex (\<lambda>b. \<not> is_thinking b) (rd_blocks rd)")
    case True
    then have "(\<not> list_ex (\<lambda>b. \<not> is_thinking b) (rd_blocks rd)) = False" by simp
    then show ?thesis
      unfolding finish_round_def[abs_def] by (simp only: if_False)
        (intro erases_case[OF ans] erases_halt; simp add: erases_def Let_def)
  qed (simp add: erases_def finish_round_def)
qed

lemma erases_round_step [simp]:
  "erases (round_step (logged env) turn defs s) (round_step env turn defs s)"
  unfolding round_step_def[abs_def] Let_def
  by (intro erases_case[OF erases_stream_round] erases_halt erases_finish_round)

lemma erases_rounds: "erases (rounds (logged env) turn defs n s) (rounds env turn defs n s)"
  by (induction n arbitrary: s) (auto intro!: erases_bind split: sum.splits)

lemma erases_run_turn_until: "erases (run_turn_until (logged env) turn) (run_turn_until env turn)"
proof -
  have "tool_definition_of (logged env) = tool_definition_of env"
    by (rule ext) (simp add: tool_definition_of_def)
  then show ?thesis by (simp add: run_turn_until_def erases_rounds)
qed

lemma turn_transcript:
  assumes "run_turn_until env turn w = (Inr out, w')"
    and "api_accepts (tn_history turn)" "tn_history turn \<noteq> []"
    and "rm_role (last (tn_history turn)) = User" "use_ids (last (tn_history turn)) = {}"
  shows "api_accepts (tn_history turn @ ou_messages out) \<and> unreasoned (ou_messages out)
    \<and> (case ou_stop out of
         TsAnswered \<Rightarrow> ou_messages out = [] \<or> reply (last (ou_messages out))
       | TsRoundLimit k \<Rightarrow> k = lm_max_rounds (tn_limits turn) \<and> exchanges (ou_messages out)
           \<and> (k > 0 \<longrightarrow> ou_messages out \<noteq> [])
       | TsGateAborted \<Rightarrow> exchanges (ou_messages out) \<and> ou_messages out \<noteq> []
       | TsInterrupted \<Rightarrow> exchanges (ou_messages out))"
proof -
  from erasesD[OF erases_run_turn_until assms(1)] obtain l
    where "run_turn_until (logged env) turn (w, []) = (Inr out, (w', l))" by blast
  from run_turn_until_wrote[OF this] have ended: "turn_ended out"
    and lim: "ou_stop out = TsRoundLimit k \<Longrightarrow> k = lm_max_rounds (tn_limits turn)
        \<and> (lm_max_rounds (tn_limits turn) > 0 \<longrightarrow> ou_messages out \<noteq> [])" for k
    by (auto simp: turn_wrote_def)
  have ex: "api_accepts (tn_history turn @ ps)" if "exchanges ps" for ps
    using assms(2-) that by (intro exchanges_accepted)
  have ans: "api_accepts (tn_history turn @ ps @ [a])" if "exchanges ps" "reply a" for ps a
    using reply_accepted[OF ex[OF that(1)], of a] that exchanges_ends[OF that(1)] assms(3-5)
    by (cases "ps = []") auto
  show ?thesis
    using ended lim ex ans assms(2) by (auto simp: turn_ended_def split: turn_stop.splits)
qed

text \<open>
  C32. What a turn hands back is a conversation the API accepts behind the history it was given,
  whichever way it stopped, and holds no reasoning. An answered turn ends on a reply without
  calls, or is empty; every other one ends on answered results; a turn out of rounds names its
  cap, and an aborted one is not empty.
\<close>

theorem turn_transcript_accepted:
  assumes "run_turn_until env turn w = (Inr out, w')"
    and "api_accepts (tn_history turn)" "tn_history turn \<noteq> []"
    and "rm_role (last (tn_history turn)) = User" "use_ids (last (tn_history turn)) = {}"
  shows "api_accepts (tn_history turn @ ou_messages out) \<and> unreasoned (ou_messages out)
    \<and> (case ou_stop out of
         TsAnswered \<Rightarrow> ou_messages out = [] \<or> reply (last (ou_messages out))
       | TsRoundLimit k \<Rightarrow> k = lm_max_rounds (tn_limits turn) \<and> exchanges (ou_messages out)
           \<and> (k > 0 \<longrightarrow> ou_messages out \<noteq> [])
       | TsGateAborted \<Rightarrow> exchanges (ou_messages out) \<and> ou_messages out \<noteq> []
       | TsInterrupted \<Rightarrow> exchanges (ou_messages out))"
  using assms by (rule turn_transcript)

section \<open>The floor a turn carries\<close>

definition kept :: "'v turn \<Rightarrow> nat \<Rightarrow> bool" where
  "kept turn c \<longleftrightarrow> opens_a_request (tn_history turn) c \<and> tn_withheld turn \<le> c"

definition floor_kept :: "'v turn \<Rightarrow> 'v loop_state \<Rightarrow> bool" where
  "floor_kept turn s \<longleftrightarrow>
     kept turn (ls_floor s) \<and> kept turn (ls_streamed_cut s)
     \<and> (ls_measured s \<or> ls_cut s = ls_floor s)"

lemma plan_cut_total:
  assumes "opens_a_request history floor"
  shows "\<exists>c. plan_cut history produced keep_recent floor = Some c"
proof -
  define target where "target = cut_target history produced keep_recent floor"
  from opens_a_request_bound[OF assms] have floor: "0 < floor" "floor < length history" by auto
  then have t: "floor \<le> target" by (simp add: target_def cut_target_floor)
  have "find (opens_a_request history) [target..<length history] \<noteq> None
      \<or> find (opens_a_request history) (rev [1..<target]) \<noteq> None"
    using assms floor t by (cases "floor = target") (auto simp: find_None_iff)
  with t floor show ?thesis
    unfolding plan_cut_def Let_def target_def[symmetric] by (auto split: option.splits)
qed

lemma floor_plan [step_inv]:
  assumes "floor_kept turn s" "lm_compaction (tn_limits turn) \<noteq> None"
  shows "floor_kept turn (plan_round turn s) \<and> kept turn (ls_cut (plan_round turn s))"
proof (cases "ls_measured s")
  case True
  from assms(2) obtain policy where policy: "lm_compaction (tn_limits turn) = Some policy" by blast
  let ?keep = "if over_budget (ls_observed s) (budget_tokens policy) then Some (cp_keep_recent policy) else None"
  from assms(1) have fl: "opens_a_request (tn_history turn) (ls_floor s)" "tn_withheld turn \<le> ls_floor s"
    by (auto simp: floor_kept_def kept_def)
  from plan_cut_total[OF fl(1)] obtain c
    where c: "plan_cut (tn_history turn) (length (ls_produced s)) ?keep (ls_floor s) = Some c" by blast
  have "kept turn c"
    using plan_cut_opens[OF c] plan_cut_floor[OF c fl(1)] fl(2) by (simp add: kept_def)
  moreover have "plan_round turn s = s\<lparr>ls_cut := c, ls_floor := c, ls_measured := False\<rparr>"
    unfolding plan_round_def policy Let_def option.case c using True by simp
  ultimately show ?thesis using assms(1) by (simp add: floor_kept_def)
next
  case False
  with assms show ?thesis by (auto simp: plan_round_def floor_kept_def)
qed

definition floor_ended :: "'v turn \<Rightarrow> (turn_error + 'v turn_outcome + 'v loop_state) \<Rightarrow> bool" where
  "floor_ended turn r =
     (case r of Inl _ \<Rightarrow> True | Inr (Inl out) \<Rightarrow> kept turn (ou_withheld out)
      | Inr (Inr s) \<Rightarrow> floor_kept turn s \<and> kept turn (ls_cut s))"

lemma floor_finish:
  assumes "floor_kept turn s" "kept turn (ls_cut s)"
  shows "floor_ended turn (fst (finish_round env turn s rd w))"
  using assms
  by (auto simp: finish_round_def floor_ended_def ends_def interrupted_def outcome_def floor_kept_def Let_def
      split: prod.splits sum.splits halt.splits)

lemma floor_step:
  assumes "floor_kept turn s" "lm_compaction (tn_limits turn) \<noteq> None"
  shows "floor_ended turn (fst (round_step env turn defs s w))"
proof -
  let ?s1 = "mark_sent (plan_round turn s)"
  have s1: "floor_kept turn ?s1" "kept turn (ls_cut ?s1)"
    using floor_plan[OF assms] by (simp_all add: mark_sent_def floor_kept_def)
  then have "floor_kept turn (absorb_round ?s1 rd) \<and> kept turn (ls_cut (absorb_round ?s1 rd))" for rd
    by (auto simp: absorb_round_def floor_kept_def Let_def split: option.splits)
  then have fin: "floor_ended turn (fst (finish_round env turn (absorb_round ?s1 rd) rd v))" for rd v
    by (blast intro: floor_finish)
  obtain r w1 where str: "stream_round env turn (round_prompt turn defs ?s1) w = (r, w1)"
    by (cases "stream_round env turn (round_prompt turn defs ?s1) w")
  show ?thesis
  proof (cases r)
    case (Inl h)
    with str s1(1) show ?thesis
      by (cases h) (simp_all add: round_step_def Let_def floor_ended_def interrupted_def outcome_def floor_kept_def)
  next
    case (Inr rd)
    with str fin show ?thesis by (simp add: round_step_def Let_def)
  qed
qed

lemma floor_rounds:
  "floor_kept turn s \<Longrightarrow> lm_compaction (tn_limits turn) \<noteq> None \<Longrightarrow> 0 < n \<or> kept turn (ls_cut s)
     \<Longrightarrow> rounds env turn defs n s w = (Inr out, w') \<Longrightarrow> kept turn (ou_withheld out)"
proof (induction n arbitrary: s w)
  case (Suc n)
  obtain r w1 where r: "round_step env turn defs s w = (r, w1)" by (cases "round_step env turn defs s w")
  with floor_step[OF Suc.prems(1,2), of env defs w] have e: "floor_ended turn r" by simp
  from Suc.prems(4) r obtain x where x: "r = Inr x" by (cases r) (auto simp: io_bind_def)
  show ?case
  proof (cases x)
    case (Inl out')
    with Suc.prems(4) r x e show ?thesis by (auto simp: io_bind_def floor_ended_def)
  next
    case (Inr s')
    with e x have "floor_kept turn s'" "kept turn (ls_cut s')" by (auto simp: floor_ended_def)
    with Suc.IH[of s' w1] Suc.prems r x Inr show ?thesis by (auto simp: io_bind_def)
  qed
qed (simp add: ends_def outcome_def)

text \<open>
  Compaction never gives back what an earlier turn withheld: with it on, and a carried count
  that is still a legal boundary, a turn that runs at all reports a legal boundary at least as
  deep, whether it answered, ran out of rounds, was aborted, or was interrupted mid-stream.
\<close>

lemma turn_keeps_floor:
  assumes "run_turn_until env turn w = (Inr out, w')"
    and "opens_a_request (tn_history turn) (tn_withheld turn)"
    and "lm_compaction (tn_limits turn) \<noteq> None" "0 < lm_max_rounds (tn_limits turn)"
  shows "tn_withheld turn \<le> ou_withheld out \<and> opens_a_request (tn_history turn) (ou_withheld out)"
proof -
  have "floor_kept turn (loop_start turn)"
    using assms(2) by (simp add: floor_kept_def kept_def loop_start_def)
  from floor_rounds[OF this assms(3) _ assms(1)[unfolded run_turn_until_def]] assms(4)
  show ?thesis by (simp add: kept_def)
qed

text \<open>The one cap under which the carried floor is lost although it is legal and compaction is on.\<close>

lemma zero_rounds_lose_floor:
  "lm_max_rounds (tn_limits turn) = 0 \<Longrightarrow>
     \<exists>out. run_turn_until env turn w = (Inr out, w) \<and> ou_withheld out = 0"
  by (simp add: run_turn_until_def ends_def outcome_def loop_start_def io_ret_def)

section \<open>A turn to evaluate the loop on\<close>

text \<open>The world is the rounds the model has left to speak; the gate allows, the tool echoes.\<close>

definition demo_turn_env :: "(string agent_event list list, string) turn_env" where
  "demo_turn_env = \<lparr>
     te_open = (\<lambda>_ w. case w of [] \<Rightarrow> (Inl StreamEndedUnexpectedly, []) | s # ss \<Rightarrow> (Inr (map Inr s), ss)),
     te_observe = (\<lambda>_ w. w), te_approve = (\<lambda>_ _ _ w. (Allow, w)), te_settled = (\<lambda>_ w. w),
     te_execute = (\<lambda>_ v w. (Some (Inr (ToolOutput v)), w)),
     te_stop = (\<lambda>w. (False, w)), te_timed_out = (\<lambda>w. (False, w)),
     te_schema = (\<lambda>_. []), te_duration = (\<lambda>_. [])\<rparr>"

definition demo_turn :: "string turn" where
  "demo_turn = \<lparr>tn_model = ''m'', tn_max_output_tokens = 9, tn_system = None, tn_tools = [ToolBash],
     tn_tool_choice = None, tn_thinking = None,
     tn_history = [\<lparr>rm_role = User, rm_content = [Text ''a'']\<rparr>, \<lparr>rm_role = Assistant, rm_content = [Text ''b'']\<rparr>,
                   \<lparr>rm_role = User, rm_content = [Text ''c'']\<rparr>],
     tn_limits = \<lparr>lm_max_rounds = 2, lm_stream_timeout = 1,
                  lm_compaction = Some \<lparr>budget_tokens = 5, cp_keep_recent = 1\<rparr>\<rparr>,
     tn_observed = None, tn_withheld = 2\<rparr>"

definition demo_rounds :: "string agent_event list list" where
  "demo_rounds = [[EvText ''l'', EvText ''s'', EvToolCallRequested ''i'' ''bash'' ''x'', EvStop StopToolUse],
                  [EvText ''done'', EvStop EndTurn]]"

definition demo_messages :: "string request_message list" where
  "demo_messages = [\<lparr>rm_role = Assistant, rm_content = [Text ''ls'', ToolUse ''i'' ''bash'' ''x'']\<rparr>,
     \<lparr>rm_role = User, rm_content = [ToolResult ''i'' ''x'' None]\<rparr>,
     \<lparr>rm_role = Assistant, rm_content = [Text ''done'']\<rparr>]"

lemma demo_turn_run:
  "run_turn_until demo_turn_env demo_turn demo_rounds =
     (Inr \<lparr>ou_messages = demo_messages, ou_usage = None, ou_withheld = 2, ou_stop = TsAnswered,
           ou_round_stop = Some EndTurn\<rparr>, [])"
  by code_simp

lemma demo_history:
  "api_accepts (tn_history demo_turn)" "tn_history demo_turn \<noteq> []"
  "rm_role (last (tn_history demo_turn)) = User" "use_ids (last (tn_history demo_turn)) = {}"
  "opens_a_request (tn_history demo_turn) 2"
  by (auto simp: demo_turn_def api_accepts_def joined_def use_ids_def result_ids_def opens_a_request_def get_at_def)

lemma round_rebuilds_stream_witness:
  "\<exists>blocks. coalesced blocks \<and> concat (map block_items blocks) = map Inl ''ls'' @ [Inr (ToolUse ''i'' ''bash'' ''x'')]"
  using round_rebuilds_stream[of demo_turn_env
      "[EvText ''l'', EvText ''s'', EvToolCallRequested ''i'' ''bash'' ''x'']" 1 StopToolUse "[]" demo_rounds]
  by (auto simp: demo_turn_env_def)

lemma demo_answers:
  "answer_calls (logged demo_turn_env) [ToolBash] [ToolUse ''i'' ''bash'' ''x'', ToolUse ''j'' ''ls'' ''y''] [] None ([], [])
     = (Inr \<lparr>an_results = [ToolResult ''i'' ''x'' None, refused ''j'' ''tool not offered this turn: ls''],
             an_aborted = False\<rparr>, [],
        [Asked ToolBash ''x'' Allow, Executed ToolBash ''x'',
         SettledCall \<lparr>sc_name = ''bash'', sc_id = ''i'', sc_tool = Some ToolBash, sc_input = ''x'', sc_outcome = OcRan\<rparr>,
         SettledCall \<lparr>sc_name = ''ls'', sc_id = ''j'', sc_tool = Some ToolLs, sc_input = ''y'', sc_outcome = OcNotOffered\<rparr>])"
  by code_simp

lemma calls_answered_in_order_witness:
  "map tool_use_id [ToolResult ''i'' ''x'' None, refused ''j'' ''tool not offered this turn: ls'' :: string content_block]
     = [''i'', ''j'']"
  using calls_answered_in_order[OF demo_answers] by simp

definition demo_log :: "string call_event list" where
  "demo_log = snd (snd (run_turn_until (logged demo_turn_env) demo_turn (demo_rounds, [])))"

lemma demo_logged:
  "run_turn_until (logged demo_turn_env) demo_turn (demo_rounds, [])
     = (fst (run_turn_until (logged demo_turn_env) demo_turn (demo_rounds, [])),
        (fst (snd (run_turn_until (logged demo_turn_env) demo_turn (demo_rounds, []))), demo_log))"
  by (simp add: demo_log_def)

lemma demo_log_executed: "\<exists>ys. demo_log = take 2 demo_log @ Executed ToolBash ''x'' # ys"
proof -
  have "length demo_log = 5 \<and> demo_log ! 2 = Executed ToolBash ''x''" by code_simp
  then show ?thesis using id_take_nth_drop[of 2 demo_log] by (intro exI) auto
qed

theorem turn_gated_witness:
  "\<exists>zs. take 2 demo_log = zs @ [Asked ToolBash ''x'' Allow]"
  using turn_gated[OF demo_logged] demo_log_executed by blast

theorem turn_requests_accepted_witness:
  "list_all (\<lambda>p. api_accepts (p_messages p)) (opened demo_log) \<and> length (opened demo_log) = 2"
proof -
  have "length (opened demo_log) = 2" by code_simp
  with turn_requests_accepted[OF demo_logged demo_history(1-4)] show ?thesis
    by (simp add: list_all_iff)
qed

theorem turn_transcript_accepted_witness:
  "api_accepts (tn_history demo_turn @ demo_messages) \<and> reply (last demo_messages)"
  using turn_transcript_accepted[OF demo_turn_run demo_history(1-4)] by (simp add: demo_messages_def)

lemma turn_keeps_floor_witness:
  "opens_a_request (tn_history demo_turn) 2 \<and> tn_withheld demo_turn \<le> 2"
  using turn_keeps_floor[OF demo_turn_run] demo_history(5) by (simp add: demo_turn_def)

end
