(* ===== verification/Turn_Keeps.thy ===== *)
theory Turn_Keeps
  imports Turn
begin

text \<open>
  What a turn leaves alone. Whatever each call a turn makes of its caller keeps of the world, the
  whole turn keeps: the interface through which a gate, a renderer or a tool is reasoned about
  alone and its invariant carried to a run.
\<close>

definition keeps :: "('w \<Rightarrow> bool) \<Rightarrow> ('w \<Rightarrow> 'a \<times> 'w) \<Rightarrow> bool" where
  "keeps I m \<longleftrightarrow> (\<forall>w. I w \<longrightarrow> I (snd (m w)))"

lemma keepsD: "keeps I m \<Longrightarrow> I w \<Longrightarrow> m w = (r, w') \<Longrightarrow> I w'"
  by (metis keeps_def snd_conv)

lemma keeps_ret [simp]: "keeps I (io_ret x)"
  by (simp add: keeps_def io_ret_def)

lemma keeps_fail [simp]: "keeps I (io_fail e)"
  by (simp add: keeps_def io_fail_def)

lemma keeps_bind: "keeps I m \<Longrightarrow> (\<And>x. keeps I (f x)) \<Longrightarrow> keeps I (io_bind m f)"
  unfolding keeps_def io_bind_def by (force split: prod.splits sum.splits)

lemma keeps_case: "keeps I m \<Longrightarrow> (\<And>r. keeps I (f r)) \<Longrightarrow> keeps I (\<lambda>w. case m w of (r, w1) \<Rightarrow> f r w1)"
  unfolding keeps_def by (force split: prod.splits)

lemma keeps_halt:
  assumes "\<And>x. keeps I (f x)"
  shows "keeps I (\<lambda>w. case a of Inl Stopped \<Rightarrow> (r, w) | Inl (Fails e) \<Rightarrow> (g e, w) | Inr x \<Rightarrow> f x w)"
  using assms by (auto simp: keeps_def split: sum.splits halt.splits)

locale turn_keeps =
  fixes env :: "('w, 'v) turn_env" and I :: "'w \<Rightarrow> bool"
  assumes open_keeps: "keeps I (te_open env p)"
    and observe_keeps: "I w \<Longrightarrow> I (te_observe env ev w)"
    and approve_keeps: "keeps I (te_approve env t i v)"
    and settled_keeps: "I w \<Longrightarrow> I (te_settled env c w)"
    and execute_keeps: "keeps I (te_execute env t v)"
    and stop_keeps: "keeps I (te_stop env)"
    and timer_keeps: "keeps I (te_timed_out env)"
begin

lemma poll_stop_keeps: "keeps I (poll_stop env)"
  using stop_keeps by (force simp: keeps_def poll_stop_def split: prod.splits)

lemma await_item_keeps: "keeps I (await_item env limit)"
  unfolding await_item_def
  by (rule keeps_bind[OF poll_stop_keeps]) (use timer_keeps in \<open>auto simp: keeps_def split: prod.splits intro: keepsD[OF timer_keeps]\<close>)

lemma accumulate_keeps: "keeps I (accumulate env limit items bs pending u)"
proof -
  have "e = env \<Longrightarrow> keeps I (accumulate e limit items bs pending u)" for e
  proof (induction e limit items bs pending u rule: accumulate.induct)
    case (3 e limit event items bs pending u)
    have "keeps I (\<lambda>w. f (te_observe env event w))" if "keeps I f" for f :: "'w \<Rightarrow> (halt + 'v round) \<times> 'w"
      using that observe_keeps by (simp add: keeps_def)
    with 3 show ?case unfolding accumulate.simps
      by (intro keeps_bind) (auto simp: await_item_keeps split: agent_event.splits)
  qed (auto intro!: keeps_bind await_item_keeps)
  then show ?thesis by simp
qed

lemma settle_keeps: "I w \<Longrightarrow> I (settle env i n v t oc w)"
  by (simp add: settle_def settled_keeps)

lemma run_call_keeps: "keeps I (run_call env t i n v)"
proof -
  have "keeps I (\<lambda>w2. case r of
        None \<Rightarrow> (Inl (Fails (ToolPanicked n)), w2)
      | Some (Inr output) \<Rightarrow> (Inr (ToolResult i (output_content output) None), settle env i n v (Some t) OcRan w2)
      | Some (Inl e) \<Rightarrow> (Inr (refused i (tool_error_text (te_duration env) e)), settle env i n v (Some t) (OcErrored e) w2))"
    for r by (auto simp: keeps_def settle_keeps split: option.splits sum.splits)
  then show ?thesis unfolding run_call_def[abs_def]
    by (intro keeps_case[OF execute_keeps] keeps_bind[OF poll_stop_keeps])
qed

lemma verdict_keeps: "keeps I (verdict env aborted t i v)"
  using approve_keeps by (cases aborted) (simp_all add: verdict_def keeps_def)

lemma answer_call_keeps: "keeps I (answer_call env offered aborted i n v)"
proof -
  have "keeps I (\<lambda>w. case verdict env aborted t i v w of
        (Allow, w1) \<Rightarrow> io_bind (run_call env t i n v) (\<lambda>result. io_ret (result, aborted)) w1
      | (Deny reason, w1) \<Rightarrow> (Inr (refused i reason, aborted), settle env i n v (Some t) (OcDenied reason) w1)
      | (Abort reason, w1) \<Rightarrow>
          (Inr (refused i reason, Some reason), settle env i n v (Some t) (OcDenied reason) w1))" for t
  proof (rule keeps_case[OF verdict_keeps])
    fix d
    have "keeps I (io_bind (run_call env t i n v) (\<lambda>result. io_ret (result, aborted)))"
      by (intro keeps_bind run_call_keeps keeps_ret)
    then show "keeps I (\<lambda>w1. case d of
        Allow \<Rightarrow> io_bind (run_call env t i n v) (\<lambda>result. io_ret (result, aborted)) w1
      | Deny reason \<Rightarrow> (Inr (refused i reason, aborted), settle env i n v (Some t) (OcDenied reason) w1)
      | Abort reason \<Rightarrow> (Inr (refused i reason, Some reason), settle env i n v (Some t) (OcDenied reason) w1))"
      by (cases d) (simp_all add: keeps_def settle_keeps)
  qed
  then show ?thesis
    by (auto simp: answer_call_def[abs_def] keeps_def settle_keeps split: option.splits)
qed

lemma answer_calls_keeps: "keeps I (answer_calls env offered blocks results aborted)"
proof -
  have "e = env \<Longrightarrow> keeps I (answer_calls e offered blocks results aborted)" for e
    by (induction e offered blocks results aborted rule: answer_calls.induct)
      (auto intro!: keeps_bind answer_call_keeps split: prod.splits)
  then show ?thesis by simp
qed

lemma stream_round_keeps: "keeps I (stream_round env turn prompt)"
  unfolding stream_round_def
  by (intro keeps_bind[OF poll_stop_keeps] keeps_case[OF open_keeps] keeps_bind[OF poll_stop_keeps])
    (auto simp: accumulate_keeps split: sum.splits)

lemma finish_round_keeps: "keeps I (finish_round env turn s rd)"
proof -
  let ?ans = "io_bind (poll_stop env) (\<lambda>_. answer_calls env (tn_tools turn) (rd_blocks rd) [] None)"
  have ans: "keeps I ?ans" by (intro keeps_bind poll_stop_keeps answer_calls_keeps)
  show ?thesis
  proof (cases "list_ex (\<lambda>b. \<not> is_thinking b) (rd_blocks rd)")
    case True
    then have "(\<not> list_ex (\<lambda>b. \<not> is_thinking b) (rd_blocks rd)) = False" by simp
    then show ?thesis
      unfolding finish_round_def[abs_def] by (simp only: if_False)
        (intro keeps_case[OF ans] keeps_halt; simp add: keeps_def Let_def)
  qed (simp add: keeps_def finish_round_def)
qed

lemma round_step_keeps: "keeps I (round_step env turn defs s)"
  unfolding round_step_def[abs_def] Let_def
  by (intro keeps_case[OF stream_round_keeps] keeps_halt finish_round_keeps)

lemma rounds_keeps: "keeps I (rounds env turn defs n s)"
  by (induction n arbitrary: s) (auto intro!: keeps_bind round_step_keeps split: sum.splits)

lemma run_turn_until_keeps: "keeps I (run_turn_until env turn)"
  by (simp add: run_turn_until_def rounds_keeps)

lemma run_keeps: "run_turn_until env turn w = (r, w') \<Longrightarrow> I w \<Longrightarrow> I w'"
  by (rule keepsD[OF run_turn_until_keeps])

end

end
