(* ===== verification/Terminal_Text.thy ===== *)
theory Terminal_Text
  imports Prelude
begin

text \<open>
  What text a model chose may carry to a terminal (\<open>sandbx-text\<close>, \<open>error_line.rs\<close>, and the strips of
  \<open>agent_gate.rs\<close> and \<open>agent_render.rs\<close>). The code works on the characters of a \<open>str\<close>, which is
  UTF-8: \<open>chars\<close> decodes its bytes to code points and \<open>of_chars\<close> encodes them back.
\<close>

section \<open>The characters of a str\<close>

definition scalar :: "nat \<Rightarrow> bool" where
  "scalar c = (c < 0xD800 \<or> 0xE000 \<le> c \<and> c < 0x110000)"

fun code_point :: "nat list \<Rightarrow> nat" where
  "code_point [b0, b1] = (b0 - 0xC0) * 64 + (b1 - 0x80)"
| "code_point [b0, b1, b2] = ((b0 - 0xE0) * 64 + (b1 - 0x80)) * 64 + (b2 - 0x80)"
| "code_point [b0, b1, b2, b3] = (((b0 - 0xF0) * 64 + (b1 - 0x80)) * 64 + (b2 - 0x80)) * 64 + (b3 - 0x80)"
| "code_point (b0 # _) = b0"
| "code_point [] = 0"

function chars :: "string \<Rightarrow> nat list" where
  "chars s =
     (let w = utf8_width (map of_char (take 4 s))
      in if w = 0 then [] else code_point (map of_char (take w s)) # chars (drop w s))"
  by pat_completeness auto
termination
proof (relation "measure length", simp, goal_cases)
  case (1 s w)
  then have "s \<noteq> []" by (auto simp: utf8_width_def)
  with 1 show ?case by simp
qed

declare chars.simps [simp del]

definition utf8_bytes :: "nat \<Rightarrow> nat list" where
  "utf8_bytes c =
     (if c < 0x80 then [c]
      else if c < 0x800 then [0xC0 + c div 64, 0x80 + c mod 64]
      else if c < 0x10000 then [0xE0 + c div 4096, 0x80 + c div 64 mod 64, 0x80 + c mod 64]
      else [0xF0 + c div 262144, 0x80 + c div 4096 mod 64, 0x80 + c div 64 mod 64, 0x80 + c mod 64])"

definition utf8_of :: "nat \<Rightarrow> string" where
  "utf8_of c = map char_of (utf8_bytes c)"

definition of_chars :: "nat list \<Rightarrow> string" where
  "of_chars cs = concat (map utf8_of cs)"

definition em_dash :: string where "em_dash = utf8_of 0x2014"

lemma of_chars_simps [simp]:
  "of_chars [] = []"
  "of_chars (c # cs) = utf8_of c @ of_chars cs"
  "of_chars (cs @ ds) = of_chars cs @ of_chars ds"
  by (simp_all add: of_chars_def)

lemma chars_Nil [simp]: "chars [] = []"
  by (simp add: chars.simps utf8_width_def)

lemma utf8_bytes_small: "scalar c \<Longrightarrow> list_all (\<lambda>b. b < 256) (utf8_bytes c)"
  by (auto simp: utf8_bytes_def scalar_def)

lemma of_char_utf8: "scalar c \<Longrightarrow> map of_char (utf8_of c) = utf8_bytes c"
  using utf8_bytes_small by (auto simp: utf8_of_def list_all_iff intro!: map_idI)

lemma sextets:
  fixes c :: nat
  shows "c = 64 * (c div 64) + c mod 64" "c div 64 = 64 * (c div 4096) + c div 64 mod 64"
    "c div 4096 = 64 * (c div 262144) + c div 4096 mod 64"
    "c mod 64 < 64" "c div 64 mod 64 < 64" "c div 4096 mod 64 < 64"
proof -
  have "c div 4096 = c div 64 div 64" "c div 262144 = c div 4096 div 64"
    by (simp_all add: div_mult2_eq[symmetric])
  then show "c = 64 * (c div 64) + c mod 64" "c div 64 = 64 * (c div 4096) + c div 64 mod 64"
    "c div 4096 = 64 * (c div 262144) + c div 4096 mod 64" by simp_all
qed simp_all

lemma utf8_bytes_cases:
  obtains "c < 0x80" "utf8_bytes c = [c]"
  | q0 r0 where "c = 64 * q0 + r0" "r0 < 64" "2 \<le> q0" "q0 < 32" "utf8_bytes c = [0xC0 + q0, 0x80 + r0]"
  | q0 q1 r0 where "c = 64 * (64 * q0 + q1) + r0" "r0 < 64" "q1 < 64" "32 \<le> 64 * q0 + q1" "q0 < 16"
      "utf8_bytes c = [0xE0 + q0, 0x80 + q1, 0x80 + r0]"
  | q0 q1 q2 r0 where "c = 64 * (64 * (64 * q0 + q1) + q2) + r0" "r0 < 64" "q1 < 64" "q2 < 64"
      "16 \<le> 64 * q0 + q1" "utf8_bytes c = [0xF0 + q0, 0x80 + q1, 0x80 + q2, 0x80 + r0]"
proof -
  note s = sextets[of c]
  consider "c < 0x80" | "0x80 \<le> c" "c < 0x800" | "0x800 \<le> c" "c < 0x10000" | "0x10000 \<le> c" by linarith
  then show ?thesis
  proof cases
    case 1
    with that(1) show ?thesis by (simp add: utf8_bytes_def)
  next
    case 2
    with s show ?thesis by (intro that(2)[of "c div 64" "c mod 64"]) (simp_all add: utf8_bytes_def)
  next
    case 3
    with s show ?thesis
      by (intro that(3)[of "c div 4096" "c div 64 mod 64" "c mod 64"]) (simp_all add: utf8_bytes_def)
  next
    case 4
    with s show ?thesis
      by (intro that(4)[of "c div 262144" "c div 4096 mod 64" "c div 64 mod 64" "c mod 64"])
        (simp_all add: utf8_bytes_def)
  qed
qed

lemma utf8_bytes_width:
  assumes "scalar c"
  shows "utf8_width (take 4 (utf8_bytes c @ bs)) = length (utf8_bytes c)"
  by (rule utf8_bytes_cases[of c])
    (use assms in \<open>auto simp: utf8_width_def utf8_cont_def scalar_def take_Cons' split: list.splits\<close>)

lemma code_point_bytes: "code_point (utf8_bytes c) = c"
  by (rule utf8_bytes_cases[of c]) simp_all

lemma chars_utf8_of [simp]:
  assumes "scalar c"
  shows "chars (utf8_of c @ s) = c # chars s"
proof -
  let ?w = "length (utf8_bytes c)"
  have "map of_char (take 4 (utf8_of c @ s)) = take 4 (utf8_bytes c @ map of_char s)"
    by (simp only: take_map[symmetric] map_append of_char_utf8[OF assms])
  then have "utf8_width (map of_char (take 4 (utf8_of c @ s))) = ?w"
    using utf8_bytes_width[OF assms] by simp
  moreover have "?w \<noteq> 0" by (rule utf8_bytes_cases[of c]) simp_all
  moreover have "take ?w (utf8_of c @ s) = utf8_of c" "drop ?w (utf8_of c @ s) = s"
    by (simp_all add: utf8_of_def)
  ultimately show ?thesis
    using of_char_utf8[OF assms] code_point_bytes by (subst chars.simps) (simp add: Let_def)
qed

lemma chars_of_chars: "list_all scalar cs \<Longrightarrow> chars (of_chars cs) = cs"
  by (induction cs) simp_all

text \<open>Decoding is onto the scalar values, and is undone on what is well formed.\<close>

lemma joined_sextets:
  fixes q :: nat
  assumes "r < 64"
  shows "(64 * q + r) div 64 = q" "(64 * q + r) mod 64 = r"
    "(4096 * p + 64 * q + r) div 64 = 64 * p + q" "(4096 * p + 64 * q + r) mod 64 = r"
    "(262144 * l + 4096 * p + 64 * q + r) div 64 = 4096 * l + 64 * p + q"
    "(262144 * l + 4096 * p + 64 * q + r) mod 64 = r"
proof -
  have "4096 * p + 64 * q + r = 64 * (64 * p + q) + r"
    "262144 * l + 4096 * p + 64 * q + r = 64 * (4096 * l + 64 * p + q) + r" by simp_all
  then show "(4096 * p + 64 * q + r) div 64 = 64 * p + q" "(4096 * p + 64 * q + r) mod 64 = r"
    "(262144 * l + 4096 * p + 64 * q + r) div 64 = 4096 * l + 64 * p + q"
    "(262144 * l + 4096 * p + 64 * q + r) mod 64 = r" using assms by (simp_all only: div_mult_self4 mod_mult_self4) simp_all
qed (use assms in simp_all)

lemma div_sextets: "(n :: nat) div 4096 = n div 64 div 64" "(n :: nat) div 262144 = n div 64 div 64 div 64"
  by (simp_all add: div_mult2_eq[symmetric])

lemma utf8_bytes_join:
  fixes q0 :: nat
  shows "c < 0x80 \<Longrightarrow> utf8_bytes c = [c]"
    and "2 \<le> q0 \<Longrightarrow> q0 < 32 \<Longrightarrow> r < 64 \<Longrightarrow> utf8_bytes (q0 * 64 + r) = [0xC0 + q0, 0x80 + r]"
    and "32 \<le> q0 * 64 + q1 \<Longrightarrow> q0 < 16 \<Longrightarrow> q1 < 64 \<Longrightarrow> r < 64
      \<Longrightarrow> utf8_bytes ((q0 * 64 + q1) * 64 + r) = [0xE0 + q0, 0x80 + q1, 0x80 + r]"
    and "16 \<le> q0 * 64 + q1 \<Longrightarrow> q1 < 64 \<Longrightarrow> q2 < 64 \<Longrightarrow> r < 64
      \<Longrightarrow> utf8_bytes (((q0 * 64 + q1) * 64 + q2) * 64 + r) = [0xF0 + q0, 0x80 + q1, 0x80 + q2, 0x80 + r]"
  by (simp_all add: utf8_bytes_def div_sextets joined_sextets mult.commute[of _ 64])

lemma code_point_width:
  assumes "utf8_width bs \<noteq> 0"
  shows "scalar (code_point (take (utf8_width bs) bs))
    \<and> utf8_bytes (code_point (take (utf8_width bs) bs)) = take (utf8_width bs) bs"
proof -
  from assms consider b0 rest where "bs = b0 # rest" "utf8_width bs = 1" "b0 < 0x80"
    | b0 b1 rest where "bs = b0 # b1 # rest" "utf8_width bs = 2" "0xC2 \<le> b0" "b0 \<le> 0xDF" "utf8_cont b1"
    | b0 b1 b2 rest where "bs = b0 # b1 # b2 # rest" "utf8_width bs = 3" "0xE0 \<le> b0" "b0 \<le> 0xEF"
        "utf8_cont b1" "utf8_cont b2" "b0 = 0xE0 \<longrightarrow> 0xA0 \<le> b1" "b0 = 0xED \<longrightarrow> b1 \<le> 0x9F"
    | b0 b1 b2 b3 rest where "bs = b0 # b1 # b2 # b3 # rest" "utf8_width bs = 4" "0xF0 \<le> b0" "b0 \<le> 0xF4"
        "utf8_cont b1" "utf8_cont b2" "utf8_cont b3" "b0 = 0xF0 \<longrightarrow> 0x90 \<le> b1" "b0 = 0xF4 \<longrightarrow> b1 \<le> 0x8F"
    by (auto simp: utf8_width_def split: list.splits if_splits)
  then show ?thesis
  proof cases
    case 1
    then show ?thesis by (simp add: utf8_bytes_join scalar_def)
  next
    case 2
    then have "0xC0 \<le> b0" "0x80 \<le> b1" by (simp_all add: utf8_cont_def)
    then obtain q r where "b0 = 0xC0 + q" "b1 = 0x80 + r" using le_Suc_ex by metis
    with 2 show ?thesis by (simp add: utf8_cont_def scalar_def utf8_bytes_join)
  next
    case 3
    then have "0xE0 \<le> b0" "0x80 \<le> b1" "0x80 \<le> b2" by (simp_all add: utf8_cont_def)
    then obtain q q1 r where "b0 = 0xE0 + q" "b1 = 0x80 + q1" "b2 = 0x80 + r" using le_Suc_ex by metis
    with 3 utf8_bytes_join(3)[of q q1 r] show ?thesis
      by (cases "q \<le> 13") (auto simp: utf8_cont_def scalar_def)
  next
    case 4
    then have "0xF0 \<le> b0" "0x80 \<le> b1" "0x80 \<le> b2" "0x80 \<le> b3" by (simp_all add: utf8_cont_def)
    then obtain q q1 q2 r where "b0 = 0xF0 + q" "b1 = 0x80 + q1" "b2 = 0x80 + q2" "b3 = 0x80 + r"
      using le_Suc_ex by metis
    with 4 utf8_bytes_join(4)[of q q1 q2 r] show ?thesis by (auto simp: utf8_cont_def scalar_def)
  qed
qed

lemma utf8_width_le4: "utf8_width bs \<le> 4"
  by (simp add: utf8_width_def split: list.splits)

lemma chars_scalar: "list_all scalar (chars s)"
proof (induction s rule: chars.induct)
  case (1 s)
  then show ?case
    using code_point_width[of "map of_char (take 4 s)"]
    by (subst chars.simps) (auto simp: Let_def take_map min_absorb1[OF utf8_width_le4])
qed


text \<open>A text of printable ASCII is its own list of characters.\<close>

definition ascii :: "string \<Rightarrow> bool" where
  "ascii s = list_all (\<lambda>c. 0x20 \<le> (of_char c :: nat) \<and> (of_char c :: nat) < 0x7F) s"

lemma utf8_of_ascii: "(of_char c :: nat) < 0x80 \<Longrightarrow> utf8_of (of_char c) = [c]"
  by (simp add: utf8_of_def utf8_bytes_def)

lemma of_chars_ascii: "ascii s \<Longrightarrow> of_chars (map of_char s) = s \<and> list_all scalar (map of_char s)"
  by (induction s) (auto simp: ascii_def utf8_of_ascii scalar_def)

section \<open>What renders as nothing, and what breaks a line (sandbx-text)\<close>

definition invisible :: "nat \<Rightarrow> bool" where
  "invisible c =
     (c \<in> {0x00AD, 0x034F, 0x061C, 0x06DD, 0x070F, 0x08E2, 0x180E, 0x3164, 0xFEFF, 0xFFA0, 0x110BD, 0x110CD}
      \<or> 0x0600 \<le> c \<and> c \<le> 0x0605
      \<or> 0x0890 \<le> c \<and> c \<le> 0x0891
      \<or> 0x115F \<le> c \<and> c \<le> 0x1160
      \<or> 0x200B \<le> c \<and> c \<le> 0x200F
      \<or> 0x202A \<le> c \<and> c \<le> 0x202E
      \<or> 0x2060 \<le> c \<and> c \<le> 0x2064
      \<or> 0x2066 \<le> c \<and> c \<le> 0x206F
      \<or> 0xFE00 \<le> c \<and> c \<le> 0xFE0F
      \<or> 0xFFF9 \<le> c \<and> c \<le> 0xFFFB
      \<or> 0x1BCA0 \<le> c \<and> c \<le> 0x1BCA3
      \<or> 0x1D173 \<le> c \<and> c \<le> 0x1D17A
      \<or> 0x13430 \<le> c \<and> c \<le> 0x1343F
      \<or> 0xE0000 \<le> c \<and> c \<le> 0xE007F
      \<or> 0xE0100 \<le> c \<and> c \<le> 0xE01EF)"

definition line_separator :: "nat \<Rightarrow> bool" where
  "line_separator c = (c = 0x2028 \<or> c = 0x2029)"

text \<open>\<open>char::is_control\<close>: the category \<open>Cc\<close>.\<close>

definition is_control :: "nat \<Rightarrow> bool" where
  "is_control c = (c < 0x20 \<or> 0x7F \<le> c \<and> c \<le> 0x9F)"

section \<open>One line of a report (error_line.rs)\<close>

abbreviation backslash :: char where "backslash \<equiv> CHR 0x5C"

definition hex_lower :: "nat \<Rightarrow> char" where
  "hex_lower n = (if n < 10 then char_of (48 + n) else char_of (87 + n))"

text \<open>\<open>char::escape_unicode\<close>, of a code point of four hexadecimal digits.\<close>

definition escape_unicode :: "nat \<Rightarrow> string" where
  "escape_unicode c =
     backslash # ''u{'' @ map hex_lower [c div 4096, c div 256 mod 16, c div 16 mod 16, c mod 16] @ ''}''"

definition spelled_char :: "nat \<Rightarrow> string" where
  "spelled_char c =
     (if c = 0x0A then [backslash, CHR ''n'']
      else if c = 0x09 then [backslash, CHR ''t'']
      else if c = 0x5C then [backslash, backslash]
      else if line_separator c then escape_unicode c
      else if is_control c \<or> invisible c then utf8_of 0xFFFD
      else utf8_of c)"

definition push_spelled :: "string \<Rightarrow> string \<Rightarrow> string" where
  "push_spelled line s = line @ concat (map spelled_char (chars s))"

fun contains_text :: "string \<Rightarrow> string \<Rightarrow> bool" where
  "contains_text [] t = (t = [])"
| "contains_text (c # s) t = (strip_prefix t (c # s) \<noteq> None \<or> contains_text s t)"

text \<open>The walk down the causes, an error being its own text and those of the causes below it.\<close>

fun push_causes :: "string \<Rightarrow> string \<Rightarrow> string list \<Rightarrow> string" where
  "push_causes line parent [] = line"
| "push_causes line parent (t # causes) =
     push_causes (if \<not> contains_text parent t then push_spelled (line @ '': '') t else line) t causes"

definition error_line :: "string \<Rightarrow> string list \<Rightarrow> string" where
  "error_line err causes = push_causes (push_spelled [] err) err causes"

section \<open>One field, and one line, of an operator's account (agent_gate.rs)\<close>

definition SUBJECT_CAP :: nat where "SUBJECT_CAP = 512"

definition replaced :: "nat \<Rightarrow> nat" where
  "replaced c = (if is_control c \<or> invisible c \<or> line_separator c then 0xFFFD else c)"

definition stripped :: "string \<Rightarrow> string" where
  "stripped s = of_chars (map replaced (chars s))"

definition spelled :: "string \<Rightarrow> string" where
  "spelled s = push_spelled [] s"

definition printable :: "string \<Rightarrow> string" where
  "printable s =
     (let out = spelled (of_chars (take SUBJECT_CAP (chars s)))
      in if drop SUBJECT_CAP (chars s) \<noteq> [] then out @ utf8_of 0x2026 else out)"

text \<open>The strip of reasoning, which keeps its line breaks and tabs (agent_render.rs).\<close>

definition inert_char :: "nat \<Rightarrow> nat" where
  "inert_char c =
     (if c = 0x0A \<or> c = 0x09 then c
      else if line_separator c then 0x0A
      else if is_control c \<or> invisible c then 0xFFFD
      else c)"

definition inert :: "string \<Rightarrow> string" where
  "inert delta = of_chars (map inert_char (chars delta))"

section \<open>Text that stays on its line\<close>

definition spoils :: "nat \<Rightarrow> bool" where
  "spoils c = (is_control c \<or> invisible c \<or> line_separator c)"

text \<open>Well formed, and nothing in it spoils or breaks the line it is on.\<close>

definition on_line :: "string \<Rightarrow> bool" where
  "on_line s \<longleftrightarrow> (\<exists>cs. s = of_chars cs \<and> list_all (\<lambda>c. scalar c \<and> \<not> spoils c) cs)"

lemma on_lineD: "on_line s \<Longrightarrow> list_all (\<lambda>c. \<not> spoils c) (chars s) \<and> of_chars (chars s) = s"
  unfolding on_line_def by (elim exE conjE) (simp add: chars_of_chars list_all_iff)

lemma on_line_Nil [simp]: "on_line []"
  by (simp add: on_line_def exI[of _ "[]"])

lemma on_line_append [intro]:
  assumes "on_line s" "on_line t"
  shows "on_line (s @ t)"
proof -
  from assms obtain cs ds where "s = of_chars cs" "t = of_chars ds"
    "list_all (\<lambda>c. scalar c \<and> \<not> spoils c) (cs @ ds)"
    by (auto simp: on_line_def)
  then have "s @ t = of_chars (cs @ ds) \<and> list_all (\<lambda>c. scalar c \<and> \<not> spoils c) (cs @ ds)" by simp
  then show ?thesis unfolding on_line_def by blast
qed

lemma on_line_concat: "list_all on_line ss \<Longrightarrow> on_line (concat ss)"
  by (induction ss) (simp_all add: on_line_append)

lemma on_line_char: "scalar c \<Longrightarrow> \<not> spoils c \<Longrightarrow> on_line (utf8_of c)"
  by (auto simp: on_line_def intro!: exI[of _ "[c]"])

lemma ascii_visible: "0x20 \<le> c \<Longrightarrow> c < 0x7F \<Longrightarrow> \<not> spoils c"
  by (simp add: spoils_def is_control_def invisible_def line_separator_def)

lemma on_line_ascii: "ascii s \<Longrightarrow> on_line s"
proof -
  assume s: "ascii s"
  with of_chars_ascii have "s = of_chars (map of_char s) \<and> list_all scalar (map of_char s)" by simp
  moreover have "list_all (\<lambda>c. \<not> spoils c) (map of_char s)"
    using s by (auto simp: ascii_def list_all_iff ascii_visible)
  ultimately show "on_line s"
    unfolding on_line_def by (intro exI[of _ "map of_char s"]) (simp add: list_all_iff)
qed

lemma replacement: "scalar 0xFFFD" "\<not> spoils 0xFFFD"
  by (simp_all add: scalar_def spoils_def is_control_def invisible_def line_separator_def)

lemma on_line_spelled_char: "scalar c \<Longrightarrow> on_line (spelled_char c)"
proof -
  assume c: "scalar c"
  consider "c \<in> {0x0A, 0x09, 0x5C, 0x2028, 0x2029}" | "c \<notin> {0x0A, 0x09, 0x5C, 0x2028, 0x2029}" by blast
  then show ?thesis
  proof cases
    case 1
    then have "ascii (spelled_char c)"
      by (auto simp: spelled_char_def line_separator_def escape_unicode_def hex_lower_def ascii_def)
    then show ?thesis by (rule on_line_ascii)
  next
    case 2
    then show ?thesis
      using c on_line_char[of c] on_line_char[OF replacement]
      by (auto simp: spelled_char_def spoils_def line_separator_def)
  qed
qed

lemma on_line_spelled: "on_line (spelled s)"
  using chars_scalar[of s]
  by (auto simp: spelled_def push_spelled_def list_all_iff on_line_spelled_char intro!: on_line_concat)

lemma on_line_printable: "on_line (printable s)"
proof -
  have "on_line (utf8_of 0x2026)"
    by (rule on_line_char) (simp_all add: scalar_def spoils_def is_control_def invisible_def line_separator_def)
  then show ?thesis by (auto simp: printable_def Let_def on_line_spelled)
qed

lemma replaced_spoils: "replaced c = (if spoils c then 0xFFFD else c)"
  by (simp add: replaced_def spoils_def)

lemma on_line_stripped: "on_line (stripped s)"
proof -
  have "list_all (\<lambda>c. scalar c \<and> \<not> spoils c) (map replaced (chars s))"
    using chars_scalar[of s] by (auto simp: list_all_iff replaced_spoils replacement)
  then show ?thesis unfolding on_line_def stripped_def by blast
qed

lemma stripped_on_line: "on_line s \<Longrightarrow> stripped s = s"
  unfolding on_line_def stripped_def
  by (elim exE conjE) (simp add: chars_of_chars list_all_iff replaced_spoils map_idI)

text \<open>
  What an operator reads decides the text, where nothing had to be replaced: spelling is a prefix code
  on line breaks, tabs, backslashes and what stands for itself.
\<close>

definition speakable :: "nat \<Rightarrow> bool" where
  "speakable c \<longleftrightarrow> scalar c \<and> (spoils c \<longrightarrow> c \<in> {0x0A, 0x09, 0x2028, 0x2029})"

lemma chars_backslash: "chars (backslash # s) = 0x5C # chars s"
proof -
  have "utf8_of 0x5C = [backslash]" "scalar 0x5C" by code_simp+
  with chars_utf8_of[of "0x5C" s] show ?thesis by simp
qed

lemma spelled_char_cases:
  assumes "speakable c"
  obtains r where "c \<in> {0x0A, 0x09, 0x5C, 0x2028, 0x2029}" "spelled_char c = backslash # r"
  | "c \<notin> {0x0A, 0x09, 0x5C, 0x2028, 0x2029}" "spelled_char c = utf8_of c" "scalar c"
proof (cases "c \<in> {0x0A, 0x09, 0x5C, 0x2028, 0x2029}")
  case True
  then have "\<exists>r. spelled_char c = backslash # r"
    by (auto simp: spelled_char_def line_separator_def escape_unicode_def)
  with True that(1) show ?thesis by blast
next
  case False
  with assms have "spelled_char c = utf8_of c" "scalar c"
    by (auto simp: speakable_def spelled_char_def spoils_def line_separator_def)
  with False that(2) show ?thesis by blast
qed

lemma spelled_char_prefix_free:
  assumes "speakable c" "speakable d" "spelled_char c @ s = spelled_char d @ t"
  shows "c = d \<and> s = t"
proof -
  have "c = d"
  proof (rule spelled_char_cases[OF assms(1)]; rule spelled_char_cases[OF assms(2)])
    fix q r
    assume "c \<in> {0x0A, 0x09, 0x5C, 0x2028, 0x2029}" "d \<in> {0x0A, 0x09, 0x5C, 0x2028, 0x2029}"
    with assms(3) show "c = d"
      by (auto simp: spelled_char_def line_separator_def escape_unicode_def hex_lower_def)
  next
    fix r
    assume "spelled_char c = backslash # r" and d: "d \<notin> {0x0A, 0x09, 0x5C, 0x2028, 0x2029}" "spelled_char d = utf8_of d" "scalar d"
    then have "chars (spelled_char c @ s) = 0x5C # chars (r @ s)" "chars (spelled_char d @ t) = d # chars t"
      by (simp_all add: chars_backslash)
    with assms(3) d(1) show "c = d" by simp
  next
    fix r
    assume c: "c \<notin> {0x0A, 0x09, 0x5C, 0x2028, 0x2029}" "spelled_char c = utf8_of c" "scalar c" and "spelled_char d = backslash # r"
    then have "chars (spelled_char d @ t) = 0x5C # chars (r @ t)" "chars (spelled_char c @ s) = c # chars s"
      by (simp_all add: chars_backslash)
    with assms(3) c(1) show "c = d" by simp
  next
    assume "spelled_char c = utf8_of c" "scalar c" "spelled_char d = utf8_of d" "scalar d"
    then have "chars (spelled_char c @ s) = c # chars s" "chars (spelled_char d @ t) = d # chars t" by simp_all
    with assms(3) show "c = d" by simp
  qed
  with assms(3) show ?thesis by simp
qed

lemma spelled_char_nonempty: "speakable c \<Longrightarrow> spelled_char c \<noteq> []"
  by (rule spelled_char_cases[of c]) (auto simp: utf8_of_def utf8_bytes_def split: if_splits)

lemma spelling_inject:
  "list_all speakable cs \<Longrightarrow> list_all speakable ds
    \<Longrightarrow> concat (map spelled_char cs) = concat (map spelled_char ds) \<Longrightarrow> cs = ds"
proof (induction cs arbitrary: ds)
  case Nil
  then show ?case by (cases ds) (auto simp: spelled_char_nonempty)
next
  case (Cons c cs)
  then obtain d ds' where "ds = d # ds'" by (cases ds) (auto simp: spelled_char_nonempty)
  with Cons.prems spelled_char_prefix_free[of c d "concat (map spelled_char cs)" "concat (map spelled_char ds')"]
  have "c = d" "concat (map spelled_char cs) = concat (map spelled_char ds')" "list_all speakable cs" "list_all speakable ds'"
    by simp_all
  with Cons.IH[of ds'] \<open>ds = d # ds'\<close> show ?case by simp
qed

end
