(* ===== verification/Gate.thy ===== *)
theory Gate
  imports Turn_Keeps Terminal_Text
begin

text \<open>
  The gate \<open>agent-run\<close> drives (\<open>agent_gate.rs\<close>): argv decides, an operator may narrow it, and every
  call is reported once on a line of its own. A JSON value is seen through \<open>json_view\<close>, the
  operator trait is a record of its two methods over the world, and how a duration prints is an
  argument.
\<close>

section \<open>What argv approves (agent_gate.rs)\<close>

definition ALLOW_TOOL :: string where "ALLOW_TOOL = ''--allow-tool''"

definition approves :: "builtin_tool list option \<Rightarrow> builtin_tool \<Rightarrow> bool" where
  "approves allowed t =
     (if tool_risk t = ReadOnly then True
      else case allowed of None \<Rightarrow> False | Some [] \<Rightarrow> True | Some named \<Rightarrow> t \<in> set named)"

lemma approves_named:
  "approves allowed t \<longleftrightarrow>
     tool_risk t = ReadOnly \<or> (\<exists>named. allowed = Some named \<and> (named = [] \<or> t \<in> set named))"
  by (auto simp: approves_def split: option.split list.split)

definition approved_tools :: "builtin_tool list option \<Rightarrow> string list" where
  "approved_tools allowed = map tool_name (filter (approves allowed) all_tools)"

definition approved_line :: "builtin_tool list option \<Rightarrow> string" where
  "approved_line allowed = ''sandbx: tools approved: '' @ join_with '', '' (approved_tools allowed)"

definition asks_about_anything :: "builtin_tool list option \<Rightarrow> bool" where
  "asks_about_anything allowed = list_ex (\<lambda>t. tool_risk t \<noteq> ReadOnly \<and> approves allowed t) all_tools"

definition tool_flag :: "string \<Rightarrow> string + builtin_tool" where
  "tool_flag s =
     (case from_name s of
        Some t \<Rightarrow> Inr t
      | None \<Rightarrow>
          Inl (''no tool is called `'' @ s @ ''`; the tools needing approval are ''
            @ join_with '', '' (map tool_name (filter (\<lambda>t. tool_risk t \<noteq> ReadOnly) all_tools))))"

section \<open>The account of a call (agent_gate.rs)\<close>

record 'v json_view =
  jv_get :: "'v \<Rightarrow> string \<Rightarrow> 'v option"
  jv_str :: "'v \<Rightarrow> string option"
  jv_text :: "'v \<Rightarrow> string"

definition subject_of :: "'v json_view \<Rightarrow> builtin_tool \<Rightarrow> 'v \<Rightarrow> string option" where
  "subject_of J t input =
     (let key = (if t = ToolBash then ''command'' else ''path'')
      in case jv_get J input key of
           None \<Rightarrow> None
         | Some found \<Rightarrow>
             Some (printable (case jv_str J found of Some s \<Rightarrow> s | None \<Rightarrow> jv_text J found)))"

definition describe :: "'v json_view \<Rightarrow> builtin_tool \<Rightarrow> 'v \<Rightarrow> string" where
  "describe J t input =
     (case subject_of J t input of Some subject \<Rightarrow> tool_name t @ '' '' @ subject | None \<Rightarrow> tool_name t)"

definition report_call :: "'v json_view \<Rightarrow> (nat \<Rightarrow> string) \<Rightarrow> 'v settled_call \<Rightarrow> string" where
  "report_call J dur c =
     (let head = (case sc_tool c of Some t \<Rightarrow> describe J t (sc_input c) | None \<Rightarrow> printable (sc_name c))
      in head @ '' '' @ em_dash @ '' '' @
         (case sc_outcome c of
            OcRan \<Rightarrow> ''ran''
          | OcUnknown \<Rightarrow> ''no tool answers to that name''
          | OcNotOffered \<Rightarrow> ''not offered this turn''
          | OcDenied reason \<Rightarrow> ''refused: '' @ printable reason
          | OcErrored (Denied _ reason) \<Rightarrow> ''refused by the policy: '' @ printable reason
          | OcErrored (BadInput detail) \<Rightarrow> ''bad arguments: '' @ printable detail
          | OcErrored (ToolFailed _ detail) \<Rightarrow> ''failed: '' @ printable detail
          | OcErrored (TimedOut _ after) \<Rightarrow> ''timed out after '' @ dur after @ '' and was killed''))"

definition gate_line :: "'v json_view \<Rightarrow> (nat \<Rightarrow> string) \<Rightarrow> 'v settled_call \<Rightarrow> string" where
  "gate_line J dur c = ''sandbx: '' @ stripped (report_call J dur c)"

section \<open>Where an account goes (agent_prompt.rs)\<close>

datatype sink = SinkTerminal | SinkRedirected

definition RESET :: string where "RESET = [CHR 0x1B, CHR ''['', CHR ''0'', CHR ''m'']"

definition account :: "sink \<Rightarrow> string \<Rightarrow> string" where
  "account s line = (case s of SinkTerminal \<Rightarrow> RESET | SinkRedirected \<Rightarrow> []) @ line @ [nl]"

text \<open>Standard error: what it is, and a write whose failure is dropped.\<close>

record 'w err_stream =
  er_device :: sink
  er_write :: "string \<Rightarrow> 'w \<Rightarrow> 'w"

definition to_stderr :: "'w err_stream \<Rightarrow> string \<Rightarrow> 'w \<Rightarrow> 'w" where
  "to_stderr err line = er_write err (account (er_device err) line)"

record ('w, 'v) operator =
  op_ask :: "builtin_tool \<Rightarrow> 'v \<Rightarrow> 'w \<Rightarrow> approval_decision \<times> 'w"
  op_report :: "string \<Rightarrow> 'w \<Rightarrow> 'w"

section \<open>The gate (agent_gate.rs)\<close>

record ('w, 'v) argv_gate =
  ag_allowed :: "builtin_tool list option"
  ag_terminal :: "('w, 'v) operator option"

definition gate_approve ::
  "('w, 'v) argv_gate \<Rightarrow> builtin_tool \<Rightarrow> 'v \<Rightarrow> 'w \<Rightarrow> approval_decision \<times> 'w" where
  "gate_approve g t input w =
     (if \<not> approves (ag_allowed g) t
      then (Deny (''the `'' @ tool_name t @ ''` tool is not approved for this run: it runs only when sandbx is started with `''
              @ ALLOW_TOOL @ '' '' @ tool_name t @ ''`''), w)
      else if tool_risk t = ReadOnly then (Allow, w)
      else case ag_terminal g of Some operator \<Rightarrow> op_ask operator t input w | None \<Rightarrow> (Allow, w))"

definition gate_settled ::
  "'v json_view \<Rightarrow> (nat \<Rightarrow> string) \<Rightarrow> 'w err_stream \<Rightarrow> ('w, 'v) argv_gate \<Rightarrow> 'v settled_call \<Rightarrow> 'w \<Rightarrow> 'w" where
  "gate_settled J dur err g c =
     (let line = gate_line J dur c
      in case ag_terminal g of Some operator \<Rightarrow> op_report operator line | None \<Rightarrow> to_stderr err line)"

text \<open>The free function of the same name, which the wrap-up round reports through.\<close>

definition settled_to_stderr ::
  "'v json_view \<Rightarrow> (nat \<Rightarrow> string) \<Rightarrow> 'w err_stream \<Rightarrow> 'v settled_call \<Rightarrow> 'w \<Rightarrow> 'w" where
  "settled_to_stderr J dur err c = to_stderr err (gate_line J dur c)"

section \<open>What an operator reads\<close>

lemma on_line_em_dash: "on_line em_dash"
  unfolding em_dash_def
  by (rule on_line_char) (simp_all add: scalar_def spoils_def is_control_def invisible_def line_separator_def)

lemma ascii_tool_name: "ascii (tool_name t)"
  by (cases t) (simp_all add: tool_name_def ascii_def)

lemma subject_printable: "subject_of J t input = Some s \<Longrightarrow> \<exists>x. s = printable x"
  by (auto simp: subject_of_def Let_def split: option.splits)

lemma on_line_describe: "on_line (describe J t input)"
proof -
  have "ascii (tool_name t @ '' '')" using ascii_tool_name[of t] by (simp add: ascii_def)
  from on_line_append[OF on_line_ascii[OF this] on_line_printable]
  have "on_line (tool_name t @ '' '' @ printable s)" for s by simp
  then show ?thesis
    using on_line_ascii[OF ascii_tool_name[of t]] subject_printable[of J t input]
    by (cases "subject_of J t input") (auto simp: describe_def)
qed

lemma on_line_gate_line: "on_line (gate_line J dur c)"
proof -
  have "on_line ''sandbx: ''" by (rule on_line_ascii) (simp add: ascii_def)
  then show ?thesis unfolding gate_line_def by (rule on_line_append[OF _ on_line_stripped])
qed


section \<open>The gate under a turn\<close>

definition gated ::
  "'v json_view \<Rightarrow> (nat \<Rightarrow> string) \<Rightarrow> 'w err_stream \<Rightarrow> ('w, 'v) argv_gate \<Rightarrow> ('w, 'v) turn_env \<Rightarrow> ('w, 'v) turn_env" where
  "gated J dur err g env =
     env\<lparr>te_approve := (\<lambda>t _ input. gate_approve g t input), te_settled := gate_settled J dur err g\<rparr>"

text \<open>What stands behind an approval: argv, and the operator where there is one to ask.\<close>

definition consented :: "('w, 'v) argv_gate \<Rightarrow> builtin_tool \<Rightarrow> 'v \<Rightarrow> bool" where
  "consented g t input \<longleftrightarrow> approves (ag_allowed g) t
     \<and> (tool_risk t = ReadOnly \<or> (\<forall>operator. ag_terminal g = Some operator \<longrightarrow> (\<exists>w. fst (op_ask operator t input w) = Allow)))"

definition only_consented :: "('w, 'v) argv_gate \<Rightarrow> 'w \<times> 'v call_event list \<Rightarrow> bool" where
  "only_consented g wl \<longleftrightarrow> (\<forall>t input. Asked t input Allow \<in> set (snd wl) \<longrightarrow> consented g t input)"

lemma gate_approve_consented: "gate_approve g t input w = (Allow, w') \<Longrightarrow> consented g t input"
  by (auto simp: gate_approve_def consented_def split: if_splits option.splits) (metis fst_conv)

lemma gate_approve_keeps: "keeps (only_consented g) (te_approve (logged (gated J dur err g env)) t i input)"
  using gate_approve_consented[of g]
  by (auto simp: keeps_def gated_def only_consented_def split: prod.splits)

interpretation gate_turn: turn_keeps "logged (gated J dur err g env)" "only_consented g" for J dur err g env
proof
  show "keeps (only_consented g) (te_approve (logged (gated J dur err g env)) t i v)" for t i v
    by (rule gate_approve_keeps)
qed (auto simp: keeps_def only_consented_def gated_def split: prod.splits)


definition demo_json :: "string json_view" where
  "demo_json = \<lparr>jv_get = (\<lambda>v _. Some v), jv_str = Some, jv_text = id\<rparr>"

definition demo_gate :: "(string agent_event list list, string) argv_gate" where
  "demo_gate = \<lparr>ag_allowed = Some [ToolBash],
     ag_terminal = Some \<lparr>op_ask = (\<lambda>_ _ w. (Allow, w)), op_report = (\<lambda>_ w. w)\<rparr>\<rparr>"

definition demo_gated :: "(string agent_event list list \<times> string call_event list, string) turn_env" where
  "demo_gated = logged (gated demo_json (\<lambda>_. []) \<lparr>er_device = SinkTerminal, er_write = (\<lambda>_ w. w)\<rparr> demo_gate demo_turn_env)"

lemma demo_gated_log: "\<exists>r w l ys. run_turn_until demo_gated demo_turn (demo_rounds, []) = (r, (w, l))
    \<and> l = take 2 l @ Executed ToolBash ''x'' # ys"
proof -
  let ?l = "snd (snd (run_turn_until demo_gated demo_turn (demo_rounds, [])))"
  have silent: "gated J dur err demo_gate demo_turn_env = demo_turn_env\<lparr>te_approve := (\<lambda>t _. gate_approve demo_gate t)\<rparr>"
    for J dur err
    by (simp add: gated_def gate_settled_def[abs_def] demo_gate_def demo_turn_env_def Let_def)
  have "length ?l = 5 \<and> ?l ! 2 = Executed ToolBash ''x''" unfolding demo_gated_def silent by code_simp
  then have "?l = take 2 ?l @ Executed ToolBash ''x'' # drop 3 ?l"
    using id_take_nth_drop[of 2 ?l] by auto
  then show ?thesis by (metis prod.collapse)
qed


end
