(* ===== verification/Consent.thy ===== *)
theory Consent
  imports Gate
begin

text \<open>
  The question an operator answers before one call runs (\<open>agent_prompt.rs\<close>): the terminal it is asked
  on, with the bytes its reader holds, the tools already consented to, and the loop that asks again
  until an answer is one. Reading a line and asking may go on for ever, so both are partial.
\<close>

section \<open>The terminal (agent_prompt.rs)\<close>

datatype approve_when = ApproveRun | ApproveCall

definition APPROVE_CALL :: string where "APPROVE_CALL = ''--approve call''"

definition REFUSED :: string where
  "REFUSED = ''the operator refused this call; no flag lifts a refusal, though a later call may still be approved''"

definition CLOSED :: string where
  "CLOSED = ''the operator's terminal is closed, so no call can be approved''"

definition UNCLEARED :: string where
  "UNCLEARED = ''the operator's terminal could not be cleared to ask on, so no call can be approved''"

text \<open>
  The device: \<open>tcflush\<close> of its input queue, a write with its flush, and one read, an empty one being the
  end of input. A read interrupted by a signal is one the library made again.
\<close>

record 'w tty =
  tt_flush :: "'w \<Rightarrow> bool \<times> 'w"
  tt_write :: "string \<Rightarrow> 'w \<Rightarrow> bool \<times> 'w"
  tt_read :: "('w, io_error, string) io"

record terminal =
  tm_buffer :: string
  tm_blanket :: "builtin_tool list"

text \<open>\<open>read_until\<close> a newline over what is buffered and then what each read brings.\<close>

partial_function (option) read_until ::
  "'w tty \<Rightarrow> string \<Rightarrow> string \<Rightarrow> 'w \<Rightarrow> ((io_error + string) \<times> string \<times> 'w) option" where
  "read_until os got buffered w =
     (case split_once nl buffered of
        Some (line, rest) \<Rightarrow> Some (Inr (got @ line @ [nl]), rest, w)
      | None \<Rightarrow>
          (case tt_read os w of
             (Inl e, w1) \<Rightarrow> Some (Inl e, [], w1)
           | (Inr bytes, w1) \<Rightarrow>
               if bytes = [] then Some (Inr (got @ buffered), [], w1)
               else read_until os (got @ buffered) bytes w1))"

definition read_line ::
  "'w tty \<Rightarrow> string \<Rightarrow> 'w \<Rightarrow> ((io_error + string) \<times> string \<times> 'w) option" where
  "read_line os buffered w =
     map_option (\<lambda>(r, rest, w1).
         (case r of Inl e \<Rightarrow> Inl e | Inr line \<Rightarrow> if utf8_valid line then Inr line else Inl IoInvalidData, rest, w1))
       (read_until os [] buffered w)"

definition verb :: "builtin_tool \<Rightarrow> string" where
  "verb t = (case tool_risk t of
     ReadOnly \<Rightarrow> ''reads'' | Writes \<Rightarrow> ''writes a file'' | Executes \<Rightarrow> ''runs a program'')"

definition question :: "'v json_view \<Rightarrow> builtin_tool \<Rightarrow> 'v \<Rightarrow> string" where
  "question J t input =
     [nl] @ ''sandbx: '' @ describe J t input @ [nl] @ ''sandbx: this call '' @ verb t
       @ ''. allow it? [y]es / [n]o / [a]ll `'' @ tool_name t @ ''` calls > ''"

partial_function (option) ask_loop ::
  "'v json_view \<Rightarrow> 'w tty \<Rightarrow> builtin_tool \<Rightarrow> 'v \<Rightarrow> terminal \<Rightarrow> 'w
     \<Rightarrow> (approval_decision \<times> terminal \<times> 'w) option" where
  "ask_loop J os t input tm w =
     (case tt_write os (question J t input) w of (asked, w1) \<Rightarrow>
        if \<not> asked then Some (Abort CLOSED, tm, w1)
        else Option.bind (read_line os (tm_buffer tm) w1) (\<lambda>(r, rest, w2).
          let tm = tm\<lparr>tm_buffer := rest\<rparr>
          in case r of
               Inl e \<Rightarrow> if e = IoInvalidData then ask_loop J os t input tm w2 else Some (Abort CLOSED, tm, w2)
             | Inr answer \<Rightarrow>
                 if answer = [] then Some (Abort CLOSED, tm, w2)
                 else (let said = trim answer
                   in if said \<in> {''y'', ''yes''} then Some (Allow, tm, w2)
                      else if said \<in> {''n'', ''no''} then Some (Deny REFUSED, tm, w2)
                      else if said \<in> {''a'', ''all''} then Some (Allow, tm\<lparr>tm_blanket := tm_blanket tm @ [t]\<rparr>, w2)
                      else ask_loop J os t input tm w2)))"

declare read_until.simps [code] ask_loop.simps [code]

definition consent_ask ::
  "'v json_view \<Rightarrow> 'w tty \<Rightarrow> builtin_tool \<Rightarrow> 'v \<Rightarrow> terminal \<Rightarrow> 'w
     \<Rightarrow> (approval_decision \<times> terminal \<times> 'w) option" where
  "consent_ask J os t input tm w =
     (if t \<in> set (tm_blanket tm) then Some (Allow, tm, w) else ask_loop J os t input tm w)"

text \<open>\<open>discard_typeahead\<close>: the kernel's queue first, and the reader's bytes only once that went.\<close>

definition discard_typeahead :: "'w tty \<Rightarrow> terminal \<Rightarrow> 'w \<Rightarrow> bool \<times> terminal \<times> 'w" where
  "discard_typeahead os tm w =
     (case tt_flush os w of (ok, w1) \<Rightarrow> (ok, if ok then tm\<lparr>tm_buffer := []\<rparr> else tm, w1))"

definition terminal_ask ::
  "'v json_view \<Rightarrow> 'w tty \<Rightarrow> builtin_tool \<Rightarrow> 'v \<Rightarrow> terminal \<Rightarrow> 'w
     \<Rightarrow> (approval_decision \<times> terminal \<times> 'w) option" where
  "terminal_ask J os t input tm w =
     (case discard_typeahead os tm w of (cleared, tm1, w1) \<Rightarrow>
        if \<not> cleared then Some (Abort UNCLEARED, tm1, w1)
        else (case tt_write os RESET w1 of (_, w2) \<Rightarrow> consent_ask J os t input tm1 w2))"

definition terminal_report :: "'w tty \<Rightarrow> 'w err_stream \<Rightarrow> string \<Rightarrow> 'w \<Rightarrow> 'w" where
  "terminal_report os fallback line w =
     (case tt_write os (account SinkTerminal line) w of (ok, w1) \<Rightarrow>
        if ok then w1 else to_stderr fallback line w1)"


section \<open>The exchange, as the device sees it\<close>

datatype tty_event = TyFlush bool | TyWrite string bool | TyRead "io_error + string"

definition watched_tty :: "'w tty \<Rightarrow> ('w \<times> tty_event list) tty" where
  "watched_tty os = \<lparr>
     tt_flush = noting TyFlush (tt_flush os),
     tt_write = (\<lambda>s. noting (TyWrite s) (tt_write os s)),
     tt_read = noting TyRead (tt_read os)\<rparr>"

lemma watched_tty_simps [simp]:
  "tt_flush (watched_tty os) (w, l) = (case tt_flush os w of (r, w') \<Rightarrow> (r, (w', l @ [TyFlush r])))"
  "tt_write (watched_tty os) s (w, l) = (case tt_write os s w of (r, w') \<Rightarrow> (r, (w', l @ [TyWrite s r])))"
  "tt_read (watched_tty os) (w, l) = (case tt_read os w of (r, w') \<Rightarrow> (r, (w', l @ [TyRead r])))"
  by (simp_all add: watched_tty_def noting_def)

text \<open>What the operator typed, and whether only that was asked of the device.\<close>

fun typed :: "tty_event list \<Rightarrow> string" where
  "typed [] = []"
| "typed (TyRead (Inr bytes) # es) = bytes @ typed es"
| "typed (_ # es) = typed es"

fun is_read :: "tty_event \<Rightarrow> bool" where
  "is_read (TyRead _) = True"
| "is_read _ = False"

lemma typed_append [simp]: "typed (es @ fs) = typed es @ typed fs"
  by (induction es rule: typed.induct) simp_all

definition read_log ::
  "string \<Rightarrow> tty_event list \<Rightarrow> io_error + string \<Rightarrow> string \<Rightarrow> bool" where
  "read_log held es r rest \<longleftrightarrow>
     list_all is_read es \<and> (\<exists>line. held @ typed es = line @ rest \<and> (\<forall>x. r = Inr x \<longrightarrow> x = line))"

lemma read_until_log:
  assumes "read_until (watched_tty os) got buffered (w, l) = Some (r, rest, (w', l'))"
  shows "\<exists>es. l' = l @ es \<and> read_log (got @ buffered) es r rest"
proof -
  let ?P = "\<lambda>os' got buffered wl y. \<forall>os. os' = watched_tty os \<longrightarrow>
    (\<exists>es. snd (snd (snd y)) = snd wl @ es \<and> read_log (got @ buffered) es (fst y) (fst (snd y)))"
  have "?P os' got buffered wl y" if "read_until os' got buffered wl = Some y" for os' got buffered wl y
  proof (rule read_until.raw_induct[where P = ?P, OF _ that], goal_cases)
    case (1 rec os' got buffered wl y)
    show ?case
    proof (intro allI impI)
      fix os assume os': "os' = watched_tty os"
      obtain w l where wl: "wl = (w, l)" by force
      obtain r w1 where read: "tt_read os w = (r, w1)" by force
      show "\<exists>es. snd (snd (snd y)) = snd wl @ es \<and> read_log (got @ buffered) es (fst y) (fst (snd y))"
      proof (cases "split_once nl buffered")
        case (Some p)
        then obtain line rest where "split_once nl buffered = Some (line, rest)" by (cases p) auto
        with 1(2) wl show ?thesis by (auto simp: read_log_def split_once_Some_iff)
      next
        case None
        show ?thesis
        proof (cases "\<exists>bytes. r = Inr bytes \<and> bytes \<noteq> []")
          case True
          then obtain bytes where bytes: "r = Inr bytes" "bytes \<noteq> []" by blast
          with 1(2) os' wl read None have "rec (watched_tty os) (got @ buffered) bytes (w1, l @ [TyRead r]) = Some y"
            by simp
          from 1(1)[OF this, rule_format, OF refl] obtain es where
            "snd (snd (snd y)) = (l @ [TyRead r]) @ es" "read_log ((got @ buffered) @ bytes) es (fst y) (fst (snd y))"
            by auto
          with bytes wl show ?thesis
            by (intro exI[of _ "TyRead r # es"]) (simp add: read_log_def)
        next
          case False
          with 1(2) os' wl read None show ?thesis
            by (cases r) (auto simp: read_log_def)
        qed
      qed
    qed
  qed
  from this[OF assms, rule_format, OF refl] show ?thesis by simp
qed

lemma read_line_log:
  assumes "read_line (watched_tty os) buffered (w, l) = Some (r, rest, (w', l'))"
  shows "\<exists>es. l' = l @ es \<and> read_log buffered es r rest"
proof -
  from assms obtain r0 where run: "read_until (watched_tty os) [] buffered (w, l) = Some (r0, rest, (w', l'))"
    and r: "r = (case r0 of Inl e \<Rightarrow> Inl e | Inr line \<Rightarrow> if utf8_valid line then Inr line else Inl IoInvalidData)"
    by (auto simp: read_line_def)
  from read_until_log[OF run] obtain es where "l' = l @ es" "read_log buffered es r0 rest" by auto
  with r show ?thesis
    unfolding read_log_def by (intro exI[of _ es]) (auto split: sum.splits if_splits)
qed

text \<open>
  One exchange: the question is put first and nothing else ever is, and the verdict is what the last
  whole line says that was taken off what the reader held and what was typed since.
\<close>

definition answered_by :: "string \<Rightarrow> approval_decision \<Rightarrow> bool" where
  "answered_by line d =
     (case d of
        Allow \<Rightarrow> trim line \<in> {''y'', ''yes'', ''a'', ''all''}
      | Deny reason \<Rightarrow> reason = REFUSED \<and> trim line \<in> {''n'', ''no''}
      | Abort reason \<Rightarrow> reason = CLOSED)"

definition asked_over ::
  "'v json_view \<Rightarrow> builtin_tool \<Rightarrow> 'v \<Rightarrow> terminal \<Rightarrow> tty_event list \<Rightarrow> approval_decision \<Rightarrow> terminal \<Rightarrow> bool" where
  "asked_over J t input tm es d tm' \<longleftrightarrow>
     (\<exists>ok later. es = TyWrite (question J t input) ok # later)
     \<and> list_all (\<lambda>e. is_read e \<or> (\<exists>ok. e = TyWrite (question J t input) ok)) es
     \<and> (\<exists>before line. tm_buffer tm @ typed es = before @ line @ tm_buffer tm' \<and> answered_by line d
          \<and> tm_blanket tm' = tm_blanket tm @ (if d = Allow \<and> trim line \<in> {''a'', ''all''} then [t] else []))"

lemma asked_over_once:
  assumes "list_all is_read es" "tm_buffer tm @ typed es = line @ tm_buffer tm'" "answered_by line d"
    and "tm_blanket tm' = tm_blanket tm @ (if d = Allow \<and> trim line \<in> {''a'', ''all''} then [t] else [])"
  shows "asked_over J t input tm (TyWrite (question J t input) ok # es) d tm'"
proof -
  from assms(2-4) have "\<exists>before line. tm_buffer tm @ typed es = before @ line @ tm_buffer tm' \<and> answered_by line d
      \<and> tm_blanket tm' = tm_blanket tm @ (if d = Allow \<and> trim line \<in> {''a'', ''all''} then [t] else [])"
    by - (rule exI[of _ "[]"], rule exI[of _ line], simp)
  moreover have "list_all (\<lambda>e. is_read e \<or> (\<exists>ok. e = TyWrite (question J t input) ok)) es"
    using assms(1) by (rule list.pred_mono_strong) simp
  ultimately show ?thesis unfolding asked_over_def by simp
qed

lemma asked_over_again:
  assumes "list_all is_read es" "tm_buffer tm @ typed es = line @ rest"
    and "asked_over J t input (tm\<lparr>tm_buffer := rest\<rparr>) fs d tm'"
  shows "asked_over J t input tm (TyWrite (question J t input) ok # es @ fs) d tm'"
proof -
  from assms(3) obtain before last where "rest @ typed fs = before @ last @ tm_buffer tm'" "answered_by last d"
    "tm_blanket tm' = tm_blanket tm @ (if d = Allow \<and> trim last \<in> {''a'', ''all''} then [t] else [])"
    by (auto simp: asked_over_def)
  moreover from this(1) assms(2) have "tm_buffer tm @ typed (es @ fs) = (line @ before) @ last @ tm_buffer tm'"
    by simp (metis append_assoc)
  ultimately have "\<exists>before line. tm_buffer tm @ typed (TyWrite (question J t input) ok # es @ fs) = before @ line @ tm_buffer tm'
      \<and> answered_by line d \<and> tm_blanket tm' = tm_blanket tm @ (if d = Allow \<and> trim line \<in> {''a'', ''all''} then [t] else [])"
    by - (rule exI[of _ "line @ before"], rule exI[of _ last], simp)
  moreover have "list_all (\<lambda>e. is_read e \<or> (\<exists>ok. e = TyWrite (question J t input) ok)) es"
    using assms(1) by (rule list.pred_mono_strong) simp
  ultimately show ?thesis using assms(3) unfolding asked_over_def by simp
qed

lemma ask_loop_log:
  assumes "ask_loop J (watched_tty os) t input tm (w, l) = Some (d, tm', (w', l'))"
  shows "\<exists>es. l' = l @ es \<and> asked_over J t input tm es d tm'"
proof -
  let ?P = "\<lambda>J os' t input tm wl y. \<forall>os. os' = watched_tty os \<longrightarrow>
    (\<exists>es. snd (snd (snd y)) = snd wl @ es \<and> asked_over J t input tm es (fst y) (fst (snd y)))"
  have "?P J os' t input tm wl y" if "ask_loop J os' t input tm wl = Some y" for J :: "'b json_view" and os' t input tm wl y
  proof (rule ask_loop.raw_induct[where P = ?P, OF _ that], goal_cases)
    case (1 rec J os' t input tm wl y)
    show ?case
    proof (intro allI impI)
      fix os assume os': "os' = watched_tty os"
      obtain w l where wl: "wl = (w, l)" by force
      obtain asked w1 where put: "tt_write os (question J t input) w = (asked, w1)" by force
      let ?q = "TyWrite (question J t input) asked"
      show "\<exists>es. snd (snd (snd y)) = snd wl @ es \<and> asked_over J t input tm es (fst y) (fst (snd y))"
      proof (cases asked)
        case False
        with 1(2) os' wl put have "y = (Abort CLOSED, tm, (w1, l @ [?q]))" by simp
        moreover have "asked_over J t input tm [?q] (Abort CLOSED) tm"
          using asked_over_once[of "[]" tm "[]" tm "Abort CLOSED"] by (simp add: answered_by_def)
        ultimately show ?thesis using wl by (intro exI[of _ "[?q]"]) simp
      next
        case True
        with 1(2) os' wl put obtain r rest w2 l2 where
          line: "read_line (watched_tty os) (tm_buffer tm) (w1, l @ [?q]) = Some (r, rest, (w2, l2))"
          by (auto simp: bind_eq_Some_conv)
        from read_line_log[OF line] obtain es where es: "l2 = (l @ [?q]) @ es" "read_log (tm_buffer tm) es r rest" by blast
        let ?tm = "tm\<lparr>tm_buffer := rest\<rparr>"
        from es(2) obtain got where got: "list_all is_read es" "tm_buffer tm @ typed es = got @ rest"
          "\<And>x. r = Inr x \<Longrightarrow> x = got" by (auto simp: read_log_def)
        show ?thesis
        proof (cases "rec J (watched_tty os) t input ?tm (w2, l2) = Some y")
          case again: True
          from 1(1)[OF again, rule_format, OF refl] obtain fs where
            "snd (snd (snd y)) = l2 @ fs" "asked_over J t input ?tm fs (fst y) (fst (snd y))" by auto
          with asked_over_again[OF got(1,2)] es(1) wl show ?thesis
            by (intro exI[of _ "?q # es @ fs"]) simp
        next
          case False
          with 1(2) os' wl put True line have
            "snd (snd y) = (w2, l2) \<and> tm_buffer (fst (snd y)) = rest \<and> answered_by got (fst y) \<and>
             tm_blanket (fst (snd y)) = tm_blanket tm @ (if fst y = Allow \<and> trim got \<in> {''a'', ''all''} then [t] else [])"
            using got(3) by (auto simp: answered_by_def Let_def split: sum.splits if_splits)
          with asked_over_once[OF got(1)] got(2) es(1) wl show ?thesis
            by (intro exI[of _ "?q # es"]) auto
        qed
      qed
    qed
  qed
  from this[OF assms, rule_format, OF refl] show ?thesis by simp
qed


text \<open>A device that holds one early line, and gives one once it is cleared and asked.\<close>

definition demo_tty :: "string list tty" where
  "demo_tty = \<lparr>tt_flush = (\<lambda>w. (True, drop 1 w)), tt_write = (\<lambda>_ w. (True, w)),
     tt_read = (\<lambda>w. case w of [] \<Rightarrow> (Inr [], []) | s # w' \<Rightarrow> (Inr s, w'))\<rparr>"

definition demo_exchange :: "(approval_decision \<times> terminal \<times> string list \<times> tty_event list) option" where
  "demo_exchange = terminal_ask demo_json (watched_tty demo_tty) ToolBash ''ls''
     \<lparr>tm_buffer = ''yes'' @ [nl], tm_blanket = []\<rparr> ([''y'' @ [nl], ''what'' @ [nl], ''no'' @ [nl]], [])"

lemma demo_typed_line:
  assumes "nl \<notin> set s" "utf8_valid (s @ [nl])"
  shows "read_line (watched_tty demo_tty) [] ((s @ [nl]) # ws, l) = Some (Inr (s @ [nl]), [], (ws, l @ [TyRead (Inr (s @ [nl]))]))"
  using assms by (simp add: read_line_def demo_tty_def read_until.simps)

lemma demo_lines:
  "utf8_valid (''what'' @ [nl])" "utf8_valid (''no'' @ [nl])"
  "trim (''what'' @ [nl]) = ''what''" "trim (''no'' @ [nl]) = ''no''"
  by code_simp+

lemma demo_exchange_run: "\<exists>l'. demo_exchange = Some (Deny REFUSED, \<lparr>tm_buffer = [], tm_blanket = []\<rparr>, ([], l'))"
proof -
  let ?tm = "\<lparr>tm_buffer = [], tm_blanket = []\<rparr>"
  have put: "tt_write demo_tty s w = (True, w)" for s w by (simp add: demo_tty_def)
  have refuses: "\<exists>l'. ask_loop demo_json (watched_tty demo_tty) ToolBash ''ls'' ?tm ([''no'' @ [nl]], l)
      = Some (Deny REFUSED, ?tm, ([], l'))" for l
    using demo_typed_line[of "''no''" "[]"] demo_lines
    by (subst ask_loop.simps) (simp add: put)
  have again: "\<exists>l'. ask_loop demo_json (watched_tty demo_tty) ToolBash ''ls'' ?tm ([''what'' @ [nl], ''no'' @ [nl]], l)
      = Some (Deny REFUSED, ?tm, ([], l'))" for l
    using demo_typed_line[of "''what''" "[''no'' @ [nl]]"] demo_lines refuses
    by (subst ask_loop.simps) (simp add: put)
  show ?thesis
    using again unfolding demo_exchange_def terminal_ask_def discard_typeahead_def consent_ask_def
    by (simp add: put) (simp add: demo_tty_def)
qed


section \<open>Asking ends\<close>

text \<open>
  A device that runs out: every read that brings something, or text that is no UTF-8, leaves less to
  come, and writing brings nothing.
\<close>

definition runs_out :: "'w tty \<Rightarrow> ('w \<Rightarrow> nat) \<Rightarrow> bool" where
  "runs_out os left \<longleftrightarrow>
     (\<forall>w r w'. tt_read os w = (r, w') \<longrightarrow> left w' \<le> left w
        \<and> ((\<exists>b. r = Inr b \<and> b \<noteq> []) \<or> r = Inl IoInvalidData \<longrightarrow> left w' < left w))
     \<and> (\<forall>s w ok w'. tt_write os s w = (ok, w') \<longrightarrow> left w' \<le> left w)
     \<and> (\<forall>w ok w'. tt_flush os w = (ok, w') \<longrightarrow> left w' \<le> left w)"

lemma runs_outD:
  assumes "runs_out os left"
  shows "tt_read os w = (r, w') \<Longrightarrow> left w' \<le> left w"
    and "tt_read os w = (Inr b, w') \<Longrightarrow> b \<noteq> [] \<Longrightarrow> left w' < left w"
    and "tt_read os w = (Inl IoInvalidData, w') \<Longrightarrow> left w' < left w"
    and "tt_write os s w = (ok, w') \<Longrightarrow> left w' \<le> left w"
    and "tt_flush os w = (ok, w') \<Longrightarrow> left w' \<le> left w"
  using assms unfolding runs_out_def by blast+

lemma read_until_returns:
  assumes "runs_out os left"
  shows "\<exists>r rest w'. read_until os got buffered w = Some (r, rest, w') \<and> left w' \<le> left w
    \<and> (r = Inr [] \<or> (\<exists>e. r = Inl e \<and> e \<noteq> IoInvalidData) \<or> left w' < left w
       \<or> length rest < length buffered \<or> got \<noteq> [])"
proof (induction "left w" arbitrary: got buffered w rule: less_induct)
  case less
  show ?case
  proof (cases "split_once nl buffered")
    case (Some p)
    then obtain line rest where p: "split_once nl buffered = Some (line, rest)" by (cases p) auto
    then show ?thesis using split_once_length[OF p] by (subst read_until.simps) simp
  next
    case None
    obtain r w1 where read: "tt_read os w = (r, w1)" by force
    note bounds = runs_outD[OF assms]
    show ?thesis
    proof (cases "\<exists>bytes. r = Inr bytes \<and> bytes \<noteq> []")
      case True
      then obtain bytes where bytes: "r = Inr bytes" "bytes \<noteq> []" by blast
      with bounds(2) read have lower: "left w1 < left w" by blast
      from less[OF lower, of "got @ buffered" bytes] obtain r' rest w' where
        "read_until os (got @ buffered) bytes w1 = Some (r', rest, w')" "left w' \<le> left w1" by blast
      moreover have "read_until os got buffered w = read_until os (got @ buffered) bytes w1"
        by (subst read_until.simps) (simp add: None read bytes)
      ultimately show ?thesis using lower by simp
    next
      case False
      have "read_until os got buffered w
          = Some (case r of Inl e \<Rightarrow> Inl e | Inr _ \<Rightarrow> Inr (got @ buffered), [], w1)"
        by (subst read_until.simps) (use False in \<open>simp add: None read split: sum.splits\<close>)
      with False read bounds(1)[OF read] bounds(3)[of w w1] show ?thesis
        by (cases r; cases buffered) auto
    qed
  qed
qed

lemma read_line_returns:
  assumes "runs_out os left"
  shows "\<exists>r rest w'. read_line os buffered w = Some (r, rest, w') \<and> left w' \<le> left w
    \<and> (r = Inr [] \<or> (\<exists>e. r = Inl e \<and> e \<noteq> IoInvalidData) \<or> left w' < left w \<or> length rest < length buffered)"
proof -
  from read_until_returns[OF assms, of "[]" buffered w] obtain r rest w' where
    "read_until os [] buffered w = Some (r, rest, w')" "left w' \<le> left w"
    "r = Inr [] \<or> (\<exists>e. r = Inl e \<and> e \<noteq> IoInvalidData) \<or> left w' < left w \<or> length rest < length buffered"
    by auto
  then show ?thesis by (auto simp: read_line_def)
qed

lemma ask_loop_returns:
  assumes "runs_out os left"
  shows "ask_loop J os t input tm w \<noteq> None"
proof (induction "(left w, length (tm_buffer tm))" arbitrary: tm w
    rule: wf_induct_rule[OF wf_lex_prod[OF wf_less_than wf_less_than]])
  case 1
  obtain asked w1 where put: "tt_write os (question J t input) w = (asked, w1)" by force
  show ?case
  proof (cases asked)
    case False
    with put show ?thesis by (subst ask_loop.simps) simp
  next
    case True
    from read_line_returns[OF assms, of "tm_buffer tm" w1] obtain r rest w2 where
      line: "read_line os (tm_buffer tm) w1 = Some (r, rest, w2)" "left w2 \<le> left w1" and
      r: "r = Inr [] \<or> (\<exists>e. r = Inl e \<and> e \<noteq> IoInvalidData) \<or> left w2 < left w1 \<or> length rest < length (tm_buffer tm)"
      by blast
    have "left w1 \<le> left w" using runs_outD(4)[OF assms put] .
    then have later: "ask_loop J os t input (tm\<lparr>tm_buffer := rest\<rparr>) w2 \<noteq> None"
      if "left w2 < left w1 \<or> length rest < length (tm_buffer tm)"
      using that line(2) by (intro 1) auto
    show ?thesis
    proof (cases "r = Inr [] \<or> (\<exists>e. r = Inl e \<and> e \<noteq> IoInvalidData)")
      case True
      with put \<open>asked\<close> line show ?thesis by (subst ask_loop.simps) auto
    next
      case False
      with r later have "ask_loop J os t input (tm\<lparr>tm_buffer := rest\<rparr>) w2 \<noteq> None" by blast
      with put \<open>asked\<close> line show ?thesis
        by (subst ask_loop.simps) (auto simp: Let_def split: sum.splits)
    qed
  qed
qed



end
