(* ===== verification/Wrap_Up.thy ===== *)
theory Wrap_Up
  imports Gate
begin

text \<open>
  The second turn a round limit earns (\<open>agent_wrapup.rs\<close>): one request that may call no tool. The
  environment it is given carries the caller's sinks, \<open>te_observe\<close> and \<open>te_settled\<close>; its own gate
  refuses every call, and whether any text was streamed is kept behind the world.
\<close>

section \<open>The round (agent_wrapup.rs)\<close>

definition NUDGE :: string where
  "NUDGE = ''You have no tool calls left. Answer now from what you have already found, and say plainly what you could not finish.''"

definition WRAP_REFUSED :: string where
  "WRAP_REFUSED = ''no tool may be called while answering a turn that ran out of rounds''"

fun streamed :: "'v agent_event \<Rightarrow> bool" where
  "streamed (EvText delta) = (delta \<noteq> [])"
| "streamed _ = False"

definition beside :: "('w \<Rightarrow> 'a \<times> 'w) \<Rightarrow> 'w \<times> 's \<Rightarrow> 'a \<times> ('w \<times> 's)" where
  "beside m ws = (case ws of (w, s) \<Rightarrow> case m w of (r, w') \<Rightarrow> (r, (w', s)))"

definition refuse_all :: "('w, 'v) turn_env \<Rightarrow> ('w \<times> bool, 'v) turn_env" where
  "refuse_all env = \<lparr>
     te_open = (\<lambda>p. beside (te_open env p)),
     te_observe = (\<lambda>ev (w, wrote). (te_observe env ev w, wrote \<or> streamed ev)),
     te_approve = (\<lambda>_ _ _. st_ret (Deny WRAP_REFUSED)),
     te_settled = (\<lambda>c (w, wrote). (te_settled env c w, wrote)),
     te_execute = (\<lambda>t input. beside (te_execute env t input)),
     te_stop = beside (te_stop env),
     te_timed_out = beside (te_timed_out env),
     te_schema = te_schema env,
     te_duration = te_duration env\<rparr>"

definition wrap_turn :: "'v turn \<Rightarrow> 'v turn_outcome \<Rightarrow> 'v turn" where
  "wrap_turn turn first = \<lparr>
     tn_model = tn_model turn,
     tn_max_output_tokens = tn_max_output_tokens turn,
     tn_system = Some (case tn_system turn of Some system \<Rightarrow> system @ [nl, nl] @ NUDGE | None \<Rightarrow> NUDGE),
     tn_tools = tn_tools turn,
     tn_tool_choice = Some ChooseNone,
     tn_thinking = tn_thinking turn,
     tn_history = tn_history turn @ ou_messages first,
     tn_limits = (tn_limits turn)\<lparr>lm_max_rounds := 1\<rparr>,
     tn_observed = (case ou_usage first of Some u \<Rightarrow> Some u | None \<Rightarrow> tn_observed turn),
     tn_withheld = ou_withheld first\<rparr>"

record 'v wrap_up =
  wu_answer :: "'v turn_outcome option"
  wu_wrote :: bool
  wu_said :: "string option"

text \<open>How an error prints is an argument: its own text and those of the causes below it.\<close>

definition wrap_run ::
  "(turn_error \<Rightarrow> string \<times> string list) \<Rightarrow> ('w, 'v) turn_env \<Rightarrow> 'v turn \<Rightarrow> 'v turn_outcome \<Rightarrow> 'w \<Rightarrow> 'v wrap_up \<times> 'w" where
  "wrap_run chain env turn first w =
     (case run_turn (refuse_all env) (wrap_turn turn first) (w, False) of
        (second, (w', wrote)) \<Rightarrow>
          (case second of
             Inl e \<Rightarrow>
               \<lparr>wu_answer = None, wu_wrote = wrote,
                wu_said = Some (''sandbx: the wrap-up request failed: '' @ (case chain e of (err, causes) \<Rightarrow> error_line err causes))\<rparr>
           | Inr out \<Rightarrow>
               if ou_messages out = [] \<or> ou_stop out \<noteq> TsAnswered
               then \<lparr>wu_answer = None, wu_wrote = wrote,
                     wu_said = Some (''sandbx: the wrap-up round ''
                       @ (if ou_messages out = [] then ''replied with nothing'' else ''asked for a tool instead of answering''))\<rparr>
               else \<lparr>wu_answer = Some out, wu_wrote = wrote, wu_said = None\<rparr>, w'))"

section \<open>The turn it is joined to\<close>

datatype unfinished = CutShort nat | Summarised nat | Discarded nat | UnfAborted

definition merge_outcomes :: "'v turn_outcome \<Rightarrow> 'v turn_outcome \<Rightarrow> 'v turn_outcome" where
  "merge_outcomes first second = \<lparr>
     ou_messages = ou_messages first @ ou_messages second,
     ou_usage = (case ou_usage second of Some u \<Rightarrow> Some u | None \<Rightarrow> ou_usage first),
     ou_withheld = ou_withheld second,
     ou_stop = ou_stop second,
     ou_round_stop = ou_round_stop second\<rparr>"

definition wrap_finish ::
  "(string \<Rightarrow> 'w \<Rightarrow> 'w) \<Rightarrow> 'v wrap_up \<Rightarrow> 'v turn_outcome \<Rightarrow> nat \<Rightarrow> 'w \<Rightarrow> ('v turn_outcome \<times> unfinished) \<times> 'w" where
  "wrap_finish note wu first n w =
     (case (wu_answer wu, wu_wrote wu) of
        (Some second, _) \<Rightarrow> (merge_outcomes first second, Summarised n)
      | (None, True) \<Rightarrow> (first, Discarded n)
      | (None, False) \<Rightarrow> (first, CutShort n),
      case wu_said wu of Some line \<Rightarrow> note line w | None \<Rightarrow> w)"

section \<open>What the round may do\<close>

lemma refuse_all_simps [simp]:
  "te_open (refuse_all env) p (w, s) = (case te_open env p w of (r, w') \<Rightarrow> (r, (w', s)))"
  "te_observe (refuse_all env) ev (w, s) = (te_observe env ev w, s \<or> streamed ev)"
  "te_approve (refuse_all env) t i v = st_ret (Deny WRAP_REFUSED)"
  "te_settled (refuse_all env) c (w, s) = (te_settled env c w, s)"
  "te_execute (refuse_all env) t v (w, s) = (case te_execute env t v w of (r, w') \<Rightarrow> (r, (w', s)))"
  "te_stop (refuse_all env) (w, s) = (case te_stop env w of (r, w') \<Rightarrow> (r, (w', s)))"
  "te_timed_out (refuse_all env) (w, s) = (case te_timed_out env w of (r, w') \<Rightarrow> (r, (w', s)))"
  "te_schema (refuse_all env) = te_schema env"
  "te_duration (refuse_all env) = te_duration env"
  by (simp_all add: refuse_all_def beside_def)

text \<open>
  A run of the round noted twice, behind the caller's world and behind the whole: what the caller is
  asked is in both, and what the gate refused shows that no tool ran.
\<close>

fun wrap_noted :: "'v call_event list \<Rightarrow> (('w \<times> 'v call_event list) \<times> bool) \<times> 'v call_event list \<Rightarrow> bool" where
  "wrap_noted lb (((w, l), wrote), es) \<longleftrightarrow>
     (\<exists>ds. l = lb @ ds \<and> opened ds = opened es
        \<and> (\<forall>t v. Executed t v \<in> set ds \<longrightarrow> Executed t v \<in> set es) \<and> (\<forall>t v d. Asked t v d \<notin> set ds))
     \<and> (\<forall>t v d. Asked t v d \<in> set es \<longrightarrow> d = Deny WRAP_REFUSED)"

abbreviation wrap_logged :: "('w, 'v) turn_env \<Rightarrow> ((('w \<times> 'v call_event list) \<times> bool) \<times> 'v call_event list, 'v) turn_env" where
  "wrap_logged env \<equiv> logged ((refuse_all (logged env))\<lparr>te_stop := \<lambda>w. (False, w)\<rparr>)"

lemma wrap_noted_more:
  assumes "wrap_noted lb (((w, l), wrote), es)" "opened ds = opened es'"
    and "\<forall>t v. Executed t v \<in> set ds \<longrightarrow> Executed t v \<in> set es'" "\<forall>t v d. Asked t v d \<notin> set ds"
    and "\<forall>t v d. Asked t v d \<in> set es' \<longrightarrow> d = Deny WRAP_REFUSED"
  shows "wrap_noted lb (((w', l @ ds), wrote'), es @ es')"
  using assms by fastforce

interpretation wrap_turn: turn_keeps "wrap_logged env" "wrap_noted lb" for env lb
proof
  note more = wrap_noted_more[where lb = lb]
  show "keeps (wrap_noted lb) (te_open (wrap_logged env) p)" for p
    using more[where ds = "[Opened p]" and es' = "[Opened p]"]
    by (auto simp: keeps_def simp del: wrap_noted.simps split: prod.splits)
  show "wrap_noted lb w \<Longrightarrow> wrap_noted lb (te_observe (wrap_logged env) ev w)" for w ev
    by (cases "(lb, w)" rule: wrap_noted.cases) auto
  show "keeps (wrap_noted lb) (te_approve (wrap_logged env) t i v)" for t i v
    using more[where ds = "[]" and es' = "[Asked t v (Deny WRAP_REFUSED)]"]
    by (auto simp: keeps_def st_ret_def simp del: wrap_noted.simps split: prod.splits)
  show "wrap_noted lb w \<Longrightarrow> wrap_noted lb (te_settled (wrap_logged env) c w)" for w c
    using more[where ds = "[SettledCall c]" and es' = "[SettledCall c]"]
    by (cases "(lb, w)" rule: wrap_noted.cases) (auto simp del: wrap_noted.simps)
  show "keeps (wrap_noted lb) (te_execute (wrap_logged env) t v)" for t v
    using more[where ds = "[Executed t v]" and es' = "[Executed t v]"]
    by (auto simp: keeps_def simp del: wrap_noted.simps split: prod.splits)
  show "keeps (wrap_noted lb) (te_stop (wrap_logged env))"
    by (auto simp: keeps_def)
  show "keeps (wrap_noted lb) (te_timed_out (wrap_logged env))"
    by (auto simp: keeps_def split: prod.splits)
qed


lemma wrap_run_noted:
  assumes "wrap_run chain (logged env) turn first (w, l) = (wu, (w', l'))"
  shows "\<exists>es. l' = l @ es \<and> (\<forall>e \<in> set es. case e of Executed _ _ \<Rightarrow> False | _ \<Rightarrow> True)
    \<and> length (opened es) \<le> 1 \<and> (\<forall>p \<in> set (opened es). p_tool_choice p = Some ChooseNone)"
proof -
  let ?env = "(refuse_all (logged env))\<lparr>te_stop := \<lambda>w. (False, w)\<rparr>"
  from assms obtain second wrote where
    "run_turn_until ?env (wrap_turn turn first) ((w, l), False) = (second, ((w', l'), wrote))"
    by (auto simp: wrap_run_def run_turn_def split: prod.splits)
  from erasesD[OF erases_run_turn_until this] obtain es where
    run: "run_turn_until (logged ?env) (wrap_turn turn first) (((w, l), False), []) = (second, (((w', l'), wrote), es))"
    by blast
  have "wrap_noted l (((w', l'), wrote), es)"
    by (rule wrap_turn.run_keeps[OF run]) simp
  then obtain ds where ds: "l' = l @ ds" "opened ds = opened es"
    "\<forall>t v. Executed t v \<in> set ds \<longrightarrow> Executed t v \<in> set es" and
    refused: "\<forall>t v d. Asked t v d \<in> set es \<longrightarrow> d = Deny WRAP_REFUSED" by auto
  from run_turn_until_wrote[OF run] have wrote: "turn_wrote (wrap_turn turn first)
      (map (tool_definition_of (logged ?env)) (tn_tools (wrap_turn turn first))) 1 False second es"
    by (simp add: wrap_turn_def)
  have "Executed t v \<notin> set es" for t v
  proof
    assume "Executed t v \<in> set es"
    then obtain xs ys where es: "es = xs @ Executed t v # ys" by (meson split_list)
    have "gate_run (set (tn_tools (wrap_turn turn first))) Asking (xs @ Executed t v # ys) \<noteq> None"
      using wrote unfolding turn_wrote_def es by blast
    from gate_run_executed[OF this] obtain zs where "xs = zs @ [Asked t v Allow]" by blast
    with es refused show False by fastforce
  qed
  with ds(3) have "\<forall>e \<in> set ds. case e of Executed _ _ \<Rightarrow> False | _ \<Rightarrow> True"
    by (auto split: call_event.splits)
  moreover have "length (opened ds) \<le> 1 \<and> (\<forall>p \<in> set (opened ds). p_tool_choice p = Some ChooseNone)"
    using wrote ds(2) by (auto simp: turn_wrote_def round_prompt_def wrap_turn_def)
  ultimately show ?thesis using ds(1) by blast
qed

lemma wrap_run_answer:
  assumes "wrap_run chain env turn first w = (wu, w')" "wu_answer wu = Some second"
  shows "\<exists>w1. run_turn_until ((refuse_all env)\<lparr>te_stop := \<lambda>w. (False, w)\<rparr>) (wrap_turn turn first) (w, False) = (Inr second, w1)
    \<and> ou_messages second \<noteq> [] \<and> ou_stop second = TsAnswered"
  using assms by (auto simp: wrap_run_def run_turn_def split: prod.splits sum.splits if_splits)

text \<open>
  C19. A turn out of rounds is asked once more at most, with \<open>tool_choice\<close> none, and no tool runs, whatever
  \<open>--allow-tool\<close> said and whatever the model calls. Where that round answers, what is stored is the
  turn with the reply behind it, answered; otherwise the turn as the cap left it. Both are
  conversations the API accepts, with no reasoning in them.
\<close>

theorem wrap_up_only_answers:
  assumes "run_turn_until env0 turn w0 = (Inr first, w1)" "ou_stop first = TsRoundLimit k" "0 < k"
    and "api_accepts (tn_history turn)" "tn_history turn \<noteq> []"
    and "rm_role (last (tn_history turn)) = User" "use_ids (last (tn_history turn)) = {}"
    and "wrap_run chain (logged env) turn first (w, []) = (wu, (w', l))"
    and "wrap_finish note wu first k w2 = ((out, ending), w3)"
  shows "list_all (\<lambda>e. case e of Executed _ _ \<Rightarrow> False | _ \<Rightarrow> True) l \<and> length (opened l) \<le> 1
    \<and> list_all (\<lambda>p. p_tool_choice p = Some ChooseNone) (opened l)
    \<and> api_accepts (tn_history turn @ ou_messages out) \<and> unreasoned (ou_messages out)
    \<and> (case ending of
         Summarised n \<Rightarrow> n = k \<and> ou_stop out = TsAnswered \<and> reply (last (ou_messages out))
           \<and> take (length (ou_messages first)) (ou_messages out) = ou_messages first
       | CutShort n \<Rightarrow> n = k \<and> out = first
       | Discarded n \<Rightarrow> n = k \<and> out = first
       | UnfAborted \<Rightarrow> False)"
proof -
  have first: "api_accepts (tn_history turn @ ou_messages first)" "unreasoned (ou_messages first)"
    "exchanges (ou_messages first)" "ou_messages first \<noteq> []"
    using turn_transcript[OF assms(1,4-7)] assms(2,3) by simp_all
  note ends = exchanges_ends[OF first(3,4)]
  have answered: "api_accepts (tn_history turn @ ou_messages first @ ou_messages second) \<and> unreasoned (ou_messages second)
      \<and> reply (last (ou_messages second)) \<and> ou_messages second \<noteq> [] \<and> ou_stop second = TsAnswered"
    if some: "wu_answer wu = Some second" for second
  proof -
    from wrap_run_answer[OF assms(8) some] obtain w2 where
      run: "run_turn_until ((refuse_all (logged env))\<lparr>te_stop := \<lambda>w. (False, w)\<rparr>) (wrap_turn turn first) ((w, []), False) = (Inr second, w2)"
      and second: "ou_messages second \<noteq> []" "ou_stop second = TsAnswered" by blast
    have hist: "tn_history (wrap_turn turn first) = tn_history turn @ ou_messages first" by (simp add: wrap_turn_def)
    from turn_transcript[OF run] first(1,4) ends second show ?thesis by (simp add: hist)
  qed
  have "api_accepts (tn_history turn @ ou_messages out) \<and> unreasoned (ou_messages out)
      \<and> (case ending of
           Summarised n \<Rightarrow> n = k \<and> ou_stop out = TsAnswered \<and> reply (last (ou_messages out))
             \<and> take (length (ou_messages first)) (ou_messages out) = ou_messages first
         | CutShort n \<Rightarrow> n = k \<and> out = first
         | Discarded n \<Rightarrow> n = k \<and> out = first
         | UnfAborted \<Rightarrow> False)"
  proof (cases "wu_answer wu")
    case None
    with assms(9) first show ?thesis by (cases "wu_wrote wu") (auto simp: wrap_finish_def)
  next
    case (Some second)
    with assms(9) answered[OF Some] first(2) show ?thesis
      by (auto simp: wrap_finish_def merge_outcomes_def unreasoned_def)
  qed
  with wrap_run_noted[OF assms(8)] show ?thesis by (auto simp: list_all_iff)
qed

text \<open>The demonstration turn, capped at the round that calls, and the reply it earns.\<close>

definition demo_capped :: "string turn" where
  "demo_capped = demo_turn\<lparr>tn_limits := (tn_limits demo_turn)\<lparr>lm_max_rounds := 1\<rparr>\<rparr>"

definition demo_first :: "string turn_outcome" where
  "demo_first = \<lparr>ou_messages = take 2 demo_messages, ou_usage = None, ou_withheld = 2, ou_stop = TsRoundLimit 1,
     ou_round_stop = Some StopToolUse\<rparr>"

definition demo_second :: "string turn_outcome" where
  "demo_second = \<lparr>ou_messages = drop 2 demo_messages, ou_usage = None, ou_withheld = 2, ou_stop = TsAnswered,
     ou_round_stop = Some EndTurn\<rparr>"

lemma demo_first_run: "run_turn_until demo_turn_env demo_capped demo_rounds = (Inr demo_first, drop 1 demo_rounds)"
  by code_simp

lemma demo_wrap_run:
  "\<exists>l. wrap_run (\<lambda>_. ([], [])) (logged demo_turn_env) demo_capped demo_first (drop 1 demo_rounds, [])
     = (\<lparr>wu_answer = Some demo_second, wu_wrote = True, wu_said = None\<rparr>, ([], l))"
proof -
  have "(case wrap_run (\<lambda>_. ([], [])) (logged demo_turn_env) demo_capped demo_first (drop 1 demo_rounds, []) of
      (wu, (w, l)) \<Rightarrow> wu = \<lparr>wu_answer = Some demo_second, wu_wrote = True, wu_said = None\<rparr> \<and> w = [])" by code_simp
  then show ?thesis by (auto split: prod.splits)
qed

theorem wrap_up_only_answers_witness:
  "api_accepts (tn_history demo_capped @ demo_messages) \<and> reply (last demo_messages)"
proof -
  have history: "tn_history demo_capped = tn_history demo_turn" by (simp add: demo_capped_def)
  obtain l where wrap: "wrap_run (\<lambda>_. ([], [])) (logged demo_turn_env) demo_capped demo_first (drop 1 demo_rounds, [])
      = (\<lparr>wu_answer = Some demo_second, wu_wrote = True, wu_said = None\<rparr>, ([], l))" using demo_wrap_run by blast
  have finish: "wrap_finish (\<lambda>_ w. w) \<lparr>wu_answer = Some demo_second, wu_wrote = True, wu_said = None\<rparr> demo_first 1 ()
      = ((merge_outcomes demo_first demo_second, Summarised 1), ())"
    by (simp add: wrap_finish_def)
  have "ou_stop demo_first = TsRoundLimit 1" by (simp add: demo_first_def)
  from wrap_up_only_answers[OF demo_first_run this _ demo_history(1-4)[folded history] wrap finish]
  show ?thesis by (simp add: merge_outcomes_def demo_first_def demo_second_def)
qed

end
