(* ===== verification/Tui_Transcript.thy ===== *)
theory Tui_Transcript
  imports Conversation Terminal_Text
begin

text \<open>
  The screen's transcript of a turn (\<open>sandbx-tui-transcript\<close>): the fold of the event stream and of
  the harness's own notes into entries (\<open>transcript.rs\<close>), and the rows, the status bar and the
  scrolling they are drawn with (\<open>view.rs\<close>). Wrapping and the drawing of a cell are ratatui's.
\<close>

section \<open>Entries (transcript.rs)\<close>

datatype reasoning = Shown | Hidden

datatype entry_kind = KPrompt | KAnswer | KReasoning | KNote

record entry =
  en_kind :: entry_kind
  en_text :: string

record tokens =
  tk_input :: "u32 option"
  tk_output :: "u32 option"

record tui_transcript =
  tx_entries :: "entry list"
  tx_reasoning :: reasoning
  tx_rounds :: nat
  tx_tokens :: tokens

definition GUTTER_MARK :: nat where "GUTTER_MARK = 0x2502"

definition forgeable :: "nat \<Rightarrow> bool" where
  "forgeable c \<longleftrightarrow>
     c = GUTTER_MARK
     \<or> c \<in> set [0x2503, 0x2506, 0x2507, 0x250A, 0x250B, 0x254E, 0x254F, 0x2551,
         0x2575, 0x2577, 0x2579, 0x257B, 0x257D, 0x257F]
     \<or> c \<in> set [0x239C, 0x239F, 0x23A2, 0x23A5, 0x23AA, 0x23AE, 0x23B8, 0x23B9, 0x23D0]
     \<or> c \<in> set [0xA6, 0x1C0, 0x1C1, 0x5C0, 0x2016, 0x2223, 0x2225, 0x258F, 0x2595, 0x2758,
         0xFE31, 0xFE32, 0xFE33, 0xFF5C, 0xFFDC, 0xFFE8]
     \<or> c \<in> set [0x30D, 0x30E, 0x329, 0x348, 0x20D2, 0x20D3, 0x20E6]"

definition cell_chars :: "nat \<Rightarrow> nat list" where
  "cell_chars c =
     (if c = 0x0A then [0x0A]
      else if line_separator c then [0x0A]
      else if c = 0x09 then [0x20, 0x20, 0x20, 0x20]
      else if is_control c \<or> invisible c \<or> forgeable c then [0xFFFD]
      else [c])"

definition cell_text :: "string \<Rightarrow> string" where
  "cell_text s = of_chars (concat (map cell_chars (chars s)))"

definition tui_new :: "string \<Rightarrow> reasoning \<Rightarrow> tui_transcript" where
  "tui_new prompt reasoning =
     \<lparr>tx_entries = [\<lparr>en_kind = KPrompt, en_text = cell_text prompt\<rparr>], tx_reasoning = reasoning,
      tx_rounds = 0, tx_tokens = \<lparr>tk_input = None, tk_output = None\<rparr>\<rparr>"

definition push_entry :: "entry_kind \<Rightarrow> string \<Rightarrow> tui_transcript \<Rightarrow> tui_transcript" where
  "push_entry k s t = t\<lparr>tx_entries := tx_entries t @ [\<lparr>en_kind = k, en_text = s\<rparr>]\<rparr>"

definition append_delta :: "string \<Rightarrow> entry_kind \<Rightarrow> tui_transcript \<Rightarrow> tui_transcript" where
  "append_delta delta k t =
     (if delta = [] then t
      else (let shown = cell_text delta; es = tx_entries t
        in if es \<noteq> [] \<and> en_kind (last es) = k
           then t\<lparr>tx_entries := butlast es @ [(last es)\<lparr>en_text := en_text (last es) @ shown\<rparr>]\<rparr>
           else push_entry k shown t))"

definition newer :: "'a option \<Rightarrow> 'a option \<Rightarrow> 'a option" where
  "newer reported held = (case reported of None \<Rightarrow> held | Some n \<Rightarrow> Some n)"

definition tui_event :: "'v agent_event \<Rightarrow> tui_transcript \<Rightarrow> tui_transcript" where
  "tui_event event t =
     (case event of
        EvText delta \<Rightarrow> append_delta delta KAnswer t
      | EvThinking delta \<Rightarrow> if tx_reasoning t = Shown then append_delta delta KReasoning t else t
      | EvStop _ \<Rightarrow> t\<lparr>tx_rounds := tx_rounds t + 1\<rparr>
      | EvUsage input output _ _ \<Rightarrow>
          t\<lparr>tx_tokens := \<lparr>tk_input = newer input (tk_input (tx_tokens t)),
                          tk_output = newer output (tk_output (tx_tokens t))\<rparr>\<rparr>
      | _ \<Rightarrow> t)"

text \<open>A note's line breaks, spelled.\<close>

definition noted :: "string \<Rightarrow> string" where
  "noted line = concat (map (\<lambda>c. if c = nl then [backslash, CHR ''n''] else [c]) (cell_text line))"

definition tui_note :: "string \<Rightarrow> tui_transcript \<Rightarrow> tui_transcript" where
  "tui_note line t = push_entry KNote (noted line) t"

section \<open>Rows (view.rs)\<close>

definition GUTTER :: string where "GUTTER = utf8_of GUTTER_MARK @ '' ''"

definition gutter :: "entry_kind \<Rightarrow> nat \<Rightarrow> string" where
  "gutter k n = (if k = KNote then GUTTER else if k = KPrompt \<and> n = 0 then ''> '' else ''  '')"

text \<open>\<open>str::split\<close> at the line break: never empty, a text that ends in one has an empty last piece.\<close>

fun split_lines :: "string \<Rightarrow> string list" where
  "split_lines [] = [[]]"
| "split_lines (c # s) =
     (if c = nl then [] # split_lines s
      else (case split_lines s of [] \<Rightarrow> [[c]] | piece # pieces \<Rightarrow> (c # piece) # pieces))"

definition entry_rows :: "entry \<Rightarrow> (entry_kind option \<times> string) list" where
  "entry_rows e =
     map (\<lambda>(n, row). (Some (en_kind e), gutter (en_kind e) n @ row)) (enumerate 0 (split_lines (en_text e)))"

definition tui_rows :: "tui_transcript \<Rightarrow> (entry_kind option \<times> string) list" where
  "tui_rows t =
     concat (map (\<lambda>(i, e). (if i > 0 then [(None, [])] else []) @ entry_rows e) (enumerate 0 (tx_entries t)))"

definition tui_plain :: "tui_transcript \<Rightarrow> string" where
  "tui_plain t = concat (map (\<lambda>(_, row). row @ [nl]) (tui_rows t))"

datatype modifier = Bold | Dim | Italic | Reversed

definition entry_style :: "entry_kind \<Rightarrow> modifier list" where
  "entry_style k = (case k of KPrompt \<Rightarrow> [Bold] | KAnswer \<Rightarrow> [] | KReasoning \<Rightarrow> [Dim, Italic] | KNote \<Rightarrow> [Bold, Dim])"

definition styled_rows :: "tui_transcript \<Rightarrow> (modifier list \<times> string) list" where
  "styled_rows t = map (\<lambda>(k, row). case k of Some k \<Rightarrow> (entry_style k, row) | None \<Rightarrow> ([], [])) (tui_rows t)"

definition scroll_of :: "nat \<Rightarrow> nat \<Rightarrow> nat" where
  "scroll_of rows height = (if rows - height \<le> 65535 then rows - height else 65535)"

definition status_bar :: "tui_transcript \<Rightarrow> modifier list \<times> string" where
  "status_bar t =
     (let spend = (case tk_input (tx_tokens t) of Some n \<Rightarrow> [dec_nat (unat n) @ '' in''] | None \<Rightarrow> [])
            @ (case tk_output (tx_tokens t) of Some n \<Rightarrow> [dec_nat (unat n) @ '' out''] | None \<Rightarrow> []);
          fields = [''rounds '' @ dec_nat (tx_rounds t)]
            @ (if spend \<noteq> [] then [join_with '' / '' spend] else [])
            @ [''ctrl-c interrupts'']
      in ([Reversed], join_with ('' '' @ utf8_of 0xB7 @ '' '') fields))"

section \<open>What a cell may hold\<close>

definition drawable :: "nat \<Rightarrow> bool" where
  "drawable c \<longleftrightarrow> scalar c \<and> \<not> spoils c \<and> \<not> forgeable c"

definition body_ok :: "string \<Rightarrow> bool" where
  "body_ok s \<longleftrightarrow> list_all drawable (chars s) \<and> of_chars (chars s) = s"

definition cells_ok :: "string \<Rightarrow> bool" where
  "cells_ok s \<longleftrightarrow> (\<exists>cs. s = of_chars cs \<and> list_all (\<lambda>c. c = 0x0A \<or> drawable c) cs)"

lemma drawable_ascii:
  fixes c :: nat
  shows "0x20 \<le> c \<Longrightarrow> c < 0x7F \<Longrightarrow> drawable c"
  using ascii_visible[of c] by (simp add: drawable_def scalar_def forgeable_def GUTTER_MARK_def)

lemma drawable_replacement: "drawable 0xFFFD"
  using replacement by (simp add: drawable_def forgeable_def GUTTER_MARK_def)

lemma cell_chars_ok: "scalar c \<Longrightarrow> list_all (\<lambda>c. c = 0x0A \<or> drawable c) (cell_chars c)"
  using drawable_replacement drawable_ascii[where c = "0x20"]
  by (simp add: cell_chars_def drawable_def spoils_def)

lemma cells_ok_text: "cells_ok (cell_text s)"
proof -
  have "list_all (\<lambda>c. c = 0x0A \<or> drawable c) (concat (map cell_chars cs))" if "list_all scalar cs" for cs
    using that cell_chars_ok by (induction cs) auto
  with chars_scalar[of s] show ?thesis unfolding cells_ok_def cell_text_def by blast
qed

lemma cells_ok_append: "cells_ok s \<Longrightarrow> cells_ok t \<Longrightarrow> cells_ok (s @ t)"
  unfolding cells_ok_def by (metis (no_types, lifting) list_all_append of_chars_simps(3))

lemma utf8_of_nl: "utf8_of 0x0A = [nl]"
  by code_simp


lemma nl_utf8_of: "scalar c \<Longrightarrow> nl \<in> set (utf8_of c) \<Longrightarrow> c = 0x0A"
proof -
  assume c: "scalar c" "nl \<in> set (utf8_of c)"
  then have "(10 :: nat) \<in> set (utf8_bytes c)"
    using of_char_utf8[OF c(1)] imageI[OF c(2), of "of_char :: char \<Rightarrow> nat"] by (simp flip: set_map)
  then show ?thesis by (auto simp: utf8_bytes_def split: if_splits)
qed

definition tidy :: "string \<Rightarrow> bool" where
  "tidy s \<longleftrightarrow> (\<exists>cs. s = of_chars cs \<and> list_all drawable cs)"

lemma drawable_no_nl: "drawable c \<Longrightarrow> nl \<notin> set (utf8_of c)"
  using nl_utf8_of by (fastforce simp: drawable_def spoils_def is_control_def)

lemma tidy_facts: "tidy s \<Longrightarrow> body_ok s \<and> nl \<notin> set s"
proof -
  assume "tidy s"
  then obtain cs where s: "s = of_chars cs" and cs: "list_all drawable cs" by (auto simp: tidy_def)
  have "list_all scalar cs" using cs by (simp add: list_all_iff drawable_def)
  with s cs have "body_ok s" by (simp add: body_ok_def chars_of_chars)
  moreover have "nl \<notin> set s" using s cs drawable_no_nl by (auto simp: of_chars_def list_all_iff)
  ultimately show ?thesis by blast
qed

lemma split_lines_nonempty [simp]: "split_lines s \<noteq> []"
  by (cases s) (auto split: list.splits)

lemma split_lines_front: "nl \<notin> set w \<Longrightarrow> split_lines (w @ s) = (w @ hd (split_lines s)) # tl (split_lines s)"
  by (induction w) (auto split: list.splits)

lemma split_lines_whole: "nl \<notin> set s \<Longrightarrow> split_lines s = [s]"
  using split_lines_front[of s "[]"] by simp

lemma split_lines_break: "nl \<notin> set w \<Longrightarrow> split_lines (w @ nl # s) = w # split_lines s"
  using split_lines_front[of w "nl # s"] by simp

lemma split_lines_tidy: "list_all (\<lambda>c. c = 0x0A \<or> drawable c) cs \<Longrightarrow> list_all tidy (split_lines (of_chars cs))"
proof (induction cs)
  case Nil
  show ?case by (simp add: tidy_def exI[of _ "[]"])
next
  case (Cons c cs)
  then have IH: "list_all tidy (split_lines (of_chars cs))" by simp
  show ?case
  proof (cases "c = 0x0A")
    case True
    have "tidy []" by (simp add: tidy_def exI[of _ "[]"])
    with True IH show ?thesis by (simp add: utf8_of_nl)
  next
    case False
    with Cons.prems have c: "drawable c" by simp
    obtain p ps where split: "split_lines (of_chars cs) = p # ps" by (cases "split_lines (of_chars cs)") auto
    with IH obtain ds where "p = of_chars ds" "list_all drawable ds" by (auto simp: tidy_def)
    with c have "tidy (utf8_of c @ p)" unfolding tidy_def by (intro exI[of _ "c # ds"]) simp
    with IH split show ?thesis by (simp add: split_lines_front[OF drawable_no_nl[OF c]])
  qed
qed

lemma noted_tidy: "tidy (noted line)"
proof -
  have spelt: "concat (map (\<lambda>b. if b = nl then [backslash, CHR ''n''] else [b]) (of_chars cs))
      = of_chars (concat (map (\<lambda>c. if c = 0x0A then [0x5C, 0x6E] else [c]) cs))
    \<and> list_all drawable (concat (map (\<lambda>c. if c = 0x0A then [0x5C, 0x6E] else [c]) cs))"
    if "list_all (\<lambda>c. c = 0x0A \<or> drawable c) cs" for cs
    using that
  proof (induction cs)
    case (Cons c cs)
    have escape: "utf8_of 0x5C = [backslash]" "utf8_of 0x6E = ''n''" by code_simp+
    have kept: "concat (map (\<lambda>b. if b = nl then [backslash, CHR ''n''] else [b]) w) = w" if "nl \<notin> set w" for w
      using that by (induction w) auto
    from Cons show ?case
      using drawable_ascii[where c = "0x5C"] drawable_ascii[where c = "0x6E"] drawable_no_nl[of c]
      by (cases "c = 0x0A") (simp_all add: utf8_of_nl escape kept)
  qed simp
  obtain cs where "cell_text line = of_chars cs" "list_all (\<lambda>c. c = 0x0A \<or> drawable c) cs"
    using cells_ok_text[of line] by (auto simp: cells_ok_def)
  with spelt[of cs] show ?thesis unfolding noted_def tidy_def by auto
qed


section \<open>The transcript of a turn\<close>

text \<open>What the screen is told, an event or a note, in the order it is told.\<close>

datatype 'v tui_step = TuiEvent "'v agent_event" | TuiNote string

fun tui_op :: "'v tui_step \<Rightarrow> tui_transcript \<Rightarrow> tui_transcript" where
  "tui_op (TuiEvent event) t = tui_event event t"
| "tui_op (TuiNote line) t = tui_note line t"

fun note_lines :: "'v tui_step \<Rightarrow> string list" where
  "note_lines (TuiNote line) = [line]"
| "note_lines (TuiEvent _) = []"

definition entry_ok :: "entry \<Rightarrow> bool" where
  "entry_ok e \<longleftrightarrow> (if en_kind e = KNote then tidy (en_text e) else cells_ok (en_text e))"

definition notes_of :: "entry list \<Rightarrow> string list" where
  "notes_of es = map en_text (filter (\<lambda>e. en_kind e = KNote) es)"

lemma notes_of_append [simp]: "notes_of (es @ fs) = notes_of es @ notes_of fs"
  by (simp add: notes_of_def)

definition displays :: "string list \<Rightarrow> tui_transcript \<Rightarrow> bool" where
  "displays ls t \<longleftrightarrow> list_all entry_ok (tx_entries t) \<and> notes_of (tx_entries t) = map noted ls"

lemma displays_append_delta: "displays ls t \<Longrightarrow> k \<noteq> KNote \<Longrightarrow> displays ls (append_delta delta k t)"
proof (cases "tx_entries t = [] \<or> en_kind (last (tx_entries t)) \<noteq> k")
  case True
  assume "displays ls t" "k \<noteq> KNote"
  with True show ?thesis
    by (auto simp: displays_def append_delta_def push_entry_def Let_def entry_ok_def notes_of_def cells_ok_text)
next
  case False
  assume t: "displays ls t" "k \<noteq> KNote"
  from False obtain es e where split: "tx_entries t = es @ [e]" "en_kind e = k" by (cases "tx_entries t" rule: rev_cases) auto
  with t show ?thesis
    by (auto simp: displays_def append_delta_def Let_def entry_ok_def notes_of_def cells_ok_text cells_ok_append)
qed

lemma displays_op: "displays ls t \<Longrightarrow> displays (ls @ note_lines op) (tui_op op t)"
proof (cases op)
  case (TuiEvent event)
  moreover assume "displays ls t"
  moreover from this have "displays ls (t\<lparr>tx_rounds := n\<rparr>)" "displays ls (t\<lparr>tx_tokens := tk\<rparr>)" for n tk
    by (simp_all add: displays_def)
  ultimately show ?thesis by (cases event) (simp_all add: tui_event_def displays_append_delta)
next
  case (TuiNote line)
  moreover assume "displays ls t"
  ultimately show ?thesis
    by (simp add: displays_def tui_note_def push_entry_def entry_ok_def noted_tidy notes_of_def)
qed

lemma displays_ops: "displays ls t \<Longrightarrow> displays (ls @ concat (map note_lines ops)) (fold tui_op ops t)"
proof (induction ops arbitrary: ls t)
  case (Cons op ops)
  from Cons.IH[OF displays_op[OF Cons.prems]] show ?case by simp
qed simp

lemma displays_new: "displays [] (tui_new prompt reasoning)"
  by (simp add: displays_def tui_new_def entry_ok_def notes_of_def cells_ok_text)

text \<open>A row as it may be drawn: the mark on a note's alone, behind it only what cannot be taken for it.\<close>

fun row_drawn :: "entry_kind option \<times> string \<Rightarrow> bool" where
  "row_drawn (None, row) \<longleftrightarrow> row = []"
| "row_drawn (Some KNote, row) \<longleftrightarrow> take (length GUTTER) row = GUTTER \<and> body_ok (drop (length GUTTER) row)"
| "row_drawn (Some k, row) \<longleftrightarrow> take 2 row \<in> {''> '', ''  ''} \<and> body_ok (drop 2 row)"

definition row_told :: "entry_kind option \<times> string \<Rightarrow> bool" where
  "row_told r \<longleftrightarrow> row_drawn r \<and> nl \<notin> set (snd r)
     \<and> (take (length GUTTER) (snd r) = GUTTER) = (fst r = Some KNote)"

lemma GUTTER_bytes: "GUTTER = [CHR 0xE2, CHR 0x94, CHR 0x82, CHR '' '']"
  by (simp add: GUTTER_def GUTTER_MARK_def utf8_of_def utf8_bytes_def char_of_def bit_0)

lemma not_marked: "k \<noteq> KNote \<Longrightarrow> take (length GUTTER) (gutter k n @ row) \<noteq> GUTTER"
  by (simp add: gutter_def GUTTER_bytes)

lemma nl_gutter: "nl \<notin> set (gutter k n)"
  by (simp add: gutter_def GUTTER_bytes)

lemma row_told_entry:
  assumes "tidy row"
  shows "row_told (Some k, gutter k n @ row)"
proof (cases "k = KNote")
  case True
  with tidy_facts[OF assms] nl_gutter[of k n] show ?thesis by (simp add: row_told_def gutter_def)
next
  case False
  then have "row_drawn (Some k, gutter k n @ row)"
    using tidy_facts[OF assms] by (cases k) (simp_all add: gutter_def)
  with False tidy_facts[OF assms] nl_gutter[of k n] not_marked[OF False] show ?thesis by (simp add: row_told_def)
qed

lemma entry_rows_told:
  assumes "entry_ok e"
  shows "list_all row_told (entry_rows e)"
proof -
  obtain cs where "en_text e = of_chars cs" "list_all (\<lambda>c. c = 0x0A \<or> drawable c) cs"
    using assms by (auto simp: entry_ok_def cells_ok_def tidy_def list_all_iff split: if_splits)
  then have "list_all tidy (split_lines (en_text e))" by (simp add: split_lines_tidy)
  then show ?thesis by (auto simp: entry_rows_def list_all_iff in_set_enumerate_eq row_told_entry)
qed

lemma entry_rows_note:
  assumes "entry_ok e"
  shows "map snd (filter (\<lambda>r. fst r = Some KNote) (entry_rows e)) = map ((@) GUTTER) (notes_of [e])"
proof (cases "en_kind e = KNote")
  case True
  with assms have "split_lines (en_text e) = [en_text e]"
    by (simp add: entry_ok_def tidy_facts split_lines_whole)
  with True show ?thesis by (simp add: entry_rows_def gutter_def notes_of_def enumerate_simps)
next
  case False
  then show ?thesis by (auto simp: entry_rows_def notes_of_def filter_empty_conv)
qed

lemma rows_of_entries:
  assumes "list_all entry_ok es"
  shows "list_all row_told (concat (map (\<lambda>(i, e). (if i > 0 then [(None, [])] else []) @ entry_rows e) (enumerate n es)))
    \<and> map snd (filter (\<lambda>r. fst r = Some KNote)
        (concat (map (\<lambda>(i, e). (if i > 0 then [(None, [])] else []) @ entry_rows e) (enumerate n es))))
      = map ((@) GUTTER) (notes_of es)"
  using assms
proof (induction es arbitrary: n)
  case Nil
  show ?case by (simp add: notes_of_def)
next
  case (Cons e es)
  have gap: "row_told (None, [])" by (simp add: row_told_def GUTTER_bytes)
  have "notes_of (e # es) = notes_of [e] @ notes_of es" using notes_of_append[of "[e]" es] by simp
  with Cons gap entry_rows_told[of e] entry_rows_note[of e] show ?case by simp
qed

lemma split_lines_rows: "list_all (\<lambda>r. nl \<notin> set (snd r)) rs \<Longrightarrow>
    split_lines (concat (map (\<lambda>(_, row). row @ [nl]) rs)) = map snd rs @ [[]]"
  by (induction rs) (auto simp: split_lines_break)

text \<open>
  C40. Only the harness marks a row. Whatever the model streams and in whatever pieces, a row of the
  screen starts with the gutter's mark exactly where it is a note of the harness's, no other
  character of any row could be taken for that mark or could rewrite the screen, every note is one row and
  no row is missing or invented; and the transcript printed once the screen is given back is those
  rows, one line each.
\<close>

theorem only_harness_marks:
  "let t = fold tui_op ops (tui_new prompt reasoning) in
     list_all row_told (tui_rows t)
     \<and> map snd (filter (\<lambda>r. fst r = Some KNote) (tui_rows t)) = map (\<lambda>line. GUTTER @ noted line) (concat (map note_lines ops))
     \<and> split_lines (tui_plain t) = map snd (tui_rows t) @ [[]]"
proof -
  define t where "t = fold tui_op ops (tui_new prompt reasoning)"
  have t: "displays (concat (map note_lines ops)) t"
    using displays_ops[OF displays_new] by (simp add: t_def)
  then have rows: "list_all row_told (tui_rows t)"
    "map snd (filter (\<lambda>r. fst r = Some KNote) (tui_rows t)) = map (\<lambda>line. GUTTER @ noted line) (concat (map note_lines ops))"
    using rows_of_entries[of "tx_entries t" 0] by (simp_all add: displays_def tui_rows_def comp_def)
  moreover from rows(1) have "list_all (\<lambda>r. nl \<notin> set (snd r)) (tui_rows t)"
    by (simp add: list_all_iff row_told_def)
  then have "split_lines (tui_plain t) = map snd (tui_rows t) @ [[]]"
    by (simp add: tui_plain_def split_lines_rows)
  ultimately show ?thesis by (simp add: Let_def flip: t_def)
qed

section \<open>Streaming\<close>

text \<open>A delta is a \<open>str\<close>: whole characters.\<close>

definition whole_chars :: "string \<Rightarrow> bool" where
  "whole_chars s \<longleftrightarrow> of_chars (chars s) = s"

lemma chars_append:
  assumes "whole_chars s"
  shows "chars (s @ t) = chars s @ chars t"
proof -
  have "chars (of_chars cs @ t) = cs @ chars t" if "list_all scalar cs" for cs
    using that by (induction cs) simp_all
  from this[OF chars_scalar, of s] assms show ?thesis by (simp add: whole_chars_def)
qed

lemma cell_text_append: "whole_chars s \<Longrightarrow> cell_text (s @ t) = cell_text s @ cell_text t"
  by (simp add: cell_text_def chars_append)

lemma append_delta_append:
  assumes "whole_chars a"
  shows "append_delta b k (append_delta a k t) = append_delta (a @ b) k t"
proof (cases "a = [] \<or> b = []")
  case True
  then show ?thesis by (auto simp: append_delta_def)
next
  case False
  have both: "cell_text (a @ b) = cell_text a @ cell_text b" using assms by (rule cell_text_append)
  show ?thesis
    using False both by (simp add: append_delta_def push_entry_def Let_def)
qed

lemma append_deltas: "list_all whole_chars ds \<Longrightarrow> fold (\<lambda>d. append_delta d k) ds t = append_delta (concat ds) k t"
  by (induction ds arbitrary: t) (simp_all add: append_delta_append append_delta_def[of "[]"])

text \<open>
  Streaming does not show: a text that arrives in any number of deltas, empty ones among them, leaves
  the transcript the whole text at once would have left, the answer and the reasoning alike.
\<close>

lemma tui_streams:
  assumes "list_all whole_chars deltas"
  shows "fold (\<lambda>d. tui_event (EvText d :: 'v agent_event)) deltas t = tui_event (EvText (concat deltas) :: 'v agent_event) t
    \<and> fold (\<lambda>d. tui_event (EvThinking d :: 'v agent_event)) deltas t
        = tui_event (EvThinking (concat deltas) :: 'v agent_event) t"
proof -
  have off: "fold (\<lambda>d. tui_event (EvThinking d :: 'v agent_event)) deltas t = t" if "tx_reasoning t \<noteq> Shown"
    using that by (induction deltas) (simp_all add: tui_event_def)
  have kept: "tx_reasoning (append_delta d k t) = tx_reasoning t" for d k t
    by (simp add: append_delta_def push_entry_def Let_def)
  have on: "fold (\<lambda>d. tui_event (EvThinking d :: 'v agent_event)) ds t = fold (\<lambda>d. append_delta d KReasoning) ds t"
    if "tx_reasoning t = Shown" for ds t
    using that by (induction ds arbitrary: t) (simp_all add: tui_event_def kept)
  have said: "fold (\<lambda>d. tui_event (EvText d :: 'v agent_event)) ds t = fold (\<lambda>d. append_delta d KAnswer) ds t" for ds t
    by (rule arg_cong[of _ _ "\<lambda>f. fold f ds t"], rule ext) (simp add: tui_event_def fun_eq_iff)
  show ?thesis
    unfolding said using append_deltas[OF assms] off on[of t deltas] by (cases "tx_reasoning t = Shown") (simp_all add: tui_event_def)
qed

lemma tui_streams_witness:
  "fold (\<lambda>d. tui_event (EvText d :: unit agent_event)) [''so'', [], ''me''] (tui_new ''hi'' Hidden)
     = tui_event (EvText ''some'' :: unit agent_event) (tui_new ''hi'' Hidden)"
proof -
  have "list_all whole_chars [''so'', [], ''me'']" by code_simp
  from conjunct1[OF tui_streams[OF this, where t = "tui_new ''hi'' Hidden" and 'v = unit]] show ?thesis by simp
qed

end
