(* ===== verification/Render.thy ===== *)
theory Render
  imports Wrap_Up Tui_Transcript
begin

text \<open>
  Where a turn's output goes (\<open>agent_render.rs\<close>): the answer on stdout, everything about it on stderr.
  The renderer is a record, its two writers the fields of \<open>render_os\<close>: a write to stdout is flushed
  and may fail, one to stderr is dropped when it does. What it writes is related to the text the
  model streamed at the end.
\<close>

section \<open>The renderer (agent_render.rs)\<close>

definition EXIT_INCOMPLETE :: int where "EXIT_INCOMPLETE = 2"
definition NO_CONSENT :: int where "NO_CONSENT = 3"

datatype answer_kind = Whole | Truncated

definition answer_of :: "stop_reason option \<Rightarrow> answer_kind" where
  "answer_of round_stop = (if round_stop = Some MaxTokens then Truncated else Whole)"

record 'w render_os =
  rs_out :: "string \<Rightarrow> ('w, io_error, unit) io"
  rs_err :: "string \<Rightarrow> 'w \<Rightarrow> 'w"

record render =
  rn_mid_line :: bool
  rn_wrote :: bool
  rn_separating :: bool
  rn_reasoning :: reasoning
  rn_thinking_mid_line :: bool
  rn_err_device :: sink
  rn_failed :: "io_error option"

definition render_new :: "reasoning \<Rightarrow> sink \<Rightarrow> render" where
  "render_new reasoning device =
     \<lparr>rn_mid_line = False, rn_wrote = False, rn_separating = False, rn_reasoning = reasoning,
      rn_thinking_mid_line = False, rn_err_device = device, rn_failed = None\<rparr>"

definition separate :: "render \<Rightarrow> render" where
  "separate r = r\<lparr>rn_separating := rn_wrote r\<rparr>"

definition render_put :: "'w render_os \<Rightarrow> string \<Rightarrow> 'w \<times> render \<Rightarrow> 'w \<times> render" where
  "render_put os bytes wr = (case wr of (w, r) \<Rightarrow> (rs_err os bytes w, r))"

definition render_note :: "'w render_os \<Rightarrow> string \<Rightarrow> 'w \<times> render \<Rightarrow> 'w \<times> render" where
  "render_note os line wr = render_put os (account (rn_err_device (snd wr)) line) wr"

definition end_thinking_line :: "'w render_os \<Rightarrow> 'w \<times> render \<Rightarrow> 'w \<times> render" where
  "end_thinking_line os wr =
     (case wr of (w, r) \<Rightarrow>
        let was = rn_thinking_mid_line r; r = r\<lparr>rn_thinking_mid_line := False\<rparr>
        in if was then render_put os [nl] (w, r) else (w, r))"

definition render_write :: "'w render_os \<Rightarrow> string \<Rightarrow> 'w \<times> render \<Rightarrow> 'w \<times> render" where
  "render_write os bytes wr =
     (case wr of (w, r) \<Rightarrow>
        if rn_failed r \<noteq> None then (w, r)
        else (case rs_out os bytes w of
            (Inl e, w1) \<Rightarrow> (w1, r\<lparr>rn_failed := Some e\<rparr>)
          | (Inr _, w1) \<Rightarrow> (w1, r\<lparr>rn_wrote := rn_wrote r \<or> bytes \<noteq> []\<rparr>)))"

definition render_text :: "'w render_os \<Rightarrow> string \<Rightarrow> 'w \<times> render \<Rightarrow> 'w \<times> render" where
  "render_text os delta wr =
     (let wr = (if delta \<noteq> [] then end_thinking_line os wr else wr);
          (w, r) = wr;
          wr = (if delta \<noteq> [] \<and> rn_separating r
                then render_write os (if rn_mid_line r then [nl, nl] else [nl]) (w, r\<lparr>rn_separating := False\<rparr>)
                else (w, r));
          (w, r) = render_write os delta wr
      in (w, if delta \<noteq> [] then r\<lparr>rn_mid_line := (last delta \<noteq> nl)\<rparr> else r))"

definition render_thinking :: "'w render_os \<Rightarrow> string \<Rightarrow> 'w \<times> render \<Rightarrow> 'w \<times> render" where
  "render_thinking os delta wr =
     (case wr of (w, r) \<Rightarrow>
        if rn_reasoning r = Shown \<and> delta \<noteq> []
        then (let shown = inert delta; (w, r) = render_put os shown (w, r)
              in (w, r\<lparr>rn_thinking_mid_line := (shown = [] \<or> last shown \<noteq> nl)\<rparr>))
        else (w, r))"

definition render_event :: "'w render_os \<Rightarrow> 'v agent_event \<Rightarrow> 'w \<times> render \<Rightarrow> 'w \<times> render" where
  "render_event os event wr =
     (case event of
        EvText delta \<Rightarrow> render_text os delta wr
      | EvThinking delta \<Rightarrow> render_thinking os delta wr
      | EvStop _ \<Rightarrow> end_thinking_line os wr
      | _ \<Rightarrow> wr)"

definition rounds_line :: "nat \<Rightarrow> string \<Rightarrow> string" where
  "rounds_line n what = ''sandbx: stopped after '' @ dec_nat n @ '' rounds of tool calls; '' @ what"

definition finish_line :: "unfinished \<Rightarrow> string option" where
  "finish_line ending =
     (case ending of
        CutShort n \<Rightarrow> Some (rounds_line n ''raise --max-rounds to let the turn go further'')
      | Summarised n \<Rightarrow>
          Some (rounds_line n ''the answer above summarises what was found, and raising --max-rounds would let the turn go further'')
      | Discarded n \<Rightarrow>
          Some (rounds_line n (''nothing on stdout is an answer, and what followed the cap was not saved either ''
            @ em_dash @ '' raising --max-rounds would let the turn go further''))
      | UnfAborted \<Rightarrow> None)"

definition ABORTED_LINE :: string where
  "ABORTED_LINE = ''sandbx: `--approve call` could no longer ask on this terminal, so the turn stopped where it was asked; that call and every call behind it were refused, nothing after them ran, and no further request was sent''"

definition TRUNCATED_LINE :: string where "TRUNCATED_LINE = ''sandbx: answer truncated at --max-tokens''"

text \<open>\<open>finish\<close>: the exit code, or the write to stdout that failed.\<close>

definition render_finish ::
  "'w render_os \<Rightarrow> unfinished option \<Rightarrow> answer_kind \<Rightarrow> 'w \<times> render \<Rightarrow> (io_error + int) \<times> ('w \<times> render)" where
  "render_finish os ending answer wr =
     (let wr = end_thinking_line os wr;
          wr = (if rn_mid_line (snd wr) then render_write os [nl] wr else wr);
          wr = (if ending = Some UnfAborted then render_note os ABORTED_LINE wr else wr)
      in case rn_failed (snd wr) of
           Some e \<Rightarrow> (Inl e, apsnd (\<lambda>r. r\<lparr>rn_failed := None\<rparr>) wr)
         | None \<Rightarrow>
             (let wr = (if answer = Truncated then render_note os TRUNCATED_LINE wr else wr);
                  wr = (case Option.bind ending finish_line of Some line \<Rightarrow> render_note os line wr | None \<Rightarrow> wr)
              in (Inr (if ending = Some UnfAborted then NO_CONSENT
                       else if ending \<noteq> None \<or> answer = Truncated then EXIT_INCOMPLETE else 0), wr)))"

section \<open>What reaches stdout and stderr\<close>

datatype render_event_log = ROut string bool | RErr string

definition watched_render :: "'w render_os \<Rightarrow> ('w \<times> render_event_log list) render_os" where
  "watched_render os = \<lparr>
     rs_out = (\<lambda>bytes. noting (\<lambda>r. ROut bytes (\<not> isl r)) (rs_out os bytes)),
     rs_err = (\<lambda>bytes (w, l). (rs_err os bytes w, l @ [RErr bytes]))\<rparr>"

lemma watched_render_simps [simp]:
  "rs_out (watched_render os) bytes (w, l) = (case rs_out os bytes w of (r, w') \<Rightarrow> (r, (w', l @ [ROut bytes (\<not> isl r)])))"
  "rs_err (watched_render os) bytes (w, l) = (rs_err os bytes w, l @ [RErr bytes])"
  by (simp_all add: watched_render_def noting_def)

fun out_bytes :: "render_event_log list \<Rightarrow> string" where
  "out_bytes [] = []"
| "out_bytes (ROut bytes True # es) = bytes @ out_bytes es"
| "out_bytes (_ # es) = out_bytes es"

lemma out_bytes_append [simp]: "out_bytes (es @ fs) = out_bytes es @ out_bytes fs"
  by (induction es rule: out_bytes.induct) simp_all

text \<open>The text of a list of events.\<close>

fun event_text :: "'v agent_event \<Rightarrow> string" where
  "event_text (EvText delta) = delta"
| "event_text _ = []"

text \<open>
  What should be there: the text of the turn, the text of its wrap-up round behind one blank line where
  both said something, and a line break at the end where the model left none.
\<close>

definition gap :: "string \<Rightarrow> string \<Rightarrow> string" where
  "gap a b = (if a = [] \<or> b = [] then [] else if last a = nl then [nl] else [nl, nl])"

definition spoken :: "string \<Rightarrow> string \<Rightarrow> string" where
  "spoken a b = a @ gap a b @ b"

definition closed_off :: "string \<Rightarrow> string" where
  "closed_off s = s @ (if s \<noteq> [] \<and> last s \<noteq> nl then [nl] else [])"

definition starts :: "string \<Rightarrow> string \<Rightarrow> bool" where
  "starts s t \<longleftrightarrow> (\<exists>rest. t = s @ rest)"

lemma startsI [intro]: "starts s (s @ t)"
  by (auto simp: starts_def)

lemma starts_refl [simp]: "starts s s"
  by (simp add: starts_def)

lemma starts_trans [trans]: "starts s t \<Longrightarrow> starts t u \<Longrightarrow> starts s u"
  by (auto simp: starts_def)

lemma spoken_simps [simp]: "spoken a [] = a" "spoken [] b = b"
  by (simp_all add: spoken_def gap_def)

lemma last_spoken: "spoken a b \<noteq> [] \<Longrightarrow> last (spoken a b) = last (a @ b)"
  by (auto simp: spoken_def gap_def)

lemma spoken_Nil_iff: "spoken a b = [] \<longleftrightarrow> a @ b = []"
  by (auto simp: spoken_def gap_def)

lemma spoken_grows: "starts (spoken a b) (spoken a (b @ d))"
  by (auto simp: spoken_def gap_def starts_def)

lemma spoken_more: "b \<noteq> [] \<Longrightarrow> spoken a (b @ d) = spoken a b @ d"
  by (simp add: spoken_def gap_def)

text \<open>The renderer has written \<open>a\<close>, and past the separation \<open>b\<close>; a failed one, some beginning of that.\<close>

definition said_so_far :: "string \<Rightarrow> string \<Rightarrow> bool \<Rightarrow> render \<Rightarrow> render_event_log list \<Rightarrow> bool" where
  "said_so_far a b sep r l \<longleftrightarrow>
     (\<not> sep \<longrightarrow> b = []) \<and> starts (out_bytes l) (spoken a b)
     \<and> (rn_failed r = None \<longrightarrow> out_bytes l = spoken a b
          \<and> rn_wrote r = (a @ b \<noteq> [])
          \<and> rn_mid_line r = (a @ b \<noteq> [] \<and> last (a @ b) \<noteq> nl)
          \<and> rn_separating r = (sep \<and> a \<noteq> [] \<and> b = []))"

text \<open>The lines that say how the turn ended.\<close>

definition closing_lines :: "unfinished option \<Rightarrow> answer_kind \<Rightarrow> string list" where
  "closing_lines ending answer =
     (if ending = Some UnfAborted then [ABORTED_LINE] else [])
     @ (if answer = Truncated then [TRUNCATED_LINE] else [])
     @ (case Option.bind ending finish_line of Some line \<Rightarrow> [line] | None \<Rightarrow> [])"

text \<open>What may reach stderr: a line break, one of those lines, reasoning where it was asked for.\<close>

record told =
  tl_device :: sink
  tl_reasoning :: reasoning
  tl_thoughts :: "string set"
  tl_lines :: "string list"

definition err_may :: "told \<Rightarrow> string \<Rightarrow> bool" where
  "err_may td s \<longleftrightarrow>
     s = [nl] \<or> s \<in> account (tl_device td) ` set (tl_lines td)
     \<or> tl_reasoning td = Shown \<and> s \<in> inert ` tl_thoughts td"

definition telling ::
  "told \<Rightarrow> string \<Rightarrow> string \<Rightarrow> bool \<Rightarrow> ('w \<times> render_event_log list) \<times> render \<Rightarrow> bool" where
  "telling td a b sep wr \<longleftrightarrow>
     said_so_far a b sep (snd wr) (snd (fst wr))
     \<and> rn_err_device (snd wr) = tl_device td \<and> rn_reasoning (snd wr) = tl_reasoning td
     \<and> (\<forall>s. RErr s \<in> set (snd (fst wr)) \<longrightarrow> err_may td s)"

lemma telling_put:
  "telling td a b sep wr \<Longrightarrow> err_may td s
    \<Longrightarrow> telling td a b sep (render_put (watched_render os) s wr)"
  by (auto simp: telling_def render_put_def said_so_far_def split: prod.splits)

lemma telling_note:
  "telling td a b sep wr \<Longrightarrow> line \<in> set (tl_lines td) \<Longrightarrow> telling td a b sep (render_note (watched_render os) line wr)"
  unfolding render_note_def by (rule telling_put) (auto simp: telling_def err_may_def)

lemma telling_thinking_flag:
  "telling td a b sep (w, r\<lparr>rn_thinking_mid_line := x\<rparr>) = telling td a b sep (w, r)"
  by (simp add: telling_def said_so_far_def)

lemma telling_end_thinking:
  assumes "telling td a b sep wr"
  shows "telling td a b sep (end_thinking_line (watched_render os) wr)
    \<and> rn_failed (snd (end_thinking_line (watched_render os) wr)) = rn_failed (snd wr)"
proof -
  obtain w r where wr: "wr = (w, r)" by (cases wr)
  with assms have "telling td a b sep (w, r\<lparr>rn_thinking_mid_line := False\<rparr>)"
    by (simp add: telling_thinking_flag)
  from this telling_put[OF this, of "[nl]" os] wr show ?thesis
    by (auto simp: end_thinking_line_def Let_def err_may_def render_put_def)
qed

text \<open>A write to stdout: whole where it succeeds, and the last where it fails.\<close>

lemma render_write_cases:
  obtains "rn_failed r \<noteq> None" "render_write (watched_render os) bytes ((w, l), r) = ((w, l), r)"
  | w' where "rn_failed r = None" "render_write (watched_render os) bytes ((w, l), r)
      = ((w', l @ [ROut bytes True]), r\<lparr>rn_wrote := rn_wrote r \<or> bytes \<noteq> []\<rparr>)"
  | w' e where "rn_failed r = None"
      "render_write (watched_render os) bytes ((w, l), r) = ((w', l @ [ROut bytes False]), r\<lparr>rn_failed := Some e\<rparr>)"
proof (cases "rn_failed r")
  case (Some e)
  then show ?thesis using that(1) by (simp add: render_write_def)
next
  case None
  obtain res w1 where out: "rs_out os bytes w = (res, w1)" by force
  show ?thesis
  proof (cases res)
    case (Inl e)
    with None out that(3) show ?thesis by (simp add: render_write_def)
  next
    case (Inr u)
    with None out that(2) show ?thesis by (simp add: render_write_def)
  qed
qed

text \<open>One write of what belongs next: the renderer stays on its text, or has failed within it.\<close>

definition wrote_next :: "string \<Rightarrow> string \<Rightarrow> render_event_log list \<Rightarrow> render \<Rightarrow> render_event_log list \<Rightarrow> render \<Rightarrow> bool" where
  "wrote_next t bytes l r l' r' \<longleftrightarrow>
     starts (out_bytes l') (t @ bytes)
     \<and> (rn_failed r' = None \<longrightarrow> rn_failed r = None \<and> out_bytes l' = t @ bytes \<and> rn_wrote r' = (rn_wrote r \<or> bytes \<noteq> []))
     \<and> (rn_failed r \<noteq> None \<longrightarrow> rn_failed r' \<noteq> None \<and> out_bytes l' = out_bytes l)
     \<and> rn_mid_line r' = rn_mid_line r \<and> rn_separating r' = rn_separating r
     \<and> rn_err_device r' = rn_err_device r \<and> rn_reasoning r' = rn_reasoning r
     \<and> (\<forall>s. RErr s \<in> set l' \<longrightarrow> RErr s \<in> set l)"

lemma render_write_next:
  assumes "starts (out_bytes l) t" "rn_failed r = None \<longrightarrow> out_bytes l = t"
  shows "\<exists>w' l' r'. render_write (watched_render os) bytes ((w, l), r) = ((w', l'), r') \<and> wrote_next t bytes l r l' r'"
proof (rule render_write_cases[of r os bytes w l])
  assume failed: "rn_failed r \<noteq> None" and wrote: "render_write (watched_render os) bytes ((w, l), r) = ((w, l), r)"
  have "starts (out_bytes l) (t @ bytes)" using assms(1) starts_trans by blast
  with failed have "wrote_next t bytes l r l r" by (auto simp: wrote_next_def)
  with wrote show ?thesis by blast
next
  fix w' assume "rn_failed r = None" and wrote: "render_write (watched_render os) bytes ((w, l), r)
      = ((w', l @ [ROut bytes True]), r\<lparr>rn_wrote := rn_wrote r \<or> bytes \<noteq> []\<rparr>)"
  with assms have "wrote_next t bytes l r (l @ [ROut bytes True]) (r\<lparr>rn_wrote := rn_wrote r \<or> bytes \<noteq> []\<rparr>)"
    by (simp add: wrote_next_def)
  with wrote show ?thesis by blast
next
  fix w' e assume "rn_failed r = None" and wrote:
    "render_write (watched_render os) bytes ((w, l), r) = ((w', l @ [ROut bytes False]), r\<lparr>rn_failed := Some e\<rparr>)"
  with assms have "wrote_next t bytes l r (l @ [ROut bytes False]) (r\<lparr>rn_failed := Some e\<rparr>)"
    by (simp add: wrote_next_def startsI)
  with wrote show ?thesis by blast
qed

text \<open>What the text owes: the blank line a wrap-up round's first text waits behind.\<close>

definition pause_of :: "string \<Rightarrow> render \<Rightarrow> string" where
  "pause_of delta r = (if delta \<noteq> [] \<and> rn_separating r then if rn_mid_line r then [nl, nl] else [nl] else [])"

definition paused :: "'w render_os \<Rightarrow> string \<Rightarrow> 'w \<times> render \<Rightarrow> 'w \<times> render" where
  "paused os delta wr =
     (if delta \<noteq> [] \<and> rn_separating (snd wr)
      then render_write os (pause_of delta (snd wr)) (fst wr, snd wr\<lparr>rn_separating := False\<rparr>) else wr)"

lemma render_text_paused:
  "render_text os delta wr =
     (let wr0 = (if delta \<noteq> [] then end_thinking_line os wr else wr)
      in apsnd (\<lambda>r. if delta \<noteq> [] then r\<lparr>rn_mid_line := (last delta \<noteq> nl)\<rparr> else r) (render_write os delta (paused os delta wr0)))"
  by (cases "render_write os delta (paused os delta (if delta \<noteq> [] then end_thinking_line os wr else wr))")
    (auto simp: render_text_def Let_def paused_def pause_of_def split: prod.splits)

definition paused_next :: "string \<Rightarrow> string \<Rightarrow> render_event_log list \<Rightarrow> render \<Rightarrow> render_event_log list \<Rightarrow> render \<Rightarrow> bool" where
  "paused_next t delta l r l' r' \<longleftrightarrow>
     wrote_next t (pause_of delta r) l (r\<lparr>rn_separating := rn_separating r \<and> delta = []\<rparr>) l' r'"

lemma paused_writes:
  assumes "starts (out_bytes l) t" "rn_failed r = None \<longrightarrow> out_bytes l = t"
  shows "\<exists>w' l' r'. paused (watched_render os) delta ((w, l), r) = ((w', l'), r') \<and> paused_next t delta l r l' r'"
proof (cases "delta \<noteq> [] \<and> rn_separating r")
  case True
  have "rn_failed (r\<lparr>rn_separating := False\<rparr>) = None \<longrightarrow> out_bytes l = t" using assms(2) by simp
  from render_write_next[OF assms(1) this, of os "pause_of delta r" w] True show ?thesis
    by (simp add: paused_def paused_next_def)
next
  case False
  then have "pause_of delta r = []" "r\<lparr>rn_separating := rn_separating r \<and> delta = []\<rparr> = r"
    by (cases r, auto simp: pause_of_def)
  with assms have "paused_next t delta l r l r" by (auto simp: paused_next_def wrote_next_def)
  with False show ?thesis by (auto simp: paused_def)
qed

lemma spoken_next:
  assumes "if sep then a' = a \<and> b' = b @ delta else a' = a @ delta \<and> b' = []" "\<not> sep \<longrightarrow> b = []"
    and "rn_mid_line r = (a @ b \<noteq> [] \<and> last (a @ b) \<noteq> nl)" "rn_separating r = (sep \<and> a \<noteq> [] \<and> b = [])"
  shows "(spoken a b @ pause_of delta r) @ delta = spoken a' b'"
  using assms by (auto simp: pause_of_def spoken_def gap_def split: if_splits)

lemma telling_text:
  assumes tell: "telling td a b sep wr" and phase: "if sep then a' = a \<and> b' = b @ delta else a' = a @ delta \<and> b' = []"
  shows "telling td a' b' sep (render_text (watched_render os) delta wr)"
proof -
  let ?os = "watched_render os"
  define wr0 where "wr0 = (if delta \<noteq> [] then end_thinking_line ?os wr else wr)"
  have "telling td a b sep wr0"
    using telling_end_thinking[OF tell, of os] tell by (simp add: wr0_def)
  then obtain w l r where wr0: "wr0 = ((w, l), r)" and tell0: "telling td a b sep ((w, l), r)"
    by (cases wr0) auto
  from tell0 have now: "starts (out_bytes l) (spoken a b)" "rn_failed r = None \<longrightarrow> out_bytes l = spoken a b"
    and sep: "\<not> sep \<longrightarrow> b = []" and state: "rn_failed r = None \<longrightarrow> rn_wrote r = (a @ b \<noteq> [])
      \<and> rn_mid_line r = (a @ b \<noteq> [] \<and> last (a @ b) \<noteq> nl) \<and> rn_separating r = (sep \<and> a \<noteq> [] \<and> b = [])"
    by (auto simp: telling_def said_so_far_def)
  have grows: "starts (spoken a b) (spoken a' b')"
    using phase sep spoken_grows[of a b delta] by (auto split: if_splits)
  obtain w1 l1 r1 where p1: "paused ?os delta ((w, l), r) = ((w1, l1), r1)" and n1: "paused_next (spoken a b) delta l r l1 r1"
    using paused_writes[OF now, of os delta w] by blast
  let ?t = "spoken a b @ pause_of delta r"
  from n1 have at: "starts (out_bytes l1) ?t" "rn_failed r1 = None \<longrightarrow> out_bytes l1 = ?t"
    by (simp_all add: paused_next_def wrote_next_def)
  obtain w2 l2 r2 where p2: "render_write ?os delta ((w1, l1), r1) = ((w2, l2), r2)" and n2: "wrote_next ?t delta l1 r1 l2 r2"
    using render_write_next[OF at, of os delta w1] by blast
  have said: "render_text ?os delta wr = ((w2, l2), if delta \<noteq> [] then r2\<lparr>rn_mid_line := (last delta \<noteq> nl)\<rparr> else r2)"
    using p1 p2 wr0 by (simp add: render_text_paused wr0_def Let_def)
  have stderr: "\<forall>s. RErr s \<in> set l2 \<longrightarrow> err_may td s" "rn_err_device r2 = tl_device td" "rn_reasoning r2 = tl_reasoning td"
    using tell0 n1 n2 by (auto simp: telling_def paused_next_def wrote_next_def)
  have out: "starts (out_bytes l2) (spoken a' b')"
  proof (cases "rn_failed r")
    case None
    with state spoken_next[OF phase sep] n2 show ?thesis by (simp add: wrote_next_def)
  next
    case (Some e)
    with n1 n2 have "out_bytes l2 = out_bytes l" by (simp add: paused_next_def wrote_next_def)
    with now(1) grows show ?thesis using starts_trans by auto
  qed
  show ?thesis
  proof (cases "rn_failed r2")
    case None
    with n1 n2 have ok: "rn_failed r1 = None" "rn_failed r = None" by (auto simp: paused_next_def wrote_next_def)
    with state spoken_next[OF phase sep] have all: "?t @ delta = spoken a' b'" by simp
    from ok n1 n2 None have bytes: "out_bytes l2 = ?t @ delta"
      "rn_wrote r2 = (rn_wrote r \<or> pause_of delta r \<noteq> [] \<or> delta \<noteq> [])" "rn_mid_line r2 = rn_mid_line r"
      "rn_separating r2 = (rn_separating r \<and> delta = [])"
      by (auto simp: paused_next_def wrote_next_def)
    have wrote: "rn_wrote r2 = (a' @ b' \<noteq> [])" "rn_separating r2 = (sep \<and> a' \<noteq> [] \<and> b' = [])"
      using bytes state ok phase sep by (auto simp: pause_of_def split: if_splits)
    have "said_so_far a' b' sep (if delta \<noteq> [] then r2\<lparr>rn_mid_line := (last delta \<noteq> nl)\<rparr> else r2) l2"
    proof (cases "delta = []")
      case True
      with phase sep have "a' = a" "b' = b" by (auto split: if_splits)
      moreover have "out_bytes l2 = spoken a' b'" "rn_mid_line r2 = (a @ b \<noteq> [] \<and> last (a @ b) \<noteq> nl)"
        using bytes(1,3) all state ok by simp_all
      ultimately show ?thesis using True sep wrote by (simp add: said_so_far_def)
    next
      case False
      with phase sep have "a' @ b' \<noteq> []" "last (a' @ b') = last delta" "\<not> sep \<longrightarrow> b' = []" by (auto split: if_splits)
      moreover have "out_bytes l2 = spoken a' b'" using bytes(1) all by simp
      ultimately show ?thesis using False wrote by (simp add: said_so_far_def)
    qed
    with stderr show ?thesis unfolding said telling_def by simp
  next
    case (Some e)
    with out stderr phase sep show ?thesis
      unfolding said telling_def said_so_far_def by (auto split: if_splits)
  qed
qed


lemma telling_thinking:
  assumes "telling td a b sep wr" "delta \<in> tl_thoughts td"
  shows "telling td a b sep (render_thinking (watched_render os) delta wr)"
proof -
  obtain w r where wr: "wr = (w, r)" by (cases wr)
  have shown: "telling td a b sep (render_put (watched_render os) (inert delta) (w, r))"
    if "tl_reasoning td = Shown"
    using telling_put[OF assms(1)] that assms(2) wr by (simp add: err_may_def)
  have "rn_reasoning r = tl_reasoning td" using assms(1) wr by (simp add: telling_def)
  with shown assms(1) wr show ?thesis
    by (simp add: render_thinking_def render_put_def Let_def telling_thinking_flag)
qed

lemma telling_event:
  assumes "telling td a b sep wr"
    and "\<forall>delta. event = EvThinking delta \<longrightarrow> delta \<in> tl_thoughts td"
  shows "telling td (if sep then a else a @ event_text event) (if sep then b @ event_text event else b) sep
    (render_event (watched_render os) event wr)"
proof (cases event)
  case (EvText delta)
  have "\<not> sep \<longrightarrow> b = []" using assms(1) by (simp add: telling_def said_so_far_def)
  then show ?thesis using telling_text[OF assms(1), of _ _ delta os] EvText by (simp add: render_event_def)
next
  case (EvThinking delta)
  with assms(2) telling_thinking[OF assms(1)] show ?thesis by (cases sep) (simp_all add: render_event_def)
next
  case (EvStop stop)
  with telling_end_thinking[OF assms(1)] show ?thesis by (cases sep) (simp_all add: render_event_def)
qed (use assms(1) in \<open>cases sep; simp add: render_event_def\<close>)+


fun thought :: "'v agent_event \<Rightarrow> string set" where
  "thought (EvThinking delta) = {delta}"
| "thought _ = {}"

lemma telling_events:
  assumes "telling td a b sep wr" "\<forall>e \<in> set es. thought e \<subseteq> tl_thoughts td"
  shows "telling td (if sep then a else a @ concat (map event_text es))
    (if sep then b @ concat (map event_text es) else b) sep (fold (render_event (watched_render os)) es wr)"
  using assms
proof (induction es arbitrary: a b wr)
  case Nil
  then show ?case by (cases sep) simp_all
next
  case (Cons e es)
  have "telling td (if sep then a else a @ event_text e) (if sep then b @ event_text e else b) sep
    (render_event (watched_render os) e wr)"
    by (rule telling_event[OF Cons.prems(1)]) (use Cons.prems(2) in auto)
  from Cons.IH[OF this] Cons.prems(2) show ?case by (cases sep) simp_all
qed

lemma telling_new: "telling \<lparr>tl_device = dev, tl_reasoning = rs, tl_thoughts = ts, tl_lines = ls\<rparr> [] [] False ((w, []), render_new rs dev)"
  by (simp add: telling_def said_so_far_def render_new_def)

lemma telling_separate: "telling td a [] False wr \<Longrightarrow> telling td a [] True (apsnd separate wr)"
  by (cases wr) (simp add: telling_def said_so_far_def separate_def)

text \<open>The last line break, and the lines behind it.\<close>

lemma telling_closed:
  fixes os :: "'w render_os"
  assumes tell: "telling td a b sep ((w, l), r)"
  defines "closed \<equiv> (if rn_mid_line r then render_write (watched_render os) [nl] ((w, l), r) else ((w, l), r))"
  shows "starts (out_bytes (snd (fst closed))) (closed_off (spoken a b))
    \<and> (rn_failed (snd closed) = None \<longrightarrow> out_bytes (snd (fst closed)) = closed_off (spoken a b))
    \<and> rn_err_device (snd closed) = rn_err_device r
    \<and> (\<forall>s. RErr s \<in> set (snd (fst closed)) \<longrightarrow> err_may td s)"
proof -
  from tell have now: "starts (out_bytes l) (spoken a b)" "rn_failed r = None \<longrightarrow> out_bytes l = spoken a b"
    and mid: "rn_failed r = None \<longrightarrow> rn_mid_line r = (spoken a b \<noteq> [] \<and> last (spoken a b) \<noteq> nl)"
    and errs: "\<forall>s. RErr s \<in> set l \<longrightarrow> err_may td s"
    by (auto simp: telling_def said_so_far_def spoken_Nil_iff last_spoken)
  have grows: "starts (spoken a b) (closed_off (spoken a b))" by (auto simp: closed_off_def)
  show ?thesis
  proof (cases "rn_mid_line r")
    case False
    then have "closed = ((w, l), r)" by (simp add: closed_def)
    moreover have "starts (out_bytes l) (closed_off (spoken a b))" using now(1) grows by (rule starts_trans)
    moreover have "rn_failed r = None \<longrightarrow> out_bytes l = closed_off (spoken a b)"
      using now(2) mid False by (auto simp: closed_off_def)
    ultimately show ?thesis using errs by simp
  next
    case True
    obtain w' l' r' where wrote: "render_write (watched_render os) [nl] ((w, l), r) = ((w', l'), r')"
      and n: "wrote_next (spoken a b) [nl] l r l' r'"
      using render_write_next[OF now, of os "[nl]" w] by blast
    have "starts (out_bytes l') (closed_off (spoken a b))"
    proof (cases "rn_failed r")
      case None
      with True mid n show ?thesis by (simp add: wrote_next_def closed_off_def)
    next
      case (Some e)
      with n have "out_bytes l' = out_bytes l" by (simp add: wrote_next_def)
      with now(1) grows show ?thesis using starts_trans by auto
    qed
    moreover have "rn_failed r' = None \<longrightarrow> out_bytes l' = closed_off (spoken a b)"
      using n True mid by (auto simp: wrote_next_def closed_off_def)
    moreover have "rn_err_device r' = rn_err_device r" "\<forall>s. RErr s \<in> set l' \<longrightarrow> err_may td s"
      using n errs by (auto simp: wrote_next_def)
    ultimately show ?thesis using True wrote by (simp add: closed_def)
  qed
qed


lemma render_note_watched:
  "render_note (watched_render os) line ((w, l), r)
    = ((rs_err os (account (rn_err_device r) line) w, l @ [RErr (account (rn_err_device r) line)]), r)"
  by (simp add: render_note_def render_put_def)

fun err_ok :: "told \<Rightarrow> render_event_log \<Rightarrow> bool" where
  "err_ok td (RErr s) = err_may td s"
| "err_ok td (ROut bytes ok) = True"

lemma err_ok_all: "(\<forall>s. RErr s \<in> set l \<longrightarrow> err_may td s) \<Longrightarrow> list_all (err_ok td) l"
  unfolding list_all_iff by (metis err_ok.elims(3))

lemma err_may_line: "line \<in> set (tl_lines td) \<Longrightarrow> err_may td (account (tl_device td) line)"
  by (simp add: err_may_def)

text \<open>The table of exit codes.\<close>

definition code_of :: "unfinished option \<Rightarrow> answer_kind \<Rightarrow> int" where
  "code_of ending answer =
     (case ending of Some UnfAborted \<Rightarrow> 3 | Some _ \<Rightarrow> 2 | None \<Rightarrow> if answer = Truncated then 2 else 0)"

definition closed_with :: "told \<Rightarrow> unfinished option \<Rightarrow> answer_kind \<Rightarrow> string \<Rightarrow> io_error + int \<Rightarrow> render_event_log list \<Rightarrow> bool" where
  "closed_with td ending answer answered result l \<longleftrightarrow>
     list_all (err_ok td) l
     \<and> (case result of
           Inl e \<Rightarrow> starts (out_bytes l) answered
             \<and> (if ending = Some UnfAborted then RErr (account (tl_device td) ABORTED_LINE) \<in> set l else True)
         | Inr code \<Rightarrow> out_bytes l = answered \<and> code = code_of ending answer
             \<and> list_all (\<lambda>line. RErr (account (tl_device td) line) \<in> set l) (closing_lines ending answer))"

lemma finish_closes:
  assumes tell: "telling td a b sep wr" and lines: "tl_lines td = closing_lines ending answer"
  shows "case render_finish (watched_render os) ending answer wr of (result, (w', l'), r') \<Rightarrow>
    closed_with td ending answer (closed_off (spoken a b)) result l'"
proof -
  let ?os = "watched_render os"
  obtain w l r where wr1: "end_thinking_line ?os wr = ((w, l), r)" by (metis prod.collapse)
  have tell1: "telling td a b sep ((w, l), r)"
    using telling_end_thinking[OF tell, of os] wr1 by simp
  define wr2 where "wr2 = (if rn_mid_line r then render_write ?os [nl] ((w, l), r) else ((w, l), r))"
  obtain w2 l2 r2 where wr2: "wr2 = ((w2, l2), r2)" by (metis prod.collapse)
  have closed: "starts (out_bytes l2) (closed_off (spoken a b))"
    "rn_failed r2 = None \<longrightarrow> out_bytes l2 = closed_off (spoken a b)"
    "rn_err_device r2 = tl_device td" "\<forall>s. RErr s \<in> set l2 \<longrightarrow> err_may td s"
    using telling_closed[OF tell1, of os] tell1 wr2 unfolding wr2_def by (auto simp: telling_def)
  have may: "err_may td (account (tl_device td) line)" if "line \<in> set (closing_lines ending answer)" for line
    by (rule err_may_line) (simp add: lines that)
  note kept = err_ok_all[OF closed(4)]
  show ?thesis
  proof (cases "rn_failed r2")
    case None
    with closed kept may show ?thesis
      unfolding render_finish_def closed_with_def wr1 Let_def snd_conv wr2_def[symmetric] wr2
      by (auto simp: render_note_watched closing_lines_def code_of_def NO_CONSENT_def EXIT_INCOMPLETE_def finish_line_def
          split: unfinished.splits option.splits)
  next
    case (Some e)
    with closed kept may show ?thesis
      unfolding render_finish_def closed_with_def wr1 Let_def snd_conv wr2_def[symmetric] wr2
      by (auto simp: render_note_watched closing_lines_def)
  qed
qed


end
