(* ===== verification/Bridge.thy ===== *)
theory Bridge
  imports Compact
begin

text \<open>
  The seam between a stored conversation and a request (crate \<open>sandbx-session-bridge\<close>): the
  translation of messages both ways, and the merge of a run of user messages with the
  translation of a compaction index between the two index spaces. Opening a session is in
  \<open>Store\<close>, with the store it drives.
\<close>

section \<open>Messages\<close>

fun request_block :: "'v content \<Rightarrow> 'v content_block" where
  "request_block (StoredText t) = Text t"
| "request_block (StoredToolUse i n v) = ToolUse i n v"
| "request_block (StoredToolResult i c e) = ToolResult i c e"

fun request_role :: "stored_role \<Rightarrow> role" where
  "request_role StoredUser = User"
| "request_role StoredAssistant = Assistant"

definition request_history :: "'v message list \<Rightarrow> 'v request_message list" where
  "request_history stored =
     map (\<lambda>m. \<lparr>rm_role = request_role (sm_role m), rm_content = map request_block (sm_content m)\<rparr>)
       stored"

fun stored_block :: "'v content_block \<Rightarrow> 'v content option" where
  "stored_block (Text t) = Some (StoredText t)"
| "stored_block (ToolUse i n v) = Some (StoredToolUse i n v)"
| "stored_block (ToolResult i c e) = Some (StoredToolResult i c e)"
| "stored_block (Thinking _ _) = None"
| "stored_block (RedactedThinking _) = None"

fun stored_role_of :: "role \<Rightarrow> stored_role" where
  "stored_role_of User = StoredUser"
| "stored_role_of Assistant = StoredAssistant"

definition stored_message :: "'v request_message \<Rightarrow> 'v message" where
  "stored_message m =
     \<lparr>sm_role = stored_role_of (rm_role m), sm_content = List.map_filter stored_block (rm_content m)\<rparr>"

definition stored_messages :: "'v request_message list \<Rightarrow> 'v message list" where
  "stored_messages sent = filter (\<lambda>m. sm_content m \<noteq> []) (map stored_message sent)"

definition request_usage :: "usage \<Rightarrow> prompt_usage" where
  "request_usage s =
     \<lparr>input_tokens = us_input_tokens s,
      cache_read_tokens = us_cache_read_input_tokens s,
      cache_write_tokens = us_cache_creation_input_tokens s\<rparr>"

definition stored_usage :: "prompt_usage \<Rightarrow> usage" where
  "stored_usage o1 =
     \<lparr>us_input_tokens = input_tokens o1,
      us_cache_read_input_tokens = cache_read_tokens o1,
      us_cache_creation_input_tokens = cache_write_tokens o1\<rparr>"

section \<open>The note on resuming\<close>

definition resume_note :: "bool \<Rightarrow> stored_stop option \<Rightarrow> string option" where
  "resume_note pending stop =
     (if \<not> pending then None
      else Some (case stop of
          Some RoundLimit \<Rightarrow>
            ''its last turn ran out of rounds; this prompt goes to the model beside a tool call it never answered''
        | Some GateAborted \<Rightarrow>
            ''its last turn ended with no one left to approve a call; this prompt goes to the model beside a tool call it never answered''
        | Some Interrupted \<Rightarrow>
            ''its last turn was interrupted, and the round it stopped in is not stored, nor what any tool call in it did; this prompt goes to the model beside a tool call it never answered''
        | Some HungUp \<Rightarrow>
            ''its last turn stopped when its terminal went away, and the round it stopped in is not stored, nor what any tool call in it did; this prompt goes to the model beside a tool call it never answered''
        | _ \<Rightarrow>
            ''its last turn ends on a tool call the model never answered, and the transcript does not say why; this prompt goes to the model beside it''))"

section \<open>Merging runs of user messages\<close>

record 'v merge_state =
  mg_merged :: "'v request_message list"
  mg_opens :: "nat list"
  mg_floor :: nat

record 'v merged =
  mr_history :: "'v request_message list"
  mr_withheld :: nat
  mr_opens :: "nat list"
  mr_length :: nat

definition merge_step ::
  "nat \<Rightarrow> 'v merge_state \<Rightarrow> nat \<times> 'v request_message \<Rightarrow> 'v merge_state" where
  "merge_step withheld s im =
     (let index = fst im; msg = snd im;
          onto = (rm_role msg = User \<and>
                  (case last_opt (mg_merged s) of None \<Rightarrow> False | Some previous \<Rightarrow> rm_role previous = User));
          s = (if index = withheld
               then s\<lparr>mg_floor := length (mg_merged s) - (if onto then 1 else 0)\<rparr> else s)
      in case (last_opt (mg_merged s), last_opt (mg_opens s)) of
           (Some previous, Some opn) \<Rightarrow>
             if onto
             then s\<lparr>mg_opens := butlast (mg_opens s)
                        @ [if list_all is_tool_result (rm_content previous) then index else opn],
                    mg_merged := butlast (mg_merged s)
                        @ [previous\<lparr>rm_content := rm_content previous @ rm_content msg\<rparr>]\<rparr>
             else s\<lparr>mg_merged := mg_merged s @ [msg], mg_opens := mg_opens s @ [index]\<rparr>
         | _ \<Rightarrow> s\<lparr>mg_merged := mg_merged s @ [msg], mg_opens := mg_opens s @ [index]\<rparr>)"

definition merge_loop :: "nat \<Rightarrow> 'v request_message list \<Rightarrow> 'v merge_state" where
  "merge_loop withheld history =
     foldl (merge_step withheld) \<lparr>mg_merged = [], mg_opens = [], mg_floor = withheld\<rparr>
       (enumerate 0 history)"

definition merge_user_runs :: "'v request_message list \<Rightarrow> nat \<Rightarrow> 'v merged" where
  "merge_user_runs history withheld =
     (let s = merge_loop withheld history
      in \<lparr>mr_history = mg_merged s, mr_withheld = mg_floor s, mr_opens = mg_opens s,
          mr_length = length history\<rparr>)"

definition unmerged :: "'v merged \<Rightarrow> nat \<Rightarrow> nat" where
  "unmerged m withheld =
     (case get_at (mr_opens m) withheld of
        Some opn \<Rightarrow> if withheld = 0 then 0 else opn
      | None \<Rightarrow> mr_length m + (withheld - length (mr_opens m)))"

section \<open>Translation of messages\<close>

lemma stored_request_block [simp]: "stored_block (request_block b) = Some b"
  by (cases b) simp_all

lemma request_stored_block: "\<not> is_thinking b \<Longrightarrow> map_option request_block (stored_block b) = Some b"
  by (cases b) simp_all

lemma stored_role_request_role [simp]: "stored_role_of (request_role r) = r"
  by (cases r) simp_all

lemma request_role_stored_role [simp]: "request_role (stored_role_of r) = r"
  by (cases r) simp_all

lemma map_filter_request_block [simp]:
  "List.map_filter stored_block (map request_block bs) = bs"
  by (induction bs) (simp_all add: List.map_filter_simps)

lemma map_request_block_stored [simp]:
  "\<forall>b \<in> set bs. \<not> is_thinking b \<Longrightarrow> map request_block (List.map_filter stored_block bs) = bs"
proof (induction bs)
  case (Cons b bs)
  then have "\<not> is_thinking b" by simp
  with Cons show ?case by (cases b) (simp_all add: List.map_filter_simps)
qed (simp add: List.map_filter_simps)

text \<open>
  What a session stores comes back as it was sent: a request history with no reasoning block
  and no empty turn is unchanged by storing and reading it, and a stored history with no empty
  turn is unchanged by the way out and back.
\<close>

lemma stored_messages_roundtrip:
  "((\<forall>m \<in> set sent. rm_content m \<noteq> [] \<and> (\<forall>b \<in> set (rm_content m). \<not> is_thinking b))
      \<longrightarrow> request_history (stored_messages sent) = sent)
   \<and> ((\<forall>m \<in> set stored. sm_content m \<noteq> []) \<longrightarrow> stored_messages (request_history stored) = stored)"
proof (intro conjI impI)
  assume "\<forall>m \<in> set sent. rm_content m \<noteq> [] \<and> (\<forall>b \<in> set (rm_content m). \<not> is_thinking b)"
  then show "request_history (stored_messages sent) = sent"
  proof (induction sent)
    case (Cons m ms)
    then have "map request_block (List.map_filter stored_block (rm_content m)) = rm_content m"
      "rm_content m \<noteq> []" by simp_all
    moreover from this have "List.map_filter stored_block (rm_content m) \<noteq> []" by auto
    ultimately show ?case using Cons
      by (simp add: request_history_def stored_messages_def stored_message_def)
  qed (simp add: request_history_def stored_messages_def)
next
  assume "\<forall>m \<in> set stored. sm_content m \<noteq> []"
  then show "stored_messages (request_history stored) = stored"
    by (induction stored) (simp_all add: request_history_def stored_messages_def stored_message_def)
qed

lemma two_exchanges_prose:
  "\<forall>m \<in> set two_exchanges. rm_content m \<noteq> [] \<and> (\<forall>b \<in> set (rm_content m). \<not> is_thinking b)"
  by (simp add: two_exchanges_defs)

lemma stored_messages_roundtrip_witness:
  "request_history (stored_messages two_exchanges) = two_exchanges"
  using stored_messages_roundtrip[of two_exchanges] two_exchanges_prose by blast

section \<open>What the merge computes\<close>

text \<open>
  The specification of the loop: runs merged from the right, and the index each merged message
  opens at, its first part that is not all results (its last part when all are).
\<close>

fun merge_runs :: "'v request_message list \<Rightarrow> 'v request_message list" where
  "merge_runs [] = []"
| "merge_runs (m # ms) =
     (case merge_runs ms of
        [] \<Rightarrow> [m]
      | n # ns \<Rightarrow>
          if rm_role m = User \<and> rm_role n = User
          then m\<lparr>rm_content := rm_content m @ rm_content n\<rparr> # ns
          else m # n # ns)"

fun run_opens :: "nat \<Rightarrow> 'v request_message list \<Rightarrow> nat list" where
  "run_opens i [] = []"
| "run_opens i (m # ms) =
     (case run_opens (Suc i) ms of
        [] \<Rightarrow> [i]
      | j # js \<Rightarrow>
          if rm_role m = User \<and> rm_role (hd ms) = User
          then (if list_all is_tool_result (rm_content m) then j else i) # js
          else i # j # js)"

lemma merge_runs_Nil_iff [simp]: "merge_runs ms = [] \<longleftrightarrow> ms = []"
  by (cases ms) (auto split: list.splits)

lemma run_opens_Nil_iff [simp]: "run_opens i ms = [] \<longleftrightarrow> ms = []"
  by (cases ms) (auto split: list.splits)

lemma merge_runs_hd_role [simp]: "ms \<noteq> [] \<Longrightarrow> rm_role (hd (merge_runs ms)) = rm_role (hd ms)"
  by (cases ms) (auto split: list.splits)

lemma merge_runs_absorb:
  "rm_role p = User \<Longrightarrow> rm_role y = User \<Longrightarrow>
     merge_runs (p # y # ys) = merge_runs (p\<lparr>rm_content := rm_content p @ rm_content y\<rparr> # ys)"
  by (auto split: list.splits)

lemma merge_runs_separate:
  "\<not> (rm_role p = User \<and> ys \<noteq> [] \<and> rm_role (hd ys) = User) \<Longrightarrow> merge_runs (p # ys) = p # merge_runs ys"
  using merge_runs_hd_role[of ys]
  by (cases "ys = []") (auto split: list.splits simp del: merge_runs_hd_role)

lemma run_opens_separate:
  "\<not> (rm_role p = User \<and> ys \<noteq> [] \<and> rm_role (hd ys) = User) \<Longrightarrow>
     run_opens i (p # ys) = i # run_opens (Suc i) ys"
  by (auto split: list.splits)

lemma run_opens_absorb:
  "rm_role p = User \<Longrightarrow> ys \<noteq> [] \<Longrightarrow> rm_role (hd ys) = User \<Longrightarrow>
     run_opens i (p # ys) =
       (if list_all is_tool_result (rm_content p) then hd (run_opens (Suc i) ys) else i)
       # tl (run_opens (Suc i) ys)"
  by (auto split: list.splits)

declare merge_runs.simps(2) [simp del] run_opens.simps(2) [simp del]

lemma merge_runs_single [simp]: "merge_runs [p] = [p]" "run_opens i [p] = [i]"
  by (simp_all add: merge_runs_separate run_opens_separate)

text \<open>One pass of the loop from a state whose last message is \<open>p\<close>, opened at \<open>opn\<close>.\<close>

lemma merge_step_onto:
  "mg_merged s = A @ [p] \<Longrightarrow> mg_opens s = P @ [opn] \<Longrightarrow> rm_role p = User \<Longrightarrow> rm_role y = User \<Longrightarrow>
   merge_step w s (n, y) =
     \<lparr>mg_merged = A @ [p\<lparr>rm_content := rm_content p @ rm_content y\<rparr>],
      mg_opens = P @ [if list_all is_tool_result (rm_content p) then n else opn],
      mg_floor = (if n = w then length A else mg_floor s)\<rparr>"
  by (simp add: merge_step_def Let_def)

lemma merge_step_push:
  "\<not> (rm_role y = User \<and> mg_merged s \<noteq> [] \<and> rm_role (last (mg_merged s)) = User) \<Longrightarrow>
   merge_step w s (n, y) =
     \<lparr>mg_merged = mg_merged s @ [y], mg_opens = mg_opens s @ [n],
      mg_floor = (if n = w then length (mg_merged s) else mg_floor s)\<rparr>"
  by (cases "mg_merged s = []"; cases "mg_opens s = []") (auto simp: merge_step_def Let_def)

lemma loop_merged:
  assumes "mg_merged s = A @ [p]" "mg_opens s = P @ [opn]"
  shows "mg_merged (foldl (merge_step w) s (enumerate n ys)) = A @ merge_runs (p # ys)"
    and "mg_opens (foldl (merge_step w) s (enumerate n ys)) =
      P @ (if rm_role p = User \<and> ys \<noteq> [] \<and> rm_role (hd ys) = User
           then (if list_all is_tool_result (rm_content p) then hd (run_opens n ys) else opn)
                # tl (run_opens n ys)
           else opn # run_opens n ys)"
  using assms
proof (induction ys arbitrary: s A p P opn n)
  case Nil
  { case 1 then show ?case by simp }
  { case 2 then show ?case by simp }
next
  case (Cons y ys)
  let ?p' = "p\<lparr>rm_content := rm_content p @ rm_content y\<rparr>"
  show
    "mg_merged (foldl (merge_step w) s (enumerate n (y # ys))) = A @ merge_runs (p # y # ys)"
    if s: "mg_merged s = A @ [p]" "mg_opens s = P @ [opn]" for s A p P opn n
  proof (cases "rm_role p = User \<and> rm_role y = User")
    case True
    then show ?thesis
      using Cons.IH(1)[of "merge_step w s (n, y)" A
          "p\<lparr>rm_content := rm_content p @ rm_content y\<rparr>" P
          "if list_all is_tool_result (rm_content p) then n else opn" "Suc n"] s
      by (simp add: merge_step_onto merge_runs_absorb)
  next
    case False
    then show ?thesis
      using Cons.IH(1)[of "merge_step w s (n, y)" "A @ [p]" y "P @ [opn]" n "Suc n"] s
      by (auto simp: merge_step_push merge_runs_separate)
  qed
  show "mg_opens (foldl (merge_step w) s (enumerate n (y # ys))) =
      P @ (if rm_role p = User \<and> y # ys \<noteq> [] \<and> rm_role (hd (y # ys)) = User
           then (if list_all is_tool_result (rm_content p) then hd (run_opens n (y # ys)) else opn)
                # tl (run_opens n (y # ys))
           else opn # run_opens n (y # ys))"
    if s: "mg_merged s = A @ [p]" "mg_opens s = P @ [opn]" for s A p P opn n
  proof (cases "rm_role p = User \<and> rm_role y = User")
    case True
    then show ?thesis
      using Cons.IH(2)[of "merge_step w s (n, y)" A
          "p\<lparr>rm_content := rm_content p @ rm_content y\<rparr>" P _ "Suc n"] s
      by (cases "ys \<noteq> [] \<and> rm_role (hd ys) = User")
        (simp_all add: merge_step_onto run_opens_absorb run_opens_separate list_all_append)
  next
    case False
    then show ?thesis
      using Cons.IH(2)[of "merge_step w s (n, y)" "A @ [p]" y "P @ [opn]" n "Suc n"] s
      by (cases "rm_role y = User \<and> ys \<noteq> [] \<and> rm_role (hd ys) = User")
        (auto simp: merge_step_push run_opens_absorb run_opens_separate)
  qed
qed

lemma merge_loop_spec:
  "mg_merged (merge_loop w history) = merge_runs history"
  "mg_opens (merge_loop w history) = run_opens 0 history"
proof -
  show "mg_merged (merge_loop w history) = merge_runs history"
  proof (cases history)
    case (Cons m ms)
    then show ?thesis
      using loop_merged(1)[of "\<lparr>mg_merged = [m], mg_opens = [0], mg_floor = w\<rparr>" "[]" m "[]" 0 w 1 ms]
      by (cases "w = 0") (simp_all add: merge_loop_def merge_step_push)
  qed (simp add: merge_loop_def)
  show "mg_opens (merge_loop w history) = run_opens 0 history"
  proof (cases history)
    case (Cons m ms)
    have "run_opens 0 (m # ms) =
        (if rm_role m = User \<and> ms \<noteq> [] \<and> rm_role (hd ms) = User
         then (if list_all is_tool_result (rm_content m) then hd (run_opens 1 ms) else 0)
              # tl (run_opens 1 ms)
         else 0 # run_opens 1 ms)"
      by (simp add: run_opens_absorb run_opens_separate)
    with Cons show ?thesis
      using loop_merged(2)[of "\<lparr>mg_merged = [m], mg_opens = [0], mg_floor = w\<rparr>" "[]" m "[]" 0 w 1 ms]
      by (cases "w = 0") (simp_all add: merge_loop_def merge_step_push)
  qed (simp add: merge_loop_def)
qed

section \<open>The way back to the transcript\<close>

lemma merge_loop_snoc:
  "merge_loop w (xs @ [x]) = merge_step w (merge_loop w xs) (length xs, x)"
  by (simp add: merge_loop_def enumerate_append_eq)

lemma length_run_opens [simp]: "length (run_opens i ms) = length (merge_runs ms)"
proof (induction ms arbitrary: i)
  case (Cons m ms)
  show ?case
  proof (cases "rm_role m = User \<and> ms \<noteq> [] \<and> rm_role (hd ms) = User")
    case True
    then obtain n ns where "merge_runs ms = n # ns" "rm_role n = User"
      using merge_runs_hd_role[of ms] by (cases "merge_runs ms") auto
    with True Cons[of "Suc i"] show ?thesis by (simp add: run_opens_absorb merge_runs.simps)
  next
    case False
    with Cons[of "Suc i"] show ?thesis by (simp add: run_opens_separate merge_runs_separate)
  qed
qed simp

lemma merge_floor:
  "mg_floor (merge_step w s (n, x)) =
     (if n = w
      then length (mg_merged s)
        - (if rm_role x = User \<and> mg_merged s \<noteq> [] \<and> rm_role (last (mg_merged s)) = User
           then 1 else 0)
      else mg_floor s)"
  by (auto simp: merge_step_def Let_def last_opt_def split: option.splits)

lemma merge_loop_opens:
  assumes "c < length (run_opens 0 xs)"
  shows "run_opens 0 xs ! c < length xs \<and> mg_floor (merge_loop (run_opens 0 xs ! c) xs) = c"
  using assms
proof (induction xs rule: rev_induct)
  case (snoc x xs)
  let ?m = "merge_runs xs" and ?o = "run_opens 0 xs"
  let ?onto = "rm_role x = User \<and> ?m \<noteq> [] \<and> rm_role (last ?m) = User"
  have floor: "mg_floor (merge_loop w (xs @ [x])) =
      (if length xs = w then length ?m - (if ?onto then 1 else 0) else mg_floor (merge_loop w xs))"
    for w by (simp add: merge_loop_snoc merge_floor merge_loop_spec)
  have opens: "run_opens 0 (xs @ [x]) = mg_opens (merge_step 0 (merge_loop 0 xs) (length xs, x))"
    by (simp flip: merge_loop_spec(2)[of 0] add: merge_loop_snoc)
  have len: "length ?o = length ?m" by simp
  show ?case
  proof (cases ?onto)
    case True
    then have ne: "?o \<noteq> []" "?m \<noteq> []" by auto
    obtain o' where o': "run_opens 0 (xs @ [x]) = butlast ?o @ [o']"
      "o' = last ?o \<or> o' = length xs"
      using True ne by (auto simp: opens merge_step_def Let_def merge_loop_spec)
    show ?thesis
    proof (cases "c < length ?o - 1")
      case True
      with o'(1) have "run_opens 0 (xs @ [x]) ! c = ?o ! c" by (simp add: nth_append nth_butlast)
      moreover from True snoc.IH have "?o ! c < length xs" by simp
      ultimately show ?thesis using True snoc.IH by (simp add: floor)
    next
      case False
      with snoc.prems o'(1) ne have c: "c = length ?o - 1" by simp
      with o'(1) have "run_opens 0 (xs @ [x]) ! c = o'" by (simp add: nth_append)
      moreover have "last ?o = ?o ! c" using ne c by (simp add: last_conv_nth)
      moreover have "c < length ?o" using ne c by simp
      ultimately show ?thesis
        using o'(2) snoc.IH \<open>?onto\<close> c by (auto simp: floor)
    qed
  next
    case False
    then have o': "run_opens 0 (xs @ [x]) = ?o @ [length xs]"
      by (simp add: opens merge_step_push merge_loop_spec)
    show ?thesis
    proof (cases "c < length ?o")
      case True
      moreover from True snoc.IH have "?o ! c < length xs" by simp
      ultimately show ?thesis using snoc.IH by (simp add: o' nth_append floor)
    next
      case False
      with snoc.prems o' have "c = length ?o" by simp
      then have "(?o @ [length xs]) ! c = length xs" by (metis nth_append_length)
      with \<open>\<not> ?onto\<close> \<open>c = _\<close> show ?thesis by (auto simp: o' floor)
    qed
  qed
qed simp

text \<open>
  Translating a compaction index out to the transcript and back in is the identity: the
  figure \<open>unmerged\<close> stores for a cut onto a merged message is, on the next turn, merged to a
  cut onto that same message, and it names a message of the transcript.
\<close>

lemma unmerged_roundtrip:
  assumes "c < length (mr_history (merge_user_runs history w))"
  shows "mr_withheld (merge_user_runs history (unmerged (merge_user_runs history w) c)) = c
         \<and> unmerged (merge_user_runs history w) c < length history"
proof (cases "c = 0")
  case True
  with assms obtain m ms where h: "history = m # ms"
    by (cases history) (auto simp: merge_user_runs_def Let_def merge_loop_spec)
  have "mg_floor (foldl (merge_step 0) s (enumerate (Suc n) ms)) = mg_floor s" for s n
    by (induction ms arbitrary: s n) (simp_all add: merge_floor)
  then have "mg_floor (merge_loop 0 history) = 0"
    by (simp add: h merge_loop_def merge_step_push)
  with True assms show ?thesis
    by (auto simp: unmerged_def merge_user_runs_def Let_def merge_loop_spec get_at_def h)
next
  case False
  with assms merge_loop_opens[of c history] show ?thesis
    by (auto simp: unmerged_def merge_user_runs_def Let_def merge_loop_spec get_at_def)
qed

definition user_pair :: "'v request_message \<Rightarrow> 'v request_message \<Rightarrow> bool" where
  "user_pair a b = (rm_role a = User \<and> rm_role b = User)"

lemma merge_runs_no_pair: "successively (\<lambda>a b. \<not> user_pair a b) (merge_runs ms)"
proof (induction ms)
  case (Cons m ms)
  then show ?case
    by (cases "merge_runs ms")
      (auto simp: merge_runs.simps user_pair_def successively_Cons split: if_splits)
qed simp

lemma merge_runs_blocks:
  "concat (map rm_content (merge_runs ms)) = concat (map rm_content ms)"
proof (induction ms)
  case (Cons m ms)
  then show ?case by (cases "merge_runs ms") (auto simp: merge_runs.simps)
qed simp

lemma merge_runs_assistants:
  "filter (\<lambda>m. rm_role m = Assistant) (merge_runs ms) = filter (\<lambda>m. rm_role m = Assistant) ms"
proof (induction ms)
  case (Cons m ms)
  then show ?case by (cases "merge_runs ms") (auto simp: merge_runs.simps split: if_splits)
qed simp


section \<open>A cut onto a run names its prose\<close>

text \<open>
  The shape of a stored conversation, on requests: a turn is all results or carries none, and
  two user turns meet only as answers followed by prose.
\<close>

definition unmixed :: "'v request_message \<Rightarrow> bool" where
  "unmixed m \<longleftrightarrow> list_all is_tool_result (rm_content m) \<or> \<not> list_ex is_tool_result (rm_content m)"

definition may_follow :: "'v request_message \<Rightarrow> 'v request_message \<Rightarrow> bool" where
  "may_follow a b \<longleftrightarrow>
     rm_role a \<noteq> rm_role b
     \<or> rm_role a = User \<and> list_all is_tool_result (rm_content a)
       \<and> rm_content b \<noteq> [] \<and> \<not> list_ex is_tool_result (rm_content b)"

lemma without_results_unmixed:
  "unmixed m \<Longrightarrow> list_ex (\<lambda>b. \<not> is_tool_result b) (rm_content m) \<Longrightarrow> without_results m = m"
  by (auto simp: unmixed_def without_results_def list_ex_iff list_all_iff filter_id_conv)

lemma run_opens_ge: "x \<in> set (run_opens i ms) \<Longrightarrow> i \<le> x"
proof (induction ms arbitrary: i)
  case (Cons m ms)
  show ?case
  proof (cases "rm_role m = User \<and> ms \<noteq> [] \<and> rm_role (hd ms) = User")
    case True
    then have "hd (run_opens (Suc i) ms) \<in> set (run_opens (Suc i) ms)"
      "set (tl (run_opens (Suc i) ms)) \<subseteq> set (run_opens (Suc i) ms)"
      by (auto intro: list.set_sel)
    with True Cons Cons.IH[of "Suc i"] show ?thesis
      by (force simp: run_opens_absorb split: if_splits)
  next
    case False
    with Cons.prems Cons.IH[of "Suc i"] show ?thesis by (auto simp: run_opens_separate)
  qed
qed simp

lemma run_opens_nth_ge: "c < length (merge_runs ms) \<Longrightarrow> i \<le> run_opens i ms ! c"
  using run_opens_ge[of "run_opens i ms ! c" i ms] by simp

lemma merge_runs_drop:
  assumes "successively may_follow ms" "\<forall>m \<in> set ms. unmixed m" "c < length (merge_runs ms)"
    and "list_ex (\<lambda>b. \<not> is_tool_result b) (rm_content (merge_runs ms ! c))"
  shows "merge_runs (drop (run_opens i ms ! c - i) ms)
         = without_results (merge_runs ms ! c) # drop (Suc c) (merge_runs ms)"
  using assms
proof (induction ms arbitrary: i c)
  case (Cons m ms)
  from Cons.prems(1) have mf: "successively may_follow ms" by (cases ms) auto
  have IH: "merge_runs (drop (run_opens (Suc i) ms ! k - i) (m # ms))
      = without_results (merge_runs ms ! k) # drop (Suc k) (merge_runs ms)"
    if "k < length (merge_runs ms)"
      "list_ex (\<lambda>b. \<not> is_tool_result b) (rm_content (merge_runs ms ! k))" for k
    using Cons.IH[of k "Suc i"] mf Cons.prems(2) that run_opens_nth_ge[of k ms "Suc i"]
    by (simp add: Suc_diff_le drop_Cons')
  show ?case
  proof (cases "rm_role m = User \<and> ms \<noteq> [] \<and> rm_role (hd ms) = User")
    case True
    then obtain n rest where ms: "ms = n # rest" by (cases ms) auto
    with True Cons.prems(1) have mn: "list_all is_tool_result (rm_content m)" "rm_content n \<noteq> []"
      "\<not> list_ex is_tool_result (rm_content n)" "rm_role m = User" "rm_role n = User"
      by (auto simp: may_follow_def)
    then have "\<not> list_all is_tool_result (rm_content n)"
      by (cases "rm_content n") auto
    with mn(5) mf ms have sep: "\<not> (rm_role n = User \<and> rest \<noteq> [] \<and> rm_role (hd rest) = User)"
      by (auto simp: may_follow_def successively_Cons)
    note eqs = merge_runs_separate[OF sep] run_opens_separate[OF sep]
    have mrg: "merge_runs (m # ms) = m\<lparr>rm_content := rm_content m @ rm_content n\<rparr> # merge_runs rest"
      using mn by (simp add: ms merge_runs.simps(2)[of m] eqs)
    have opn: "run_opens i (m # n # rest) = Suc i # run_opens (Suc (Suc i)) rest"
      using mn by (simp add: run_opens_absorb eqs)
    have strip: "without_results (m\<lparr>rm_content := rm_content m @ rm_content n\<rparr>) = n"
      using mn by (auto simp: without_results_def list_all_iff list_ex_iff filter_id_conv
          filter_empty_conv intro!: request_message.equality)
    show ?thesis
    proof (cases c)
      case 0
      with mrg opn strip show ?thesis by (simp add: ms eqs)
    next
      case (Suc k)
      with Cons.prems(3,4) mrg show ?thesis
        using IH[of "Suc k"] by (simp add: opn ms eqs del: drop_Suc)
    qed
  next
    case False
    note eqs = merge_runs_separate[OF False] run_opens_separate[OF False]
    show ?thesis
    proof (cases c)
      case 0
      with Cons.prems show ?thesis by (simp add: eqs without_results_unmixed)
    next
      case (Suc k)
      with Cons.prems(3,4) IH[of k] show ?thesis by (simp add: eqs)
    qed
  qed
qed simp

text \<open>
  C24. The index \<open>unmerged\<close> stores for a legal cut names, in the transcript, exactly what the
  request kept: merging the transcript from that index on gives the window of the merged
  request at the cut, its first message without the results whose calls were withheld. It
  holds of every conversation of the shape the store accepts.
\<close>

theorem unmerged_names_window:
  assumes "successively may_follow history" "\<forall>m \<in> set history. unmixed m"
    and "opens_a_request (mr_history (merge_user_runs history w)) c"
  shows "mr_history (merge_user_runs (drop (unmerged (merge_user_runs history w) c) history) 0)
         = window (mr_history (merge_user_runs history w)) c"
proof -
  let ?M = "merge_runs history"
  have M: "mr_history (merge_user_runs h v) = merge_runs h" for h :: "'a request_message list" and v
    by (simp add: merge_user_runs_def Let_def merge_loop_spec)
  from assms(3) have c: "0 < c" "c < length ?M"
    "list_ex (\<lambda>b. \<not> is_tool_result b) (rm_content (?M ! c))"
    by (auto simp: M opens_a_request_def split: option.splits)
  have "unmerged (merge_user_runs history w) c = run_opens 0 history ! c"
    using c by (simp add: unmerged_def merge_user_runs_def Let_def merge_loop_spec get_at_def)
  with merge_runs_drop[OF assms(1,2) c(2,3), of 0] window_Cons[OF assms(3)] show ?thesis
    by (simp add: M)
qed

definition resumed_history :: "unit request_message list" where
  "resumed_history =
     [\<lparr>rm_role = User, rm_content = [Text ''a'']\<rparr>,
      \<lparr>rm_role = Assistant, rm_content = [ToolUse ''1'' ''ls'' ()]\<rparr>,
      \<lparr>rm_role = User, rm_content = [ToolResult ''1'' ''x'' None]\<rparr>,
      \<lparr>rm_role = User, rm_content = [Text ''b'']\<rparr>,
      \<lparr>rm_role = Assistant, rm_content = [Text ''c'']\<rparr>]"

lemma resumed_history_merged:
  "merge_runs resumed_history =
     [\<lparr>rm_role = User, rm_content = [Text ''a'']\<rparr>,
      \<lparr>rm_role = Assistant, rm_content = [ToolUse ''1'' ''ls'' ()]\<rparr>,
      \<lparr>rm_role = User, rm_content = [ToolResult ''1'' ''x'' None, Text ''b'']\<rparr>,
      \<lparr>rm_role = Assistant, rm_content = [Text ''c'']\<rparr>]"
  by (simp add: resumed_history_def merge_runs.simps)

theorem unmerged_names_window_witness:
  "mr_history (merge_user_runs (drop (unmerged (merge_user_runs resumed_history 0) 2)
      resumed_history) 0)
   = [\<lparr>rm_role = User, rm_content = [Text ''b'']\<rparr>, \<lparr>rm_role = Assistant, rm_content = [Text ''c'']\<rparr>]"
proof -
  have M: "mr_history (merge_user_runs resumed_history 0) = merge_runs resumed_history"
    by (simp add: merge_user_runs_def Let_def merge_loop_spec)
  have "successively may_follow resumed_history" "\<forall>m \<in> set resumed_history. unmixed m"
    by (auto simp: resumed_history_def may_follow_def unmixed_def)
  moreover have "opens_a_request (mr_history (merge_user_runs resumed_history 0)) 2"
    unfolding M resumed_history_merged by (simp add: opens_a_request_def get_at_def)
  ultimately have "mr_history (merge_user_runs (drop (unmerged (merge_user_runs resumed_history 0) 2)
      resumed_history) 0) = window (merge_runs resumed_history) 2"
    unfolding M[symmetric] by (rule unmerged_names_window)
  then show ?thesis unfolding resumed_history_merged by (simp add: window_def)
qed

lemma unmerged_roundtrip_witness:
  "mr_withheld (merge_user_runs resumed_history (unmerged (merge_user_runs resumed_history 0) 2)) = 2"
proof -
  have "2 < length (mr_history (merge_user_runs resumed_history 0))"
    by (simp add: merge_user_runs_def Let_def merge_loop_spec resumed_history_merged)
  from unmerged_roundtrip[OF this] show ?thesis by blast
qed

end
