(* ===== verification/Transcript.thy ===== *)
theory Transcript
  imports Bridge Session_Id
begin

text \<open>
  What a transcript holds and which orders of messages it may hold (\<open>record.rs\<close> and \<open>shape.rs\<close>
  of \<open>sandbx-session-store\<close>). A line is parsed and printed by \<open>serde_json\<close>, which is not the
  program's: \<open>parse\<close> and \<open>ser\<close> are arguments, and a theorem that needs them to agree says so.
\<close>

section \<open>The order of messages\<close>

fun is_stored_result :: "'v content \<Rightarrow> bool" where
  "is_stored_result (StoredToolResult _ _ _) = True"
| "is_stored_result _ = False"

definition answers_only :: "'v message \<Rightarrow> bool" where
  "answers_only m = (sm_content m \<noteq> [] \<and> list_all is_stored_result (sm_content m))"

definition asks_only :: "'v message \<Rightarrow> bool" where
  "asks_only m = (sm_content m \<noteq> [] \<and> \<not> list_ex is_stored_result (sm_content m))"

definition joins :: "'v message \<Rightarrow> 'v message \<Rightarrow> bool" where
  "joins earlier later =
     (sm_role earlier \<noteq> sm_role later
      \<or> sm_role earlier = StoredUser \<and> answers_only earlier \<and> asks_only later)"

fun alternating :: "'v message list \<Rightarrow> bool" where
  "alternating (a # b # ms) = (joins a b \<and> alternating (b # ms))"
| "alternating _ = True"

definition opens :: "'v message list \<Rightarrow> bool" where
  "opens ms = (map_option sm_role (head_opt ms) \<noteq> Some StoredAssistant)"

definition follows :: "'v message list \<Rightarrow> 'v message list \<Rightarrow> bool" where
  "follows stored batch =
     (case (last_opt stored, head_opt batch) of
        (Some lst, Some first) \<Rightarrow> joins lst first
      | (None, _) \<Rightarrow> opens batch
      | _ \<Rightarrow> True)"

definition settled :: "'v message list \<Rightarrow> bool" where
  "settled ms = (map_option sm_role (last_opt ms) = Some StoredAssistant)"

definition resumable :: "'v message list \<Rightarrow> bool" where
  "resumable ms =
     (settled ms \<or> (case last_opt ms of None \<Rightarrow> False | Some m \<Rightarrow> answers_only m))"

section \<open>Records\<close>

definition VERSION :: u32 where "VERSION = 1"

record header =
  hd_version :: u32
  hd_id :: string
  hd_created_at_millis :: u64

record accounting =
  ac_observed :: "usage option"
  ac_withheld :: nat
  ac_stop :: "stored_stop option"

definition default_accounting :: accounting where
  "default_accounting = \<lparr>ac_observed = None, ac_withheld = 0, ac_stop = None\<rparr>"

datatype 'v transcript_record =
    HeaderRec header
  | MessageRec "'v message"
  | TurnRec accounting

definition tolerant :: "('j \<Rightarrow> 'e + stored_stop) \<Rightarrow> 'j \<Rightarrow> stored_stop option" where
  "tolerant parse_stop j = (case parse_stop j of Inl _ \<Rightarrow> None | Inr s \<Rightarrow> Some s)"

definition or_opt :: "'a option \<Rightarrow> 'a option \<Rightarrow> 'a option" where
  "or_opt a b = (case a of Some x \<Rightarrow> Some x | None \<Rightarrow> b)"

definition absorb_turn :: "accounting \<Rightarrow> accounting \<Rightarrow> accounting" where
  "absorb_turn acc turn =
     \<lparr>ac_observed = or_opt (ac_observed turn) (ac_observed acc),
      ac_withheld = ac_withheld turn,
      ac_stop = or_opt (ac_stop turn) (ac_stop acc)\<rparr>"

record 'v replayed =
  rp_messages :: "'v message list"
  rp_accounting :: accounting

text \<open>The loop over the lines: position, messages, accounting and whether a header was read.\<close>

fun fold_lines ::
  "(string \<Rightarrow> string + 'v transcript_record) \<Rightarrow> string \<Rightarrow> bool \<Rightarrow> nat \<Rightarrow> nat \<Rightarrow> string list
     \<Rightarrow> 'v message list \<Rightarrow> accounting \<Rightarrow> bool
     \<Rightarrow> session_error + ('v message list \<times> accounting \<times> bool)" where
  "fold_lines parse path torn lst index [] messages accounting headed =
     Inr (messages, accounting, headed)"
| "fold_lines parse path torn lst index (txt # rest) messages accounting headed =
     (case parse txt of
        Inl source \<Rightarrow>
          if torn \<and> index = lst then Inr (messages, accounting, headed)
          else Inl (Malformed path (index + 1) source)
      | Inr rec \<Rightarrow>
          (case (case rec of
                   HeaderRec h \<Rightarrow> if hd_version h \<noteq> VERSION then Some (hd_version h) else None
                 | _ \<Rightarrow> None) of
             Some v \<Rightarrow> Inl (UnsupportedVersion path v)
           | None \<Rightarrow>
               (if index = 0
                then (case rec of
                        HeaderRec _ \<Rightarrow>
                          fold_lines parse path torn lst (index + 1) rest messages accounting True
                      | _ \<Rightarrow> Inl (MissingHeader path))
                else (case rec of
                        MessageRec m \<Rightarrow>
                          fold_lines parse path torn lst (index + 1) rest (messages @ [m])
                            (accounting\<lparr>ac_stop := None\<rparr>) headed
                      | TurnRec turn \<Rightarrow>
                          fold_lines parse path torn lst (index + 1) rest messages
                            (absorb_turn accounting turn) headed
                      | HeaderRec _ \<Rightarrow>
                          fold_lines parse path torn lst (index + 1) rest messages accounting headed))))"

definition fold_transcript ::
  "(string \<Rightarrow> string + 'v transcript_record) \<Rightarrow> string \<Rightarrow> string \<Rightarrow> session_error + 'v replayed" where
  "fold_transcript parse path body =
     (if body = [] then Inl (MissingHeader path)
      else (let torn = (last body \<noteq> nl);
                lst = length (rust_lines body) - 1
            in case fold_lines parse path torn lst 0 (rust_lines body) [] default_accounting False of
                 Inl e \<Rightarrow> Inl e
               | Inr (messages, accounting, headed) \<Rightarrow>
                   if \<not> headed then Inl (MissingHeader path)
                   else Inr \<lparr>rp_messages = messages, rp_accounting = accounting\<rparr>))"

section \<open>The shape of a stored history\<close>

text \<open>What both guards hold over a session: a history that may be sent again.\<close>

definition legal :: "'v message list \<Rightarrow> bool" where
  "legal ms \<longleftrightarrow> ms = [] \<or> resumable ms \<and> alternating ms \<and> opens ms"

lemma alternating_iff: "alternating ms \<longleftrightarrow> successively joins ms"
  by (induction ms rule: alternating.induct) auto

lemma resumable_append: "ys \<noteq> [] \<Longrightarrow> resumable (xs @ ys) = resumable ys"
  by (simp add: resumable_def settled_def last_opt_def)

lemma legal_append:
  assumes "legal stored" "batch \<noteq> []" "resumable batch" "alternating batch" "follows stored batch"
  shows "legal (stored @ batch)"
proof (cases "stored = []")
  case True
  with assms show ?thesis by (simp add: legal_def follows_def)
next
  case False
  with assms(1) have st: "successively joins stored" "opens stored"
    by (auto simp: legal_def alternating_iff)
  from False assms(2,5) have "joins (last stored) (hd batch)"
    by (cases batch) (auto simp: follows_def)
  with st assms(4) have "successively joins (stored @ batch)"
    by (simp add: alternating_iff successively_append_iff)
  moreover from st(2) False have "opens (stored @ batch)" by (cases stored) (auto simp: opens_def)
  ultimately show ?thesis
    using resumable_append[OF assms(2), of stored] assms(3) by (simp add: legal_def alternating_iff)
qed

lemma joins_may_follow:
  "joins a b \<Longrightarrow> may_follow
     \<lparr>rm_role = request_role (sm_role a), rm_content = map request_block (sm_content a)\<rparr>
     \<lparr>rm_role = request_role (sm_role b), rm_content = map request_block (sm_content b)\<rparr>"
proof -
  have "is_tool_result (request_block c) = is_stored_result c" for c :: "'a content"
    by (cases c) simp_all
  then show "joins a b \<Longrightarrow> ?thesis"
    by (cases "sm_role a"; cases "sm_role b")
      (auto simp: joins_def may_follow_def answers_only_def asks_only_def list_all_iff list_ex_iff)
qed

lemma merge_runs_alternates:
  "successively may_follow ms \<Longrightarrow> successively (\<lambda>a b. rm_role a \<noteq> rm_role b) (merge_runs ms)"
proof (induction ms)
  case (Cons m ms)
  then have IH: "successively (\<lambda>a b. rm_role a \<noteq> rm_role b) (merge_runs ms)"
    by (cases ms) auto
  show ?case
  proof (cases "merge_runs ms")
    case (Cons n ns)
    then have "ms \<noteq> []" "rm_role n = rm_role (hd ms)"
      using merge_runs_hd_role[of ms] by (cases ms; simp)+
    with Cons.prems have "may_follow m (hd ms)" by (cases ms) auto
    with IH Cons \<open>rm_role n = _\<close> show ?thesis
      by (cases ns; cases "rm_role m"; cases "rm_role n")
        (auto simp: merge_runs.simps may_follow_def)
  qed (simp add: merge_runs.simps)
qed simp

text \<open>
  A conversation the store accepts is one the bridge can merge into a legal order: after the
  merge, roles alternate strictly and the first message is the user's.
\<close>

lemma legal_history_merges:
  assumes "legal stored" "stored \<noteq> []"
  shows "successively (\<lambda>a b. rm_role a \<noteq> rm_role b)
           (mr_history (merge_user_runs (request_history stored) w))
         \<and> rm_role (hd (mr_history (merge_user_runs (request_history stored) w))) = User"
proof -
  let ?h = "request_history stored"
  have M: "mr_history (merge_user_runs ?h w) = merge_runs ?h"
    by (simp add: merge_user_runs_def Let_def merge_loop_spec)
  have "successively may_follow ?h"
    using assms by (auto simp: legal_def alternating_iff request_history_def successively_map
        intro: successively_mono joins_may_follow)
  moreover have "?h \<noteq> []" "rm_role (hd ?h) = User"
    using assms by (cases stored; cases "sm_role (hd stored)";
        auto simp: legal_def opens_def request_history_def)+
  ultimately show ?thesis
    by (simp add: M merge_runs_alternates)
qed

definition stored_exchange :: "unit message list" where
  "stored_exchange =
     [\<lparr>sm_role = StoredUser, sm_content = [StoredText ''q'']\<rparr>,
      \<lparr>sm_role = StoredAssistant, sm_content = [StoredText ''a'']\<rparr>]"

lemma stored_exchange_legal: "legal stored_exchange" "stored_exchange \<noteq> []"
  by (simp_all add: stored_exchange_def legal_def resumable_def settled_def joins_def opens_def)

lemma legal_history_merges_witness:
  "rm_role (hd (mr_history (merge_user_runs (request_history stored_exchange) 0))) = User"
  using legal_history_merges[OF stored_exchange_legal] by blast

end
