(* ===== verification/Store.thy ===== *)
theory Store
  imports Transcript
begin

unbundle bit_operations_syntax

text \<open>
  The session store and an open session (\<open>session.rs\<close> and \<open>vet.rs\<close> of \<open>sandbx-session-store\<close>,
  and \<open>open\<close> of \<open>sandbx-session-bridge\<close>). The kernel is an argument: a record of the system
  calls the source makes, each an effect on a world the store never looks into, so that a
  file may change between any two calls. A descriptor is whatever the kernel hands out.
\<close>

section \<open>Appending\<close>

definition record_lines :: "('v transcript_record \<Rightarrow> string) \<Rightarrow> 'v transcript_record list \<Rightarrow> string" where
  "record_lines ser recs = concat (map (\<lambda>r. ser r @ [nl]) recs)"

definition append_check :: "'v message list \<Rightarrow> 'v completed_turn \<Rightarrow> session_error option" where
  "append_check stored turn =
     (if ct_messages turn = [] then None
      else if \<not> resumable (ct_messages turn) then Some IncompleteTurn
      else if \<not> alternating (ct_messages turn) \<or> \<not> follows stored (ct_messages turn)
      then Some DisorderedTurn else None)"

definition turn_accounting :: "'v completed_turn \<Rightarrow> accounting" where
  "turn_accounting turn =
     \<lparr>ac_observed = ct_observed turn, ac_withheld = ct_withheld turn,
      ac_stop = (if ct_messages turn = [] then None else Some (ct_stop turn))\<rparr>"

definition append_records :: "'v completed_turn \<Rightarrow> 'v transcript_record list" where
  "append_records turn = map MessageRec (ct_messages turn) @ [TurnRec (turn_accounting turn)]"

section \<open>The kernel\<close>

datatype open_flag = O_RDONLY | O_WRONLY | O_APPEND | O_CREAT | O_EXCL | O_NOFOLLOW | O_CLOEXEC

record ('w, 'fd) os =
  os_mkdir_all :: "string \<Rightarrow> u32 \<Rightarrow> ('w, io_error, unit) io"
  os_open :: "string \<Rightarrow> open_flag list \<Rightarrow> ('w, io_error, 'fd) io"
  os_openat :: "'fd \<Rightarrow> string \<Rightarrow> open_flag list \<Rightarrow> u32 \<Rightarrow> ('w, io_error, 'fd) io"
  os_fstat :: "'fd \<Rightarrow> ('w, io_error, u32 \<times> u32) io"
  os_fchmod :: "'fd \<Rightarrow> u32 \<Rightarrow> ('w, io_error, unit) io"
  os_read_to_string :: "'fd \<Rightarrow> ('w, io_error, string) io"
  os_write_all :: "'fd \<Rightarrow> string \<Rightarrow> ('w, io_error, unit) io"
  os_elapsed :: "'w \<Rightarrow> nat option \<times> 'w"
  os_euid :: u32
  os_uid :: u32

section \<open>Vetting (vet.rs)\<close>

definition OWNER_ONLY :: u32 where "OWNER_ONLY = 0x180"
definition DIR_OWNER_ONLY :: u32 where "DIR_OWNER_ONLY = 0x1C0"
definition WRITABLE_BITS :: u32 where "WRITABLE_BITS = 0x12"
definition READABLE_BITS :: u32 where "READABLE_BITS = 0x24"
definition DIR_SHARED_BITS :: u32 where "DIR_SHARED_BITS = 0x3F"

definition opening_error :: "string \<Rightarrow> io_error \<Rightarrow> session_error" where
  "opening_error path source = (if source = IoLoop then Symlink path else Io path source)"

definition open_nofollow :: "('w, 'fd) os \<Rightarrow> string \<Rightarrow> ('w, session_error, 'fd) io" where
  "open_nofollow os path = io_map_err (opening_error path) (os_open os path [O_RDONLY, O_NOFOLLOW, O_CLOEXEC])"

definition open_at ::
  "('w, 'fd) os \<Rightarrow> 'fd \<Rightarrow> string \<Rightarrow> string \<Rightarrow> open_flag list \<Rightarrow> ('w, session_error, 'fd) io" where
  "open_at os directory name path flags =
     io_map_err (opening_error path)
       (os_openat os directory name (flags @ [O_NOFOLLOW, O_CLOEXEC]) OWNER_ONLY)"

definition ownership :: "('w, 'fd) os \<Rightarrow> 'fd \<Rightarrow> string \<Rightarrow> ('w, session_error, u32) io" where
  "ownership os file path =
     io_bind (io_map_err (Io path) (os_fstat os file)) (\<lambda>(uid, mode).
       if uid \<noteq> os_euid os \<or> uid \<noteq> os_uid os then io_fail (ForeignOwner path uid)
       else io_ret (mode AND 0xFFF))"

section \<open>The store (session.rs)\<close>

record ('v, 'fd) session =
  se_id :: session_id
  se_path :: string
  se_file :: 'fd
  se_messages :: "'v message list"
  se_accounting :: accounting
  se_shared_read :: bool

definition ATTEMPTS :: nat where "ATTEMPTS = 1000"

definition transcript_path :: "string \<Rightarrow> session_id \<Rightarrow> string \<times> string" where
  "transcript_path root sid =
     (let name = id_text sid @ ''.jsonl'' in (name, path_join root name))"

definition narrow_root :: "('w, 'fd) os \<Rightarrow> string \<Rightarrow> ('w, session_error, 'fd) io" where
  "narrow_root os root =
     io_bind (open_nofollow os root) (\<lambda>directory.
     io_bind (ownership os directory root) (\<lambda>mode.
       if mode AND DIR_SHARED_BITS = 0 then io_ret directory
       else io_bind (io_map_err (Io root) (os_fchmod os directory DIR_OWNER_ONLY))
              (\<lambda>_. io_ret directory)))"

definition session_write ::
  "('w, 'fd) os \<Rightarrow> ('v transcript_record \<Rightarrow> string) \<Rightarrow> ('v, 'fd) session
     \<Rightarrow> 'v transcript_record list \<Rightarrow> ('w, session_error, unit) io" where
  "session_write os ser s recs =
     io_map_err (Io (se_path s)) (os_write_all os (se_file s) (record_lines ser recs))"

definition clock_now :: "('w, 'fd) os \<Rightarrow> ('w, session_error, u64) io" where
  "clock_now os w = (case os_elapsed os w of (t, w') \<Rightarrow> (clock_millis t, w'))"

definition id_now :: "('w, 'fd) os \<Rightarrow> u64 \<Rightarrow> ('w, session_error, session_id) io" where
  "id_now os attempt w = (case os_elapsed os w of (t, w') \<Rightarrow> (from_clock t attempt, w'))"

definition create_flags :: "open_flag list" where
  "create_flags = [O_WRONLY, O_APPEND, O_CREAT, O_EXCL]"

text \<open>The loop over the attempts; \<open>left\<close> counts the tries that remain.\<close>

fun create_loop ::
  "('w, 'fd) os \<Rightarrow> ('v transcript_record \<Rightarrow> string) \<Rightarrow> string \<Rightarrow> 'fd \<Rightarrow> nat \<Rightarrow> nat
     \<Rightarrow> ('w, session_error, ('v, 'fd) session) io" where
  "create_loop os ser root directory attempt 0 = io_fail (Collision (of_nat ATTEMPTS))"
| "create_loop os ser root directory attempt (Suc left) =
     io_bind (id_now os (of_nat attempt)) (\<lambda>sid.
       let (name, path) = transcript_path root sid in
       (\<lambda>w. case open_at os directory name path create_flags w of
            (Inr file, w') \<Rightarrow>
              (let s = \<lparr>se_id = sid, se_path = path, se_file = file, se_messages = [],
                        se_accounting = default_accounting, se_shared_read = False\<rparr>
               in io_bind (clock_now os) (\<lambda>now.
                    io_bind (session_write os ser s
                        [HeaderRec \<lparr>hd_version = VERSION, hd_id = id_text sid,
                                    hd_created_at_millis = now\<rparr>])
                      (\<lambda>_. io_ret s)) w')
          | (Inl (Io p IoAlreadyExists), w') \<Rightarrow>
              create_loop os ser root directory (Suc attempt) left w'
          | (Inl e, w') \<Rightarrow> (Inl e, w')))"

definition session_create ::
  "('w, 'fd) os \<Rightarrow> ('v transcript_record \<Rightarrow> string) \<Rightarrow> string \<Rightarrow> ('w, session_error, ('v, 'fd) session) io" where
  "session_create os ser root =
     io_bind (io_map_err (Io root) (os_mkdir_all os root DIR_OWNER_ONLY)) (\<lambda>_.
     io_bind (narrow_root os root) (\<lambda>directory.
       create_loop os ser root directory 0 ATTEMPTS))"

definition absent :: "session_id \<Rightarrow> session_error \<Rightarrow> session_error" where
  "absent sid e = (case e of Io _ IoNotFound \<Rightarrow> NotFound (id_text sid) | other \<Rightarrow> other)"

definition session_resume ::
  "('w, 'fd) os \<Rightarrow> (string \<Rightarrow> string + 'v transcript_record) \<Rightarrow> string \<Rightarrow> session_id
     \<Rightarrow> ('w, session_error, ('v, 'fd) session) io" where
  "session_resume os parse root sid =
     (let (name, path) = transcript_path root sid in
      io_bind (io_map_err (absent sid) (open_nofollow os root)) (\<lambda>directory.
      io_bind (ownership os directory root) (\<lambda>dmode.
        if dmode AND WRITABLE_BITS \<noteq> 0 then io_fail (DirWritable root dmode)
        else
      io_bind (io_map_err (absent sid) (open_at os directory name path [O_RDONLY])) (\<lambda>file.
      io_bind (ownership os file path) (\<lambda>mode.
        if mode AND WRITABLE_BITS \<noteq> 0 then io_fail (Writable path mode)
        else
      io_bind (io_map_err (Io path) (os_read_to_string os file)) (\<lambda>body.
      io_bind (io_of_sum (fold_transcript parse path body)) (\<lambda>rp.
        if rp_messages rp \<noteq> [] \<and> \<not> resumable (rp_messages rp) then io_fail (Unresumable path)
        else if rp_messages rp \<noteq> []
                \<and> (\<not> alternating (rp_messages rp) \<or> \<not> opens (rp_messages rp))
        then io_fail (Disordered path)
        else
      io_bind (open_at os directory name path [O_WRONLY, O_APPEND]) (\<lambda>out.
        io_ret \<lparr>se_id = sid, se_path = path, se_file = out, se_messages = rp_messages rp,
                se_accounting = rp_accounting rp,
                se_shared_read = (mode AND READABLE_BITS \<noteq> 0)\<rparr>))))))))"

definition session_append ::
  "('w, 'fd) os \<Rightarrow> ('v transcript_record \<Rightarrow> string) \<Rightarrow> ('v, 'fd) session \<Rightarrow> 'v completed_turn
     \<Rightarrow> ('w, session_error, ('v, 'fd) session) io" where
  "session_append os ser s turn =
     (case append_check (se_messages s) turn of
        Some e \<Rightarrow> io_fail e
      | None \<Rightarrow>
          io_bind (session_write os ser s (append_records turn)) (\<lambda>_.
            io_ret (s\<lparr>se_messages := se_messages s @ ct_messages turn,
                      se_accounting := absorb_turn (se_accounting s) (turn_accounting turn)\<rparr>)))"

definition pending_call :: "('v, 'fd) session \<Rightarrow> bool" where
  "pending_call s = (case last_opt (se_messages s) of None \<Rightarrow> False | Some m \<Rightarrow> answers_only m)"

section \<open>Opening (sandbx-session-bridge)\<close>

datatype session_choice = Off | New | Resume session_id

text \<open>What \<open>open\<close> prints on stderr, as the values it prints.\<close>

datatype notice =
    Started session_id
  | Resumed session_id nat
  | Note string
  | ReadableByOthers session_id string

definition session_open ::
  "('w, 'fd) os \<Rightarrow> (string \<Rightarrow> string + 'v transcript_record) \<Rightarrow> ('v transcript_record \<Rightarrow> string)
     \<Rightarrow> (string \<Rightarrow> string option) \<Rightarrow> session_choice
     \<Rightarrow> ('w, session_error, ('v, 'fd) session option \<times> notice list) io" where
  "session_open os parse ser lookup choice =
     (case choice of
        Off \<Rightarrow> io_ret (None, [])
      | New \<Rightarrow>
          io_bind (io_of_sum (sessions_directory lookup)) (\<lambda>root.
          io_bind (session_create os ser root) (\<lambda>s.
            io_ret (Some s, [Started (se_id s)]
              @ (if se_shared_read s then [ReadableByOthers (se_id s) (se_path s)] else []))))
      | Resume sid \<Rightarrow>
          io_bind (io_of_sum (sessions_directory lookup)) (\<lambda>root.
          io_bind (session_resume os parse root sid) (\<lambda>s.
            io_ret (Some s, [Resumed (se_id s) (length (se_messages s))]
              @ (case resume_note (pending_call s) (ac_stop (se_accounting s)) of
                   None \<Rightarrow> [] | Some note \<Rightarrow> [Note note])
              @ (if se_shared_read s then [ReadableByOthers (se_id s) (se_path s)] else [])))))"

section \<open>What a file of records replays to\<close>

fun replay_step :: "'v message list \<times> accounting \<Rightarrow> 'v transcript_record \<Rightarrow> 'v message list \<times> accounting" where
  "replay_step (ms, acc) (MessageRec m) = (ms @ [m], acc\<lparr>ac_stop := None\<rparr>)"
| "replay_step (ms, acc) (TurnRec t) = (ms, absorb_turn acc t)"
| "replay_step (ms, acc) (HeaderRec _) = (ms, acc)"

definition replay :: "'v transcript_record list \<Rightarrow> 'v message list \<times> accounting" where
  "replay recs = foldl replay_step ([], default_accounting) recs"

definition as_replayed :: "'v message list \<times> accounting \<Rightarrow> 'v replayed" where
  "as_replayed p = \<lparr>rp_messages = fst p, rp_accounting = snd p\<rparr>"

fun good_record :: "'v transcript_record \<Rightarrow> bool" where
  "good_record (HeaderRec h) = (hd_version h = VERSION)"
| "good_record _ = True"

text \<open>What the store relies on of the JSON codec, for the records of one file.\<close>

definition line_codec ::
  "(string \<Rightarrow> string + 'v transcript_record) \<Rightarrow> ('v transcript_record \<Rightarrow> string)
     \<Rightarrow> 'v transcript_record list \<Rightarrow> bool" where
  "line_codec parse ser recs \<longleftrightarrow>
     (\<forall>r \<in> set recs. parse (ser r) = Inr r \<and> nl \<notin> set (ser r) \<and> strip_cr (ser r) = ser r)"

lemma line_codec_simps [simp]:
  "line_codec parse ser []"
  "line_codec parse ser (r # rs) \<longleftrightarrow>
     parse (ser r) = Inr r \<and> nl \<notin> set (ser r) \<and> strip_cr (ser r) = ser r \<and> line_codec parse ser rs"
  "line_codec parse ser (rs @ rs') \<longleftrightarrow> line_codec parse ser rs \<and> line_codec parse ser rs'"
  by (auto simp: line_codec_def)

lemma record_lines_simps [simp]:
  "record_lines ser [] = []"
  "record_lines ser (r # rs) = ser r @ nl # record_lines ser rs"
  "record_lines ser (rs @ rs') = record_lines ser rs @ record_lines ser rs'"
  by (simp_all add: record_lines_def)

lemma last_record_lines: "rs \<noteq> [] \<Longrightarrow> last (record_lines ser rs) = nl"
  by (cases rs rule: rev_cases) simp_all

lemma rust_lines_records:
  "line_codec parse ser recs \<Longrightarrow> rust_lines (record_lines ser recs @ t) = map ser recs @ rust_lines t"
  by (induction recs) (simp_all add: rust_lines_Cons)

lemma fold_lines_records:
  "line_codec parse ser recs \<Longrightarrow> list_all good_record recs \<Longrightarrow> 0 < index \<Longrightarrow>
   fold_lines parse path torn lst index (map ser recs @ rest) ms acc hdd =
     fold_lines parse path torn lst (index + length recs) rest
       (fst (foldl replay_step (ms, acc) recs)) (snd (foldl replay_step (ms, acc) recs)) hdd"
proof (induction recs arbitrary: index ms acc)
  case (Cons r recs)
  then show ?case by (cases r) simp_all
qed simp

text \<open>A file of whole lines, with or without a last line that was not terminated.\<close>

lemma fold_transcript_shape:
  assumes "line_codec parse ser (HeaderRec h # recs)" "hd_version h = VERSION"
    and "list_all good_record recs" "nl \<notin> set t"
  shows "fold_transcript parse path (record_lines ser (HeaderRec h # recs) @ t) =
    (case fold_lines parse path (t \<noteq> []) (length recs + length (rust_lines t)) (1 + length recs) (rust_lines t)
            (fst (replay recs)) (snd (replay recs)) True of
       Inl e \<Rightarrow> Inl e
     | Inr (messages, acc, headed) \<Rightarrow>
         if \<not> headed then Inl (MissingHeader path)
         else Inr \<lparr>rp_messages = messages, rp_accounting = acc\<rparr>)"
proof -
  let ?body = "record_lines ser (HeaderRec h # recs) @ t"
  have lines: "rust_lines ?body = map ser (HeaderRec h # recs) @ rust_lines t"
    using assms(1) by (rule rust_lines_records)
  have torn: "(last ?body \<noteq> nl) = (t \<noteq> [])"
  proof (cases "t = []")
    case True
    then show ?thesis using last_record_lines[of "HeaderRec h # recs" ser] by simp
  next
    case False
    then have "last ?body = last t" by (simp del: record_lines_simps)
    moreover have "last t \<noteq> nl" using False assms(4) last_in_set by metis
    ultimately show ?thesis using False by simp
  qed
  have step: "fold_lines parse path torn' lst 0 (map ser (HeaderRec h # recs) @ rust_lines t)
        [] default_accounting False =
      fold_lines parse path torn' lst (1 + length recs) (rust_lines t)
        (fst (replay recs)) (snd (replay recs)) True" for torn' lst
    using assms fold_lines_records[of parse ser recs 1 path torn' lst "rust_lines t" "[]"
        default_accounting True]
    by (simp add: replay_def)
  have "?body \<noteq> []" by simp
  then show ?thesis
    unfolding fold_transcript_def lines torn step Let_def by simp
qed

lemma replay_snoc: "replay (recs @ [r]) = replay_step (replay recs) r"
  by (simp add: replay_def)

lemma fold_transcript_whole:
  assumes "line_codec parse ser (HeaderRec h # recs)" "hd_version h = VERSION" "list_all good_record recs"
  shows "fold_transcript parse path (record_lines ser (HeaderRec h # recs)) = Inr (as_replayed (replay recs))"
  using fold_transcript_shape[OF assms, of "[]" path] by (simp add: as_replayed_def)

lemma fold_transcript_torn:
  assumes "line_codec parse ser (HeaderRec h # recs)" "hd_version h = VERSION" "list_all good_record recs"
    and "nl \<notin> set t" "t \<noteq> []" "parse t = Inl e"
  shows "fold_transcript parse path (record_lines ser (HeaderRec h # recs) @ t) =
    Inr (as_replayed (replay recs))"
  using assms(5,6)
  unfolding fold_transcript_shape[OF assms(1-4)] by (simp add: rust_lines_last[OF assms(4)] as_replayed_def)

lemma fold_transcript_last:
  assumes "line_codec parse ser (HeaderRec h # recs)" "hd_version h = VERSION" "list_all good_record recs"
    and "nl \<notin> set t" "t \<noteq> []" "parse t = Inr r" "good_record r"
  shows "fold_transcript parse path (record_lines ser (HeaderRec h # recs) @ t) =
    Inr (as_replayed (replay (recs @ [r])))"
  using assms(5,6,7)
  unfolding fold_transcript_shape[OF assms(1-4)] replay_snoc
  by (cases r; cases "replay recs") (simp_all add: rust_lines_last[OF assms(4)] as_replayed_def)

lemma fold_lines_malformed:
  assumes "parse x = Inl e" "0 < index" "rest \<noteq> []" "lst = index + length rest"
  shows "fold_lines parse path torn lst index (x # rest) ms acc hdd = Inl (Malformed path (index + 1) e)"
  using assms by simp

lemma session_append_Inr:
  assumes "session_append os ser s turn w = (Inr s', w')"
  shows "append_check (se_messages s) turn = None"
    "os_write_all os (se_file s) (record_lines ser (append_records turn)) w = (Inr (), w')"
    "s' = s\<lparr>se_messages := se_messages s @ ct_messages turn,
             se_accounting := absorb_turn (se_accounting s) (turn_accounting turn)\<rparr>"
  using assms
  by (auto simp: session_append_def session_write_def io_bind_def io_map_err_def io_fail_def io_ret_def
      split: option.splits prod.splits sum.splits)

text \<open>What an append's records do to a replay is what it does to the open session.\<close>

lemma replay_messages:
  "foldl replay_step (ms, acc) (map MessageRec xs) =
     (ms @ xs, if xs = [] then acc else acc\<lparr>ac_stop := None\<rparr>)"
  by (induction xs arbitrary: ms acc) simp_all

lemma replay_append_records:
  "replay (recs @ append_records turn) =
     (fst (replay recs) @ ct_messages turn, absorb_turn (snd (replay recs)) (turn_accounting turn))"
  by (cases "replay recs")
    (simp add: replay_def append_records_def replay_messages absorb_turn_def turn_accounting_def or_opt_def
        split: option.splits)

lemma good_append_records [simp]: "list_all good_record (append_records turn)"
  by (simp add: append_records_def list_all_iff)

section \<open>Properties of the store\<close>

text \<open>
  C14. Appending to a session whose file replays to it, writes the turn's lines in one call, keeps
  the history one the store would resume, and leaves a file that replays to exactly the
  messages and the accounting the open session now holds.
\<close>

theorem append_roundtrip:
  assumes "session_append os ser s turn w = (Inr s', w')" "legal (se_messages s)"
    and "line_codec parse ser (HeaderRec h # recs @ append_records turn)" "hd_version h = VERSION"
    and "list_all good_record recs" "replay recs = (se_messages s, se_accounting s)"
  shows "os_write_all os (se_file s) (record_lines ser (append_records turn)) w = (Inr (), w')
    \<and> legal (se_messages s')
    \<and> fold_transcript parse path
        (record_lines ser (HeaderRec h # recs) @ record_lines ser (append_records turn)) =
        Inr \<lparr>rp_messages = se_messages s', rp_accounting = se_accounting s'\<rparr>"
proof (intro conjI)
  note a = session_append_Inr[OF assms(1)]
  show "os_write_all os (se_file s) (record_lines ser (append_records turn)) w = (Inr (), w')"
    by (rule a(2))
  show "legal (se_messages s')"
  proof (cases "ct_messages turn = []")
    case False
    with a(1) have "resumable (ct_messages turn)" "alternating (ct_messages turn)"
      "follows (se_messages s) (ct_messages turn)"
      by (auto simp: append_check_def split: if_splits)
    with False assms(2) show ?thesis by (simp add: a(3) legal_append)
  qed (simp add: a(3) assms(2))
  have "fold_transcript parse path (record_lines ser (HeaderRec h # recs @ append_records turn)) =
      Inr (as_replayed (replay (recs @ append_records turn)))"
    using assms(3-5) by (intro fold_transcript_whole) simp_all
  then show "fold_transcript parse path
        (record_lines ser (HeaderRec h # recs) @ record_lines ser (append_records turn)) =
        Inr \<lparr>rp_messages = se_messages s', rp_accounting = se_accounting s'\<rparr>"
    by (simp add: replay_append_records assms(6) as_replayed_def a(3))
qed

text \<open>
  C25. Resume reads only what it vetted: the directory is opened without following a link, is
  ours and nobody else can write it; the transcript is opened through that descriptor, again
  without following a link, and is ours and unwritable by others; the messages are what that
  descriptor's bytes fold to and are a history that may be sent again; and the descriptor kept
  for appending was opened through the same vetted directory.
\<close>

theorem resume_vetted:
  assumes "session_resume os parse root sid w = (Inr s, w')"
  shows "\<exists>dir file dmode mode body acc w1 w2 w3 w4 w5.
      os_open os root [O_RDONLY, O_NOFOLLOW, O_CLOEXEC] w = (Inr dir, w1)
    \<and> os_fstat os dir w1 = (Inr (os_euid os, dmode), w2) \<and> os_euid os = os_uid os
    \<and> (dmode AND 0xFFF) AND WRITABLE_BITS = 0
    \<and> os_openat os dir (id_text sid @ ''.jsonl'') [O_RDONLY, O_NOFOLLOW, O_CLOEXEC] OWNER_ONLY w2 = (Inr file, w3)
    \<and> os_fstat os file w3 = (Inr (os_euid os, mode), w4)
    \<and> (mode AND 0xFFF) AND WRITABLE_BITS = 0
    \<and> os_read_to_string os file w4 = (Inr body, w5)
    \<and> fold_transcript parse (se_path s) body = Inr \<lparr>rp_messages = se_messages s, rp_accounting = acc\<rparr>
    \<and> acc = se_accounting s \<and> legal (se_messages s)
    \<and> se_shared_read s = ((mode AND 0xFFF) AND READABLE_BITS \<noteq> 0)
    \<and> os_openat os dir (id_text sid @ ''.jsonl'') [O_WRONLY, O_APPEND, O_NOFOLLOW, O_CLOEXEC] OWNER_ONLY w5
        = (Inr (se_file s), w')"
  using assms
  by (auto simp: session_resume_def transcript_path_def open_nofollow_def open_at_def ownership_def
      legal_def io_bind_def io_map_err_def io_fail_def io_ret_def io_of_sum_def Let_def
      split: prod.splits sum.splits if_splits)

text \<open>Where the bytes of an append stop when the write is cut short after \<open>k\<close> of them.\<close>

lemma torn_split:
  "\<exists>n j. n \<le> length app
     \<and> take k (record_lines ser app) = record_lines ser (take n app) @ (if n = length app then [] else take j (ser (app ! n)))
     \<and> length (record_lines ser (take n app)) \<le> k
     \<and> (n < length app \<longrightarrow> j \<le> length (ser (app ! n)) \<and> k = length (record_lines ser (take n app)) + j)"
proof (induction app arbitrary: k)
  case Nil
  show ?case by simp
next
  case (Cons r app)
  show ?case
  proof (cases "k \<le> length (ser r)")
    case True
    then show ?thesis by (intro exI[of _ 0] exI[of _ k]) simp
  next
    case False
    then obtain k' where k: "k = length (ser r) + Suc k'" by (metis add_Suc_right less_natE not_le)
    obtain n j where IH: "n \<le> length app"
      "take k' (record_lines ser app) = record_lines ser (take n app) @ (if n = length app then [] else take j (ser (app ! n)))"
      "length (record_lines ser (take n app)) \<le> k'"
      "n < length app \<longrightarrow> j \<le> length (ser (app ! n)) \<and> k' = length (record_lines ser (take n app)) + j"
      using Cons.IH[of k'] by blast
    then show ?thesis
      by (intro exI[of _ "Suc n"] exI[of _ j]) (simp add: k)
  qed
qed

text \<open>
  An append cut short after any number of bytes costs at most the records that were not
  wholly written: the file still folds, to the history before it and the records whose text
  arrived, provided no proper beginning of a serialized record is itself a record.
\<close>

lemma torn_append_replays:
  assumes codec: "line_codec parse ser (HeaderRec h # recs @ app)" and v: "hd_version h = VERSION"
    and good: "list_all good_record (recs @ app)"
    and pre: "\<forall>r \<in> set app. \<forall>j. 0 < j \<and> j < length (ser r) \<longrightarrow> (\<exists>e. parse (take j (ser r)) = Inl e)"
  shows "\<exists>n \<le> length app.
     fold_transcript parse path (record_lines ser (HeaderRec h # recs) @ take k (record_lines ser app)) =
       Inr (as_replayed (replay (recs @ take n app)))
     \<and> length (record_lines ser (take n app)) \<le> k + 1
     \<and> (n < length app \<longrightarrow> k < length (record_lines ser (take (Suc n) app)))"
proof -
  obtain n j where n: "n \<le> length app"
    and split: "take k (record_lines ser app) = record_lines ser (take n app) @ (if n = length app then [] else take j (ser (app ! n)))"
    and len: "length (record_lines ser (take n app)) \<le> k"
    and j: "n < length app \<longrightarrow> j \<le> length (ser (app ! n)) \<and> k = length (record_lines ser (take n app)) + j"
    using torn_split[of app k ser] by blast
  define t where "t = (if n = length app then [] else take j (ser (app ! n)))"
  have takes: "set (take m app) \<subseteq> set app" for m by (rule set_take_subset)
  have c: "line_codec parse ser (HeaderRec h # recs @ take m app)" "list_all good_record (recs @ take m app)" for m
    using codec good takes[of m] by (auto simp: line_codec_def list_all_iff)
  have nlt: "nl \<notin> set t"
    using codec n by (auto simp: t_def line_codec_def dest!: in_set_takeD)
  have body: "record_lines ser (HeaderRec h # recs) @ take k (record_lines ser app) =
      record_lines ser (HeaderRec h # recs @ take n app) @ t"
    by (simp add: split t_def)
  have more: "n < length app \<Longrightarrow> record_lines ser (take (Suc n) app) = record_lines ser (take n app) @ ser (app ! n) @ [nl]"
    by (simp add: take_Suc_conv_app_nth)
  show ?thesis
  proof (cases "t = []")
    case True
    then show ?thesis
      using n len j more fold_transcript_whole[OF c(1) v c(2), of path n]
      by (intro exI[of _ n]) (auto simp: body less_Suc_eq_le simp del: record_lines_simps)
  next
    case False
    then have lt: "n < length app" "t = take j (ser (app ! n))" "0 < j"
      using n by (auto simp: t_def split: if_splits)
    show ?thesis
    proof (cases "j < length (ser (app ! n))")
      case True
      then obtain e where "parse t = Inl e" using pre lt by (metis nth_mem)
      then have "fold_transcript parse path
          (record_lines ser (HeaderRec h # recs) @ take k (record_lines ser app)) =
          Inr (as_replayed (replay (recs @ take n app)))"
        unfolding body by (rule fold_transcript_torn[OF c(1) v c(2) nlt False])
      then show ?thesis
        using n len j more[OF lt(1)] True by (intro exI[of _ n]) (auto simp del: record_lines_simps)
    next
      case whole: False
      then have t: "t = ser (app ! n)" using lt j by simp
      have "app ! n \<in> set app" using lt(1) by simp
      then have p: "parse t = Inr (app ! n)" "good_record (app ! n)"
        using codec good by (auto simp: t line_codec_def list_all_iff)
      have tk: "take (Suc n) app = take n app @ [app ! n]" using lt(1) by (rule take_Suc_conv_app_nth)
      have "k < length (record_lines ser (take (Suc (Suc n)) app))" if "Suc n < length app"
        using that j lt whole by (simp add: take_Suc_conv_app_nth)
      moreover have "fold_transcript parse path
          (record_lines ser (HeaderRec h # recs) @ take k (record_lines ser app)) =
          Inr (as_replayed (replay (recs @ take (Suc n) app)))"
        unfolding body tk using fold_transcript_last[OF c(1) v c(2) nlt False p, of path] by simp
      moreover have "length (record_lines ser (take (Suc n) app)) = k + 1"
        using more[OF lt(1)] j lt whole by simp
      ultimately show ?thesis
        using lt(1) by (intro exI[of _ "Suc n"]) (auto simp del: record_lines_simps)
    qed
  qed
qed


text \<open>
  A turn whose prompt line arrived but whose reply did not leaves a history that ends on an
  unanswered message: whatever the kernel answers around it, resume refuses that file, so the
  messages before the torn turn cannot be reopened either.
\<close>

lemma torn_after_prompt_refused:
  assumes "os_open os root [O_RDONLY, O_NOFOLLOW, O_CLOEXEC] w = (Inr dir, w1)"
    and "os_fstat os dir w1 = (Inr (os_euid os, 0x1C0), w2)" "os_uid os = os_euid os"
    and "os_openat os dir (id_text sid @ ''.jsonl'') [O_RDONLY, O_NOFOLLOW, O_CLOEXEC] OWNER_ONLY w2 = (Inr file, w3)"
    and "os_fstat os file w3 = (Inr (os_euid os, 0x180), w4)"
    and "os_read_to_string os file w4 =
           (Inr (record_lines ser (HeaderRec h # recs) @ ser (MessageRec p) @ nl # t), w5)"
    and "line_codec parse ser (HeaderRec h # recs @ [MessageRec p])" "hd_version h = VERSION"
    and "list_all good_record recs" "nl \<notin> set t" "t = [] \<or> parse t = Inl e"
    and "sm_role p = StoredUser" "\<not> answers_only p"
  shows "session_resume os parse root sid w =
           (Inl (Unresumable (path_join root (id_text sid @ ''.jsonl''))), w5)"
proof -
  let ?path = "path_join root (id_text sid @ ''.jsonl'')"
  let ?body = "record_lines ser (HeaderRec h # recs) @ ser (MessageRec p) @ nl # t"
  have body: "?body = record_lines ser (HeaderRec h # recs @ [MessageRec p]) @ t" by simp
  have "fold_transcript parse ?path ?body = Inr (as_replayed (replay (recs @ [MessageRec p])))"
    unfolding body using assms(7-11) by (cases "t = []") (auto intro: fold_transcript_whole fold_transcript_torn simp del: record_lines_simps)
  moreover have "\<exists>ms. rp_messages (as_replayed (replay (recs @ [MessageRec p]))) = ms @ [p]"
    by (cases "replay recs") (simp add: replay_snoc as_replayed_def)
  moreover have "\<not> resumable (ms @ [p])" for ms
    using assms(12,13) by (simp add: resumable_def settled_def last_opt_def)
  ultimately show ?thesis
    using assms(1-6)
    by (auto simp: session_resume_def transcript_path_def open_nofollow_def open_at_def ownership_def
        WRITABLE_BITS_def io_bind_def io_map_err_def io_fail_def io_ret_def io_of_sum_def Let_def)
qed

lemma create_loop_Inr:
  "create_loop os ser root directory attempt left w = (Inr s, w') \<Longrightarrow>
     \<exists>w1 w2 now. os_openat os directory (id_text (se_id s) @ ''.jsonl'')
          [O_WRONLY, O_APPEND, O_CREAT, O_EXCL, O_NOFOLLOW, O_CLOEXEC] OWNER_ONLY w1 = (Inr (se_file s), w2)
       \<and> (\<exists>w3. os_write_all os (se_file s) (record_lines ser
              [HeaderRec \<lparr>hd_version = VERSION, hd_id = id_text (se_id s), hd_created_at_millis = now\<rparr>]) w3
            = (Inr (), w'))
       \<and> se_messages s = [] \<and> se_accounting s = default_accounting \<and> \<not> se_shared_read s
       \<and> se_path s = path_join root (id_text (se_id s) @ ''.jsonl'')"
proof (induction left arbitrary: attempt w)
  case 0
  then show ?case by (simp add: io_fail_def)
next
  case (Suc left)
  from Suc.prems show ?case
    by (auto simp: transcript_path_def open_at_def create_flags_def session_write_def clock_now_def
        id_now_def io_bind_def io_map_err_def io_fail_def io_ret_def Let_def
        split: prod.splits sum.splits session_error.splits io_error.splits
        dest!: Suc.IH) blast+
qed

lemma narrow_root_Inr:
  "narrow_root os root w = (Inr dir, w') \<Longrightarrow>
     \<exists>w1 mode w2. os_open os root [O_RDONLY, O_NOFOLLOW, O_CLOEXEC] w = (Inr dir, w1)
       \<and> os_fstat os dir w1 = (Inr (os_euid os, mode), w2) \<and> os_euid os = os_uid os
       \<and> ((mode AND 0xFFF) AND DIR_SHARED_BITS = 0 \<and> w' = w2
          \<or> os_fchmod os dir DIR_OWNER_ONLY w2 = (Inr (), w'))"
  by (auto simp: narrow_root_def open_nofollow_def ownership_def io_bind_def io_map_err_def io_fail_def
      io_ret_def split: prod.splits sum.splits if_splits)

text \<open>
  A session that create answers is empty, created exclusively and without following a
  link through the descriptor of a directory that is ours and that nobody else could use (or that
  was just narrowed), and starts with one header line naming its own id: no earlier transcript is
  reused, truncated or written through a link.
\<close>

lemma create_fresh:
  assumes "session_create os ser root w = (Inr s, w')"
  shows "\<exists>dir mode w1 w2 w3 w4 w5 w6 now.
      os_open os root [O_RDONLY, O_NOFOLLOW, O_CLOEXEC] w1 = (Inr dir, w2)
    \<and> os_fstat os dir w2 = (Inr (os_euid os, mode), w3) \<and> os_euid os = os_uid os
    \<and> ((mode AND 0xFFF) AND DIR_SHARED_BITS = 0 \<or> (\<exists>w'. os_fchmod os dir DIR_OWNER_ONLY w3 = (Inr (), w')))
    \<and> os_openat os dir (id_text (se_id s) @ ''.jsonl'')
        [O_WRONLY, O_APPEND, O_CREAT, O_EXCL, O_NOFOLLOW, O_CLOEXEC] OWNER_ONLY w4 = (Inr (se_file s), w5)
    \<and> os_write_all os (se_file s)
        (ser (HeaderRec \<lparr>hd_version = VERSION, hd_id = id_text (se_id s), hd_created_at_millis = now\<rparr>) @ [nl]) w6
        = (Inr (), w')
    \<and> se_messages s = [] \<and> se_accounting s = default_accounting \<and> \<not> se_shared_read s"
proof -
  from assms obtain dir wa wb where nr: "narrow_root os root wa = (Inr dir, wb)"
    and cl: "create_loop os ser root dir 0 ATTEMPTS wb = (Inr s, w')"
    by (auto simp: session_create_def io_bind_def split: prod.splits sum.splits)
  from narrow_root_Inr[OF nr] obtain w1 mode w2 where
    d: "os_open os root [O_RDONLY, O_NOFOLLOW, O_CLOEXEC] wa = (Inr dir, w1)"
       "os_fstat os dir w1 = (Inr (os_euid os, mode), w2)" "os_euid os = os_uid os"
       "(mode AND 0xFFF) AND DIR_SHARED_BITS = 0 \<or> (\<exists>w'. os_fchmod os dir DIR_OWNER_ONLY w2 = (Inr (), w'))"
    by blast
  from create_loop_Inr[OF cl] obtain w4 w5 now w6 where
    c: "os_openat os dir (id_text (se_id s) @ ''.jsonl'')
          [O_WRONLY, O_APPEND, O_CREAT, O_EXCL, O_NOFOLLOW, O_CLOEXEC] OWNER_ONLY w4 = (Inr (se_file s), w5)"
       "os_write_all os (se_file s)
          (ser (HeaderRec \<lparr>hd_version = VERSION, hd_id = id_text (se_id s), hd_created_at_millis = now\<rparr>) @ [nl]) w6
          = (Inr (), w')"
       "se_messages s = []" "se_accounting s = default_accounting" "\<not> se_shared_read s"
    by auto
  show ?thesis
    by (rule exI[of _ dir], rule exI[of _ mode], rule exI[of _ wa], rule exI[of _ w1], rule exI[of _ w2],
        rule exI[of _ w4], rule exI[of _ w5], rule exI[of _ w6], rule exI[of _ now]) (intro conjI d c)
qed

section \<open>A kernel and a codec to evaluate the store on\<close>

text \<open>One directory (descriptor 0) with one file (descriptor 1), whose bytes are the world.\<close>

definition demo_os :: "(string, nat) os" where
  "demo_os = \<lparr>
     os_mkdir_all = (\<lambda>_ _ w. (Inr (), w)),
     os_open = (\<lambda>_ _ w. (Inr 0, w)),
     os_openat = (\<lambda>_ _ _ _ w. (Inr 1, w)),
     os_fstat = (\<lambda>fd w. (Inr (1000, if fd = 0 then 0x1C0 else 0x180), w)),
     os_fchmod = (\<lambda>_ _ w. (Inr (), w)),
     os_read_to_string = (\<lambda>_ w. (Inr w, w)),
     os_write_all = (\<lambda>_ t w. (Inr (), w @ t)),
     os_elapsed = (\<lambda>w. (Some 1, w)),
     os_euid = 1000, os_uid = 1000\<rparr>"

definition demo_user :: "unit message" where
  "demo_user = \<lparr>sm_role = StoredUser, sm_content = [StoredText ''q'']\<rparr>"

definition demo_reply :: "unit message" where
  "demo_reply = \<lparr>sm_role = StoredAssistant, sm_content = [StoredText ''a'']\<rparr>"

definition demo_header :: header where
  "demo_header = \<lparr>hd_version = VERSION, hd_id = ''1-a'', hd_created_at_millis = 1\<rparr>"

definition demo_accounting :: accounting where
  "demo_accounting = \<lparr>ac_observed = None, ac_withheld = 0, ac_stop = Some Answered\<rparr>"

definition demo_turn :: "unit completed_turn" where
  "demo_turn = \<lparr>ct_messages = [demo_user, demo_reply], ct_observed = None, ct_withheld = 0,
                ct_stop = Answered\<rparr>"

fun demo_ser :: "unit transcript_record \<Rightarrow> string" where
  "demo_ser (HeaderRec _) = ''HH''"
| "demo_ser (MessageRec m) = (if sm_role m = StoredUser then ''UU'' else ''AA'')"
| "demo_ser (TurnRec _) = ''TT''"

definition demo_parse :: "string \<Rightarrow> string + unit transcript_record" where
  "demo_parse t =
     (if t = ''HH'' then Inr (HeaderRec demo_header)
      else if t = ''UU'' then Inr (MessageRec demo_user)
      else if t = ''AA'' then Inr (MessageRec demo_reply)
      else if t = ''TT'' then Inr (TurnRec demo_accounting)
      else Inl ''expected value'')"

definition demo_session :: "(unit, nat) session" where
  "demo_session = \<lparr>se_id = SessionId ''1-a'', se_path = ''/s/1-a.jsonl'', se_file = 1,
     se_messages = [], se_accounting = default_accounting, se_shared_read = False\<rparr>"

definition demo_file :: string where
  "demo_file = ''HH'' @ nl # ''UU'' @ nl # ''AA'' @ nl # ''TT'' @ [nl]"

lemma demo_codec:
  "line_codec demo_parse demo_ser (HeaderRec demo_header # [] @ append_records demo_turn)"
  "hd_version demo_header = VERSION"
  by (simp_all add: append_records_def demo_turn_def demo_user_def demo_reply_def demo_parse_def
      demo_accounting_def turn_accounting_def demo_header_def strip_cr_def)

lemma demo_append:
  "session_append demo_os demo_ser demo_session demo_turn (''HH'' @ [nl]) =
     (Inr (demo_session\<lparr>se_messages := [demo_user, demo_reply], se_accounting := demo_accounting\<rparr>),
      demo_file)"
  by (simp add: session_append_def append_check_def demo_turn_def demo_user_def demo_reply_def demo_session_def
      resumable_def settled_def last_opt_def joins_def follows_def opens_def head_opt_def
      session_write_def demo_os_def io_bind_def io_map_err_def io_ret_def append_records_def
      absorb_turn_def turn_accounting_def default_accounting_def demo_accounting_def or_opt_def demo_file_def)

theorem append_roundtrip_witness:
  "fold_transcript demo_parse ''p'' demo_file =
     Inr \<lparr>rp_messages = [demo_user, demo_reply], rp_accounting = demo_accounting\<rparr>"
  using append_roundtrip[OF demo_append _ demo_codec, of "''p''"]
  by (simp add: legal_def replay_def demo_session_def append_records_def demo_turn_def demo_user_def demo_reply_def demo_file_def)

definition demo_resumed :: "(unit, nat) session" where
  "demo_resumed = \<lparr>se_id = SessionId ''1-a'', se_path = ''/s/1-a.jsonl'', se_file = 1,
     se_messages = [demo_user, demo_reply], se_accounting = demo_accounting, se_shared_read = False\<rparr>"

lemma demo_resume:
  "session_resume demo_os demo_parse ''/s'' (SessionId ''1-a'') demo_file = (Inr demo_resumed, demo_file)"
  by code_simp

theorem resume_vetted_witness:
  "legal (se_messages demo_resumed) \<and> \<not> se_shared_read demo_resumed"
  using resume_vetted[OF demo_resume] by (auto simp: demo_resumed_def)

lemma torn_append_replays_witness:
  "\<exists>n. fold_transcript demo_parse ''p'' (''HH'' @ nl # ''UU'' @ nl # ''A'') =
         Inr (as_replayed (replay (take n (append_records demo_turn))))
       \<and> length (record_lines demo_ser (take n (append_records demo_turn))) \<le> 5"
proof -
  have "\<forall>r \<in> set (append_records demo_turn). \<forall>j. 0 < j \<and> j < length (demo_ser r) \<longrightarrow>
      (\<exists>e. demo_parse (take j (demo_ser r)) = Inl e)"
    by (auto simp: append_records_def demo_turn_def demo_user_def demo_reply_def demo_parse_def
        less_Suc_eq numeral_eq_Suc)
  from torn_append_replays[OF demo_codec _ this, of "''p''" 4] show ?thesis
    by (auto simp: append_records_def demo_turn_def demo_user_def demo_reply_def)
qed


lemma torn_after_prompt_refused_witness:
  "fst (session_resume demo_os demo_parse ''/s'' (SessionId ''1-a'') (''HH'' @ nl # ''UU'' @ nl # ''A'')) =
     Inl (Unresumable ''/s/1-a.jsonl'')"
  using torn_after_prompt_refused[of demo_os "''/s''" "''HH'' @ nl # ''UU'' @ nl # ''A''" 0
      "''HH'' @ nl # ''UU'' @ nl # ''A''" "''HH'' @ nl # ''UU'' @ nl # ''A''" "SessionId ''1-a''" 1
      "''HH'' @ nl # ''UU'' @ nl # ''A''" "''HH'' @ nl # ''UU'' @ nl # ''A''" demo_ser demo_header "[]" demo_user
      "''A''" "''HH'' @ nl # ''UU'' @ nl # ''A''" demo_parse "''expected value''"] demo_codec
  by (simp add: demo_os_def demo_user_def demo_parse_def answers_only_def path_join_def strip_cr_def is_absolute_def append_records_def demo_turn_def)

lemma demo_create:
  "session_create demo_os demo_ser ''/s'' [] =
     (Inr \<lparr>se_id = SessionId ''1'', se_path = ''/s/1.jsonl'', se_file = 1,
           se_messages = [], se_accounting = default_accounting, se_shared_read = False\<rparr>, ''HH'' @ [nl])"
proof -
  have id: "from_clock (Some 1) 0 = Inr (SessionId ''1'')" 
    by (simp add: from_clock_def clock_millis_def saturating_add_u64_def base36_def ALPHABET_def base36_digits.simps)
  obtain m where n: "ATTEMPTS = Suc m" by (simp add: ATTEMPTS_def numeral_eq_Suc)
  have c: "clock_millis (Some 1) = Inr 1" by (simp add: clock_millis_def)
  have p: "path_join ''/s'' ''1.jsonl'' = ''/s/1.jsonl''" by code_simp
  show ?thesis
    by (simp add: session_create_def n narrow_root_def open_nofollow_def ownership_def demo_os_def
        DIR_SHARED_BITS_def id_now_def clock_now_def id[unfolded One_nat_def] c[unfolded One_nat_def] p open_at_def transcript_path_def session_write_def
        io_bind_def io_map_err_def io_ret_def io_fail_def Let_def)
qed

lemma create_fresh_witness:
  "\<exists>s. fst (session_create demo_os demo_ser ''/s'' []) = Inr s \<and> se_messages s = [] \<and> \<not> se_shared_read s"
  using create_fresh[OF demo_create] unfolding demo_create by auto

end
