(* ===== verification/Credentials.thy ===== *)
theory Credentials
  imports Paths
begin

text \<open>
  Where the provider key comes from (\<open>sandbx-auth\<close>): the environment first, then the credential file
  behind its mode checks, and the three things \<open>auth\<close> does. The file system is the fields of
  \<open>cred_os\<close>; the TOML parser and renderer are two of them, an error of the parser being the span it
  points at, and a value that is neither a string nor a table being of an opaque type.
\<close>

section \<open>Errors (auth_error.rs)\<close>

datatype auth_error =
    NoCredential string
  | NoConfigHome
  | Permissions string u32
  | DirPermissions string u32
  | AuthMalformed string nat
  | NotATable string
  | AuthIo string io_error
  | Encode string
  | Stdin io_error
  | TtyInput
  | BlankKey

section \<open>The credential file (store.rs)\<close>

datatype 'o toml = TomlString string | TomlTable "(string \<times> 'o toml) list" | TomlOther 'o

type_synonym 'o toml_table = "(string \<times> 'o toml) list"

record ('w, 'fd, 'o) cred_os =
  co_open :: "string \<Rightarrow> ('w, io_error, 'fd) io"
  co_mode :: "'fd \<Rightarrow> ('w, io_error, u32) io"
  co_canonicalize :: "string \<Rightarrow> ('w, io_error, string) io"
  co_read :: "'fd \<Rightarrow> ('w, io_error, string) io"
  co_create_dir :: "string \<Rightarrow> u32 \<Rightarrow> ('w, io_error, unit) io"
  co_chmod :: "'fd \<Rightarrow> u32 \<Rightarrow> ('w, io_error, unit) io"
  co_temp_in :: "string \<Rightarrow> ('w, io_error, 'fd) io"
  co_write_all :: "'fd \<Rightarrow> string \<Rightarrow> ('w, io_error, unit) io"
  co_sync :: "'fd \<Rightarrow> ('w, io_error, unit) io"
  co_persist :: "'fd \<Rightarrow> string \<Rightarrow> ('w, io_error, unit) io"
  co_remove :: "string \<Rightarrow> ('w, io_error, unit) io"
  co_parse :: "string \<Rightarrow> nat option + 'o toml_table"
  co_render :: "'o toml_table \<Rightarrow> string + string"

definition TABLE :: string where "TABLE = ''anthropic''"
definition ENTRY :: string where "ENTRY = ''api_key''"
definition KEY_OWNER_ONLY :: u32 where "KEY_OWNER_ONLY = 0x180"
definition KEY_DIR_OWNER_ONLY :: u32 where "KEY_DIR_OWNER_ONLY = 0x1C0"
definition SHARED_BITS :: u32 where "SHARED_BITS = 0x3F"

datatype shared = Refuse | Tolerate

text \<open>\<open>nonblank\<close> of key.rs: the trimmed key, if anything is left of it.\<close>

definition nonblank :: "string \<Rightarrow> string option" where
  "nonblank raw = (let key = trim raw in if key \<noteq> [] then Some key else None)"

text \<open>\<open>text[..start].lines().count().max(1)\<close>, or 0 where the error has no span.\<close>

definition line_of :: "string \<Rightarrow> nat option \<Rightarrow> nat" where
  "line_of s span =
     (case span of
        None \<Rightarrow> 0
      | Some start \<Rightarrow> max (length (rust_lines (take (min start (length s)) s))) 1)"

definition dir_mode_of :: "('w, 'fd, 'o) cred_os \<Rightarrow> string \<Rightarrow> ('w, auth_error, u32) io" where
  "dir_mode_of os dir =
     io_bind (io_map_err (AuthIo dir) (co_open os dir)) (\<lambda>fd. io_map_err (AuthIo dir) (co_mode os fd))"

definition vet_modes :: "('w, 'fd, 'o) cred_os \<Rightarrow> string \<Rightarrow> u32 \<Rightarrow> ('w, auth_error, unit) io" where
  "vet_modes os path mode =
     (if and mode SHARED_BITS \<noteq> 0 then io_fail (Permissions path (and mode 0xFFF))
      else io_bind (io_map_err (AuthIo path) (co_canonicalize os path)) (\<lambda>resolved.
        case parent resolved of
          None \<Rightarrow> io_ret ()
        | Some dir \<Rightarrow>
            io_bind (dir_mode_of os dir) (\<lambda>dir_mode.
              if and dir_mode SHARED_BITS \<noteq> 0 then io_fail (DirPermissions dir (and dir_mode 0xFFF))
              else io_ret ())))"

definition read_table ::
  "('w, 'fd, 'o) cred_os \<Rightarrow> string \<Rightarrow> shared \<Rightarrow> ('w, auth_error, 'o toml_table option) io" where
  "read_table os path shared =
     st_bind (co_open os path) (\<lambda>opened.
       case opened of
         Inl e \<Rightarrow> if e = IoNotFound then io_ret None else io_fail (AuthIo path e)
       | Inr fd \<Rightarrow>
           io_bind (io_map_err (AuthIo path) (co_mode os fd)) (\<lambda>mode.
           io_bind (if shared = Refuse then vet_modes os path mode else io_ret ()) (\<lambda>_.
           io_bind (io_map_err (AuthIo path) (co_read os fd)) (\<lambda>contents.
             case co_parse os contents of
               Inl span \<Rightarrow> io_fail (AuthMalformed path (line_of contents span))
             | Inr table \<Rightarrow> io_ret (Some table)))))"

definition key_in :: "'o toml_table \<Rightarrow> string option" where
  "key_in table =
     (case map_of table TABLE of
        Some (TomlTable provider) \<Rightarrow>
          (case map_of provider ENTRY of Some (TomlString raw) \<Rightarrow> nonblank raw | _ \<Rightarrow> None)
      | _ \<Rightarrow> None)"

definition stored :: "('w, 'fd, 'o) cred_os \<Rightarrow> string \<Rightarrow> ('w, auth_error, string option) io" where
  "stored os path =
     io_bind (read_table os path Refuse) (\<lambda>table.
       io_ret (case table of None \<Rightarrow> None | Some t \<Rightarrow> key_in t))"

definition write_table ::
  "('w, 'fd, 'o) cred_os \<Rightarrow> string \<Rightarrow> 'o toml_table \<Rightarrow> ('w, auth_error, unit) io" where
  "write_table os path table =
     (case co_render os table of
        Inl e \<Rightarrow> io_fail (Encode e)
      | Inr contents \<Rightarrow>
          (case parent path of
             None \<Rightarrow> io_fail NoConfigHome
           | Some dir \<Rightarrow>
               io_bind (io_map_err (AuthIo dir) (co_create_dir os dir KEY_DIR_OWNER_ONLY)) (\<lambda>_.
               io_bind (io_map_err (AuthIo dir) (co_open os dir)) (\<lambda>handle.
               io_bind (io_map_err (AuthIo dir) (co_chmod os handle KEY_DIR_OWNER_ONLY)) (\<lambda>_.
               io_bind (io_map_err (AuthIo path) (co_temp_in os dir)) (\<lambda>temp.
               io_bind (io_map_err (AuthIo path) (co_chmod os temp KEY_OWNER_ONLY)) (\<lambda>_.
               io_bind (io_map_err (AuthIo path) (co_write_all os temp contents)) (\<lambda>_.
               io_bind (io_map_err (AuthIo path) (co_sync os temp)) (\<lambda>_.
               io_bind (io_map_err (AuthIo path) (co_persist os temp path)) (\<lambda>_.
                 io_map_err (AuthIo dir) (co_sync os handle)))))))))))"

definition put_key :: "string \<Rightarrow> 'o toml_table \<Rightarrow> 'o toml_table option" where
  "put_key key table =
     (case (case map_of table TABLE of None \<Rightarrow> TomlTable [] | Some v \<Rightarrow> v) of
        TomlTable provider \<Rightarrow> Some (bt_insert TABLE (TomlTable (bt_insert ENTRY (TomlString key) provider)) table)
      | _ \<Rightarrow> None)"

definition store_key :: "('w, 'fd, 'o) cred_os \<Rightarrow> string \<Rightarrow> string \<Rightarrow> ('w, auth_error, unit) io" where
  "store_key os path key =
     io_bind (read_table os path Refuse) (\<lambda>found.
       case put_key key (case found of None \<Rightarrow> [] | Some t \<Rightarrow> t) of
         None \<Rightarrow> io_fail (NotATable path)
       | Some table \<Rightarrow> write_table os path table)"

definition drop_key :: "'o toml_table \<Rightarrow> bool \<times> 'o toml_table" where
  "drop_key table =
     (case map_of table TABLE of
        Some (TomlTable provider) \<Rightarrow>
          (let kept = bt_remove ENTRY provider
           in (map_of provider ENTRY \<noteq> None,
               if kept = [] then bt_remove TABLE table else bt_insert TABLE (TomlTable kept) table))
      | _ \<Rightarrow> (False, table))"

definition discard :: "('w, 'fd, 'o) cred_os \<Rightarrow> string \<Rightarrow> ('w, auth_error, bool) io" where
  "discard os path =
     io_bind (read_table os path Tolerate) (\<lambda>found.
       case found of
         None \<Rightarrow> io_ret False
       | Some table \<Rightarrow>
           (case drop_key table of (removed, kept) \<Rightarrow>
              io_bind (if kept = [] then io_map_err (AuthIo path) (co_remove os path) else write_table os path kept)
                (\<lambda>_. io_ret removed)))"

section \<open>The sources of a key (key.rs)\<close>

definition ENV_VAR :: string where "ENV_VAR = ''ANTHROPIC_API_KEY''"
definition CRED_FILE :: string where "CRED_FILE = ''sandbx/credentials.toml''"
definition UNAUTHENTICATED :: int where "UNAUTHENTICATED = 1"

datatype source = EnvSource | FileSource string

definition env_key :: "(string \<Rightarrow> string option) \<Rightarrow> string option" where
  "env_key lookup =
     (case lookup ENV_VAR of
        None \<Rightarrow> None | Some raw \<Rightarrow> if utf8_valid raw then nonblank raw else None)"

definition config_file :: "(string \<Rightarrow> string option) \<Rightarrow> auth_error + string" where
  "config_file lookup =
     (let absolute = (\<lambda>name. case lookup name of
                         None \<Rightarrow> None | Some d \<Rightarrow> if is_absolute d then Some d else None)
      in case absolute ''XDG_CONFIG_HOME'' of
           Some dir \<Rightarrow> Inr (path_join dir CRED_FILE)
         | None \<Rightarrow>
             (case absolute ''HOME'' of
                None \<Rightarrow> Inl NoConfigHome
              | Some home \<Rightarrow> Inr (path_join (path_join home ''.config'') CRED_FILE)))"

definition resolve_key ::
  "('w, 'fd, 'o) cred_os \<Rightarrow> (string \<Rightarrow> string option) \<Rightarrow> ('w, auth_error, string \<times> source) io" where
  "resolve_key os lookup =
     (case env_key lookup of
        Some key \<Rightarrow> io_ret (key, EnvSource)
      | None \<Rightarrow>
          io_bind (io_of_sum (config_file lookup)) (\<lambda>path.
          io_bind (stored os path) (\<lambda>found.
            case found of
              Some key \<Rightarrow> io_ret (key, FileSource path)
            | None \<Rightarrow> io_fail (NoCredential path))))"

definition api_key :: "('w, 'fd, 'o) cred_os \<Rightarrow> (string \<Rightarrow> string option) \<Rightarrow> ('w, auth_error, string) io" where
  "api_key os lookup = io_bind (resolve_key os lookup) (\<lambda>r. io_ret (fst r))"

datatype device = Terminal | Redirected

definition device_of :: "bool \<Rightarrow> device" where
  "device_of is_terminal = (if is_terminal then Terminal else Redirected)"

definition read_key :: "('w, io_error, string) io \<Rightarrow> device \<Rightarrow> ('w, auth_error, string) io" where
  "read_key input stdin =
     (if stdin = Terminal then io_fail TtyInput
      else io_bind (io_map_err Stdin input) (\<lambda>raw.
        case nonblank raw of None \<Rightarrow> io_fail BlankKey | Some key \<Rightarrow> io_ret key))"

datatype auth_action = Login | Logout | Status

text \<open>What a run prints and the code it exits with.\<close>

datatype auth_report =
    KeyStored string
  | KeyRemoved string
  | NoKeyStored string
  | AuthenticatedFrom source
  | NotAuthenticated

definition auth_execute ::
  "('w, 'fd, 'o) cred_os \<Rightarrow> (string \<Rightarrow> string option) \<Rightarrow> ('w, io_error, string) io \<Rightarrow> bool
     \<Rightarrow> auth_action \<Rightarrow> ('w, auth_error, auth_report \<times> int) io" where
  "auth_execute os lookup input is_terminal action =
     (case action of
        Login \<Rightarrow>
          io_bind (io_of_sum (config_file lookup)) (\<lambda>path.
          io_bind (read_key input (device_of is_terminal)) (\<lambda>key.
          io_bind (store_key os path key) (\<lambda>_. io_ret (KeyStored path, 0))))
      | Logout \<Rightarrow>
          io_bind (io_of_sum (config_file lookup)) (\<lambda>path.
          io_bind (discard os path) (\<lambda>removed.
            io_ret (if removed then KeyRemoved path else NoKeyStored path, 0)))
      | Status \<Rightarrow>
          st_bind (resolve_key os lookup) (\<lambda>r.
            case r of
              Inr (_, source) \<Rightarrow> io_ret (AuthenticatedFrom source, 0)
            | Inl (NoCredential _) \<Rightarrow> io_ret (NotAuthenticated, UNAUTHENTICATED)
            | Inl e \<Rightarrow> io_fail e))"

section \<open>The watched file system\<close>

datatype 'fd cev =
    COpen string "'fd option"
  | CMode 'fd "u32 option"
  | CCanon string "string option"
  | CRead 'fd "string option"
  | CMkdir string u32 bool
  | CChmod 'fd u32 bool
  | CTemp string "'fd option"
  | CWrite 'fd string bool
  | CSync 'fd bool
  | CPersist 'fd string bool
  | CRemove string bool

fun answer :: "'e + 'a \<Rightarrow> 'a option" where
  "answer (Inl _) = None"
| "answer (Inr x) = Some x"

definition watched_cred :: "('w, 'fd, 'o) cred_os \<Rightarrow> ('w \<times> 'fd cev list, 'fd, 'o) cred_os" where
  "watched_cred os = \<lparr>
     co_open = (\<lambda>p. noting (\<lambda>r. COpen p (answer r)) (co_open os p)),
     co_mode = (\<lambda>fd. noting (\<lambda>r. CMode fd (answer r)) (co_mode os fd)),
     co_canonicalize = (\<lambda>p. noting (\<lambda>r. CCanon p (answer r)) (co_canonicalize os p)),
     co_read = (\<lambda>fd. noting (\<lambda>r. CRead fd (answer r)) (co_read os fd)),
     co_create_dir = (\<lambda>p m. noting (\<lambda>r. CMkdir p m (\<not> isl r)) (co_create_dir os p m)),
     co_chmod = (\<lambda>fd m. noting (\<lambda>r. CChmod fd m (\<not> isl r)) (co_chmod os fd m)),
     co_temp_in = (\<lambda>p. noting (\<lambda>r. CTemp p (answer r)) (co_temp_in os p)),
     co_write_all = (\<lambda>fd b. noting (\<lambda>r. CWrite fd b (\<not> isl r)) (co_write_all os fd b)),
     co_sync = (\<lambda>fd. noting (\<lambda>r. CSync fd (\<not> isl r)) (co_sync os fd)),
     co_persist = (\<lambda>fd p. noting (\<lambda>r. CPersist fd p (\<not> isl r)) (co_persist os fd p)),
     co_remove = (\<lambda>p. noting (\<lambda>r. CRemove p (\<not> isl r)) (co_remove os p)),
     co_parse = co_parse os, co_render = co_render os\<rparr>"

lemma watched_cred_simps [simp]:
  "co_open (watched_cred os) p = noting (\<lambda>r. COpen p (answer r)) (co_open os p)"
  "co_mode (watched_cred os) fd = noting (\<lambda>r. CMode fd (answer r)) (co_mode os fd)"
  "co_canonicalize (watched_cred os) p = noting (\<lambda>r. CCanon p (answer r)) (co_canonicalize os p)"
  "co_read (watched_cred os) fd = noting (\<lambda>r. CRead fd (answer r)) (co_read os fd)"
  "co_create_dir (watched_cred os) p m = noting (\<lambda>r. CMkdir p m (\<not> isl r)) (co_create_dir os p m)"
  "co_chmod (watched_cred os) fd m = noting (\<lambda>r. CChmod fd m (\<not> isl r)) (co_chmod os fd m)"
  "co_temp_in (watched_cred os) p = noting (\<lambda>r. CTemp p (answer r)) (co_temp_in os p)"
  "co_write_all (watched_cred os) fd p = noting (\<lambda>r. CWrite fd p (\<not> isl r)) (co_write_all os fd p)"
  "co_sync (watched_cred os) fd = noting (\<lambda>r. CSync fd (\<not> isl r)) (co_sync os fd)"
  "co_persist (watched_cred os) fd p = noting (\<lambda>r. CPersist fd p (\<not> isl r)) (co_persist os fd p)"
  "co_remove (watched_cred os) p = noting (\<lambda>r. CRemove p (\<not> isl r)) (co_remove os p)"
  "co_parse (watched_cred os) p = co_parse os p"
  "co_render (watched_cred os) t = co_render os t"
  by (simp_all add: watched_cred_def)

text \<open>Steps that each go on only where the one before succeeded.\<close>

definition behind :: "(bool \<Rightarrow> 'e) \<Rightarrow> ('f + 'a \<Rightarrow> 'e list \<Rightarrow> bool) \<Rightarrow> 'f + 'a \<Rightarrow> 'e list \<Rightarrow> bool" where
  "behind s R r es \<longleftrightarrow> isl r \<and> es = [s False] \<or> (\<exists>es'. es = s True # es' \<and> R r es')"

fun in_turn :: "(bool \<Rightarrow> 'e) list \<Rightarrow> 'f + 'a \<Rightarrow> 'e list \<Rightarrow> bool" where
  "in_turn [] r es \<longleftrightarrow> \<not> isl r \<and> es = []"
| "in_turn (s # steps) r es \<longleftrightarrow> behind s (in_turn steps) r es"

lemma in_turn_Cons: "in_turn (s # steps) = behind s (in_turn steps)"
  by (simp add: fun_eq_iff)

lemma behind_ex: "behind s (\<lambda>r es. \<exists>x. R x r es) r es \<Longrightarrow> \<exists>x. behind s (R x) r es"
  by (auto simp: behind_def)

lemma noted:
  assumes "\<And>e. ev (Inl e) = s None" "\<And>x. ev (Inr x) = s (Some x)"
  shows "writes (io_map_err f (noting ev m)) (\<lambda>r es. es = [s (answer r)])"
proof (rule writesI)
  fix w l r w' l' assume run: "io_map_err f (noting ev m) (w, l) = (r, (w', l'))"
  obtain o' w1 where "m w = (o', w1)" by force
  with run assms show "\<exists>es. l' = l @ es \<and> es = [s (answer r)]"
    by (cases o') (auto simp: io_map_err_def noting_def)
qed

lemma noted_step:
  assumes "\<And>e. ev (Inl e) = s False" "\<And>x. ev (Inr x) = s True"
  shows "writes (io_map_err f (noting ev m)) (\<lambda>r es. es = [s (answer r \<noteq> None)])"
  by (rule noted[where s = "\<lambda>a. s (a \<noteq> None)"]) (use assms in auto)

lemma behind_bind:
  assumes "writes m (\<lambda>r es. es = [s (answer r)])" "\<And>x. writes (f x) (R x)"
  shows "writes (io_bind m f) (\<lambda>r es. \<exists>x. behind (\<lambda>ok. s (if ok then Some x else None)) (R x) r es)"
  by (rule writes_bind[OF assms]) (auto simp: behind_def)

lemma behind_step:
  assumes "writes m (\<lambda>r es. es = [s (answer r \<noteq> None)])" "\<And>x. writes (f x) R"
  shows "writes (io_bind m f) (behind s R)"
  by (rule writes_bind[OF assms]) (auto simp: behind_def)

lemma behind_end:
  assumes "writes m (\<lambda>r es. es = [s (answer r \<noteq> None)])"
  shows "writes m (in_turn [s])"
proof (rule writes_mono[OF assms], goal_cases)
  case (1 r es)
  then show ?case by (cases r) (auto simp: behind_def)
qed

section \<open>Reading\<close>

text \<open>
  A key is read only from a descriptor whose own mode, and whose directory's, hold no group or other
  bit, both measured before a byte of it is read.
\<close>

definition vetted_dir :: "string \<Rightarrow> 'fd cev list \<Rightarrow> bool" where
  "vetted_dir resolved es \<longleftrightarrow>
     (case parent resolved of
        None \<Rightarrow> es = []
      | Some dir \<Rightarrow> \<exists>fd mode. es = [COpen dir (Some fd), CMode fd (Some mode)] \<and> and mode SHARED_BITS = 0)"

definition private_open :: "string \<Rightarrow> 'fd \<Rightarrow> 'fd cev list \<Rightarrow> bool" where
  "private_open path fd es \<longleftrightarrow>
     (\<exists>mode resolved dir. es = COpen path (Some fd) # CMode fd (Some mode) # CCanon path (Some resolved) # dir
        \<and> and mode SHARED_BITS = 0 \<and> vetted_dir resolved dir)"

fun only_looks :: "'fd cev \<Rightarrow> bool" where
  "only_looks (COpen _ _) = True"
| "only_looks (CMode _ _) = True"
| "only_looks (CCanon _ _) = True"
| "only_looks (CRead _ _) = True"
| "only_looks _ = False"

abbreviation looks :: "'fd cev list \<Rightarrow> bool" where
  "looks es \<equiv> list_all only_looks es"

lemma vet_modes_log:
  "writes (vet_modes (watched_cred os) path mode) (\<lambda>r es. looks es \<and> (r = Inr () \<longrightarrow>
     and mode SHARED_BITS = 0 \<and> (\<exists>resolved dir. es = CCanon path (Some resolved) # dir \<and> vetted_dir resolved dir)))"
proof (rule writesI)
  fix w l r w' l' assume run: "vet_modes (watched_cred os) path mode (w, l) = (r, (w', l'))"
  let ?log = "\<lambda>r es. looks es \<and> (r = Inr () \<longrightarrow>
     and mode SHARED_BITS = 0 \<and> (\<exists>resolved dir. es = CCanon path (Some resolved) # dir \<and> vetted_dir resolved dir))"
  show "\<exists>es. l' = l @ es \<and> ?log r es"
  proof (cases "and mode SHARED_BITS = 0")
    case False
    with run show ?thesis by (auto simp: vet_modes_def)
  next
    case True
    obtain canon w1 where canon: "co_canonicalize os path w = (canon, w1)" by force
    show ?thesis
    proof (cases canon)
      case (Inl e)
      with run canon True show ?thesis by (auto simp: vet_modes_def io_bind_def io_map_err_def noting_def)
    next
      case (Inr resolved)
      show ?thesis
      proof (cases "parent resolved")
        case None
        with run canon True Inr show ?thesis
          by (auto simp: vet_modes_def io_bind_def io_map_err_def noting_def vetted_dir_def)
      next
        case (Some dir)
        obtain opened w2 where opened: "co_open os dir w1 = (opened, w2)" by force
        obtain m w3 where m: "co_mode os (projr opened) w2 = (m, w3)" by force
        from run canon True Inr Some opened m show ?thesis
          by (cases opened; cases m)
            (auto simp: vet_modes_def dir_mode_of_def io_bind_def io_map_err_def noting_def vetted_dir_def split: if_splits)
      qed
    qed
  qed
qed

definition table_read ::
  "('w, 'fd, 'o) cred_os \<Rightarrow> string \<Rightarrow> shared \<Rightarrow> auth_error + 'o toml_table option \<Rightarrow> 'fd cev list \<Rightarrow> bool" where
  "table_read os path shared r es \<longleftrightarrow>
     looks es
     \<and> (case r of
          Inr None \<Rightarrow> es = [COpen path None]
        | Inr (Some table) \<Rightarrow>
            (\<exists>fd vetted contents. es = vetted @ [CRead fd (Some contents)] \<and> co_parse os contents = Inr table
               \<and> (shared = Refuse \<longrightarrow> private_open path fd vetted))
        | Inl _ \<Rightarrow> True)"

lemma read_table_log: "writes (read_table (watched_cred os) path shared) (table_read os path shared)"
proof (rule writesI)
  fix w l r w' l' assume run: "read_table (watched_cred os) path shared (w, l) = (r, (w', l'))"
  obtain opened w1 where opened: "co_open os path w = (opened, w1)" by force
  show "\<exists>es. l' = l @ es \<and> table_read os path shared r es"
  proof (cases opened)
    case (Inl e)
    with run opened show ?thesis
      by (auto simp: read_table_def st_bind_def noting_def table_read_def split: if_splits)
  next
    case (Inr fd)
    obtain mode w2 where mode: "co_mode os fd w1 = (mode, w2)" by force
    show ?thesis
    proof (cases mode)
      case (Inl e)
      with run opened Inr mode show ?thesis
        by (auto simp: read_table_def st_bind_def noting_def io_bind_def io_map_err_def table_read_def)
    next
      case (Inr m)
      let ?vet = "if shared = Refuse then vet_modes (watched_cred os) path m else io_ret ()"
      obtain vetted w3 l3 where vet: "?vet (w2, l @ [COpen path (Some fd), CMode fd (Some m)]) = (vetted, (w3, l3))"
        by (metis prod.collapse)
      have "writes ?vet (\<lambda>r es. looks es \<and> (r = Inr () \<longrightarrow> shared = Refuse \<longrightarrow>
          and m SHARED_BITS = 0 \<and> (\<exists>resolved dir. es = CCanon path (Some resolved) # dir \<and> vetted_dir resolved dir)))"
        by (auto intro: writes_mono[OF vet_modes_log] writes_ret)
      from writesD[OF this vet] obtain es where es: "l3 = (l @ [COpen path (Some fd), CMode fd (Some m)]) @ es" "looks es"
        "vetted = Inr () \<Longrightarrow> shared = Refuse \<Longrightarrow> private_open path fd (COpen path (Some fd) # CMode fd (Some m) # es)"
        by (auto simp: private_open_def)
      obtain contents w4 where contents: "co_read os fd w3 = (contents, w4)" by force
      note known = run opened \<open>opened = Inr fd\<close> mode Inr vet es
      show ?thesis
      proof (cases vetted)
        case (Inl e)
        with known show ?thesis
          by (auto simp: read_table_def st_bind_def noting_def io_bind_def io_map_err_def table_read_def)
      next
        case (Inr u)
        show ?thesis
        proof (cases contents)
          case (Inl e)
          with known Inr contents show ?thesis
            by (auto simp: read_table_def st_bind_def noting_def io_bind_def io_map_err_def table_read_def)
        next
          case (Inr c)
          with known \<open>vetted = Inr u\<close> contents show ?thesis
            by (cases "co_parse os c")
              (auto simp: read_table_def st_bind_def noting_def io_bind_def io_map_err_def table_read_def)
        qed
      qed
    qed
  qed
qed

section \<open>Writing\<close>

text \<open>
  A file is written aside under its owner's mode, before a byte of it, and synced before it takes
  the name; each step only where the one before succeeded.
\<close>

definition write_steps :: "string \<Rightarrow> string \<Rightarrow> string \<Rightarrow> 'fd \<Rightarrow> 'fd \<Rightarrow> (bool \<Rightarrow> 'fd cev) list" where
  "write_steps path dir contents handle temp =
     [CMkdir dir KEY_DIR_OWNER_ONLY, \<lambda>ok. COpen dir (if ok then Some handle else None), CChmod handle KEY_DIR_OWNER_ONLY,
      \<lambda>ok. CTemp dir (if ok then Some temp else None), CChmod temp KEY_OWNER_ONLY, CWrite temp contents, CSync temp,
      CPersist temp path, CSync handle]"

definition written ::
  "('w, 'fd, 'o) cred_os \<Rightarrow> string \<Rightarrow> 'o toml_table \<Rightarrow> auth_error + unit \<Rightarrow> 'fd cev list \<Rightarrow> bool" where
  "written os path table r es \<longleftrightarrow>
     (case (co_render os table, parent path) of
        (Inr contents, Some dir) \<Rightarrow> \<exists>handle temp. in_turn (write_steps path dir contents handle temp) r es
      | _ \<Rightarrow> isl r \<and> es = [])"

lemma write_table_log: "writes (write_table (watched_cred os) path table) (written os path table)"
proof (cases "co_render os table")
  case (Inl e)
  then show ?thesis by (auto simp: write_table_def written_def intro!: writes_fail)
next
  case (Inr contents)
  show ?thesis
  proof (cases "parent path")
    case None
    with Inr show ?thesis by (auto simp: write_table_def written_def intro!: writes_fail)
  next
    case (Some dir)
    let ?w = "watched_cred os"
    have temp: "writes (io_bind (io_map_err (AuthIo path) (co_chmod ?w temp KEY_OWNER_ONLY)) (\<lambda>_.
        io_bind (io_map_err (AuthIo path) (co_write_all ?w temp contents)) (\<lambda>_.
        io_bind (io_map_err (AuthIo path) (co_sync ?w temp)) (\<lambda>_.
        io_bind (io_map_err (AuthIo path) (co_persist ?w temp path)) (\<lambda>_.
          io_map_err (AuthIo dir) (co_sync ?w handle))))))
      (behind (CChmod temp KEY_OWNER_ONLY) (behind (CWrite temp contents) (behind (CSync temp)
        (behind (CPersist temp path) (in_turn [CSync handle])))))" for temp handle
      unfolding watched_cred_simps by (intro behind_step behind_end noted_step) simp_all
    have handle: "writes (io_bind (io_map_err (AuthIo dir) (co_chmod ?w handle KEY_DIR_OWNER_ONLY)) (\<lambda>_.
        io_bind (io_map_err (AuthIo path) (co_temp_in ?w dir)) (\<lambda>temp.
        io_bind (io_map_err (AuthIo path) (co_chmod ?w temp KEY_OWNER_ONLY)) (\<lambda>_.
        io_bind (io_map_err (AuthIo path) (co_write_all ?w temp contents)) (\<lambda>_.
        io_bind (io_map_err (AuthIo path) (co_sync ?w temp)) (\<lambda>_.
        io_bind (io_map_err (AuthIo path) (co_persist ?w temp path)) (\<lambda>_.
          io_map_err (AuthIo dir) (co_sync ?w handle))))))))
      (\<lambda>r es. \<exists>temp. in_turn (drop 2 (write_steps path dir contents handle temp)) r es)" for handle
    proof (rule writes_mono, rule behind_step)
      show "writes (io_map_err (AuthIo dir) (co_chmod ?w handle KEY_DIR_OWNER_ONLY))
          (\<lambda>r es. es = [CChmod handle KEY_DIR_OWNER_ONLY (answer r \<noteq> None)])"
        unfolding watched_cred_simps by (rule noted_step) simp_all
      show "writes (io_bind (io_map_err (AuthIo path) (co_temp_in ?w dir)) (\<lambda>temp.
          io_bind (io_map_err (AuthIo path) (co_chmod ?w temp KEY_OWNER_ONLY)) (\<lambda>_.
          io_bind (io_map_err (AuthIo path) (co_write_all ?w temp contents)) (\<lambda>_.
          io_bind (io_map_err (AuthIo path) (co_sync ?w temp)) (\<lambda>_.
          io_bind (io_map_err (AuthIo path) (co_persist ?w temp path)) (\<lambda>_.
            io_map_err (AuthIo dir) (co_sync ?w handle)))))))
        (\<lambda>r es. \<exists>temp. in_turn (drop 3 (write_steps path dir contents handle temp)) r es)"
        unfolding watched_cred_simps
        by (rule writes_mono[OF behind_bind[OF noted temp[unfolded watched_cred_simps]]])
          (auto simp: write_steps_def in_turn_Cons simp del: in_turn.simps(2))
    qed (drule behind_ex, auto simp: write_steps_def in_turn_Cons simp del: in_turn.simps(2))
    have opened: "writes (io_bind (io_map_err (AuthIo dir) (co_open ?w dir)) (\<lambda>handle.
        io_bind (io_map_err (AuthIo dir) (co_chmod ?w handle KEY_DIR_OWNER_ONLY)) (\<lambda>_.
        io_bind (io_map_err (AuthIo path) (co_temp_in ?w dir)) (\<lambda>temp.
        io_bind (io_map_err (AuthIo path) (co_chmod ?w temp KEY_OWNER_ONLY)) (\<lambda>_.
        io_bind (io_map_err (AuthIo path) (co_write_all ?w temp contents)) (\<lambda>_.
        io_bind (io_map_err (AuthIo path) (co_sync ?w temp)) (\<lambda>_.
        io_bind (io_map_err (AuthIo path) (co_persist ?w temp path)) (\<lambda>_.
          io_map_err (AuthIo dir) (co_sync ?w handle)))))))))
      (\<lambda>r es. \<exists>handle temp. in_turn (drop 1 (write_steps path dir contents handle temp)) r es)"
      unfolding watched_cred_simps
      by (rule writes_mono[OF behind_bind[OF noted handle[unfolded watched_cred_simps]]])
        (auto dest!: behind_ex simp: write_steps_def in_turn_Cons simp del: in_turn.simps(2))
    have "writes (write_table ?w path table) (behind (CMkdir dir KEY_DIR_OWNER_ONLY)
        (\<lambda>r es. \<exists>handle temp. in_turn (drop 1 (write_steps path dir contents handle temp)) r es))"
      unfolding write_table_def watched_cred_simps Inr Some sum.case option.case
      by (rule behind_step[OF noted_step opened[unfolded watched_cred_simps]]) simp_all
    then show ?thesis
      by (rule writes_mono)
        (auto dest!: behind_ex simp: written_def Inr Some write_steps_def in_turn_Cons simp del: in_turn.simps(2))
  qed
qed

section \<open>What an edit of the table changes\<close>

text \<open>
  Storing and dropping a key are edits of one entry: every other table, and every other entry of
  this one, is as it was.
\<close>

definition provider_of :: "'o toml_table \<Rightarrow> string \<Rightarrow> 'o toml option" where
  "provider_of table =
     (case map_of table TABLE of Some (TomlTable provider) \<Rightarrow> map_of provider | _ \<Rightarrow> Map.empty)"

definition only_entry :: "'o toml_table \<Rightarrow> 'o toml_table \<Rightarrow> bool" where
  "only_entry before after \<longleftrightarrow>
     (\<forall>t. t \<noteq> TABLE \<longrightarrow> map_of after t = map_of before t)
     \<and> (\<forall>e. e \<noteq> ENTRY \<longrightarrow> provider_of after e = provider_of before e)"

lemma put_key_only:
  "put_key key table = Some table' \<Longrightarrow> only_entry table table' \<and> provider_of table' ENTRY = Some (TomlString key)"
  by (auto simp: put_key_def only_entry_def provider_of_def map_of_bt_insert split: option.splits toml.splits)

lemma emptied: "bt_remove k m = [] \<Longrightarrow> e \<noteq> k \<Longrightarrow> map_of m e = None"
  using map_of_bt_remove[of k m] by (simp add: fun_eq_iff split: if_splits) metis

lemma drop_key_only:
  "drop_key table = (removed, kept) \<Longrightarrow> only_entry table kept \<and> provider_of kept ENTRY = None
     \<and> (removed \<longleftrightarrow> provider_of table ENTRY \<noteq> None)"
  by (auto simp: drop_key_def only_entry_def provider_of_def map_of_bt_insert map_of_bt_remove Let_def emptied
      split: option.splits toml.splits if_splits)

lemma key_in_provider: "key_in table = (case provider_of table ENTRY of Some (TomlString raw) \<Rightarrow> nonblank raw | _ \<Rightarrow> None)"
  by (simp add: key_in_def provider_of_def split: option.splits toml.splits)

section \<open>The key is private\<close>

definition key_read ::
  "('w, 'fd, 'o) cred_os \<Rightarrow> (string \<Rightarrow> string option) \<Rightarrow> auth_error + (string \<times> source) \<Rightarrow> 'fd cev list \<Rightarrow> bool" where
  "key_read os lookup r es \<longleftrightarrow>
     looks es
     \<and> (case r of
          Inr (key, EnvSource) \<Rightarrow> es = [] \<and> env_key lookup = Some key
        | Inr (key, FileSource path) \<Rightarrow>
            env_key lookup = None \<and> config_file lookup = Inr path
            \<and> (\<exists>fd vetted contents table. es = vetted @ [CRead fd (Some contents)] \<and> private_open path fd vetted
                 \<and> co_parse os contents = Inr table \<and> key_in table = Some key)
        | Inl _ \<Rightarrow> True)"

text \<open>
  C13. The key comes from the environment without a look at the disk, or from the credential file: then
  the environment holds none, the file is the one the absolute config home names, and its bytes
  were read through one descriptor whose own mode, and the mode of the directory the name resolves
  into, showed no group and no other bit before the first of them was read. Nothing is changed.
\<close>

theorem key_read_privately: "writes (resolve_key (watched_cred os) lookup) (key_read os lookup)"
proof (cases "env_key lookup")
  case (Some key)
  then show ?thesis by (auto simp: resolve_key_def key_read_def intro!: writes_ret)
next
  case None
  have held: "writes (stored (watched_cred os) path) (\<lambda>r es. looks es \<and> (case r of
      Inr (Some key) \<Rightarrow> \<exists>fd vetted contents table. es = vetted @ [CRead fd (Some contents)]
        \<and> private_open path fd vetted \<and> co_parse os contents = Inr table \<and> key_in table = Some key
    | _ \<Rightarrow> True))" for path
    unfolding stored_def
    by (rule writes_bind_on[OF read_table_log, where Q = "\<lambda>t r es. es = [] \<and> r = Inr (case t of None \<Rightarrow> None | Some t \<Rightarrow> key_in t)"])
      (auto simp: table_read_def intro!: writes_ret split: option.splits)
  show ?thesis
  proof (cases "config_file lookup")
    case (Inl e)
    with None show ?thesis
      by (auto simp: resolve_key_def key_read_def io_bind_def io_of_sum_def intro!: writesI)
  next
    case (Inr path)
    have "writes (io_bind (stored (watched_cred os) path) (\<lambda>found. case found of
        Some key \<Rightarrow> io_ret (key, FileSource path) | None \<Rightarrow> io_fail (NoCredential path))) (key_read os lookup)"
    proof (rule writes_bind_on[OF held, where Q = "\<lambda>found r es. es = []
          \<and> r = (case found of Some key \<Rightarrow> Inr (key, FileSource path) | None \<Rightarrow> Inl (NoCredential path))"], goal_cases)
      case (1 found es)
      show ?case by (auto intro: writes_ret writes_fail split: option.splits)
    next
      case (2 e es)
      then show ?case by (simp add: key_read_def)
    next
      case (3 found es r es')
      with None Inr show ?case by (cases found) (auto simp: key_read_def)
    qed
    with None Inr show ?thesis
      by (simp add: resolve_key_def writes_def io_bind_def io_of_sum_def)
  qed
qed

definition key_put ::
  "('w, 'fd, 'o) cred_os \<Rightarrow> string \<Rightarrow> string \<Rightarrow> auth_error + unit \<Rightarrow> 'fd cev list \<Rightarrow> bool" where
  "key_put os path key r es \<longleftrightarrow>
     (\<exists>found looked wrote. es = looked @ wrote \<and> table_read os path Refuse found looked
        \<and> (isl r \<and> wrote = []
           \<or> (\<exists>before after. found = Inr before \<and> only_entry (case before of None \<Rightarrow> [] | Some t \<Rightarrow> t) after
                \<and> provider_of after ENTRY = Some (TomlString key) \<and> written os path after r wrote)))"

definition key_dropped ::
  "('w, 'fd, 'o) cred_os \<Rightarrow> string \<Rightarrow> auth_error + bool \<Rightarrow> 'fd cev list \<Rightarrow> bool" where
  "key_dropped os path r es \<longleftrightarrow>
     (\<exists>found looked wrote. es = looked @ wrote \<and> table_read os path Tolerate found looked
        \<and> (case found of
             Inr (Some before) \<Rightarrow>
               \<exists>after. only_entry before after \<and> provider_of after ENTRY = None
                 \<and> (\<forall>removed. r = Inr removed \<longrightarrow> removed = (provider_of before ENTRY \<noteq> None))
                 \<and> (if after = [] then \<exists>ok. wrote = [CRemove path ok] \<and> ok = (\<not> isl r)
                    else written os path after (map_sum id (\<lambda>_. ()) r) wrote)
           | Inr None \<Rightarrow> r = Inr False \<and> wrote = []
           | Inl _ \<Rightarrow> isl r \<and> wrote = []))"

lemma store_key_log: "writes (store_key (watched_cred os) path key) (key_put os path key)"
  unfolding store_key_def
proof (rule writes_bind_on[OF read_table_log, where Q = "\<lambda>found r wrote. isl r \<and> wrote = [] \<or>
      (\<exists>after. only_entry (case found of None \<Rightarrow> [] | Some t \<Rightarrow> t) after
        \<and> provider_of after ENTRY = Some (TomlString key) \<and> written os path after r wrote)"], goal_cases)
  case (1 found es)
  show ?case
  proof (cases "put_key key (case found of None \<Rightarrow> [] | Some t \<Rightarrow> t)")
    case None
    then show ?thesis by (auto intro: writes_fail)
  next
    case (Some after)
    with put_key_only[OF Some] show ?thesis by (auto intro!: writes_mono[OF write_table_log])
  qed
next
  case (2 e es)
  then show ?case unfolding key_put_def by (intro exI[of _ "Inl e"] exI[of _ es] exI[of _ "[]"]) simp
next
  case (3 found es r es')
  then show ?case unfolding key_put_def by blast
qed

lemma discard_log: "writes (discard (watched_cred os) path) (key_dropped os path)"
  unfolding discard_def
proof (rule writes_bind_on[OF read_table_log, where Q = "\<lambda>found r wrote. case found of
      None \<Rightarrow> r = Inr False \<and> wrote = []
    | Some before \<Rightarrow> \<exists>after. only_entry before after \<and> provider_of after ENTRY = None
        \<and> (\<forall>removed. r = Inr removed \<longrightarrow> removed = (provider_of before ENTRY \<noteq> None))
        \<and> (if after = [] then \<exists>ok. wrote = [CRemove path ok] \<and> ok = (\<not> isl r)
           else written os path after (map_sum id (\<lambda>_. ()) r) wrote)"], goal_cases)
  case (1 found es)
  show ?case
  proof (cases found)
    case None
    then show ?thesis by (auto intro: writes_ret)
  next
    case (Some before)
    obtain removed after where dropped: "drop_key before = (removed, after)" by force
    note only = drop_key_only[OF dropped]
    show ?thesis
    proof (cases "after = []")
      case True
      have "writes (io_bind (io_map_err (AuthIo path) (co_remove (watched_cred os) path)) (\<lambda>_. io_ret removed))
          (\<lambda>r es. (\<forall>b. r = Inr b \<longrightarrow> b = removed) \<and> es = [CRemove path (\<not> isl r)])"
        unfolding watched_cred_simps
        by (rule writes_bind[OF noted_step[where s = "CRemove path"], where Q = "\<lambda>_ r es. r = Inr removed \<and> es = []"])
          (auto intro: writes_ret)
      with Some dropped only True show ?thesis by (auto elim!: writes_mono)
    next
      case False
      have "writes (io_bind (write_table (watched_cred os) path after) (\<lambda>_. io_ret removed))
          (\<lambda>r es. (\<forall>b. r = Inr b \<longrightarrow> b = removed) \<and> written os path after (map_sum id (\<lambda>_. ()) r) es)"
        by (rule writes_bind[OF write_table_log, where Q = "\<lambda>_ r es. r = Inr removed \<and> es = []"])
          (auto intro: writes_ret)
      with Some dropped only False show ?thesis by (auto elim!: writes_mono)
    qed
  qed
next
  case (2 e es)
  then show ?case unfolding key_dropped_def by (intro exI[of _ "Inl e"] exI[of _ es] exI[of _ "[]"]) simp
next
  case (3 found es r es')
  then show ?case unfolding key_dropped_def
    by - (rule exI[of _ "Inr found"], rule exI[of _ es], rule exI[of _ es'], simp)
qed

text \<open>
  C37. Storing a key rewrites the file to the same table with that one entry set, and only behind the
  checks a read makes; logging out rewrites it without the entry, whatever its mode, or removes a file
  left empty, and says whether there was a key. Every rewrite goes to a fresh file beside it, made 0600
  before a byte is in it, synced before it takes the name, in a directory made 0700; a step that
  fails leaves the rest undone, so that the old file is whole up to the rename.
\<close>

theorem key_edits_atomic:
  "writes (store_key (watched_cred os) path key) (key_put os path key)
   \<and> writes (discard (watched_cred os) path) (key_dropped os path)"
  by (intro conjI store_key_log discard_log)

end
