(* ===== verification/Grant_Flags.thy ===== *)
theory Grant_Flags
  imports Policy Credentials Helper_Args Terminal_Text
begin

text \<open>
  The grant flags and the policy they describe (\<open>sandbx-grants\<close>): what a flag's value is refused for,
  where a run without path flags may root its default, and the one loop that vets what was typed.
  The file system and the working directory are fields of \<open>flags_os\<close>, with what a name of the
  resolver's own files resolves to as a function; \<open>fo_lookup\<close> is the process's environment.
\<close>

section \<open>Errors (policy_error.rs)\<close>

datatype policy_error =
    Unavailable string io_error
  | HomeDirectory string string
  | HomeParent string
  | UnnamedHome string "string option"
  | SystemExecutables string string
  | FilesystemRoot
  | ImposedVariable string
  | HarnessCredential string
  | GrantReachesOwned string string string
  | UnresolvableGrant string io_error
  | UnpinnableGrant string sandbox_error
  | CwdReachesOwned string string string
  | DnsWithResolverHint
  | DnsWithEveryPort
  | DnsWithNameserverPort
  | DnsWithoutEgress
  | DnsWithUnixSockets
  | DnsGrantsBoundFile string
  | RepeatedPin
  | PinNeedsAbsoluteProgram string

section \<open>The root of a default (root.rs)\<close>

definition HOME_PARENTS :: "string list" where
  "HOME_PARENTS = [''/home'', ''/Users'', ''/var/home'', ''/root'']"

definition holds_home_directories :: "string \<Rightarrow> bool" where
  "holds_home_directories cwd = list_ex (\<lambda>known. starts_with known cwd) HOME_PARENTS"

definition SHARED_HOME_PARENTS :: "string list" where
  "SHARED_HOME_PARENTS = [''/home'', ''/Users'', ''/var/home'']"

definition holds_other_homes :: "string \<Rightarrow> bool" where
  "holds_other_homes home = list_ex (\<lambda>known. starts_with known home) SHARED_HOME_PARENTS"

definition looks_like_a_home :: "string \<Rightarrow> bool" where
  "looks_like_a_home cwd =
     list_ex (\<lambda>known. case parent cwd of None \<Rightarrow> False | Some p \<Rightarrow> path_eq p known) HOME_PARENTS"

record homes =
  hm_paths :: "string list"
  hm_usable :: bool

record owned_path =
  op_path :: string
  op_holds :: string

record ('w, 'fd) flags_os =
  fo_path :: "('w, 'fd) path_os"
  fo_is_dir :: "string \<Rightarrow> 'w \<Rightarrow> bool \<times> 'w"
  fo_cwd :: "('w, io_error, string) io"
  fo_lookup :: "string \<Rightarrow> string option"
  fo_canonical :: "string \<Rightarrow> string option"
  fo_error_text :: "sandbox_error \<Rightarrow> string"

definition owned_paths :: "(string \<Rightarrow> string option) \<Rightarrow> owned_path list" where
  "owned_paths lookup =
     (case sessions_directory lookup of
        Inl _ \<Rightarrow> []
      | Inr path \<Rightarrow> [\<lparr>op_path = path, op_holds = ''the session transcripts a resumed run replays to the model''\<rparr>])
     @ (case config_file lookup of
          Inl _ \<Rightarrow> []
        | Inr path \<Rightarrow> [\<lparr>op_path = path, op_holds = ''the provider key it spends''\<rparr>])"

definition named_homes :: "('w, 'fd) flags_os \<Rightarrow> string option \<Rightarrow> 'w \<Rightarrow> homes \<times> 'w" where
  "named_homes os home =
     (case home of
        None \<Rightarrow> st_ret \<lparr>hm_paths = [], hm_usable = False\<rparr>
      | Some home \<Rightarrow>
          if \<not> is_absolute home then st_ret \<lparr>hm_paths = [], hm_usable = False\<rparr>
          else st_bind (po_canonicalize (fo_path os) home) (\<lambda>canon.
            case canon of
              Inl _ \<Rightarrow> st_ret \<lparr>hm_paths = [home], hm_usable = False\<rparr>
            | Inr resolved \<Rightarrow>
                st_bind (fo_is_dir os resolved) (\<lambda>dir.
                  st_ret \<lparr>hm_paths = (if path_eq resolved home then [home] else [home, resolved]),
                          hm_usable = (dir \<and> \<not> holds_other_homes resolved)\<rparr>)))"

definition absolute_path :: "('w, 'fd) flags_os \<Rightarrow> string \<Rightarrow> ('w, policy_error, string) io" where
  "absolute_path os granted =
     (if is_absolute granted then io_ret granted
      else io_bind (io_map_err (UnresolvableGrant granted) (fo_cwd os)) (\<lambda>cwd. io_ret (path_join cwd granted)))"

text \<open>The deepest ancestor that resolves, replaced by what it resolves to.\<close>

definition rejoined :: "string \<Rightarrow> nat \<Rightarrow> string \<Rightarrow> string" where
  "rejoined path depth base =
     foldl (\<lambda>resolved c. path_join resolved (component_text c)) base
       (rev (take depth (rev (components path))))"

fun resolve_from :: "('w, 'fd) flags_os \<Rightarrow> string \<Rightarrow> nat \<Rightarrow> string list \<Rightarrow> 'w \<Rightarrow> string \<times> 'w" where
  "resolve_from os path depth [] = st_ret path"
| "resolve_from os path depth (ancestor # later) =
     st_bind (po_canonicalize (fo_path os) ancestor) (\<lambda>canon.
       case canon of
         Inr base \<Rightarrow> st_ret (rejoined path depth base)
       | Inl _ \<Rightarrow> resolve_from os path (Suc depth) later)"

definition resolved_path :: "('w, 'fd) flags_os \<Rightarrow> string \<Rightarrow> 'w \<Rightarrow> string \<times> 'w" where
  "resolved_path os path = resolve_from os path 0 (ancestors path)"

definition flag_bound :: "('w, 'fd) flags_os \<Rightarrow> string \<Rightarrow> string \<Rightarrow> bool" where
  "flag_bound os typed granted =
     (bound_by_resolver (fo_canonical os) typed \<or> bound_by_resolver (fo_canonical os) granted)"

fun reaches_owned :: "('w, 'fd) flags_os \<Rightarrow> string \<Rightarrow> owned_path list \<Rightarrow> 'w \<Rightarrow> owned_path option \<times> 'w" where
  "reaches_owned os granted [] = st_ret None"
| "reaches_owned os granted (o1 # owned) =
     st_bind (resolved_path os (op_path o1)) (\<lambda>path.
       if starts_with path granted \<or> starts_with granted path then st_ret (Some o1)
       else reaches_owned os granted owned)"

definition vetted_root ::
  "('w, 'fd) flags_os \<Rightarrow> string \<Rightarrow> homes \<Rightarrow> vetted_path list \<Rightarrow> owned_path list \<Rightarrow> ('w, policy_error, unit) io" where
  "vetted_root os cwd homes granted owned =
     (if parent cwd = None then io_fail FilesystemRoot
      else case find (\<lambda>home. starts_with home cwd) (hm_paths homes) of
          Some home \<Rightarrow> io_fail (HomeDirectory cwd home)
        | None \<Rightarrow>
            if holds_home_directories cwd then io_fail (HomeParent cwd)
            else if \<not> hm_usable homes \<and> looks_like_a_home cwd
            then io_fail (UnnamedHome cwd (head_opt (hm_paths homes)))
            else case find (\<lambda>path. starts_with path cwd \<or> starts_with cwd path) (map vp_path granted) of
                Some path \<Rightarrow> io_fail (SystemExecutables cwd path)
              | None \<Rightarrow>
                  st_bind (reaches_owned os cwd owned) (\<lambda>found.
                    case found of
                      Some found \<Rightarrow> io_fail (CwdReachesOwned cwd (op_path found) (op_holds found))
                    | None \<Rightarrow> io_ret ()))"

definition vet_source :: "('w, 'fd) flags_os \<Rightarrow> sandbox_error \<Rightarrow> io_error" where
  "vet_source os e = (case e of GrantUnpinnable _ source \<Rightarrow> source | other \<Rightarrow> IoOther (fo_error_text os other))"

definition current_root ::
  "('w, 'fd) flags_os \<Rightarrow> vetted_path list \<Rightarrow> owned_path list \<Rightarrow> ('w, policy_error, vetted_path) io" where
  "current_root os granted owned =
     io_bind (io_map_err (Unavailable ''could not read the working directory to derive a policy from'') (fo_cwd os)) (\<lambda>cwd.
     io_bind (io_map_err (\<lambda>e. Unavailable ''could not resolve the working directory to derive a policy from'' (vet_source os e))
               (vet (fo_path os) cwd)) (\<lambda>v.
     st_bind (named_homes os (fo_lookup os ''HOME'')) (\<lambda>homes.
     io_bind (vetted_root os (vp_path v) homes granted owned) (\<lambda>_. io_ret v))))"

section \<open>The flags (grants.rs)\<close>

record flag_set =
  gf_read :: "string list"
  gf_write :: "string list"
  gf_exec :: "string list"
  gf_network :: "u16 list option"
  gf_unix_sockets :: bool
  gf_env :: "string list"
  gf_dns_over_tcp :: bool
  gf_dns :: "string list"

definition host_name :: "(string \<Rightarrow> bool) \<Rightarrow> string \<Rightarrow> string + string" where
  "host_name is_address s =
     (if s = [] then Inl ''expected a host name, but this one is empty''
      else if length s > DNS_NAME_LIMIT
      then Inl (''a host name is at most '' @ dec_nat DNS_NAME_LIMIT @ '' bytes, and this one is '' @ dec_nat (length s))
      else if CHR ''#'' \<in> set s \<or> CHR 0x00 \<in> set s \<or> has_whitespace s
      then Inl (''a host name cannot contain whitespace, `#` or a NUL byte '' @ em_dash @ '' pass one --allow-dns per name'')
      else if is_address s
      then Inl (s @ '' is an address, not a name, so there is nothing to resolve: --allow-dns bounds which names resolve, while --allow-network PORT is what bounds where a connection can go'')
      else Inr s)"

definition variable_name :: "string \<Rightarrow> string + string" where
  "variable_name s =
     (case split_once CHR ''='' s of
        Some (name, _) \<Rightarrow>
          Inl (''expected a variable name, not `NAME=VALUE`: --allow-env takes the value from sandbx's own environment, so write `--allow-env '' @ name @ ''`'')
      | None \<Rightarrow>
          if s = [] then Inl ''expected a variable name, but this one is empty''
          else if CHR 0x00 \<in> set s then Inl ''a variable name cannot contain a NUL byte''
          else Inr s)"

fun flag_paths :: "flag_set \<Rightarrow> axis \<Rightarrow> string list" where
  "flag_paths f AxRead = gf_read f"
| "flag_paths f AxWrite = gf_write f"
| "flag_paths f AxReadExecute = gf_exec f"

definition paths_given :: "flag_set \<Rightarrow> bool" where
  "paths_given f = list_ex (\<lambda>ax. flag_paths f ax \<noteq> []) all_axes"

definition names_env :: "flag_set \<Rightarrow> string \<Rightarrow> bool" where
  "names_env f n = list_ex (\<lambda>named. named = n) (gf_env f)"

text \<open>One typed path: the policy with its grant and the first bound file so far.\<close>

definition grant_flag ::
  "('w, 'fd) flags_os \<Rightarrow> owned_path list \<Rightarrow> axis \<Rightarrow> string \<Rightarrow> sandbox_policy \<times> string option
     \<Rightarrow> ('w, policy_error, sandbox_policy \<times> string option) io" where
  "grant_flag os owned ax path st =
     (case st of (p, bound) \<Rightarrow>
        io_bind (absolute_path os path) (\<lambda>typed.
        st_bind (vet (fo_path os) typed) (\<lambda>vetted.
        st_bind (case vetted of Inl _ \<Rightarrow> resolved_path os typed | Inr v \<Rightarrow> st_ret (vp_path v)) (\<lambda>judged.
        let bound = (if bound = None \<and> flag_bound os typed judged then Some path else bound)
        in st_bind (reaches_owned os judged owned) (\<lambda>found.
             case found of
               Some found \<Rightarrow> io_fail (GrantReachesOwned path (op_path found) (op_holds found))
             | None \<Rightarrow>
                 (case vetted of
                    Inl source \<Rightarrow> io_fail (UnpinnableGrant path source)
                  | Inr granted \<Rightarrow>
                      let p = grant ax granted p
                      in io_ret (if gr_write (axis_grants ax) then grant AxRead granted p else p, bound)))))))"

fun grant_flags ::
  "('w, 'fd) flags_os \<Rightarrow> owned_path list \<Rightarrow> (axis \<times> string) list \<Rightarrow> sandbox_policy \<times> string option
     \<Rightarrow> ('w, policy_error, sandbox_policy \<times> string option) io" where
  "grant_flags os owned [] st = io_ret st"
| "grant_flags os owned ((ax, path) # later) st =
     io_bind (grant_flag os owned ax path st) (grant_flags os owned later)"

definition network_flag :: "u16 list option \<Rightarrow> sandbox_policy \<Rightarrow> sandbox_policy" where
  "network_flag ports p =
     (case ports of
        None \<Rightarrow> p
      | Some [] \<Rightarrow> allow_network p
      | Some ports \<Rightarrow> fold allow_network_port ports p)"

definition dns_refusal :: "flag_set \<Rightarrow> string option \<Rightarrow> policy_error option" where
  "dns_refusal f bound =
     (if gf_dns f = [] then None
      else if gf_dns_over_tcp f then Some DnsWithResolverHint
      else if gf_unix_sockets f then Some DnsWithUnixSockets
      else case gf_network f of
          None \<Rightarrow> Some DnsWithoutEgress
        | Some [] \<Rightarrow> Some DnsWithEveryPort
        | Some ports \<Rightarrow>
            if NAMESERVER_PORT \<in> set ports then Some DnsWithNameserverPort
            else map_option DnsGrantsBoundFile bound)"

text \<open>Everything behind the path flags.\<close>

definition rest_of_policy ::
  "flag_set \<Rightarrow> sandbox_policy \<times> string option \<Rightarrow> policy_error + sandbox_policy" where
  "rest_of_policy f st =
     (case st of (p, bound) \<Rightarrow>
        let p = fold allow_env (gf_env f) p;
            p = network_flag (gf_network f) p;
            p = (if gf_unix_sockets f then allow_unix_sockets p else p);
            p = (if gf_dns_over_tcp f then hint_dns_over_tcp p else p)
        in case dns_refusal f bound of
             Some e \<Rightarrow> Inl e
           | None \<Rightarrow>
               (let p = fold allow_dns (gf_dns f) p
                in case find (\<lambda>n. list_ex (\<lambda>(imposed, _). n = imposed) (imposed_env p)) (gf_env f) of
                     Some n \<Rightarrow> Inl (ImposedVariable n)
                   | None \<Rightarrow> Inr p))"

definition flag_policy :: "('w, 'fd) flags_os \<Rightarrow> flag_set \<Rightarrow> ('w, policy_error, sandbox_policy) io" where
  "flag_policy os f =
     st_bind (allow_system_executables (fo_path os) default_policy) (\<lambda>p.
     let p = allow_standard_env p;
         owned = owned_paths (fo_lookup os)
     in io_bind
          (if paths_given f then io_ret p
           else io_bind (current_root os (sp_executable p) owned) (\<lambda>root.
             io_ret (allow_write root (allow_read root p)))) (\<lambda>p.
        io_bind (grant_flags os owned (concat (map (\<lambda>ax. map (Pair ax) (flag_paths f ax)) all_axes)) (p, None)) (\<lambda>st.
          io_of_sum (rest_of_policy f st))))"

section \<open>What a derived policy is\<close>

text \<open>Built by the core's own builders alone.\<close>

lemma built_fold: "(\<And>x p. built p \<Longrightarrow> built (f x p)) \<Longrightarrow> built p \<Longrightarrow> built (fold f xs p)"
  by (induction xs arbitrary: p) auto

lemma built_network_flag: "built p \<Longrightarrow> built (network_flag ports p)"
  by (auto simp: network_flag_def intro: built_network built_port built_fold split: option.splits list.splits)

definition granting :: "axis \<Rightarrow> vetted_path \<Rightarrow> sandbox_policy \<Rightarrow> sandbox_policy" where
  "granting ax v p = (if gr_write (axis_grants ax) then grant AxRead v (grant ax v p) else grant ax v p)"

lemma grant_flag_Inr:
  assumes "grant_flag os owned ax path (p, bound) w = (Inr (p', bound'), w')"
  obtains typed v w1 w2 where "absolute_path os path w = (Inr typed, w1)" "vet (fo_path os) typed w1 = (Inr v, w2)"
    "reaches_owned os (vp_path v) owned w2 = (None, w')" "p' = granting ax v p"
    "bound' = (if bound = None \<and> flag_bound os typed (vp_path v) then Some path else bound)"
proof -
  obtain typed w1 where typed: "absolute_path os path w = (typed, w1)" by force
  have "\<exists>t. typed = Inr t"
    using assms typed by (cases typed) (auto simp: grant_flag_def io_bind_def)
  then obtain t where t: "typed = Inr t" ..
  obtain vetted w2 where vetted: "vet (fo_path os) t w1 = (vetted, w2)" by force
  show thesis
  proof (cases vetted)
    case (Inl source)
    obtain judged w3 where judged: "resolved_path os t w2 = (judged, w3)" by force
    obtain found w4 where found: "reaches_owned os judged owned w3 = (found, w4)" by force
    from assms typed t vetted Inl judged found show ?thesis
      by (cases found) (auto simp: grant_flag_def io_bind_def st_bind_def Let_def)
  next
    case (Inr v)
    obtain found w4 where found: "reaches_owned os (vp_path v) owned w2 = (found, w4)" by force
    from assms typed t vetted Inr found show ?thesis
      by (cases found) (auto simp: grant_flag_def io_bind_def st_bind_def st_ret_def Let_def granting_def intro!: that)
  qed
qed

lemma built_granting: "built p \<Longrightarrow> built (granting ax v p)"
  by (auto simp: granting_def simp del: grant.simps intro: built_grant)

lemma built_grant_flag:
  assumes "grant_flag os owned ax path (p, bound) w = (Inr (p', bound'), w')" "built p"
  shows "built p'"
  using assms by (elim grant_flag_Inr) (simp add: built_granting)

lemma built_grant_flags:
  "grant_flags os owned flags (p, bound) w = (Inr (p', bound'), w') \<Longrightarrow> built p \<Longrightarrow> built p'"
proof (induction flags arbitrary: p bound w)
  case (Cons flag flags)
  obtain ax path where flag: "flag = (ax, path)" by force
  from Cons.prems(1) obtain p1 bound1 w1 where
    "grant_flag os owned ax path (p, bound) w = (Inr (p1, bound1), w1)"
    "grant_flags os owned flags (p1, bound1) w1 = (Inr (p', bound'), w')"
    by (auto simp: flag)
  with Cons.IH Cons.prems(2) built_grant_flag show ?case by metis
qed simp

lemma built_rest: "rest_of_policy f (p, bound) = Inr p' \<Longrightarrow> built p \<Longrightarrow> built p'"
  by (auto simp: rest_of_policy_def Let_def
      intro!: built_fold built_dns built_hint built_unix built_network_flag built_env split: option.splits if_splits)

text \<open>What the flags leave of the network, the sockets and the hint decides whether resolution is bounded.\<close>

lemma fold_allow_env: "sp_network (fold allow_env ns p) = sp_network p"
  "sp_unix_sockets (fold allow_env ns p) = sp_unix_sockets p"
  "sp_dns_over_tcp (fold allow_env ns p) = sp_dns_over_tcp p"
  "sp_dns_names (fold allow_env ns p) = sp_dns_names p"
  by (induction ns arbitrary: p) (auto simp: allow_env_def)

lemma fold_allow_dns: "sp_network (fold allow_dns ns p) = sp_network p"
  "sp_unix_sockets (fold allow_dns ns p) = sp_unix_sockets p"
  "sp_dns_over_tcp (fold allow_dns ns p) = sp_dns_over_tcp p"
  by (induction ns arbitrary: p) (auto simp: allow_dns_def)

lemma fold_allow_port:
  "sp_unix_sockets (fold allow_network_port ports p) = sp_unix_sockets p"
  "sp_dns_over_tcp (fold allow_network_port ports p) = sp_dns_over_tcp p"
  "sp_dns_names (fold allow_network_port ports p) = sp_dns_names p"
  by (induction ports arbitrary: p) (auto simp: allow_network_port_def)

lemma network_flag_dns: "sp_dns_names (network_flag ports p) = sp_dns_names p"
  by (simp add: network_flag_def fold_allow_port allow_network_def del: fold.simps split: option.splits list.splits)

definition ports_within :: "u16 set \<Rightarrow> network_policy \<Rightarrow> bool" where
  "ports_within allowed n \<longleftrightarrow> (case n of NetDenied \<Rightarrow> True | AnyPort \<Rightarrow> False | Ports ports \<Rightarrow> set ports \<subseteq> allowed)"

lemma fold_allow_port_within:
  "ports_within allowed (sp_network p) \<Longrightarrow> set ports \<subseteq> allowed
   \<Longrightarrow> ports_within allowed (sp_network (fold allow_network_port ports p))"
proof (induction ports arbitrary: p)
  case (Cons port ports)
  then have "ports_within allowed (sp_network (allow_network_port port p))"
    by (auto simp: ports_within_def allow_network_port_def split: network_policy.splits)
  with Cons show ?case by simp
qed simp

lemma rest_unbounded:
  assumes "rest_of_policy f (p, bound) = Inr p'"
    and "sp_network p = NetDenied" "\<not> sp_unix_sockets p" "\<not> sp_dns_over_tcp p" "sp_dns_names p = []"
  shows "unbounded_resolution p' = None"
proof (cases "gf_dns f = []")
  case True
  with assms have "sp_dns_names p' = []"
    by (auto simp: rest_of_policy_def Let_def network_flag_dns fold_allow_env
        allow_unix_sockets_def hint_dns_over_tcp_def split: option.splits if_splits)
  then show ?thesis by (simp add: unbounded_resolution_def bounds_resolution_def)
next
  case False
  with assms(1) obtain port ports where flags: "\<not> gf_dns_over_tcp f" "\<not> gf_unix_sockets f"
    "gf_network f = Some (port # ports)" "NAMESERVER_PORT \<notin> set (port # ports)"
    by (auto simp: rest_of_policy_def dns_refusal_def Let_def split: option.splits list.splits if_splits)
  let ?q = "fold allow_network_port (port # ports) (fold allow_env (gf_env f) p)"
  have p': "p' = fold allow_dns (gf_dns f) ?q"
    using assms(1) flags by (auto simp: rest_of_policy_def network_flag_def Let_def split: option.splits)
  have "ports_within (set (port # ports)) (sp_network ?q)"
    by (rule fold_allow_port_within) (simp_all add: fold_allow_env assms(2) ports_within_def)
  with flags(4) have "sp_network p' \<noteq> AnyPort" "\<And>ps. sp_network p' = Ports ps \<Longrightarrow> NAMESERVER_PORT \<notin> set ps"
    by (auto simp: p' fold_allow_dns ports_within_def simp del: fold.simps)
  moreover have "\<not> sp_unix_sockets p'" "\<not> sp_dns_over_tcp p'"
    using assms(3,4) by (simp_all add: p' fold_allow_dns fold_allow_port fold_allow_env del: fold.simps)
  ultimately show ?thesis
    by (auto simp: unbounded_resolution_def split: network_policy.splits)
qed

section \<open>What was granted\<close>

text \<open>The file system holds still while the flags are read: a name resolves to the same throughout.\<close>

definition at_rest :: "('w, 'fd) flags_os \<Rightarrow> (string \<Rightarrow> io_error + string) \<Rightarrow> bool" where
  "at_rest os canon \<longleftrightarrow> (\<forall>path w. fst (po_canonicalize (fo_path os) path w) = canon path)"

fun resolve_at :: "(string \<Rightarrow> io_error + string) \<Rightarrow> string \<Rightarrow> nat \<Rightarrow> string list \<Rightarrow> string" where
  "resolve_at canon path depth [] = path"
| "resolve_at canon path depth (ancestor # later) =
     (case canon ancestor of Inr base \<Rightarrow> rejoined path depth base | Inl _ \<Rightarrow> resolve_at canon path (Suc depth) later)"

definition apart :: "string \<Rightarrow> string \<Rightarrow> bool" where
  "apart p q \<longleftrightarrow> \<not> starts_with p q \<and> \<not> starts_with q p"

definition clear_of_owned :: "('w, 'fd) flags_os \<Rightarrow> (string \<Rightarrow> io_error + string) \<Rightarrow> string \<Rightarrow> bool" where
  "clear_of_owned os canon path \<longleftrightarrow>
     list_all (\<lambda>o1. apart (resolve_at canon (op_path o1) 0 (ancestors (op_path o1))) path) (owned_paths (fo_lookup os))"

definition granted_as :: "('w, 'fd) flags_os \<Rightarrow> (string \<Rightarrow> io_error + string) \<Rightarrow> string \<Rightarrow> vetted_path \<Rightarrow> bool" where
  "granted_as os canon path v \<longleftrightarrow>
     clear_of_owned os canon (vp_path v)
     \<and> (\<exists>typed w w1 w2. absolute_path os path w = (Inr typed, w1) \<and> vet (fo_path os) typed w1 = (Inr v, w2))"

definition private_root :: "('w, 'fd) flags_os \<Rightarrow> (string \<Rightarrow> io_error + string) \<Rightarrow> vetted_path list \<Rightarrow> vetted_path \<Rightarrow> bool" where
  "private_root os canon system v \<longleftrightarrow>
     parent (vp_path v) \<noteq> None
     \<and> list_all (\<lambda>known. \<not> starts_with known (vp_path v)) HOME_PARENTS
     \<and> (\<forall>home. fo_lookup os ''HOME'' = Some home \<and> is_absolute home \<longrightarrow>
          \<not> starts_with home (vp_path v) \<and> (\<forall>r. canon home = Inr r \<longrightarrow> \<not> starts_with r (vp_path v)))
     \<and> (looks_like_a_home (vp_path v) \<longrightarrow>
          (\<exists>home r. fo_lookup os ''HOME'' = Some home \<and> is_absolute home \<and> canon home = Inr r \<and> \<not> holds_other_homes r))
     \<and> list_all (\<lambda>g. apart (vp_path g) (vp_path v)) system
     \<and> clear_of_owned os canon (vp_path v)"

definition flags_granted ::
  "('w, 'fd) flags_os \<Rightarrow> (string \<Rightarrow> io_error + string) \<Rightarrow> flag_set \<Rightarrow> sandbox_policy \<Rightarrow> bool" where
  "flags_granted os canon f p \<longleftrightarrow>
     (\<exists>root system reads writes execs.
        sp_readable p = root @ reads @ writes \<and> sp_writable p = root @ writes \<and> sp_executable p = system @ execs
        \<and> (if paths_given f then root = [] else \<exists>v. root = [v] \<and> private_root os canon system v)
        \<and> list_all (\<lambda>g. \<exists>path \<in> set SYSTEM_EXECUTABLE_PATHS. \<exists>w w'. vet (fo_path os) path w = (Inr g, w')) system
        \<and> list_all2 (granted_as os canon) (gf_read f) reads
        \<and> list_all2 (granted_as os canon) (gf_write f) writes
        \<and> list_all2 (granted_as os canon) (gf_exec f) execs)"

lemma resolve_from_at: "at_rest os canon \<Longrightarrow> fst (resolve_from os path depth as w) = resolve_at canon path depth as"
proof (induction as arbitrary: depth w)
  case (Cons a as)
  obtain r w1 where r: "po_canonicalize (fo_path os) a w = (r, w1)" by force
  with Cons.prems have "canon a = r" unfolding at_rest_def by (metis fst_conv)
  with r Cons show ?case by (cases r) (simp_all add: st_bind_def st_ret_def)
qed (simp add: st_ret_def)

lemma reaches_none:
  assumes "at_rest os canon" "reaches_owned os path owned w = (None, w')"
  shows "list_all (\<lambda>o1. apart (resolve_at canon (op_path o1) 0 (ancestors (op_path o1))) path) owned"
  using assms(2)
proof (induction owned arbitrary: w)
  case (Cons o1 owned)
  obtain r w1 where r: "resolved_path os (op_path o1) w = (r, w1)" by force
  with resolve_from_at[OF assms(1), of "op_path o1" 0 "ancestors (op_path o1)" w]
  have "r = resolve_at canon (op_path o1) 0 (ancestors (op_path o1))" by (simp add: resolved_path_def)
  with r Cons show ?case by (auto simp: st_bind_def st_ret_def apart_def split: if_splits)
qed simp

lemma grant_flags_append:
  "grant_flags os owned (xs @ ys) st = io_bind (grant_flags os owned xs st) (grant_flags os owned ys)"
  by (induction xs arbitrary: st) (auto simp: fun_eq_iff io_bind_def io_ret_def split: prod.splits sum.splits)

lemma grant_flags_axis:
  assumes "at_rest os canon" "grant_flags os (owned_paths (fo_lookup os)) (map (Pair ax) ps) (p, bound) w = (Inr (p', bound'), w')"
  shows "\<exists>vs. list_all2 (granted_as os canon) ps vs \<and> p' = fold (granting ax) vs p"
  using assms(2)
proof (induction ps arbitrary: p bound w)
  case (Cons path ps)
  then obtain p1 bound1 w1 where
    flag: "grant_flag os (owned_paths (fo_lookup os)) ax path (p, bound) w = (Inr (p1, bound1), w1)"
    and later: "grant_flags os (owned_paths (fo_lookup os)) (map (Pair ax) ps) (p1, bound1) w1 = (Inr (p', bound'), w')"
    by auto
  from flag obtain v where "granted_as os canon path v" "p1 = granting ax v p"
  proof (elim grant_flag_Inr)
    fix typed v w2 w3
    assume "absolute_path os path w = (Inr typed, w2)" "vet (fo_path os) typed w2 = (Inr v, w3)"
      "reaches_owned os (vp_path v) (owned_paths (fo_lookup os)) w3 = (None, w1)" "p1 = granting ax v p"
    with reaches_none[OF assms(1)] show thesis by (intro that[of v]) (auto simp: granted_as_def clear_of_owned_def)
  qed
  with Cons.IH[OF later] show ?case by (force intro: exI[of _ "v # _"])
qed simp

lemma granting_reads: "fold (granting AxRead) vs p = p\<lparr>sp_readable := sp_readable p @ vs\<rparr>"
  by (induction vs arbitrary: p) (simp_all add: granting_def)

lemma granting_writes:
  "fold (granting AxWrite) vs p = p\<lparr>sp_readable := sp_readable p @ vs, sp_writable := sp_writable p @ vs\<rparr>"
  by (induction vs arbitrary: p) (simp_all add: granting_def)

lemma granting_execs: "fold (granting AxReadExecute) vs p = p\<lparr>sp_executable := sp_executable p @ vs\<rparr>"
  by (induction vs arbitrary: p) (simp_all add: granting_def)

lemma vet_each_system:
  assumes "vet_each os names p w = (p', w')"
  shows "\<exists>vs. p' = p\<lparr>sp_executable := sp_executable p @ vs\<rparr>
     \<and> list_all (\<lambda>g. \<exists>path \<in> set names. \<exists>w w'. vet os path w = (Inr g, w')) vs"
  using assms
proof (induction os names p w arbitrary: p' w' rule: vet_each.induct)
  case (2 os path ps p w)
  obtain r w1 where r: "vet os path w = (r, w1)" by force
  show ?case
  proof (cases r)
    case (Inl e)
    with 2(1)[OF r[symmetric]] 2(3) r show ?thesis by (fastforce simp: list_all_iff)
  next
    case (Inr v)
    from 2(2)[OF r[symmetric] Inr, of p' w'] 2(3) r Inr obtain vs where
      "p' = allow_read_execute v p\<lparr>sp_executable := sp_executable (allow_read_execute v p) @ vs\<rparr>"
      "list_all (\<lambda>g. \<exists>path \<in> set ps. \<exists>w w'. vet os path w = (Inr g, w')) vs" by auto
    with r Inr show ?thesis
      by (intro exI[of _ "v # vs"]) (auto simp: allow_read_execute_def list_all_iff)
  qed
qed (auto intro!: exI[of _ "[]"])

lemma fold_keeps: "(\<And>x p. g (f x p) = g p) \<Longrightarrow> g (fold f xs p) = g p"
  by (induction xs arbitrary: p) auto

definition path_lists :: "sandbox_policy \<Rightarrow> vetted_path list \<times> vetted_path list \<times> vetted_path list" where
  "path_lists p = (sp_readable p, sp_writable p, sp_executable p)"

lemma path_lists_kept:
  "path_lists (allow_env n p) = path_lists p" "path_lists (allow_dns n p) = path_lists p"
  "path_lists (allow_network_port port p) = path_lists p" "path_lists (allow_network p) = path_lists p"
  "path_lists (allow_unix_sockets p) = path_lists p" "path_lists (hint_dns_over_tcp p) = path_lists p"
  by (simp_all add: path_lists_def allow_env_def allow_dns_def allow_network_port_def allow_network_def
      allow_unix_sockets_def hint_dns_over_tcp_def)

lemma path_lists_network: "path_lists (network_flag ports p) = path_lists p"
  by (simp add: network_flag_def path_lists_kept fold_keeps[of path_lists] del: fold.simps split: option.splits list.splits)

lemma rest_keeps_paths:
  assumes "rest_of_policy f (p, bound) = Inr p'"
  shows "path_lists p' = path_lists p"
  using assms
  by (auto simp: rest_of_policy_def Let_def path_lists_kept path_lists_network fold_keeps[of path_lists]
      split: option.splits if_splits)

lemma vetted_root_private:
  assumes rest: "at_rest os canon"
    and homes: "named_homes os (fo_lookup os ''HOME'') w0 = (homes, w1)"
    and root: "vetted_root os (vp_path v) homes system (owned_paths (fo_lookup os)) w1 = (Inr (), w2)"
  shows "private_root os canon system v"
proof -
  let ?c = "vp_path v"
  from root have kept: "parent ?c \<noteq> None" "find (\<lambda>home. starts_with home ?c) (hm_paths homes) = None"
    "\<not> holds_home_directories ?c" "hm_usable homes \<or> \<not> looks_like_a_home ?c"
    "find (\<lambda>path. starts_with path ?c \<or> starts_with ?c path) (map vp_path system) = None"
    by (auto simp: vetted_root_def split: if_splits option.splits)
  with root obtain found w3 where "reaches_owned os ?c (owned_paths (fo_lookup os)) w1 = (None, w3)"
    by (auto simp: vetted_root_def st_bind_def split: prod.splits option.splits)
  with rest have owned: "clear_of_owned os canon ?c" by (auto simp: clear_of_owned_def intro: reaches_none)
  have home: "(\<forall>home. fo_lookup os ''HOME'' = Some home \<and> is_absolute home \<longrightarrow>
        home \<in> set (hm_paths homes) \<and> (\<forall>r. canon home = Inr r \<longrightarrow> (\<exists>h \<in> set (hm_paths homes). path_eq h r)))
      \<and> (hm_usable homes \<longrightarrow> (\<exists>home r. fo_lookup os ''HOME'' = Some home \<and> is_absolute home
          \<and> canon home = Inr r \<and> \<not> holds_other_homes r))"
  proof (cases "fo_lookup os ''HOME''")
    case None
    with homes show ?thesis by (auto simp: named_homes_def st_ret_def)
  next
    case (Some home)
    obtain r w where r: "po_canonicalize (fo_path os) home w0 = (r, w)" by force
    with rest have "canon home = r" unfolding at_rest_def by (metis fst_conv)
    obtain dir w' where "fo_is_dir os (projr r) w = (dir, w')" by force
    with Some r \<open>canon home = r\<close> homes show ?thesis
      by (cases r) (auto simp: named_homes_def st_bind_def st_ret_def path_eq_def split: if_splits)
  qed
  have "\<not> starts_with r ?c" if "path_eq h r" "h \<in> set (hm_paths homes)" for h r
    using that kept(2) by (auto simp: find_None_iff path_eq_def starts_with_def)
  with home kept owned show ?thesis
    by (auto simp: private_root_def find_None_iff holds_home_directories_def list_ex_iff list_all_iff apart_def)
qed

definition no_egress :: "sandbox_policy \<Rightarrow> bool" where
  "no_egress p \<longleftrightarrow>
     sp_network p = NetDenied \<and> \<not> sp_unix_sockets p \<and> \<not> sp_dns_over_tcp p \<and> sp_dns_names p = []"

lemma grant_flag_egress:
  assumes "grant_flag os owned ax path (p, bound) w = (Inr (p', bound'), w')"
  shows "no_egress p' \<longleftrightarrow> no_egress p"
  using assms by (elim grant_flag_Inr) (cases ax; simp add: granting_def no_egress_def)

lemma grant_flags_egress:
  "grant_flags os owned flags (p, bound) w = (Inr (p', bound'), w') \<Longrightarrow> no_egress p' \<longleftrightarrow> no_egress p"
proof (induction flags arbitrary: p bound w)
  case (Cons flag flags)
  obtain ax path where "flag = (ax, path)" by force
  with Cons.prems obtain p1 bound1 w1 where
    "grant_flag os owned ax path (p, bound) w = (Inr (p1, bound1), w1)"
    "grant_flags os owned flags (p1, bound1) w1 = (Inr (p', bound'), w')" by auto
  with Cons.IH grant_flag_egress show ?case by metis
qed simp

lemma flag_policy_Inr:
  assumes "flag_policy os f w = (Inr p, w')"
  obtains p0 w1 p1 w2 p2 bound where
    "allow_system_executables (fo_path os) default_policy w = (p0, w1)"
    "(if paths_given f then io_ret (allow_standard_env p0)
      else io_bind (current_root os (sp_executable (allow_standard_env p0)) (owned_paths (fo_lookup os)))
        (\<lambda>root. io_ret (allow_write root (allow_read root (allow_standard_env p0))))) w1 = (Inr p1, w2)"
    "grant_flags os (owned_paths (fo_lookup os))
       (map (Pair AxRead) (gf_read f) @ map (Pair AxWrite) (gf_write f) @ map (Pair AxReadExecute) (gf_exec f))
       (p1, None) w2 = (Inr (p2, bound), w')"
    "rest_of_policy f (p2, bound) = Inr p"
  using assms by (fastforce simp: flag_policy_def st_bind_def Let_def all_axes_def split: prod.splits)

lemma built_flag_policy: "flag_policy os f w = (Inr p, w') \<Longrightarrow> built p"
proof (elim flag_policy_Inr)
  fix p0 w1 p1 w2 p2 bound
  assume system: "allow_system_executables (fo_path os) default_policy w = (p0, w1)"
    and root: "(if paths_given f then io_ret (allow_standard_env p0)
      else io_bind (current_root os (sp_executable (allow_standard_env p0)) (owned_paths (fo_lookup os)))
        (\<lambda>root. io_ret (allow_write root (allow_read root (allow_standard_env p0))))) w1 = (Inr p1, w2)"
    and flags: "grant_flags os (owned_paths (fo_lookup os))
       (map (Pair AxRead) (gf_read f) @ map (Pair AxWrite) (gf_write f) @ map (Pair AxReadExecute) (gf_exec f))
       (p1, None) w2 = (Inr (p2, bound), w')"
    and rest: "rest_of_policy f (p2, bound) = Inr p"
  have "built p0" using built_system_executables[OF built_default, of "fo_path os" w] system by simp
  then have "built (allow_standard_env p0)" by (rule built_standard_env)
  with root have "built p1"
    by (auto simp: allow_read_def allow_write_def simp del: grant.simps intro: built_grant split: if_splits)
  from built_rest[OF rest built_grant_flags[OF flags this]] show "built p" .
qed


text \<open>A disk where every name is itself and a directory, and a run from \<open>/work\<close>.\<close>

definition demo_flags :: "(unit, unit) flags_os" where
  "demo_flags = \<lparr>
     fo_path = \<lparr>po_canonicalize = io_ret, po_metadata = (\<lambda>_. io_ret \<lparr>oi_dev = 1, oi_ino = 2\<rparr>),
       po_open_path = (\<lambda>_. io_ret ()), po_fstat = (\<lambda>_. io_ret \<lparr>oi_dev = 1, oi_ino = 2\<rparr>)\<rparr>,
     fo_is_dir = (\<lambda>_ w. (True, w)), fo_cwd = io_ret ''/work'',
     fo_lookup = [''HOME'' \<mapsto> ''/home/u''], fo_canonical = Some, fo_error_text = (\<lambda>_. [])\<rparr>"

definition no_flags :: flag_set where
  "no_flags = \<lparr>gf_read = [], gf_write = [], gf_exec = [], gf_network = Some [443], gf_unix_sockets = False,
     gf_env = [], gf_dns_over_tcp = False, gf_dns = [''a.b'']\<rparr>"

definition demo_derived :: sandbox_policy where
  "demo_derived = projr (fst (flag_policy demo_flags no_flags ()))"

lemma demo_flags_run: "flag_policy demo_flags no_flags () = (Inr demo_derived, ())"
proof -
  have "\<not> isl (fst (flag_policy demo_flags no_flags ()))" by code_simp
  then show ?thesis by (cases "flag_policy demo_flags no_flags ()") (auto simp: demo_derived_def)
qed


lemma current_root_Inr:
  assumes "at_rest os canon" "current_root os system (owned_paths (fo_lookup os)) w = (Inr v, w')"
  shows "private_root os canon system v"
proof -
  from assms(2) obtain w1 homes w2 where
    "named_homes os (fo_lookup os ''HOME'') w1 = (homes, w2)"
    "vetted_root os (vp_path v) homes system (owned_paths (fo_lookup os)) w2 = (Inr (), w')"
    by (auto simp: current_root_def st_bind_iff)
  with vetted_root_private[OF assms(1)] show ?thesis by blast
qed


lemma demo_flags_rest: "at_rest demo_flags Inr"
  by (simp add: at_rest_def demo_flags_def io_ret_def)


end
