(* ===== verification/Orientation.thy ===== *)
theory Orientation
  imports Gate Policy
begin

text \<open>
  What the model is told before the first request (\<open>agent_orientation.rs\<close>): the approved tools and the
  granted roots, each named only while it still vets to what was granted. How a path is displayed
  is an argument.
\<close>

section \<open>The roots worth naming\<close>

record work_root =
  wr_path :: string
  wr_access :: "string list"

definition access_word :: "axis \<Rightarrow> string" where
  "access_word ax = (case ax of AxRead \<Rightarrow> ''read'' | AxWrite \<Rightarrow> ''write'' | AxReadExecute \<Rightarrow> ''run'')"

definition spellings :: "sandbox_policy \<Rightarrow> string list" where
  "spellings p = map (\<lambda>(_, v). vp_path v) (granted_paths p)"

text \<open>The first root of that path takes the access, unless it has it; a path not known opens one.\<close>

fun add_access :: "string \<Rightarrow> string \<Rightarrow> work_root list \<Rightarrow> work_root list" where
  "add_access path access [] = [\<lparr>wr_path = path, wr_access = [access]\<rparr>]"
| "add_access path access (r # rs) =
     (if wr_path r = path
      then (if access \<in> set (wr_access r) then r else r\<lparr>wr_access := wr_access r @ [access]\<rparr>) # rs
      else r # add_access path access rs)"

fun name_grants ::
  "('w, 'fd) path_os \<Rightarrow> string list \<Rightarrow> (axis \<times> vetted_path) list \<Rightarrow> work_root list \<Rightarrow> 'w \<Rightarrow> work_root list \<times> 'w" where
  "name_grants os system [] roots w = (roots, w)"
| "name_grants os system ((ax, v) # gs) roots w =
     (case vet os (vp_path v) w of (now, w1) \<Rightarrow>
        if now \<noteq> Inr v then name_grants os system gs roots w1
        else if vp_path v \<in> set system then name_grants os system gs roots w1
        else name_grants os system gs (add_access (vp_path v) (access_word ax) roots) w1)"

definition work_roots :: "('w, 'fd) path_os \<Rightarrow> sandbox_policy \<Rightarrow> 'w \<Rightarrow> work_root list \<times> 'w" where
  "work_roots os p =
     st_bind (allow_system_executables os default_policy) (\<lambda>system.
       name_grants os (spellings system) (granted_paths p) [])"

definition named_roots :: "(string \<Rightarrow> string) \<Rightarrow> work_root list \<Rightarrow> string list" where
  "named_roots display roots =
     map (\<lambda>r. display (wr_path r) @ '' ('' @ join_with '', '' (wr_access r) @ '')'') roots"

definition start_root :: "(string \<Rightarrow> bool) \<Rightarrow> sandbox_policy \<Rightarrow> work_root list \<Rightarrow> string option" where
  "start_root is_dir p roots =
     (case working_root is_dir p of
        None \<Rightarrow> None
      | Some start \<Rightarrow> if list_ex (\<lambda>r. wr_path r = start) roots then Some start else None)"

section \<open>The prompt\<close>

definition tools_line :: "string list \<Rightarrow> string" where
  "tools_line approved =
     ''Only these tools are approved for this run: '' @ join_with '', '' approved
     @ ''. The others are offered but refused, and a call to one comes back without running; do not reach for one.''"

definition roots_line :: "(string \<Rightarrow> string) \<Rightarrow> string list \<Rightarrow> string option \<Rightarrow> string" where
  "roots_line display roots start =
     ''Your tools take absolute paths and reach only these directories and what they contain: ''
     @ join_with '', '' roots @ ''.''
     @ (case start of
          Some root \<Rightarrow> '' A `bash` command starts in '' @ display root @ '', and a relative path in one resolves from there.''
        | None \<Rightarrow> [])
     @ '' Apart from the system binaries a command needs to start, every other path is refused; do not search for one.''"

definition system_prompt ::
  "('w, 'fd) path_os \<Rightarrow> (string \<Rightarrow> bool) \<Rightarrow> (string \<Rightarrow> string) \<Rightarrow> sandbox_policy \<Rightarrow> builtin_tool list option
     \<Rightarrow> string option \<Rightarrow> 'w \<Rightarrow> string option \<times> 'w" where
  "system_prompt os is_dir display p allowed operator w =
     (let approved = approved_tools allowed in
      case work_roots os p w of (roots, w1) \<Rightarrow>
        (let start = start_root is_dir p roots;
             said = (if length approved < length all_tools then [tools_line approved] else [])
               @ (if roots \<noteq> [] then [roots_line display (named_roots display roots) start] else [])
               @ (case operator of Some said \<Rightarrow> [said] | None \<Rightarrow> []);
             prompt = join_with [nl, nl] said
         in (if prompt = [] then None else Some prompt, w1)))"

section \<open>What is named is granted\<close>

text \<open>The entries a list of grants asks for, in the order the first grant of a path puts it.\<close>

definition root_of :: "work_root list \<Rightarrow> string \<Rightarrow> string list" where
  "root_of roots path = (case find (\<lambda>r. wr_path r = path) roots of Some r \<Rightarrow> wr_access r | None \<Rightarrow> [])"

definition once :: "work_root list \<Rightarrow> bool" where
  "once roots \<longleftrightarrow> distinct (map wr_path roots) \<and> list_all (\<lambda>r. distinct (wr_access r) \<and> wr_access r \<noteq> []) roots"

lemma add_access_paths: "wr_path ` set (add_access path access roots) = insert path (wr_path ` set roots)"
  by (induction roots) auto

lemma add_access_once: "once roots \<Longrightarrow> once (add_access path access roots)"
  by (induction roots) (auto simp: once_def add_access_paths)

lemma root_of_add:
  "set (root_of (add_access path access roots) q) = (if q = path then insert access (set (root_of roots path)) else set (root_of roots q))"
  by (induction roots) (auto simp: root_of_def)

text \<open>A grant the run may still name: what it was vetted as is what it is now, and no system binary's.\<close>

definition nameable :: "(string \<Rightarrow> sandbox_error + vetted_path) \<Rightarrow> string list \<Rightarrow> vetted_path \<Rightarrow> bool" where
  "nameable now system v \<longleftrightarrow> now (vp_path v) = Inr v \<and> vp_path v \<notin> set system"

definition vets_as :: "('w, 'fd) path_os \<Rightarrow> (string \<Rightarrow> sandbox_error + vetted_path) \<Rightarrow> bool" where
  "vets_as os now \<longleftrightarrow> (\<forall>path w. fst (vet os path w) = now path)"

lemma name_grants_roots:
  assumes "vets_as os now" "name_grants os system gs roots w = (roots', w')" "once roots"
  shows "once roots' \<and> set (root_of roots' q) = set (root_of roots q)
      \<union> {access_word ax |ax v. (ax, v) \<in> set gs \<and> nameable now system v \<and> vp_path v = q}"
  using assms(2,3)
proof (induction gs arbitrary: roots w)
  case Nil
  then show ?case by simp
next
  case (Cons g gs)
  obtain ax v where g: "g = (ax, v)" by (cases g)
  obtain r w1 where vet: "vet os (vp_path v) w = (r, w1)" by (cases "vet os (vp_path v) w")
  then have r: "r = now (vp_path v)" using assms(1) by (metis vets_as_def fst_conv)
  show ?case
  proof (cases "nameable now system v")
    case True
    with Cons.prems g vet r have "name_grants os system gs (add_access (vp_path v) (access_word ax) roots) w1 = (roots', w')"
      by (simp add: nameable_def)
    from Cons.IH[OF this add_access_once[OF Cons.prems(2)]] True g show ?thesis
      by (auto simp: root_of_add)
  next
    case False
    with Cons.prems g vet r have "name_grants os system gs roots w1 = (roots', w')"
      by (auto simp: nameable_def split: if_splits)
    from Cons.IH[OF this Cons.prems(2)] False g show ?thesis by auto
  qed
qed

text \<open>
  The model is told of a root exactly when the policy grants it, it still is the object
  that was vetted and it is not one of the system's, once each, with every access it is granted.
\<close>

lemma roots_named_are_granted:
  assumes "vets_as os now" "work_roots os p w = (roots, w')"
  shows "distinct (map wr_path roots)
    \<and> set (root_of roots q)
      = {access_word ax |ax v. (ax, v) \<in> set (granted_paths p)
          \<and> nameable now (spellings (fst (allow_system_executables os default_policy w))) v \<and> vp_path v = q}"
proof -
  obtain system w1 where sys: "allow_system_executables os default_policy w = (system, w1)" by force
  with assms(2) have "name_grants os (spellings system) (granted_paths p) [] w1 = (roots, w')"
    by (simp add: work_roots_def st_bind_iff)
  from name_grants_roots[OF assms(1) this, of q] sys show ?thesis by (simp add: once_def root_of_def)
qed

end
