(* ===== verification/Agent_Run.thy ===== *)
theory Agent_Run
  imports Consent Render Store Grant_Flags Orientation
begin

text \<open>
  \<open>agent-run\<close> (\<open>agent_run.rs\<close>): the flags, the order the run opens things in, the one turn it drives
  with its wrap-up round, and what it stores. The provider, the tools and the terminal are the
  fields of \<open>harness\<close> and \<open>channels\<close>; the run itself is the composition of the components' own
  definitions. What follows shows that a session stays one the API accepts, whichever way its turns end.
\<close>

section \<open>The flags and what a run is given (agent_run.rs, agent_error.rs)\<close>

definition DEFAULT_MODEL :: string where "DEFAULT_MODEL = ''claude-sonnet-5''"
definition DEFAULT_MAX_TOKENS :: u32 where "DEFAULT_MAX_TOKENS = 4096"

datatype agent_error =
    EmptyPrompt
  | AePolicy policy_error
  | Runtime io_error
  | Output io_error
  | Credential auth_error
  | AeProvider provider_error
  | AeSession session_error
  | NotATerminal
  | ApproveUnderTui
  | AeScreen io_error
  | NoTerminal io_error
  | AeTurn turn_error

record agent_run =
  ar_grants :: flag_set
  ar_model :: string
  ar_max_tokens :: u32
  ar_max_rounds :: nat
  ar_no_wrap_up :: bool
  ar_show_thinking :: bool
  ar_system :: "string option"
  ar_allow_tool :: "builtin_tool list option"
  ar_approve :: approve_when
  ar_session :: "session_id option option"
  ar_prompt :: "string list"

definition reasoning_of :: "agent_run \<Rightarrow> reasoning" where
  "reasoning_of f = (if ar_show_thinking f then Shown else Hidden)"

definition agent_policy :: "('w, 'fd) flags_os \<Rightarrow> agent_run \<Rightarrow> ('w, policy_error, sandbox_policy) io" where
  "agent_policy os f =
     (if names_env (ar_grants f) ENV_VAR then io_fail (HarnessCredential ENV_VAR) else flag_policy os (ar_grants f))"

definition session_choice_of :: "agent_run \<Rightarrow> session_choice" where
  "session_choice_of f =
     (case ar_session f of None \<Rightarrow> Off | Some None \<Rightarrow> New | Some (Some sid) \<Rightarrow> Resume sid)"

definition to_prompt :: "agent_run \<Rightarrow> string" where
  "to_prompt f = join_with '' '' (ar_prompt f)"

definition round_cap :: "(string \<Rightarrow> string + nat) \<Rightarrow> string \<Rightarrow> string + nat" where
  "round_cap parse s =
     (case parse s of
        Inl e \<Rightarrow> Inl e
      | Inr n \<Rightarrow> if n = 0 then Inl ''a turn needs at least one round'' else Inr n)"

definition session_id_flag :: "(session_error \<Rightarrow> string) \<Rightarrow> string \<Rightarrow> string + session_id" where
  "session_id_flag display s = (case from_str s of Inl e \<Rightarrow> Inl (display e) | Inr sid \<Rightarrow> Inr sid)"

record ('w, 'v) harness =
  ha_open :: "'v prompt \<Rightarrow> 'w \<Rightarrow> (provider_error + (provider_error + 'v agent_event) list) \<times> 'w"
  ha_execute :: "builtin_tool \<Rightarrow> 'v \<Rightarrow> 'w \<Rightarrow> (tool_error + tool_output) option \<times> 'w"
  ha_timed_out :: "'w \<Rightarrow> bool \<times> 'w"
  ha_schema :: "builtin_tool \<Rightarrow> 'v"
  ha_duration :: "nat \<Rightarrow> string"
  ha_debug :: "nat \<Rightarrow> string"
  ha_json :: "'v json_view"
  ha_stderr :: "'w err_stream"
  ha_chain :: "turn_error \<Rightarrow> string \<times> string list"

record ('w, 'v) channels =
  cn_render :: "'w render_os"
  cn_err_device :: sink
  cn_terminal :: "('w, 'v) operator option"

section \<open>One turn, and the round behind it\<close>

text \<open>The world of a turn is the run's with the renderer beside it.\<close>

definition gate_of :: "agent_run \<Rightarrow> ('w, 'v) channels \<Rightarrow> ('w, 'v) argv_gate" where
  "gate_of f ch = \<lparr>ag_allowed = ar_allow_tool f, ag_terminal = cn_terminal ch\<rparr>"

definition drive_env :: "('w, 'v) harness \<Rightarrow> agent_run \<Rightarrow> ('w, 'v) channels \<Rightarrow> ('w \<times> render, 'v) turn_env" where
  "drive_env H f ch = \<lparr>
     te_open = (\<lambda>p. beside (ha_open H p)),
     te_observe = render_event (cn_render ch),
     te_approve = (\<lambda>t _ input. beside (gate_approve (gate_of f ch) t input)),
     te_settled = (\<lambda>c (w, r). (gate_settled (ha_json H) (ha_debug H) (ha_stderr H) (gate_of f ch) c w, r)),
     te_execute = (\<lambda>t input. beside (ha_execute H t input)),
     te_stop = (\<lambda>w. (False, w)),
     te_timed_out = beside (ha_timed_out H),
     te_schema = ha_schema H,
     te_duration = ha_duration H\<rparr>"

text \<open>The wrap-up round's: its own gate refuses, and reports on stderr.\<close>

definition wrap_env :: "('w, 'v) harness \<Rightarrow> agent_run \<Rightarrow> ('w, 'v) channels \<Rightarrow> ('w \<times> render, 'v) turn_env" where
  "wrap_env H f ch =
     (drive_env H f ch)\<lparr>te_settled := \<lambda>c (w, r). (settled_to_stderr (ha_json H) (ha_debug H) (ha_stderr H) c w, r)\<rparr>"

definition asked_message :: "string \<Rightarrow> 'v request_message" where
  "asked_message prompt = \<lparr>rm_role = User, rm_content = [Text prompt]\<rparr>"

definition drive_merged :: "('v, 'fd) session option \<Rightarrow> string \<Rightarrow> 'v merged" where
  "drive_merged session prompt =
     merge_user_runs
       ((case session of Some s \<Rightarrow> request_history (se_messages s) | None \<Rightarrow> []) @ [asked_message prompt])
       (case session of Some s \<Rightarrow> ac_withheld (se_accounting s) | None \<Rightarrow> 0)"

definition drive_turn :: "agent_run \<Rightarrow> ('v, 'fd) session option \<Rightarrow> string \<Rightarrow> string option \<Rightarrow> 'v turn" where
  "drive_turn f session prompt system = \<lparr>
     tn_model = ar_model f,
     tn_max_output_tokens = ar_max_tokens f,
     tn_system = system,
     tn_tools = all_tools,
     tn_tool_choice = None,
     tn_thinking = (if ar_show_thinking f then Some Visible else None),
     tn_history = mr_history (drive_merged session prompt),
     tn_limits = default_turn_limits\<lparr>lm_max_rounds := ar_max_rounds f\<rparr>,
     tn_observed = (case session of Some s \<Rightarrow> map_option request_usage (ac_observed (se_accounting s)) | None \<Rightarrow> None),
     tn_withheld = mr_withheld (drive_merged session prompt)\<rparr>"

definition turn_and_wrap_up ::
  "('w, 'v) harness \<Rightarrow> agent_run \<Rightarrow> ('w, 'v) channels \<Rightarrow> 'v turn \<Rightarrow> 'w \<times> render
     \<Rightarrow> ((turn_error + 'v turn_outcome) \<times> unfinished option) \<times> ('w \<times> render)" where
  "turn_and_wrap_up H f ch turn wr =
     (case run_turn (drive_env H f ch) turn wr of
        (Inl e, wr1) \<Rightarrow> ((Inl e, None), wr1)
      | (Inr first, wr1) \<Rightarrow>
          (case ou_stop first of
             TsRoundLimit n \<Rightarrow>
               if \<not> ar_no_wrap_up f
               then (case wrap_run (ha_chain H) (wrap_env H f ch) turn first (apsnd separate wr1) of
                   (wu, wr2) \<Rightarrow>
                     (case wrap_finish (render_note (cn_render ch)) wu first n wr2 of
                        ((out, ending), wr3) \<Rightarrow> ((Inr out, Some ending), wr3)))
               else ((Inr first, Some (CutShort n)), wr1)
           | TsGateAborted \<Rightarrow> ((Inr first, Some UnfAborted), wr1)
           | TsAnswered \<Rightarrow> ((Inr first, None), wr1)
           | TsInterrupted \<Rightarrow> ((Inr first, None), wr1)))"

section \<open>What is stored\<close>

definition stored_stop_of :: "turn_stop \<Rightarrow> unfinished option \<Rightarrow> stored_stop" where
  "stored_stop_of stop ending =
     (case stop of
        TsAnswered \<Rightarrow> (case ending of Some (unfinished.Summarised _) \<Rightarrow> stored_stop.Summarised | _ \<Rightarrow> Answered)
      | TsRoundLimit _ \<Rightarrow> RoundLimit
      | TsGateAborted \<Rightarrow> GateAborted
      | TsInterrupted \<Rightarrow> Interrupted)"

definition turn_to_store :: "'v request_message \<Rightarrow> 'v turn_outcome \<Rightarrow> stored_stop \<Rightarrow> 'v merged \<Rightarrow> 'v completed_turn" where
  "turn_to_store asked out stop merged = \<lparr>
     ct_messages = stored_messages [asked] @ stored_messages (ou_messages out),
     ct_observed = map_option stored_usage (ou_usage out),
     ct_withheld = unmerged merged (ou_withheld out),
     ct_stop = stop\<rparr>"

definition unchanged_line :: "('v, 'fd) session \<Rightarrow> string" where
  "unchanged_line s = ''sandbx: the turn produced nothing to store; session '' @ id_text (se_id s) @ '' is unchanged''"

definition save ::
  "('w, 'fd) os \<Rightarrow> ('v transcript_record \<Rightarrow> string) \<Rightarrow> (string \<Rightarrow> 'w \<times> 'r \<Rightarrow> 'w \<times> 'r)
     \<Rightarrow> ('v, 'fd) session \<Rightarrow> 'v request_message \<Rightarrow> 'v turn_outcome \<Rightarrow> stored_stop \<Rightarrow> 'v merged
     \<Rightarrow> 'w \<times> 'r \<Rightarrow> (agent_error + unit) \<times> ('v, 'fd) session \<times> ('w \<times> 'r)" where
  "save os ser note s asked out stop merged wr =
     (case beside (session_append os ser s (turn_to_store asked out stop merged)) wr of
        (Inr s', wr1) \<Rightarrow> (Inr (), s', wr1)
      | (Inl IncompleteTurn, wr1) \<Rightarrow> (Inr (), s, note (unchanged_line s) wr1)
      | (Inl e, wr1) \<Rightarrow> (Inl (AeSession e), s, wr1))"

text \<open>
  \<open>drive\<close>: what it answers, and the session as the run leaves it.
\<close>

definition drive ::
  "('w, 'v) harness \<Rightarrow> ('w, 'fd) os \<Rightarrow> ('v transcript_record \<Rightarrow> string) \<Rightarrow> agent_run \<Rightarrow> string
     \<Rightarrow> string option \<Rightarrow> ('w, 'v) channels \<Rightarrow> ('v, 'fd) session option \<Rightarrow> 'w
     \<Rightarrow> (agent_error + int) \<times> ('v, 'fd) session option \<times> 'w" where
  "drive H os ser f prompt system ch session w =
     (let turn = drive_turn f session prompt system in
      case turn_and_wrap_up H f ch turn (w, render_new (reasoning_of f) (cn_err_device ch)) of
        ((result, ending), wr1) \<Rightarrow>
          (let answer = (case result of Inr out \<Rightarrow> answer_of (ou_round_stop out) | Inl _ \<Rightarrow> Whole) in
           case render_finish (cn_render ch) ending answer wr1 of
             (code, wr2) \<Rightarrow>
               (case result of
                  Inl e \<Rightarrow> (Inl (AeTurn e), session, fst wr2)
                | Inr out \<Rightarrow>
                    (case session of
                       None \<Rightarrow> (map_sum Output id code, None, fst wr2)
                     | Some s \<Rightarrow>
                         (case save os ser (render_note (cn_render ch)) s (asked_message prompt) out
                             (stored_stop_of (ou_stop out) ending) (drive_merged session prompt) wr2 of
                            (Inl e, s', wr3) \<Rightarrow> (Inl e, Some s', fst wr3)
                          | (Inr _, s', wr3) \<Rightarrow> (map_sum Output id code, Some s', fst wr3))))))"


section \<open>A session stays sendable\<close>

text \<open>The history a run sends ahead of its prompt, and what it takes for a prompt behind it to be accepted.\<close>

definition session_history :: "('v, 'fd) session \<Rightarrow> 'v request_message list" where
  "session_history s = merge_runs (request_history (se_messages s))"

definition sendable :: "'v request_message list \<Rightarrow> bool" where
  "sendable ms \<longleftrightarrow> api_accepts ms \<and> (ms = [] \<or> use_ids (last ms) = {})"

lemma merge_runs_unpaired: "successively (\<lambda>a b. \<not> user_pair a b) ms \<Longrightarrow> merge_runs ms = ms"
proof (induction ms)
  case (Cons m ms)
  then have "successively (\<lambda>a b. \<not> user_pair a b) ms" "\<not> (rm_role m = User \<and> ms \<noteq> [] \<and> rm_role (hd ms) = User)"
    by (cases ms; auto simp: user_pair_def)+
  with Cons.IH show ?case by (simp add: merge_runs_separate)
qed simp

lemma merge_runs_accepted: "api_accepts ms \<Longrightarrow> merge_runs ms = ms"
  by (rule merge_runs_unpaired)
    (auto simp: api_accepts_def joined_def user_pair_def elim: successively_mono)

lemma merge_runs_front: "merge_runs (merge_runs xs @ ys) = merge_runs (xs @ ys)"
proof (induction xs)
  case (Cons m xs)
  have same: "merge_runs (m # merge_runs xs @ ys) = merge_runs (m # xs @ ys)"
    using Cons.IH by (simp add: merge_runs.simps(2))
  show ?case
  proof (cases "rm_role m = User \<and> xs \<noteq> [] \<and> rm_role (hd xs) = User")
    case True
    then obtain n ns where ns: "merge_runs xs = n # ns" "rm_role n = User"
      using merge_runs_hd_role[of xs] by (cases "merge_runs xs") auto
    with True have "merge_runs (m # xs) = m\<lparr>rm_content := rm_content m @ rm_content n\<rparr> # ns"
      by (simp add: merge_runs.simps(2)[of m xs])
    with ns True same show ?thesis by (simp add: merge_runs_absorb)
  next
    case False
    with same show ?thesis by (simp add: merge_runs_separate)
  qed
qed simp

lemma asked_ids [simp]:
  "result_ids (asked_message p) = {}" "use_ids (asked_message p) = {}" "rm_role (asked_message p) = User"
  "rm_content (asked_message p) = [Text p]"
  by (simp_all add: asked_message_def result_ids_def use_ids_def)

lemma merge_runs_join:
  "rm_role m = User \<Longrightarrow> rm_role p = User \<Longrightarrow> merge_runs [m, p] = [m\<lparr>rm_content := rm_content m @ rm_content p\<rparr>]"
  by (simp add: merge_runs.simps)

lemma asked_accepted:
  fixes p :: string
  assumes "sendable ms"
  defines "asked \<equiv> merge_runs (ms @ [asked_message p])"
  shows "api_accepts asked \<and> asked \<noteq> [] \<and> rm_role (last asked) = User \<and> use_ids (last asked) = {}"
proof (cases "ms = []")
  case True
  then show ?thesis by (simp add: asked_def api_accepts_Cons)
next
  case False
  define xs m where "xs = butlast ms" and "m = last ms"
  then have ms: "ms = xs @ [m]" using False by simp
  from assms have acc: "api_accepts (xs @ [m])" and uses: "use_ids m = {}" by (simp_all add: sendable_def ms)
  show ?thesis
  proof (cases "rm_role m = User")
    case False
    then have "joined m (asked_message p)" using uses by (simp add: joined_def)
    then have ok: "api_accepts ((xs @ [m]) @ [asked_message p])"
      using acc api_accepts_append[of "xs @ [m]" "[asked_message p]"] by simp
    with merge_runs_accepted[OF ok] show ?thesis by (simp add: asked_def ms)
  next
    case True
    define n where "n = m\<lparr>rm_content := rm_content m @ [Text p]\<rparr>"
    have same: "rm_role n = rm_role m" "use_ids n = use_ids m" "result_ids n = result_ids m" "rm_content n \<noteq> []"
      by (auto simp: n_def use_ids_def result_ids_def)
    have ok: "api_accepts (xs @ [n])"
    proof (cases "xs = []")
      case True
      with acc same show ?thesis by (simp add: api_accepts_Cons)
    next
      case False
      with acc same show ?thesis
        using api_accepts_append[of xs "[m]"] api_accepts_append[of xs "[n]"] by (simp add: joined_def)
    qed
    have fold: "merge_runs (xs @ [n]) = merge_runs (xs @ [m, asked_message p])"
    proof (induction xs)
      case Nil
      show ?case using True by (simp add: n_def merge_runs_join)
    next
      case (Cons x xs)
      then show ?case by (simp add: merge_runs.simps(2))
    qed
    with ok merge_runs_accepted[OF ok] have "asked = xs @ [n]" by (simp add: asked_def ms)
    with ok same True uses show ?thesis by simp
  qed
qed

lemma turn_history: "tn_history (drive_turn f session p system)
    = merge_runs ((case session of Some s \<Rightarrow> session_history s | None \<Rightarrow> []) @ [asked_message p])"
  by (simp add: drive_turn_def drive_merged_def merge_user_runs_def Let_def merge_loop_spec
      session_history_def merge_runs_front split: option.splits)

text \<open>What a turn leaves behind an accepted request is sendable again.\<close>

definition left_by :: "'v request_message list \<Rightarrow> 'v turn_outcome \<Rightarrow> bool" where
  "left_by asked out \<longleftrightarrow> sendable (asked @ ou_messages out) \<and> unreasoned (ou_messages out)"

lemma turn_leaves:
  assumes "run_turn env turn w = (Inr out, w')" "api_accepts (tn_history turn)" "tn_history turn \<noteq> []"
    and "rm_role (last (tn_history turn)) = User" "use_ids (last (tn_history turn)) = {}"
  shows "left_by (tn_history turn) out
    \<and> (case ou_stop out of TsRoundLimit n \<Rightarrow> exchanges (ou_messages out) | _ \<Rightarrow> True)"
proof -
  note t = turn_transcript[OF assms(1)[unfolded run_turn_def] assms(2-)]
  have ends: "use_ids (last (ou_messages out)) = {}" if "ou_messages out \<noteq> []"
    using t that exchanges_ends[of "ou_messages out"] by (auto simp: reply_def split: turn_stop.splits)
  have "use_ids (last (tn_history turn @ ou_messages out)) = {}"
    using ends assms(5) by (cases "ou_messages out = []") auto
  with t assms(3) show ?thesis by (auto simp: left_by_def sendable_def split: turn_stop.splits)
qed

lemma wrap_answer_leaves:
  assumes "wrap_run chain env turn first w = (wu, w')" "wu_answer wu = Some second"
    and "left_by (tn_history turn) first" "exchanges (ou_messages first)"
    and "tn_history turn \<noteq> []" "rm_role (last (tn_history turn)) = User"
  shows "left_by (tn_history turn) (merge_outcomes first second)"
proof -
  let ?history = "tn_history turn @ ou_messages first"
  have hist: "tn_history (wrap_turn turn first) = ?history" by (simp add: wrap_turn_def)
  from assms(1,2) obtain ws' where "run_turn (refuse_all env) (wrap_turn turn first) (w, False) = (Inr second, ws')"
    by (auto simp: wrap_run_def split: prod.splits sum.splits if_splits)
  moreover have "rm_role (last ?history) = User" "?history \<noteq> []"
    using assms(5,6) exchanges_ends[OF assms(4)] by (cases "ou_messages first = []"; simp)+
  moreover have "api_accepts ?history" "use_ids (last ?history) = {}"
    using assms(3,5) by (auto simp: left_by_def sendable_def)
  ultimately have "left_by ?history second" using turn_leaves[of "refuse_all env" "wrap_turn turn first"] by (simp add: hist)
  with assms(3) show ?thesis by (auto simp: left_by_def merge_outcomes_def unreasoned_def)
qed

lemma run_leaves:
  assumes "turn_and_wrap_up H f ch turn wr = ((Inr out, ending), wr')" "api_accepts (tn_history turn)"
    and "tn_history turn \<noteq> []" "rm_role (last (tn_history turn)) = User" "use_ids (last (tn_history turn)) = {}"
  shows "left_by (tn_history turn) out"
proof -
  obtain r wr1 where run: "run_turn (drive_env H f ch) turn wr = (r, wr1)" by (cases "run_turn (drive_env H f ch) turn wr")
  with assms(1) obtain first where r: "r = Inr first" by (cases r) (auto simp: turn_and_wrap_up_def)
  note t = turn_leaves[OF run[unfolded r] assms(2-)]
  show ?thesis
  proof (cases "\<exists>n. ou_stop first = TsRoundLimit n \<and> \<not> ar_no_wrap_up f")
    case True
    then obtain n where stop: "ou_stop first = TsRoundLimit n" "\<not> ar_no_wrap_up f" by blast
    obtain wu wr2 where wrap: "wrap_run (ha_chain H) (wrap_env H f ch) turn first (apsnd separate wr1) = (wu, wr2)"
      by (cases "wrap_run (ha_chain H) (wrap_env H f ch) turn first (apsnd separate wr1)")
    from assms(1) run r stop wrap have "out = first \<or> (\<exists>second. wu_answer wu = Some second \<and> out = merge_outcomes first second)"
      by (auto simp: turn_and_wrap_up_def wrap_finish_def split: prod.splits option.splits bool.splits)
    with t stop(1) wrap_answer_leaves[OF wrap] assms(3,4) show ?thesis by auto
  next
    case False
    with assms(1) run r have "out = first" by (auto simp: turn_and_wrap_up_def split: turn_stop.splits)
    with t show ?thesis by simp
  qed
qed

lemma stored_back:
  assumes "api_accepts (xs @ ms)" "unreasoned ms"
  shows "request_history (stored_messages ms) = ms"
proof -
  have "\<forall>m \<in> set ms. rm_content m \<noteq> [] \<and> (\<forall>b \<in> set (rm_content m). \<not> is_thinking b)"
    using assms by (auto simp: api_accepts_def unreasoned_def list_all_iff)
  then show ?thesis using stored_messages_roundtrip[of ms] by blast
qed

lemma save_leaves:
  assumes "save os ser note s (asked_message p) out stop merged wr = (r, s', wr')"
    and "left_by (merge_runs (session_history s @ [asked_message p])) out"
  shows "s' = s \<or> session_history s' = merge_runs (session_history s @ [asked_message p]) @ ou_messages out"
proof (cases "s' = s")
  case False
  let ?turn = "turn_to_store (asked_message p) out stop merged"
  obtain w x where wr: "wr = (w, x)" by (cases wr)
  obtain res w1 where app: "session_append os ser s ?turn w = (res, w1)" by (cases "session_append os ser s ?turn w")
  from assms(1) wr app False have "res = Inr s'"
    by (auto simp: save_def beside_def split: sum.splits session_error.splits)
  with app have "se_messages s' = se_messages s @ ct_messages ?turn" using session_append_Inr(3) by fastforce
  moreover have "request_history (ms @ ns) = request_history ms @ request_history ns" for ms ns :: "'a message list"
    by (simp add: request_history_def)
  moreover have "request_history (stored_messages [asked_message p]) = [asked_message p :: 'a request_message]"
    by (simp add: asked_message_def request_history_def stored_messages_def stored_message_def List.map_filter_simps)
  moreover have acc: "api_accepts (merge_runs (session_history s @ [asked_message p]) @ ou_messages out)"
    "unreasoned (ou_messages out)" using assms(2) by (simp_all add: left_by_def sendable_def)
  moreover note stored_back[OF this]
  ultimately have "session_history s' = merge_runs ((request_history (se_messages s) @ [asked_message p]) @ ou_messages out)"
    by (simp add: session_history_def turn_to_store_def)
  also have "\<dots> = merge_runs (merge_runs (session_history s @ [asked_message p]) @ ou_messages out)"
    by (simp only: session_history_def merge_runs_front)
  finally show ?thesis using merge_runs_accepted[OF acc(1)] by simp
qed simp


lemma drive_Some:
  fixes w :: 'w
  assumes "drive H os ser f prompt system ch (Some s) w = (res, Some s', w')"
  shows "s' = s \<or> (\<exists>out ending wr0 wr1 nt stop merged (wr2 :: 'w \<times> render) r wr3.
      turn_and_wrap_up H f ch (drive_turn f (Some s) prompt system) wr0 = ((Inr out, ending), wr1)
      \<and> save os ser nt s (asked_message prompt) out stop merged wr2 = (r, s', wr3)
      \<and> (\<forall>e. res \<noteq> Inl (AeTurn e)))"
proof -
  let ?turn = "drive_turn f (Some s) prompt system"
  let ?wr0 = "(w, render_new (reasoning_of f) (cn_err_device ch))"
  obtain result ending wr1 where run: "turn_and_wrap_up H f ch ?turn ?wr0 = ((result, ending), wr1)"
    by (metis prod.collapse)
  show ?thesis
  proof (cases result)
    case (Inl e)
    with assms run show ?thesis by (auto simp: drive_def split: prod.splits)
  next
    case (Inr out)
    obtain code wr2 where fin: "render_finish (cn_render ch) ending (answer_of (ou_round_stop out)) wr1 = (code, wr2)"
      by (metis prod.collapse)
    obtain r s1 wr3 where saved: "save os ser (render_note (cn_render ch)) s (asked_message prompt) out
        (stored_stop_of (ou_stop out) ending) (drive_merged (Some s) prompt) wr2 = (r, s1, wr3)"
      by (metis prod.collapse)
    have "\<forall>e. r \<noteq> Inl (AeTurn e)"
      using saved by (auto simp: save_def split: prod.splits sum.splits session_error.splits)
    moreover from assms run fin saved Inr have "s' = s1" "res = (case r of Inl e \<Rightarrow> Inl e | Inr _ \<Rightarrow> map_sum Output id code)"
      by (auto simp: drive_def Let_def split: sum.splits)
    ultimately have "\<forall>e. res \<noteq> Inl (AeTurn e)" "s' = s1" by (cases r; cases code; auto)+
    moreover have "turn_and_wrap_up H f ch ?turn ?wr0 = ((Inr out, ending), wr1)" using run Inr by simp
    moreover have "save os ser (render_note (cn_render ch)) s (asked_message prompt) out
        (stored_stop_of (ou_stop out) ending) (drive_merged (Some s) prompt) wr2 = (r, s', wr3)"
      using saved calculation(2) by simp
    ultimately show ?thesis by blast
  qed
qed

text \<open>
  C9. A session stays one the API accepts. Where a prompt behind it is accepted, the request \<open>agent-run\<close>
  opens is; and however the run ends - answered, out of rounds with the wrap-up round answering, refusing or
  failing, its operator lost, a stream broken, an append refused - the session it leaves is either the one
  it was or that request and the turn behind it, merged as the next run will merge it, and any prompt
  behind that is accepted again. A turn that failed stores nothing.
\<close>

theorem session_stays_sendable:
  fixes w :: 'w
  assumes "drive H os ser f prompt system ch (Some s) w = (res, Some s', w')"
    and "sendable (session_history s)"
  shows "api_accepts (tn_history (drive_turn f (Some s) prompt system))
    \<and> (session_history s' = session_history s
        \<or> (\<exists>produced. session_history s' = tn_history (drive_turn f (Some s) prompt system) @ produced))
    \<and> sendable (session_history s')
    \<and> api_accepts (tn_history (drive_turn f' (Some s') prompt' system'))
    \<and> (case res of Inl (AeTurn _) \<Rightarrow> s' = s | _ \<Rightarrow> True)"
proof -
  have asked: "api_accepts (tn_history (drive_turn f (Some s) p system))" "tn_history (drive_turn f (Some s) p system) \<noteq> []"
    "rm_role (last (tn_history (drive_turn f (Some s) p system))) = User"
    "use_ids (last (tn_history (drive_turn f (Some s) p system))) = {}"
    if "sendable (session_history s)" for f :: agent_run and s :: "('a, 'b) session" and p system
    using asked_accepted[OF that] by (simp_all add: turn_history)
  note here = asked[OF assms(2), of f prompt system]
  have "s' = s \<or> (\<exists>produced. session_history s' = tn_history (drive_turn f (Some s) prompt system) @ produced
      \<and> sendable (session_history s') \<and> (\<forall>e. res \<noteq> Inl (AeTurn e)))"
  proof (cases "s' = s")
    case False
    with drive_Some[OF assms(1)] obtain out ending wr0 wr1 nt stop merged r wr3 and wr2 :: "'w \<times> render" where
      run: "turn_and_wrap_up H f ch (drive_turn f (Some s) prompt system) wr0 = ((Inr out, ending), wr1)"
      and saved: "save os ser nt s (asked_message prompt) out stop merged wr2 = (r, s', wr3)"
      and res: "\<forall>e. res \<noteq> Inl (AeTurn e)" by blast
    from run_leaves[OF run here] have left: "left_by (tn_history (drive_turn f (Some s) prompt system)) out" .
    then have "left_by (merge_runs (session_history s @ [asked_message prompt])) out" by (simp add: turn_history)
    from save_leaves[OF saved this] False
    have "session_history s' = tn_history (drive_turn f (Some s) prompt system) @ ou_messages out"
      by (simp add: turn_history)
    moreover from this left have "sendable (session_history s')" by (simp add: left_by_def)
    ultimately show ?thesis using res by blast
  qed simp
  then show ?thesis using here(1) assms(2) asked(1)[of s' f' prompt' system']
    by (auto split: sum.splits agent_error.splits)
qed

section \<open>The run\<close>

definition ASKED_LINE :: string where
  "ASKED_LINE = ''sandbx: each call that writes or runs a program will be asked for on this terminal''"

definition INERT_LINE :: string where
  "INERT_LINE = ''sandbx: nothing in this run will be asked for: `'' @ APPROVE_CALL @ ''` asks only about the tools `''
     @ ALLOW_TOOL @ ''` approved, and none was''"

text \<open>What a run opens: the terminal, the store, the flags' disk, the key's, the client and the tools.\<close>

record ('w, 'v, 'fd, 'o, 'h, 'c) agent_os =
  ao_terminal :: "('w, io_error, ('w, 'v) operator) io"
  ao_stderr :: "'w err_stream"
  ao_notice :: "notice \<Rightarrow> 'w \<Rightarrow> 'w"
  ao_store :: "('w, 'fd) os"
  ao_parse :: "string \<Rightarrow> string + 'v transcript_record"
  ao_ser :: "'v transcript_record \<Rightarrow> string"
  ao_flags :: "('w, 'fd) flags_os"
  ao_is_dir :: "string \<Rightarrow> bool"
  ao_display :: "string \<Rightarrow> string"
  ao_context :: "sandbox_policy \<Rightarrow> string option \<Rightarrow> 'w \<Rightarrow> 'c \<times> 'w"
  ao_cred :: "('w, 'fd, 'o) cred_os"
  ao_client :: "string \<Rightarrow> provider_error + 'h"
  ao_harness :: "'h \<Rightarrow> 'c \<Rightarrow> ('w, 'v) harness"
  ao_render :: "'w render_os"

definition note_to :: "('w, 'v, 'fd, 'o, 'h, 'c) agent_os \<Rightarrow> string \<Rightarrow> ('w, agent_error, unit) io" where
  "note_to os line w = (Inr (), to_stderr (ao_stderr os) line w)"

definition agent_terminal ::
  "('w, 'v, 'fd, 'o, 'h, 'c) agent_os \<Rightarrow> agent_run \<Rightarrow> ('w, agent_error, ('w, 'v) operator option) io" where
  "agent_terminal os f =
     (case ar_approve f of
        ApproveRun \<Rightarrow> io_ret None
      | ApproveCall \<Rightarrow>
          io_bind (io_map_err NoTerminal (ao_terminal os)) (\<lambda>terminal.
          io_bind (note_to os (if asks_about_anything (ar_allow_tool f) then ASKED_LINE else INERT_LINE)) (\<lambda>_.
            io_ret (Some terminal))))"

definition agent_execute :: "('w, 'v, 'fd, 'o, 'h, 'c) agent_os \<Rightarrow> agent_run \<Rightarrow> ('w, agent_error, int) io" where
  "agent_execute os f =
     (let prompt = to_prompt f; lookup = fo_lookup (ao_flags os) in
      if blank prompt then io_fail EmptyPrompt
      else
        io_bind (agent_terminal os f) (\<lambda>terminal.
        io_bind (note_to os (approved_line (ar_allow_tool f))) (\<lambda>_.
        io_bind (io_map_err AeSession (session_open (ao_store os) (ao_parse os) (ao_ser os) lookup (session_choice_of f)))
          (\<lambda>(session, notices).
        io_bind (\<lambda>w. (Inr (), fold (ao_notice os) notices w)) (\<lambda>_.
        io_bind (io_map_err AePolicy (agent_policy (ao_flags os) f)) (\<lambda>policy.
        st_bind (system_prompt (fo_path (ao_flags os)) (ao_is_dir os) (ao_display os) policy (ar_allow_tool f) (ar_system f))
          (\<lambda>system.
        st_bind (ao_context os policy (map_option (\<lambda>s. id_text (se_id s)) session)) (\<lambda>ctx.
        io_bind (io_map_err Credential (api_key (ao_cred os) lookup)) (\<lambda>key.
        io_bind (io_of_sum (map_sum AeProvider id (ao_client os key))) (\<lambda>client.
          (\<lambda>w. case drive (ao_harness os client ctx) (ao_store os) (ao_ser os) f prompt system
                 \<lparr>cn_render = ao_render os, cn_err_device = er_device (ao_stderr os), cn_terminal = terminal\<rparr> session w of
               (code, _, w') \<Rightarrow> (code, w'))))))))))))"

text \<open>The names a derived policy lets through are the standard ones and those a flag named.\<close>

lemma env_kept:
  "sp_env (allow_dns n p) = sp_env p" "sp_env (allow_network_port port p) = sp_env p" "sp_env (allow_network p) = sp_env p"
  "sp_env (allow_unix_sockets p) = sp_env p" "sp_env (hint_dns_over_tcp p) = sp_env p" "sp_env (grant ax v p) = sp_env p"
  by (simp_all add: allow_dns_def allow_network_port_def allow_network_def allow_unix_sockets_def hint_dns_over_tcp_def)
    (cases ax; simp)

lemma env_network: "sp_env (network_flag ports p) = sp_env p"
  by (simp add: network_flag_def env_kept fold_keeps[of sp_env] del: fold.simps split: option.splits list.splits)

lemma env_granting: "sp_env (granting ax v p) = sp_env p"
  by (simp add: granting_def env_kept)

lemma env_allowed: "set (sp_env (fold allow_env ns p)) \<subseteq> set ns \<union> set (sp_env p)"
  by (induction ns arbitrary: p) (fastforce simp: allow_env_def split: if_splits)+

lemma env_vet_each: "sp_env (fst (vet_each os ps p w)) = sp_env p"
  by (induction os ps p w rule: vet_each.induct) (simp_all add: allow_read_execute_def split: prod.splits sum.splits)

lemma env_grant_flags: "grant_flags os owned gs (p, bound) w = (Inr (p', bound'), w') \<Longrightarrow> sp_env p' = sp_env p"
proof (induction gs arbitrary: p bound w)
  case (Cons g gs)
  obtain ax path where g: "g = (ax, path)" by (cases g)
  from Cons.prems g obtain p1 b1 w1 where step: "grant_flag os owned ax path (p, bound) w = (Inr (p1, b1), w1)"
    and rest: "grant_flags os owned gs (p1, b1) w1 = (Inr (p', bound'), w')"
    by (auto simp: io_bind_Inr)
  from grant_flag_Inr[OF step] have "sp_env p1 = sp_env p" by (metis env_granting)
  with Cons.IH[OF rest] show ?case by simp
qed simp

lemma flag_policy_env:
  assumes "flag_policy os f w = (Inr p, w')"
  shows "set (sp_env p) \<subseteq> set STANDARD_ENV_NAMES \<union> set (gf_env f)"
proof (rule flag_policy_Inr[OF assms])
  fix p0 w1 p1 w2 p2 bound
  assume system: "allow_system_executables (fo_path os) default_policy w = (p0, w1)"
    and root: "(if paths_given f then io_ret (allow_standard_env p0)
      else io_bind (current_root os (sp_executable (allow_standard_env p0)) (owned_paths (fo_lookup os)))
        (\<lambda>root. io_ret (allow_write root (allow_read root (allow_standard_env p0))))) w1 = (Inr p1, w2)"
    and grants: "grant_flags os (owned_paths (fo_lookup os))
       (map (Pair AxRead) (gf_read f) @ map (Pair AxWrite) (gf_write f) @ map (Pair AxReadExecute) (gf_exec f))
       (p1, None) w2 = (Inr (p2, bound), w')"
    and rest: "rest_of_policy f (p2, bound) = Inr p"
  have "sp_env p0 = []"
    using system env_vet_each[of "fo_path os" SYSTEM_EXECUTABLE_PATHS default_policy w]
    by (simp add: allow_system_executables_def default_policy_def)
  with env_allowed[of STANDARD_ENV_NAMES p0] have "set (sp_env (allow_standard_env p0)) \<subseteq> set STANDARD_ENV_NAMES"
    by (simp add: allow_standard_env_def)
  moreover have "sp_env p1 = sp_env (allow_standard_env p0)"
    using root by (auto simp: io_bind_Inr allow_write_def allow_read_def env_kept io_ret_def split: if_splits)
  moreover have "sp_env p2 = sp_env p1" by (rule env_grant_flags[OF grants])
  moreover have "set (sp_env p) \<subseteq> set (gf_env f) \<union> set (sp_env p2)"
    using rest env_allowed[of "gf_env f" p2]
    by (auto simp: rest_of_policy_def Let_def env_kept env_network fold_keeps[of sp_env] split: option.splits if_splits)
  ultimately show ?thesis by auto
qed

text \<open>
  C12. No command a tool of \<open>agent-run\<close> starts gets the key: a policy is derived only where no flag
  names the variable, permits no child to have it, and the environment a child is given lacks it, whatever
  the variable holds here.
\<close>

theorem agent_key_withheld:
  assumes "agent_policy os f w = (Inr p, w')"
  shows "\<not> permits_env p ENV_VAR \<and> spawn_env lookup p ENV_VAR = None"
proof -
  from assms have "\<not> names_env (ar_grants f) ENV_VAR" "flag_policy os (ar_grants f) w = (Inr p, w')"
    by (auto simp: agent_policy_def io_fail_def split: if_splits)
  then have "ENV_VAR \<notin> set (sp_env p)"
    using flag_policy_env[of os "ar_grants f" w p w']
    by (auto simp: names_env_def list_ex_iff STANDARD_ENV_NAMES_def ENV_VAR_def)
  moreover have "ENV_VAR \<notin> fst ` set (imposed_env p)"
    by (cases "sp_dns_over_tcp p") (simp_all add: imposed_env_def DNS_OVER_TCP_ENV_def ENV_VAR_def)
  ultimately have "\<not> permits_env p ENV_VAR" by (force simp: permits_env_def list_ex_iff)
  moreover from this child_environment[of lookup p ENV_VAR] have "ENV_VAR \<notin> dom (spawn_env lookup p)" by blast
  ultimately show ?thesis by (simp add: domIff)
qed


section \<open>A run to evaluate\<close>

text \<open>The world is the rounds the model has left to speak, what reached stdout, and the transcript.\<close>

type_synonym demo_world = "string agent_event list list \<times> string \<times> string"

definition demo_harness :: "(demo_world, string) harness" where
  "demo_harness = \<lparr>
     ha_open = (\<lambda>_ (rs, out, file). case rs of [] \<Rightarrow> (Inl StreamEndedUnexpectedly, ([], out, file))
       | s # ss \<Rightarrow> (Inr (map Inr s), (ss, out, file))),
     ha_execute = (\<lambda>_ v w. (Some (Inr (ToolOutput v)), w)), ha_timed_out = (\<lambda>w. (False, w)),
     ha_schema = (\<lambda>_. []), ha_duration = (\<lambda>_. []), ha_debug = (\<lambda>_. []), ha_json = demo_json,
     ha_stderr = \<lparr>er_device = SinkTerminal, er_write = (\<lambda>_ w. w)\<rparr>, ha_chain = (\<lambda>_. ([], []))\<rparr>"

definition demo_channels :: "(demo_world, string) channels" where
  "demo_channels = \<lparr>
     cn_render = \<lparr>rs_out = (\<lambda>s (rs, out, file). (Inr (), (rs, out @ s, file))), rs_err = (\<lambda>_ w. w)\<rparr>,
     cn_err_device = SinkTerminal, cn_terminal = None\<rparr>"

definition demo_store :: "(demo_world, nat) os" where
  "demo_store = \<lparr>
     os_mkdir_all = (\<lambda>_ _. io_ret ()), os_open = (\<lambda>_ _. io_ret 1), os_openat = (\<lambda>_ _ _ _. io_ret 1),
     os_fstat = (\<lambda>_. io_ret (0, 0)), os_fchmod = (\<lambda>_ _. io_ret ()), os_read_to_string = (\<lambda>_. io_ret []),
     os_write_all = (\<lambda>_ s (rs, out, file). (Inr (), (rs, out, file @ s))),
     os_elapsed = (\<lambda>w. (None, w)), os_euid = 0, os_uid = 0\<rparr>"

definition demo_run :: agent_run where
  "demo_run = \<lparr>ar_grants = no_flags, ar_model = ''m'', ar_max_tokens = 9, ar_max_rounds = 1,
     ar_no_wrap_up = False, ar_show_thinking = False, ar_system = None, ar_allow_tool = Some [],
     ar_approve = ApproveRun, ar_session = None, ar_prompt = [''hi'']\<rparr>"

definition demo_opened :: "(string, nat) session" where
  "demo_opened = \<lparr>se_id = SessionId ''1-a'', se_path = ''/s/1-a.jsonl'', se_file = 1, se_messages = [],
     se_accounting = default_accounting, se_shared_read = False\<rparr>"

definition demo_spoken :: "string agent_event list list" where
  "demo_spoken = [[EvText ''do'', EvText ''ne'', EvStop EndTurn]]"

definition demo_asked :: "nat \<Rightarrow> string turn" where
  "demo_asked timeout = \<lparr>tn_model = ''m'', tn_max_output_tokens = 9, tn_system = None, tn_tools = all_tools, tn_tool_choice = None,
     tn_thinking = None, tn_history = [asked_message ''hi''],
     tn_limits = \<lparr>lm_max_rounds = 1, lm_stream_timeout = timeout, lm_compaction = None\<rparr>,
     tn_observed = None, tn_withheld = 0\<rparr>"

definition demo_answered :: "string turn_outcome" where
  "demo_answered = \<lparr>ou_messages = [\<lparr>rm_role = Assistant, rm_content = [Text ''done'']\<rparr>], ou_usage = None,
     ou_withheld = 0, ou_stop = TsAnswered, ou_round_stop = Some EndTurn\<rparr>"

lemma demo_merged: "mr_history (drive_merged (Some demo_opened) ''hi'') = [asked_message ''hi'']
    \<and> mr_withheld (drive_merged (Some demo_opened) ''hi'') = 0"
  by code_simp

lemma demo_asked_turn: "drive_turn demo_run (Some demo_opened) ''hi'' None = demo_asked 300000"
  by (simp add: drive_turn_def demo_asked_def demo_run_def default_turn_limits_def demo_merged
      demo_opened_def[THEN arg_cong, of se_accounting] default_accounting_def)

definition demo_env :: "(demo_world \<times> render, string) turn_env" where
  "demo_env = \<lparr>
     te_open = (\<lambda>_. beside (\<lambda>(rs, out, file). case rs of [] \<Rightarrow> (Inl StreamEndedUnexpectedly, ([], out, file))
       | s # ss \<Rightarrow> (Inr (map Inr s), (ss, out, file)))),
     te_observe = render_event (cn_render demo_channels), te_approve = (\<lambda>_ _ _ w. (Allow, w)), te_settled = (\<lambda>_ w. w),
     te_execute = (\<lambda>_ v w. (Some (Inr (ToolOutput v)), w)), te_stop = (\<lambda>w. (False, w)),
     te_timed_out = (\<lambda>w. (False, w)), te_schema = (\<lambda>_. []), te_duration = (\<lambda>_. [])\<rparr>"

lemma demo_env_drive: "drive_env demo_harness demo_run demo_channels = demo_env"
proof -
  have "gate_approve \<lparr>ag_allowed = Some [], ag_terminal = None\<rparr> t v w = (Allow, w)" for t and v :: string and w :: demo_world
    by (simp add: gate_approve_def approves_def)
  then show ?thesis
    by (simp add: drive_env_def demo_env_def demo_harness_def gate_settled_def gate_of_def demo_channels_def demo_run_def
        to_stderr_def Let_def beside_def fun_eq_iff split: prod.splits)
qed

lemma demo_ran:
  "run_turn demo_env (demo_asked timeout) ((demo_spoken, [], []), render_new Hidden SinkTerminal)
     = (Inr demo_answered, (([], ''done'', []), (render_new Hidden SinkTerminal)\<lparr>rn_mid_line := True, rn_wrote := True\<rparr>))"
  by code_simp


definition demo_saved :: "(string, nat) session" where
  "demo_saved = demo_opened\<lparr>
     se_messages := [\<lparr>sm_role = StoredUser, sm_content = [StoredText ''hi'']\<rparr>, \<lparr>sm_role = StoredAssistant, sm_content = [StoredText ''done'']\<rparr>],
     se_accounting := \<lparr>ac_observed = None, ac_withheld = 0, ac_stop = Some Answered\<rparr>\<rparr>"

lemma demo_save:
  "save demo_store (\<lambda>_. ''r'') nt demo_opened (asked_message ''hi'') demo_answered Answered (drive_merged (Some demo_opened) ''hi'') (([], out, []), r :: render)
     = (Inr (), demo_saved, (([], out, record_lines (\<lambda>_. ''r'') (append_records (turn_to_store (asked_message ''hi'') demo_answered Answered
         (drive_merged (Some demo_opened) ''hi'')))), r))"
  by code_simp

lemma demo_driven:
  "\<exists>w. drive demo_harness demo_store (\<lambda>_. ''r'') demo_run ''hi'' None demo_channels (Some demo_opened) (demo_spoken, [], [])
      = (Inr 0, Some demo_saved, w)"
proof -
  let ?r = "(render_new Hidden SinkTerminal)\<lparr>rn_mid_line := True, rn_wrote := True\<rparr>"
  have turn: "turn_and_wrap_up demo_harness demo_run demo_channels (demo_asked 300000) ((demo_spoken, [], []), render_new Hidden SinkTerminal)
      = ((Inr demo_answered, None), (([], ''done'', []), ?r))"
    by (simp add: turn_and_wrap_up_def demo_env_drive demo_ran demo_answered_def)
  have fin: "render_finish (cn_render demo_channels) None Whole (([], ''done'', []), ?r) = (Inr 0, (([], ''done'' @ [nl], []), ?r))"
    by (simp add: render_finish_def demo_channels_def end_thinking_line_def render_write_def render_new_def Let_def)
  have "answer_of (ou_round_stop demo_answered) = Whole" "ou_stop demo_answered = TsAnswered"
    by (simp_all add: demo_answered_def answer_of_def)
  then show ?thesis
    by (simp add: drive_def demo_asked_turn turn fin demo_save stored_stop_of_def reasoning_of_def demo_run_def[THEN arg_cong, of ar_show_thinking]
        demo_channels_def[THEN arg_cong, of cn_err_device])
qed


theorem session_stays_sendable_witness:
  "length (se_messages demo_saved) = 2 \<and> api_accepts (tn_history (drive_turn demo_run (Some demo_saved) ''more'' None))"
proof -
  from demo_driven obtain w where
    driven: "drive demo_harness demo_store (\<lambda>_. ''r'') demo_run ''hi'' None demo_channels (Some demo_opened) (demo_spoken, [], [])
      = (Inr 0, Some demo_saved, w)" by blast
  have "sendable (session_history demo_opened)"
    by (simp add: session_history_def demo_opened_def sendable_def request_history_def)
  from session_stays_sendable[OF driven this, where f' = demo_run and prompt' = "''more''" and system' = None]
  show ?thesis by (simp add: demo_saved_def)
qed

theorem agent_key_withheld_witness: "\<not> permits_env demo_derived ENV_VAR"
proof -
  have "agent_policy demo_flags demo_run () = (Inr demo_derived, ())"
    using demo_flags_run by (simp add: agent_policy_def demo_run_def names_env_def no_flags_def)
  from agent_key_withheld[OF this] show ?thesis by blast
qed

end
